(* ===== verification/Aip_Prelude.thy ===== *)
theory Aip_Prelude
  imports Main "HOL-Library.AList" "HOL-Library.Multiset" "HOL-Library.Char_ord"
    "HOL-Library.List_Lexorder"
begin

text \<open>
  Shared vocabulary of the development: the types that stand for Go's built-in ones, Go
  maps with their unspecified iteration order, and reachability for the components that
  are state machines.

  \<^item> A Go \<open>string\<close> is a byte sequence, here \<^typ>\<open>string\<close>; byte-wise comparison is the
    lexicographic order of \<open>HOL-Library.List_Lexorder\<close> on top of \<open>Char_ord\<close>.
  \<^item> \<open>time.Time\<close> is the number of nanoseconds since Go's zero time, so \<open>IsZero\<close> is
    equality with 0 and \<open>Before\<close>/\<open>After\<close>/\<open>Add\<close> are order and addition;
    \<open>time.Duration\<close> is a number of nanoseconds.
  \<^item> A Go map is an association list with distinct keys. A \<open>range\<close> loop over it visits
    the entries in an order the language leaves open; a model of such a loop takes the
    order as a parameter, a function that permutes the entries, and its theorems hold for
    every such function.
  \<^item> A \<open>map[string]struct{}\<close> is a set; a nil map and an empty one are not told apart,
    because every reader of the modelled code treats them alike.
\<close>

section \<open>Types of the language\<close>

type_synonym gotime = int
type_synonym duration = int
type_synonym ('k, 'v) gomap = "('k \<times> 'v) list"

definition MaxInt64 :: int where
  "MaxInt64 = 2 ^ 63 - 1"

text \<open>Go's signed 64-bit arithmetic wraps around.\<close>

definition wrap64 :: "int \<Rightarrow> int" where
  "wrap64 x = (x + 2 ^ 63) mod 2 ^ 64 - 2 ^ 63"

definition Second :: duration where
  "Second = 1000000000"

definition Minute :: duration where
  "Minute = 60 * Second"

lemma MaxInt64_eq [simp]: "MaxInt64 = 9223372036854775807"
  by (simp add: MaxInt64_def)

lemma wrap64_id: "- (2 ^ 63) \<le> x \<Longrightarrow> x \<le> MaxInt64 \<Longrightarrow> wrap64 x = x"
  by (simp add: wrap64_def)

lemma wrap64_bounds: "- (2 ^ 63) \<le> wrap64 x \<and> wrap64 x \<le> MaxInt64"
  using pos_mod_bound [of "2 ^ 64" "x + 2 ^ 63"] by (simp add: wrap64_def)

named_theorems aip_defs \<open>definitions that component proofs unfold\<close>
named_theorems aip_frame \<open>what an operation leaves unchanged\<close>

section \<open>Go maps\<close>

definition wf_gomap :: "('k, 'v) gomap \<Rightarrow> bool" where
  "wf_gomap m \<longleftrightarrow> distinct (map fst m)"

text \<open>An admissible \<open>range\<close> order visits every entry exactly once.\<close>

definition range_order :: "(('k, 'v) gomap \<Rightarrow> ('k, 'v) gomap) \<Rightarrow> bool" where
  "range_order it \<longleftrightarrow> (\<forall>m. mset (it m) = mset m)"

lemma range_order_id [simp, intro]: "range_order (\<lambda>m. m)"
  by (simp add: range_order_def)

lemma range_order_rev [simp, intro]: "range_order rev"
  by (simp add: range_order_def)

lemma range_order_set: "range_order it \<Longrightarrow> set (it m) = set m"
  unfolding range_order_def by (metis mset_eq_setD)

lemma wf_gomap_Nil [simp, intro]: "wf_gomap []"
  by (simp add: wf_gomap_def)

lemma wf_gomap_update [simp, intro]: "wf_gomap m \<Longrightarrow> wf_gomap (AList.update k v m)"
  by (simp add: wf_gomap_def distinct_update)

lemma wf_gomap_delete [simp, intro]: "wf_gomap m \<Longrightarrow> wf_gomap (AList.delete k m)"
  by (simp add: wf_gomap_def distinct_delete)

lemma wf_gomap_map_snd [simp]: "wf_gomap (map (\<lambda>(k, v). (k, f k v)) m) = wf_gomap m"
proof -
  have "map fst (map (\<lambda>(k, v). (k, f k v)) m) = map fst m" by (induction m) auto
  then show ?thesis by (simp only: wf_gomap_def)
qed

lemma gomap_update_lookup [simp]:
  "map_of (AList.update k v m) k' = (if k' = k then Some v else map_of m k')"
  by (simp add: update_conv')

lemma gomap_delete_lookup [simp]:
  "map_of (AList.delete k m) k' = (if k' = k then None else map_of m k')"
  by (simp add: delete_conv')

lemma gomap_delete_le: "map_of (AList.delete k m) \<subseteq>\<^sub>m map_of m"
  by (auto simp: map_le_def dom_def)

lemma map_of_map_snd: "map_of (map (\<lambda>(k, v). (k, f k v)) m) k = map_option (f k) (map_of m k)"
  by (induction m) auto

lemma wf_map_of_iff: "wf_gomap m \<Longrightarrow> map_of m k = Some v \<longleftrightarrow> (k, v) \<in> set m"
  by (simp add: wf_gomap_def)

lemma set_update_subset: "set (AList.update k v m) \<subseteq> insert (k, v) (set m)"
  by (induction m) auto

lemma length_update_fresh: "map_of m k = None \<Longrightarrow> length (AList.update k v m) = Suc (length m)"
  by (induction m) (auto split: if_splits)

lemma length_update_old: "map_of m k \<noteq> None \<Longrightarrow> length (AList.update k v m) = length m"
  by (induction m) auto

lemma gomap_length_delete_le: "length (AList.delete k m) \<le> length m"
  by (simp add: AList.delete_eq)

lemma length_delete_present:
  "wf_gomap m \<Longrightarrow> map_of m k \<noteq> None \<Longrightarrow> Suc (length (AList.delete k m)) = length m"
proof (induction m)
  case Nil
  then show ?case by simp
next
  case (Cons p m)
  obtain a b where p: "p = (a, b)" by (cases p)
  show ?case
  proof (cases "a = k")
    case True
    with Cons.prems(1) have "k \<notin> fst ` set m" by (simp add: p wf_gomap_def)
    then have "AList.delete k m = m" by (simp add: AList.delete_idem)
    with True show ?thesis by (simp add: p)
  next
    case False
    with Cons.prems have "wf_gomap m" and "map_of m k \<noteq> None"
      by (auto simp: p wf_gomap_def)
    then have "Suc (length (AList.delete k m)) = length m" by (rule Cons.IH)
    with False show ?thesis by (simp add: p)
  qed
qed

lemma length_wf_card: "wf_gomap m \<Longrightarrow> length m = card (fst ` set m)"
  unfolding wf_gomap_def by (metis distinct_card length_map list.set_map)

lemma map_of_None_keys: "map_of m k = None \<longleftrightarrow> k \<notin> fst ` set m"
  by (rule map_of_eq_None_iff)

section \<open>Reachable states\<close>

text \<open>
  Components with hidden state are step relations over their state; a property of every
  reachable state follows from the locale below, whose two laws are discharged by the
  component's own step lemmas.
\<close>

inductive reach :: "('s \<Rightarrow> bool) \<Rightarrow> ('s \<Rightarrow> 's \<Rightarrow> bool) \<Rightarrow> 's \<Rightarrow> bool"
  for init :: "'s \<Rightarrow> bool" and step :: "'s \<Rightarrow> 's \<Rightarrow> bool" where
  reach_init: "init s \<Longrightarrow> reach init step s"
| reach_step: "reach init step s \<Longrightarrow> step s t \<Longrightarrow> reach init step t"

lemma reach_rtranclp: "step\<^sup>*\<^sup>* s t \<Longrightarrow> reach init step s \<Longrightarrow> reach init step t"
  by (induction rule: rtranclp_induct) (auto intro: reach_step)

locale step_invariant =
  fixes init :: "'s \<Rightarrow> bool" and step :: "'s \<Rightarrow> 's \<Rightarrow> bool" and inv :: "'s \<Rightarrow> bool"
  assumes inv_init: "init s \<Longrightarrow> inv s"
    and inv_step: "inv s \<Longrightarrow> step s t \<Longrightarrow> inv t"
begin

lemma reach_inv: "reach init step s \<Longrightarrow> inv s"
  by (induction rule: reach.induct) (auto intro: inv_init inv_step)

lemma inv_rtranclp: "step\<^sup>*\<^sup>* s t \<Longrightarrow> inv s \<Longrightarrow> inv t"
  by (induction rule: rtranclp_induct) (auto intro: inv_step)

end

section \<open>Lists\<close>

lemma nth_upd: "a < length xs \<Longrightarrow> xs[b := v] ! a = (if b = a then v else xs ! a)"
  by simp

lemma int_sum_list: "sum_list (map (\<lambda>x. int (f x)) xs) = int (sum_list (map f xs))"
  by (induction xs) simp_all

lemma card_le_Suc_insert:
  assumes "A \<subseteq> insert x B" "finite B"
  shows "card A \<le> Suc (card B)"
proof -
  have "card A \<le> card (insert x B)" using assms by (intro card_mono) auto
  also have "\<dots> \<le> Suc (card B)" using assms(2) by (simp add: card_insert_if)
  finally show ?thesis .
qed

lemma find_Some_set: "find P xs = Some x \<Longrightarrow> x \<in> set xs \<and> P x"
  by (auto simp: find_Some_iff)

lemma find_None_set: "find P xs = None \<longleftrightarrow> (\<forall>x \<in> set xs. \<not> P x)"
  by (auto simp: find_None_iff)

section \<open>Results\<close>

text \<open>
  A Go function that returns a value or an error is a sum: \<open>Inl\<close> the error, \<open>Inr\<close> the
  value. \<open>mapR\<close> and \<open>foldR\<close> are loops that return at the first error.
\<close>

fun mapR :: "('a \<Rightarrow> 'e + 'b) \<Rightarrow> 'a list \<Rightarrow> 'e + 'b list" where
  "mapR f [] = Inr []"
| "mapR f (x # xs) =
     (case f x of Inl e \<Rightarrow> Inl e
      | Inr y \<Rightarrow> (case mapR f xs of Inl e \<Rightarrow> Inl e | Inr ys \<Rightarrow> Inr (y # ys)))"

fun foldR :: "('s \<Rightarrow> 'a \<Rightarrow> 'e + 's) \<Rightarrow> 's \<Rightarrow> 'a list \<Rightarrow> 'e + 's" where
  "foldR f s [] = Inr s"
| "foldR f s (x # xs) = (case f s x of Inl e \<Rightarrow> Inl e | Inr s' \<Rightarrow> foldR f s' xs)"

lemma mapR_Inr_length: "mapR f xs = Inr ys \<Longrightarrow> length ys = length xs"
  by (induction xs arbitrary: ys) (auto split: sum.splits)

lemma mapR_Inr_all: "mapR f xs = Inr ys \<Longrightarrow> y \<in> set ys \<Longrightarrow> \<exists>x \<in> set xs. f x = Inr y"
  by (induction xs arbitrary: ys) (auto split: sum.splits)

lemma foldR_inv:
  "foldR f s xs = Inr t \<Longrightarrow> P s \<Longrightarrow> (\<And>s x s'. P s \<Longrightarrow> f s x = Inr s' \<Longrightarrow> P s') \<Longrightarrow> P t"
  by (induction xs arbitrary: s) (auto split: sum.splits)

end
