(* ===== verification/Aip_Api.thy ===== *)
theory Aip_Api
  imports Aip_Prelude
begin

text \<open>
  Shared contract types of \<open>pkg/aipapi\<close>: the attempt outcome and attempt record of
  \<open>lineage.go\<close> and the selector size bound. A string enumeration keeps a constructor for
  every other string.
\<close>

datatype AttemptOutcome =
  AttemptSuccess | AttemptSwallowedFailure | AttemptSurfacedFailure | AttemptCancelled
| AttemptOther string

record AttemptRecord =
  arBLegID :: string
  arALegID :: string
  arSeq :: int
  arBackendID :: string
  arEffectiveModel :: string
  arStartedAt :: gotime
  arFinishedAt :: gotime
  arOutcome :: AttemptOutcome
  arReason :: string

definition MaxRouteSelectorBytes :: nat where
  "MaxRouteSelectorBytes = 64 * 1024"

end
