(* ===== verification/Circuit_Breaker.thy ===== *)
theory Circuit_Breaker
  imports Aip_Api
begin

text \<open>
  Candidate health: \<open>internal/core/policy/circuitbreaker.go\<close> (one breaker per process)
  and \<open>circuitbreaker_state.go\<close> (one observation store shared by the policy views of
  overlapping configuration generations). Both count consecutive failures per routing
  candidate key, block a key for \<open>openFor\<close> once its streak reaches \<open>threshold\<close>, and
  keep at most \<open>maxKeys\<close> keys.

  The clock is an argument of each operation. A nil \<open>*cbState\<close> is never stored in the map,
  so an entry of the association list is a live \<open>cbState\<close>. The eviction loop is a
  \<open>partial_function\<close>: its termination is a theorem. The \<open>range\<close> order of the map is the
  parameter \<open>it\<close>.
\<close>

section \<open>Data\<close>

record cbState =
  consecutiveFailures :: int
  blockedUntil :: gotime

definition zero_cbState :: cbState where
  "zero_cbState = \<lparr>consecutiveFailures = 0, blockedUntil = 0\<rparr>"

type_synonym cb_keys = "(string, cbState) gomap"
type_synonym cb_range = "cb_keys \<Rightarrow> cb_keys"

record CircuitBreakerOptions =
  optFailureThreshold :: int
  optOpenDuration :: duration
  optMaxTrackedKeys :: int

record CircuitBreaker =
  threshold :: int
  openFor :: duration
  maxKeys :: int
  keys :: cb_keys

definition DefaultFailureThreshold :: int where
  "DefaultFailureThreshold = 5"

definition DefaultOpenDuration :: duration where
  "DefaultOpenDuration = 30 * Second"

definition defaultMaxTrackedCircuitKeys :: int where
  "defaultMaxTrackedCircuitKeys = 10000"

definition NewCircuitBreaker :: "CircuitBreakerOptions \<Rightarrow> CircuitBreaker" where
  "NewCircuitBreaker opts =
     (let th = optFailureThreshold opts;
          th = (if th < 1 then DefaultFailureThreshold else th);
          d = optOpenDuration opts;
          d = (if d \<le> 0 then DefaultOpenDuration else d);
          mk = optMaxTrackedKeys opts;
          mk = (if mk = 0 then defaultMaxTrackedCircuitKeys else mk)
      in \<lparr>threshold = th, openFor = d, maxKeys = mk, keys = []\<rparr>)"

section \<open>Eviction\<close>

definition idle :: "cbState \<Rightarrow> bool" where
  "idle st \<longleftrightarrow> consecutiveFailures st = 0 \<and> blockedUntil st = 0"

definition evictOneIdleLocked :: "cb_range \<Rightarrow> cb_keys \<Rightarrow> bool \<times> cb_keys" where
  "evictOneIdleLocked it ks =
     (case find (\<lambda>(k, st). idle st) (it ks) of
        Some (k, st) \<Rightarrow> (True, AList.delete k ks)
      | None \<Rightarrow> (False, ks))"

text \<open>One iteration of the victim search; \<open>''''\<close> is Go's "no victim yet".\<close>

definition pick_victim :: "cb_keys \<Rightarrow> string \<Rightarrow> string \<times> cbState \<Rightarrow> string" where
  "pick_victim ks victim p = (case p of (k, st) \<Rightarrow>
     if victim = '''' then k
     else case map_of ks victim of
            None \<Rightarrow> victim
          | Some vSt \<Rightarrow>
              if consecutiveFailures st < consecutiveFailures vSt
                 \<or> (consecutiveFailures st = consecutiveFailures vSt \<and> k < victim)
              then k else victim)"

definition evictLowestPressureLocked :: "cb_range \<Rightarrow> cb_keys \<Rightarrow> cb_keys" where
  "evictLowestPressureLocked it ks =
     (let victim = foldl (pick_victim ks) '''' (it ks)
      in if victim \<noteq> '''' then AList.delete victim ks else ks)"

definition effectiveLimit :: "int \<Rightarrow> int" where
  "effectiveLimit mk = (if mk \<le> 0 then defaultMaxTrackedCircuitKeys else mk)"

partial_function (option) ensureRoomLoop ::
  "cb_range \<Rightarrow> int \<Rightarrow> string \<Rightarrow> cb_keys \<Rightarrow> cb_keys option" where
  "ensureRoomLoop it limit key ks =
     (if map_of ks key = None \<and> int (length ks) \<ge> limit
      then ensureRoomLoop it limit key
             (case evictOneIdleLocked it ks of
                (evicted, ks') \<Rightarrow> if evicted then ks' else evictLowestPressureLocked it ks)
      else Some ks)"

definition ensureRoomForNewKeyLocked :: "cb_range \<Rightarrow> int \<Rightarrow> string \<Rightarrow> cb_keys \<Rightarrow> cb_keys option" where
  "ensureRoomForNewKeyLocked it mk key ks = ensureRoomLoop it (effectiveLimit mk) key ks"

section \<open>The breaker\<close>

definition cb_recordSuccess :: "string \<Rightarrow> cb_keys \<Rightarrow> cb_keys" where
  "cb_recordSuccess key ks =
     (case map_of ks key of
        None \<Rightarrow> ks
      | Some st \<Rightarrow> AList.update key (st\<lparr>consecutiveFailures := 0, blockedUntil := 0\<rparr>) ks)"

definition bump :: "int \<Rightarrow> duration \<Rightarrow> gotime \<Rightarrow> cbState \<Rightarrow> cbState" where
  "bump th d now st =
     (let st = st\<lparr>consecutiveFailures := consecutiveFailures st + 1\<rparr>
      in if consecutiveFailures st \<ge> th then st\<lparr>blockedUntil := now + d\<rparr> else st)"

definition lookup_key :: "string \<Rightarrow> cb_keys \<Rightarrow> cbState" where
  "lookup_key k ks = (case map_of ks k of None \<Rightarrow> zero_cbState | Some st \<Rightarrow> st)"

definition cb_recordFailure ::
  "cb_range \<Rightarrow> int \<Rightarrow> int \<Rightarrow> duration \<Rightarrow> gotime \<Rightarrow> string \<Rightarrow> cb_keys \<Rightarrow> cb_keys option" where
  "cb_recordFailure it mk th d now key ks =
     (case (if map_of ks key = None
            then map_option (AList.update key zero_cbState) (ensureRoomForNewKeyLocked it mk key ks)
            else Some ks) of
        None \<Rightarrow> None
      | Some ks' \<Rightarrow> Some (AList.update key (bump th d now (lookup_key key ks')) ks'))"

definition OnRoutingAttemptOutcome ::
  "cb_range \<Rightarrow> gotime \<Rightarrow> string \<Rightarrow> AttemptOutcome \<Rightarrow> CircuitBreaker \<Rightarrow> CircuitBreaker option" where
  "OnRoutingAttemptOutcome it now candidateKey outcome cb =
     (if candidateKey = '''' then Some cb
      else case outcome of
        AttemptSuccess \<Rightarrow> Some (cb\<lparr>keys := cb_recordSuccess candidateKey (keys cb)\<rparr>)
      | AttemptSurfacedFailure \<Rightarrow>
          map_option (\<lambda>ks. cb\<lparr>keys := ks\<rparr>)
            (cb_recordFailure it (maxKeys cb) (threshold cb) (openFor cb) now candidateKey (keys cb))
      | AttemptSwallowedFailure \<Rightarrow>
          map_option (\<lambda>ks. cb\<lparr>keys := ks\<rparr>)
            (cb_recordFailure it (maxKeys cb) (threshold cb) (openFor cb) now candidateKey (keys cb))
      | _ \<Rightarrow> Some cb)"

definition refresh :: "gotime \<Rightarrow> cbState \<Rightarrow> cbState" where
  "refresh now st =
     (if now < blockedUntil st then st
      else if blockedUntil st \<noteq> 0 then st\<lparr>consecutiveFailures := 0, blockedUntil := 0\<rparr>
      else st)"

definition UnhealthyCandidateKeys :: "gotime \<Rightarrow> CircuitBreaker \<Rightarrow> string set \<times> CircuitBreaker" where
  "UnhealthyCandidateKeys now cb =
     (set (map fst (filter (\<lambda>(k, st). now < blockedUntil st) (keys cb))),
      cb\<lparr>keys := map (\<lambda>(k, st). (k, refresh now st)) (keys cb)\<rparr>)"

section \<open>The shared observation store and its policy views\<close>

record CircuitBreakerState =
  s_keys :: cb_keys
  s_maxKeys :: int

definition NewCircuitBreakerState :: "int \<Rightarrow> CircuitBreakerState" where
  "NewCircuitBreakerState maxTracked =
     (let mk = (if maxTracked \<le> 0 then defaultMaxTrackedCircuitKeys else maxTracked)
      in \<lparr>s_keys = [], s_maxKeys = mk\<rparr>)"

definition state_recordSuccess :: "string \<Rightarrow> CircuitBreakerState \<Rightarrow> CircuitBreakerState" where
  "state_recordSuccess key s =
     (case map_of (s_keys s) key of
        None \<Rightarrow> s
      | Some st \<Rightarrow> s\<lparr>s_keys :=
          AList.update key (st\<lparr>consecutiveFailures := 0, blockedUntil := 0\<rparr>) (s_keys s)\<rparr>)"

definition state_ensureRoomForNewKeyLocked ::
  "cb_range \<Rightarrow> string \<Rightarrow> CircuitBreakerState \<Rightarrow> CircuitBreakerState option" where
  "state_ensureRoomForNewKeyLocked it key s =
     map_option (\<lambda>ks. s\<lparr>s_keys := ks\<rparr>)
       (ensureRoomLoop it (if s_maxKeys s \<le> 0 then defaultMaxTrackedCircuitKeys else s_maxKeys s)
          key (s_keys s))"

definition state_recordFailure ::
  "cb_range \<Rightarrow> string \<Rightarrow> int \<Rightarrow> duration \<Rightarrow> gotime \<Rightarrow> CircuitBreakerState
   \<Rightarrow> CircuitBreakerState option" where
  "state_recordFailure it key th d now s =
     (case (if map_of (s_keys s) key = None
            then map_option (\<lambda>s. s\<lparr>s_keys := AList.update key zero_cbState (s_keys s)\<rparr>)
                   (state_ensureRoomForNewKeyLocked it key s)
            else Some s) of
        None \<Rightarrow> None
      | Some s' \<Rightarrow> Some (s'\<lparr>s_keys :=
          AList.update key (bump th d now (lookup_key key (s_keys s'))) (s_keys s')\<rparr>))"

definition state_unhealthy :: "gotime \<Rightarrow> int \<Rightarrow> cbState \<Rightarrow> bool" where
  "state_unhealthy now th st \<longleftrightarrow>
     now < blockedUntil st \<or> (th > 0 \<and> consecutiveFailures st \<ge> th)"

definition state_refresh :: "gotime \<Rightarrow> int \<Rightarrow> cbState \<Rightarrow> cbState" where
  "state_refresh now th st =
     (if now < blockedUntil st then st
      else if th > 0 \<and> consecutiveFailures st \<ge> th then st
      else if blockedUntil st \<noteq> 0 then st\<lparr>consecutiveFailures := 0, blockedUntil := 0\<rparr>
      else st)"

definition unhealthyKeys ::
  "gotime \<Rightarrow> int \<Rightarrow> CircuitBreakerState \<Rightarrow> string set \<times> CircuitBreakerState" where
  "unhealthyKeys now th s =
     (set (map fst (filter (\<lambda>(k, st). state_unhealthy now th st) (s_keys s))),
      s\<lparr>s_keys := map (\<lambda>(k, st). (k, state_refresh now th st)) (s_keys s)\<rparr>)"

record CircuitBreakerPolicy =
  p_threshold :: int
  p_openFor :: duration

definition NewCircuitBreakerPolicy :: "CircuitBreakerOptions \<Rightarrow> CircuitBreakerPolicy" where
  "NewCircuitBreakerPolicy opts =
     (let th = (if optFailureThreshold opts < 1 then DefaultFailureThreshold
                else optFailureThreshold opts);
          d = (if optOpenDuration opts \<le> 0 then DefaultOpenDuration else optOpenDuration opts)
      in \<lparr>p_threshold = th, p_openFor = d\<rparr>)"

definition policy_OnRoutingAttemptOutcome ::
  "cb_range \<Rightarrow> gotime \<Rightarrow> string \<Rightarrow> AttemptOutcome \<Rightarrow> CircuitBreakerPolicy
   \<Rightarrow> CircuitBreakerState \<Rightarrow> CircuitBreakerState option" where
  "policy_OnRoutingAttemptOutcome it now candidateKey outcome p s =
     (if candidateKey = '''' then Some s
      else case outcome of
        AttemptSuccess \<Rightarrow> Some (state_recordSuccess candidateKey s)
      | AttemptSurfacedFailure \<Rightarrow>
          state_recordFailure it candidateKey (p_threshold p) (p_openFor p) now s
      | AttemptSwallowedFailure \<Rightarrow>
          state_recordFailure it candidateKey (p_threshold p) (p_openFor p) now s
      | _ \<Rightarrow> Some s)"

definition policy_UnhealthyCandidateKeys ::
  "gotime \<Rightarrow> CircuitBreakerPolicy \<Rightarrow> CircuitBreakerState \<Rightarrow> string set \<times> CircuitBreakerState" where
  "policy_UnhealthyCandidateKeys now p s = unhealthyKeys now (p_threshold p) s"

section \<open>Eviction keeps the map a map and picks the right victim\<close>

definition keys_wf :: "cb_keys \<Rightarrow> bool" where
  "keys_wf ks \<longleftrightarrow> wf_gomap ks \<and> '''' \<notin> fst ` set ks"

text \<open>\<open>pressure_le\<close> is the order in which the eviction ranks the tracked keys.\<close>

definition pressure_le :: "string \<times> cbState \<Rightarrow> string \<times> cbState \<Rightarrow> bool" where
  "pressure_le p q \<longleftrightarrow>
     consecutiveFailures (snd p) < consecutiveFailures (snd q)
     \<or> (consecutiveFailures (snd p) = consecutiveFailures (snd q) \<and> fst p \<le> fst q)"

lemma pressure_le_refl [simp]: "pressure_le p p"
  by (simp add: pressure_le_def)

lemma pressure_le_trans: "pressure_le p q \<Longrightarrow> pressure_le q r \<Longrightarrow> pressure_le p r"
  by (auto simp: pressure_le_def)

lemma delete_keys_subset: "fst ` set (AList.delete k m) \<subseteq> fst ` set m"
  by (auto simp: AList.delete_eq)

lemma keys_wf_delete [simp]: "keys_wf ks \<Longrightarrow> keys_wf (AList.delete k ks)"
  using delete_keys_subset [of k ks] by (auto simp: keys_wf_def)

lemma keys_wf_update [simp]: "keys_wf ks \<Longrightarrow> k \<noteq> '''' \<Longrightarrow> keys_wf (AList.update k st ks)"
  by (auto simp: keys_wf_def dom_update)

lemma keys_wf_mapped [simp]: "keys_wf (map (\<lambda>(k, st). (k, f k st)) ks) = keys_wf ks"
proof -
  have "fst ` set (map (\<lambda>(k, st). (k, f k st)) ks) = fst ` set ks" by force
  then show ?thesis by (simp only: keys_wf_def wf_gomap_map_snd)
qed

lemma evictOneIdle_True:
  assumes "range_order it" "keys_wf ks" "evictOneIdleLocked it ks = (True, ks')"
  shows "\<exists>k st. map_of ks k = Some st \<and> idle st \<and> ks' = AList.delete k ks"
proof -
  obtain k st where f: "find (\<lambda>(k, st). idle st) (it ks) = Some (k, st)"
    and ks': "ks' = AList.delete k ks"
    using assms(3) by (auto simp: evictOneIdleLocked_def split: option.splits)
  from find_Some_set [OF f] have "(k, st) \<in> set ks" "idle st"
    using range_order_set [OF assms(1)] by auto
  with assms(2) ks' show ?thesis by (auto simp: keys_wf_def wf_map_of_iff)
qed

lemma evictOneIdle_False:
  assumes "range_order it" "evictOneIdleLocked it ks = (False, ks')"
  shows "ks' = ks \<and> (\<forall>(k, st) \<in> set ks. \<not> idle st)"
  using assms range_order_set [OF assms(1), of ks]
  by (auto simp: evictOneIdleLocked_def find_None_set split: option.splits)

text \<open>The victim search computes a minimum over the entries seen so far.\<close>

lemma pick_victim_min:
  assumes "keys_wf ks" "xs \<noteq> []" "set xs \<subseteq> set ks"
  shows "\<exists>v st. foldl (pick_victim ks) '''' xs = v \<and> (v, st) \<in> set xs
           \<and> (\<forall>p \<in> set xs. pressure_le (v, st) p)"
  using assms(2,3)
proof (induction xs rule: rev_induct)
  case Nil
  then show ?case by simp
next
  case (snoc p xs)
  obtain k st where p: "p = (k, st)" by (cases p)
  show ?case
  proof (cases "xs = []")
    case True
    then show ?thesis by (simp add: p pick_victim_def)
  next
    case False
    with snoc obtain v vst where v: "foldl (pick_victim ks) '''' xs = v" "(v, vst) \<in> set xs"
      and min: "\<forall>q \<in> set xs. pressure_le (v, vst) q" by auto
    from v(2) snoc.prems(2) have "(v, vst) \<in> set ks" by auto
    with assms(1) have mo: "map_of ks v = Some vst" and ne: "v \<noteq> ''''"
      by (force simp: keys_wf_def wf_map_of_iff)+
    show ?thesis
    proof (cases "consecutiveFailures st < consecutiveFailures vst
                 \<or> (consecutiveFailures st = consecutiveFailures vst \<and> k < v)")
      case True
      then have le: "pressure_le (k, st) (v, vst)" by (auto simp: pressure_le_def)
      have "foldl (pick_victim ks) '''' (xs @ [p]) = k"
        using True ne mo by (simp add: p v pick_victim_def)
      moreover have "\<forall>q \<in> set (xs @ [p]). pressure_le (k, st) q"
        using min le by (auto simp: p intro: pressure_le_trans)
      ultimately show ?thesis using p by auto
    next
      case False
      then have le: "pressure_le (v, vst) (k, st)" by (auto simp: pressure_le_def)
      have "foldl (pick_victim ks) '''' (xs @ [p]) = v"
        using False ne mo by (auto simp: p v pick_victim_def)
      with v(2) min le show ?thesis by (auto simp: p)
    qed
  qed
qed

lemma evictLowest_victim:
  assumes "range_order it" "keys_wf ks" "ks \<noteq> []"
  shows "\<exists>v st. map_of ks v = Some st \<and> (\<forall>p \<in> set ks. pressure_le (v, st) p)
           \<and> evictLowestPressureLocked it ks = AList.delete v ks"
proof -
  have "set (it ks) = set ks" by (rule range_order_set [OF assms(1)])
  moreover from this assms(3) have "it ks \<noteq> []" by auto
  ultimately obtain v st where v: "foldl (pick_victim ks) '''' (it ks) = v" "(v, st) \<in> set ks"
      "\<forall>p \<in> set ks. pressure_le (v, st) p"
    using pick_victim_min [OF assms(2), of "it ks"] by auto
  moreover from v(2) assms(2) have "v \<noteq> ''''" "map_of ks v = Some st"
    by (force simp: keys_wf_def wf_map_of_iff)+
  ultimately show ?thesis by (auto simp: evictLowestPressureLocked_def Let_def)
qed

text \<open>One round of the eviction loop removes exactly one tracked key.\<close>

lemma evict_round:
  assumes "range_order it" "keys_wf ks" "ks \<noteq> []"
  defines "ks' \<equiv> (case evictOneIdleLocked it ks of
             (evicted, ks1) \<Rightarrow> if evicted then ks1 else evictLowestPressureLocked it ks)"
  shows "\<exists>v st. map_of ks v = Some st \<and> ks' = AList.delete v ks
           \<and> (idle st \<or> (\<forall>(k, st') \<in> set ks. \<not> idle st' \<and> pressure_le (v, st) (k, st')))"
proof (cases "evictOneIdleLocked it ks")
  case (Pair ok ks1)
  show ?thesis
  proof (cases ok)
    case True
    with Pair evictOneIdle_True [OF assms(1,2)] show ?thesis
      unfolding ks'_def by auto
  next
    case False
    with Pair evictOneIdle_False [OF assms(1)] have "\<forall>(k, st) \<in> set ks. \<not> idle st" by auto
    with False Pair evictLowest_victim [OF assms(1-3)] show ?thesis
      unfolding ks'_def by fastforce
  qed
qed

lemma effectiveLimit_pos: "1 \<le> effectiveLimit mk"
  by (simp add: effectiveLimit_def defaultMaxTrackedCircuitKeys_def)

lemma ensureRoomLoop_returns:
  assumes it: "range_order it" and "keys_wf ks" "1 \<le> limit"
  shows "\<exists>ks'. ensureRoomLoop it limit key ks = Some ks' \<and> keys_wf ks'
           \<and> (map_of ks key = None \<longrightarrow> map_of ks' key = None \<and> int (length ks') < limit)
           \<and> map_of ks' \<subseteq>\<^sub>m map_of ks"
  using assms(2)
proof (induction "length ks" arbitrary: ks rule: less_induct)
  case less
  show ?case
  proof (cases "map_of ks key = None \<and> int (length ks) \<ge> limit")
    case False
    then show ?thesis using less.prems
      by (subst ensureRoomLoop.simps) auto
  next
    case True
    with assms(3) have "ks \<noteq> []" by auto
    then obtain v st where v: "map_of ks v = Some st"
      and step: "(case evictOneIdleLocked it ks of
             (evicted, ks1) \<Rightarrow> if evicted then ks1 else evictLowestPressureLocked it ks)
           = AList.delete v ks"
      using evict_round [OF it less.prems] by blast
    have "Suc (length (AList.delete v ks)) = length ks"
      using less.prems v by (intro length_delete_present) (auto simp: keys_wf_def)
    then obtain ks' where ks': "ensureRoomLoop it limit key (AList.delete v ks) = Some ks'"
        "keys_wf ks'" "map_of (AList.delete v ks) key = None \<longrightarrow>
           map_of ks' key = None \<and> int (length ks') < limit"
        "map_of ks' \<subseteq>\<^sub>m map_of (AList.delete v ks)"
      using less.hyps [of "AList.delete v ks"] less.prems by auto
    have "ensureRoomLoop it limit key ks = Some ks'"
      using True ks'(1) by (subst ensureRoomLoop.simps) (simp add: step)
    moreover have "map_of ks' \<subseteq>\<^sub>m map_of ks"
      using ks'(4) gomap_delete_le by (rule map_le_trans)
    ultimately show ?thesis using ks'(2,3) True by auto
  qed
qed

lemma ensureRoom_noop:
  "int (length ks) < effectiveLimit mk \<Longrightarrow> ensureRoomForNewKeyLocked it mk key ks = Some ks"
  by (simp add: ensureRoomForNewKeyLocked_def ensureRoomLoop.simps)

section \<open>Operations keep the invariant\<close>

definition nonneg_streaks :: "cb_keys \<Rightarrow> bool" where
  "nonneg_streaks ks \<longleftrightarrow> (\<forall>(k, st) \<in> set ks. 0 \<le> consecutiveFailures st)"

definition keys_inv :: "int \<Rightarrow> cb_keys \<Rightarrow> bool" where
  "keys_inv mk ks \<longleftrightarrow> keys_wf ks \<and> int (length ks) \<le> effectiveLimit mk \<and> nonneg_streaks ks"

lemma nonneg_lookup: "nonneg_streaks ks \<Longrightarrow> 0 \<le> consecutiveFailures (lookup_key k ks)"
  by (auto simp: nonneg_streaks_def lookup_key_def zero_cbState_def dest: map_of_SomeD
      split: option.splits)

lemma nonneg_bump: "0 \<le> consecutiveFailures st \<Longrightarrow> 0 \<le> consecutiveFailures (bump th d t st)"
  by (simp add: bump_def Let_def)

lemma nonneg_update [simp]:
  "nonneg_streaks ks \<Longrightarrow> 0 \<le> consecutiveFailures st \<Longrightarrow> nonneg_streaks (AList.update k st ks)"
  using set_update_subset [of k st ks] by (auto simp: nonneg_streaks_def)

lemma nonneg_submap:
  "nonneg_streaks ks \<Longrightarrow> keys_wf ks' \<Longrightarrow> map_of ks' \<subseteq>\<^sub>m map_of ks \<Longrightarrow> nonneg_streaks ks'"
proof -
  assume ks: "nonneg_streaks ks" and wf: "keys_wf ks'" and le: "map_of ks' \<subseteq>\<^sub>m map_of ks"
  have "(k, st) \<in> set ks" if "(k, st) \<in> set ks'" for k st
  proof -
    from that wf have "map_of ks' k = Some st" by (simp add: keys_wf_def wf_map_of_iff)
    with le have "map_of ks k = Some st" by (metis domI map_le_def)
    then show ?thesis by (rule map_of_SomeD)
  qed
  with ks show ?thesis by (auto simp: nonneg_streaks_def)
qed

lemma keys_inv_Nil [simp]: "keys_inv mk []"
  using effectiveLimit_pos [of mk] by (simp add: keys_inv_def keys_wf_def nonneg_streaks_def)

lemma recordSuccess_inv: "keys_inv mk ks \<Longrightarrow> key \<noteq> '''' \<Longrightarrow> keys_inv mk (cb_recordSuccess key ks)"
  by (auto simp: keys_inv_def cb_recordSuccess_def length_update_old split: option.splits)

lemma keys_inv_mapped:
  "keys_inv mk ks \<Longrightarrow> (\<And>st. 0 \<le> consecutiveFailures st \<Longrightarrow> 0 \<le> consecutiveFailures (f st))
   \<Longrightarrow> keys_inv mk (map (\<lambda>(k, st). (k, f st)) ks)"
  by (auto simp: keys_inv_def nonneg_streaks_def)

text \<open>
  What recording a failure does to the map: the streak of \<open>key\<close> is bumped, every other
  surviving key keeps its state, and the map stays within its cap.
\<close>

lemma recordFailure_spec:
  assumes "range_order it" "keys_inv mk ks" "key \<noteq> ''''"
  shows "\<exists>ks'. cb_recordFailure it mk th d now key ks = Some ks' \<and> keys_inv mk ks'
           \<and> map_of ks' key = Some (bump th d now (lookup_key key ks))
           \<and> (\<forall>k. k \<noteq> key \<longrightarrow> map_of ks' k = map_of ks k \<or> map_of ks' k = None)"
proof (cases "map_of ks key")
  case (Some st)
  then show ?thesis using assms
    by (auto simp: cb_recordFailure_def keys_inv_def length_update_old lookup_key_def
        intro!: nonneg_update nonneg_bump dest: nonneg_lookup [of _ key])
next
  case None
  obtain ks1 where ks1: "ensureRoomForNewKeyLocked it mk key ks = Some ks1" "keys_wf ks1"
      "map_of ks1 key = None" "int (length ks1) < effectiveLimit mk"
      "map_of ks1 \<subseteq>\<^sub>m map_of ks"
    using ensureRoomLoop_returns [OF assms(1) _ effectiveLimit_pos, of ks mk key] assms(2) None
    by (auto simp: keys_inv_def ensureRoomForNewKeyLocked_def)
  let ?ks' = "AList.update key (bump th d now zero_cbState) (AList.update key zero_cbState ks1)"
  have "cb_recordFailure it mk th d now key ks = Some ?ks'"
    using None ks1(1) by (simp add: cb_recordFailure_def lookup_key_def)
  moreover have "keys_inv mk ?ks'"
    using ks1(2-5) assms(2,3) nonneg_submap
    by (auto simp: keys_inv_def length_update_old length_update_fresh zero_cbState_def
        intro!: nonneg_update nonneg_bump)
  moreover have "\<forall>k. k \<noteq> key \<longrightarrow> map_of ks1 k = map_of ks k \<or> map_of ks1 k = None"
    using ks1(5) by (metis domIff map_le_def)
  ultimately show ?thesis using None by (auto simp: lookup_key_def)
qed

definition cb_inv :: "CircuitBreaker \<Rightarrow> bool" where
  "cb_inv cb \<longleftrightarrow> keys_inv (maxKeys cb) (keys cb)"

definition state_inv :: "CircuitBreakerState \<Rightarrow> bool" where
  "state_inv s \<longleftrightarrow> keys_inv (s_maxKeys s) (s_keys s)"

section \<open>The contract of a health source\<close>

text \<open>
  Routing sees candidate health through two interfaces, \<open>CandidateHealth\<close> and
  \<open>RoutingAttemptOutcomeSink\<close>. The locale states what the planner relies on: recording
  never gets stuck, the tracked keys stay bounded, and only tracked keys are reported.
\<close>

datatype health_event = Outcome gotime string AttemptOutcome | Ask gotime

fun health_run :: "(gotime \<Rightarrow> string \<Rightarrow> AttemptOutcome \<Rightarrow> 's \<Rightarrow> 's option)
    \<Rightarrow> (gotime \<Rightarrow> 's \<Rightarrow> string set \<times> 's) \<Rightarrow> health_event list \<Rightarrow> 's \<Rightarrow> 's option" where
  "health_run rec ask [] s = Some s"
| "health_run rec ask (Outcome t k oc # es) s =
     (case rec t k oc s of None \<Rightarrow> None | Some s' \<Rightarrow> health_run rec ask es s')"
| "health_run rec ask (Ask t # es) s = health_run rec ask es (snd (ask t s))"

lemma health_run_append:
  "health_run rec ask (es @ es') s = Option.bind (health_run rec ask es s) (health_run rec ask es')"
  by (induction rec ask es s rule: health_run.induct) (auto split: option.splits)

locale candidate_health =
  fixes rec :: "gotime \<Rightarrow> string \<Rightarrow> AttemptOutcome \<Rightarrow> 's \<Rightarrow> 's option"
    and ask :: "gotime \<Rightarrow> 's \<Rightarrow> string set \<times> 's"
    and hinv :: "'s \<Rightarrow> bool" and cap :: "'s \<Rightarrow> int" and tracked :: "'s \<Rightarrow> string set"
  assumes rec_total: "hinv s \<Longrightarrow> \<exists>s'. rec t k oc s = Some s' \<and> hinv s' \<and> cap s' = cap s"
    and ask_inv: "hinv s \<Longrightarrow> hinv (snd (ask t s)) \<and> cap (snd (ask t s)) = cap s"
    and ask_tracked: "fst (ask t s) \<subseteq> tracked s"
    and tracked_bound: "hinv s \<Longrightarrow> finite (tracked s) \<and> int (card (tracked s)) \<le> cap s"
begin

lemma run_total: "hinv s \<Longrightarrow> \<exists>s'. health_run rec ask es s = Some s' \<and> hinv s' \<and> cap s' = cap s"
proof (induction es arbitrary: s)
  case (Cons e es)
  show ?case
  proof (cases e)
    case (Outcome t k oc)
    from rec_total [OF Cons.prems] obtain s' where "rec t k oc s = Some s'" "hinv s'" "cap s' = cap s"
      by blast
    with Cons.IH [of s'] Outcome show ?thesis by auto
  next
    case (Ask t)
    with Cons.IH [of "snd (ask t s)"] ask_inv [OF Cons.prems, of t] show ?thesis by auto
  qed
qed simp

lemma run_reports_bounded:
  assumes "hinv s"
  shows "\<exists>s'. health_run rec ask es s = Some s' \<and> hinv s' \<and> cap s' = cap s
           \<and> int (card (fst (ask t s'))) \<le> cap s"
proof -
  from run_total [OF assms] obtain s' where s': "health_run rec ask es s = Some s'" "hinv s'"
    "cap s' = cap s" by blast
  have "card (fst (ask t s')) \<le> card (tracked s')"
    using tracked_bound [OF s'(2)] ask_tracked by (intro card_mono) auto
  with tracked_bound [OF s'(2)] s' show ?thesis by auto
qed

end

lemma OnRoutingAttemptOutcome_total:
  assumes "range_order it" "cb_inv cb"
  shows "\<exists>cb'. OnRoutingAttemptOutcome it t k oc cb = Some cb' \<and> cb_inv cb'
           \<and> maxKeys cb' = maxKeys cb \<and> threshold cb' = threshold cb \<and> openFor cb' = openFor cb"
proof (cases "k = ''''")
  case False
  with recordFailure_spec [OF assms(1) assms(2) [unfolded cb_inv_def] False]
  obtain ks' where "cb_recordFailure it (maxKeys cb) (threshold cb) (openFor cb) t k (keys cb)
      = Some ks'" "keys_inv (maxKeys cb) ks'" by blast
  with assms(2) False show ?thesis
    by (cases oc) (auto simp: OnRoutingAttemptOutcome_def cb_inv_def recordSuccess_inv)
qed (use assms in \<open>simp add: OnRoutingAttemptOutcome_def\<close>)

lemma UnhealthyCandidateKeys_inv:
  "cb_inv cb \<Longrightarrow> cb_inv (snd (UnhealthyCandidateKeys t cb))"
  by (auto simp: UnhealthyCandidateKeys_def cb_inv_def refresh_def intro!: keys_inv_mapped)

interpretation breaker: candidate_health
  "OnRoutingAttemptOutcome it" UnhealthyCandidateKeys "\<lambda>cb. range_order it \<and> cb_inv cb"
  "\<lambda>cb. effectiveLimit (maxKeys cb)" "\<lambda>cb. fst ` set (keys cb)" for it
proof (unfold_locales, goal_cases)
  case (1 s t k oc)
  then show ?case using OnRoutingAttemptOutcome_total by force
next
  case (2 s t)
  then show ?case using UnhealthyCandidateKeys_inv by (auto simp: UnhealthyCandidateKeys_def)
next
  case (3 t s)
  then show ?case by (auto simp: UnhealthyCandidateKeys_def)
next
  case (4 s)
  then show ?case
    by (auto simp: cb_inv_def keys_inv_def keys_wf_def dest!: length_wf_card)
qed

text \<open>The store and the breaker differ only in how a query classifies a key.\<close>

lemma state_recordFailure_eq:
  "state_recordFailure it k th d t s =
     map_option (\<lambda>ks. s\<lparr>s_keys := ks\<rparr>) (cb_recordFailure it (s_maxKeys s) th d t k (s_keys s))"
  by (cases "ensureRoomLoop it (effectiveLimit (s_maxKeys s)) k (s_keys s)")
     (auto simp: state_recordFailure_def cb_recordFailure_def state_ensureRoomForNewKeyLocked_def
        ensureRoomForNewKeyLocked_def effectiveLimit_def split: if_splits)

lemma state_recordSuccess_eq: "state_recordSuccess k s = s\<lparr>s_keys := cb_recordSuccess k (s_keys s)\<rparr>"
  by (auto simp: state_recordSuccess_def cb_recordSuccess_def split: option.splits)

lemma policy_outcome_eq:
  "policy_OnRoutingAttemptOutcome it t k oc p s =
     map_option (\<lambda>cb. s\<lparr>s_keys := keys cb\<rparr>)
       (OnRoutingAttemptOutcome it t k oc
          \<lparr>threshold = p_threshold p, openFor = p_openFor p, maxKeys = s_maxKeys s, keys = s_keys s\<rparr>)"
  by (cases oc) (auto simp: policy_OnRoutingAttemptOutcome_def OnRoutingAttemptOutcome_def
      state_recordFailure_eq state_recordSuccess_eq option.map_comp comp_def)

lemma policy_outcome_total:
  assumes "range_order it" "state_inv s"
  shows "\<exists>s'. policy_OnRoutingAttemptOutcome it t k oc p s = Some s' \<and> state_inv s'
           \<and> s_maxKeys s' = s_maxKeys s"
  using OnRoutingAttemptOutcome_total [OF assms(1), of
      "\<lparr>threshold = p_threshold p, openFor = p_openFor p, maxKeys = s_maxKeys s, keys = s_keys s\<rparr>"]
    assms(2)
  by (fastforce simp: policy_outcome_eq cb_inv_def state_inv_def)

interpretation policy_view: candidate_health
  "\<lambda>t k oc. policy_OnRoutingAttemptOutcome it t k oc p"
  "\<lambda>t. policy_UnhealthyCandidateKeys t p" "\<lambda>s. range_order it \<and> state_inv s"
  "\<lambda>s. effectiveLimit (s_maxKeys s)" "\<lambda>s. fst ` set (s_keys s)" for it p
proof (unfold_locales, goal_cases)
  case (1 s t k oc)
  then show ?case using policy_outcome_total by force
next
  case (2 s t)
  then show ?case
    by (auto simp: policy_UnhealthyCandidateKeys_def unhealthyKeys_def state_inv_def
        state_refresh_def intro!: keys_inv_mapped)
next
  case (3 t s)
  then show ?case by (auto simp: policy_UnhealthyCandidateKeys_def unhealthyKeys_def)
next
  case (4 s)
  then show ?case
    by (auto simp: state_inv_def keys_inv_def keys_wf_def dest!: length_wf_card)
qed

section \<open>The abstract breaker: one streak machine per key\<close>

text \<open>
  The specification forgets the map, its cap and its eviction: each candidate key has a
  streak of its own, driven only by the events that concern it.
\<close>

fun key_step :: "int \<Rightarrow> duration \<Rightarrow> string \<Rightarrow> cbState \<Rightarrow> health_event \<Rightarrow> cbState" where
  "key_step th d k st (Outcome t k' oc) =
     (if k' \<noteq> k \<or> k = '''' then st
      else case oc of
        AttemptSuccess \<Rightarrow> zero_cbState
      | AttemptSurfacedFailure \<Rightarrow> bump th d t st
      | AttemptSwallowedFailure \<Rightarrow> bump th d t st
      | _ \<Rightarrow> st)"
| "key_step th d k st (Ask t) = refresh t st"

fun event_keys :: "health_event list \<Rightarrow> string set" where
  "event_keys [] = {}"
| "event_keys (Outcome t k oc # es) = insert k (event_keys es)"
| "event_keys (Ask t # es) = event_keys es"

lemma zero_cbState_simps [simp]:
  "consecutiveFailures zero_cbState = 0" "blockedUntil zero_cbState = 0"
  by (simp_all add: zero_cbState_def)

lemma cbState_eq_zero: "consecutiveFailures st = 0 \<Longrightarrow> blockedUntil st = 0 \<Longrightarrow> st = zero_cbState"
  by (simp add: zero_cbState_def)

lemma lookup_recordSuccess:
  "lookup_key k' (cb_recordSuccess k ks) = (if k' = k then zero_cbState else lookup_key k' ks)"
  by (auto simp: lookup_key_def cb_recordSuccess_def intro!: cbState_eq_zero split: option.splits)

lemma lookup_refreshed:
  "lookup_key k (map (\<lambda>(k, st). (k, refresh t st)) ks) = refresh t (lookup_key k ks)"
  by (auto simp: lookup_key_def map_of_map_snd refresh_def split: option.splits)

lemma recordFailure_room:
  assumes "map_of ks key \<noteq> None \<or> int (length ks) < effectiveLimit mk"
  shows "\<exists>ks'. cb_recordFailure it mk th d t key ks = Some ks'
           \<and> fst ` set ks' = insert key (fst ` set ks)
           \<and> (\<forall>k. lookup_key k ks' = (if k = key then bump th d t (lookup_key key ks) else lookup_key k ks))"
proof (cases "map_of ks key")
  case None
  with assms ensureRoom_noop show ?thesis
    by (auto simp: cb_recordFailure_def lookup_key_def dom_update)
next
  case (Some st)
  then have "key \<in> fst ` set ks" by (force dest: map_of_SomeD)
  with Some show ?thesis by (auto simp: cb_recordFailure_def lookup_key_def dom_update)
qed

lemma keys_recordSuccess: "fst ` set (cb_recordSuccess k ks) = fst ` set ks"
proof (cases "map_of ks k")
  case (Some st)
  then have "k \<in> fst ` set ks" by (force dest: map_of_SomeD)
  with Some show ?thesis by (auto simp: cb_recordSuccess_def dom_update)
qed (simp add: cb_recordSuccess_def)

text \<open>
  One event: as long as every key in play fits under the cap \<open>S\<close>, the concrete step
  simulates the abstract one for every key at once.
\<close>

lemma outcome_simulates:
  assumes "range_order it" "cb_inv cb" "finite S" "int (card S) \<le> effectiveLimit (maxKeys cb)"
    and "fst ` set (keys cb) \<subseteq> S" "k \<in> S"
  shows "\<exists>cb'. OnRoutingAttemptOutcome it t k oc cb = Some cb' \<and> fst ` set (keys cb') \<subseteq> S
           \<and> (\<forall>k'. lookup_key k' (keys cb')
                 = key_step (threshold cb) (openFor cb) k' (lookup_key k' (keys cb)) (Outcome t k oc))"
proof (cases "k = ''''")
  case True
  with assms show ?thesis by (simp add: OnRoutingAttemptOutcome_def)
next
  case False
  have "map_of (keys cb) k \<noteq> None \<or> int (length (keys cb)) < effectiveLimit (maxKeys cb)"
  proof (cases "map_of (keys cb) k")
    case None
    then have "k \<notin> fst ` set (keys cb)" by (simp add: map_of_None_keys)
    with assms(5,6) have "fst ` set (keys cb) \<subset> S" by auto
    then have "card (fst ` set (keys cb)) < card S" using assms(3) by (intro psubset_card_mono)
    with assms(2,4) show ?thesis
      by (auto simp: cb_inv_def keys_inv_def keys_wf_def length_wf_card)
  qed simp
  from recordFailure_room [OF this, of it "threshold cb" "openFor cb" t]
  obtain ks' where "cb_recordFailure it (maxKeys cb) (threshold cb) (openFor cb) t k (keys cb) = Some ks'"
    "fst ` set ks' = insert k (fst ` set (keys cb))"
    "\<forall>k'. lookup_key k' ks' = (if k' = k then bump (threshold cb) (openFor cb) t (lookup_key k (keys cb))
         else lookup_key k' (keys cb))" by blast
  with False assms(5,6) show ?thesis
    by (cases oc) (auto simp: OnRoutingAttemptOutcome_def lookup_recordSuccess keys_recordSuccess)
qed

lemma breaker_simulates:
  assumes "range_order it" "cb_inv cb" "finite S" "int (card S) \<le> effectiveLimit (maxKeys cb)"
    and "fst ` set (keys cb) \<subseteq> S" "event_keys es \<subseteq> S"
  shows "\<exists>cb'. health_run (OnRoutingAttemptOutcome it) UnhealthyCandidateKeys es cb = Some cb'
           \<and> (\<forall>k. lookup_key k (keys cb')
                 = foldl (key_step (threshold cb) (openFor cb) k) (lookup_key k (keys cb)) es)"
  using assms(2-)
proof (induction es arbitrary: cb)
  case Nil
  then show ?case by simp
next
  case (Cons e es)
  show ?case
  proof (cases e)
    case (Outcome t k oc)
    with Cons.prems outcome_simulates [OF assms(1) Cons.prems(1-4), of k t oc]
    obtain cb1 where cb1: "OnRoutingAttemptOutcome it t k oc cb = Some cb1" "fst ` set (keys cb1) \<subseteq> S"
      "\<forall>k'. lookup_key k' (keys cb1)
          = key_step (threshold cb) (openFor cb) k' (lookup_key k' (keys cb)) (Outcome t k oc)"
      by auto
    with OnRoutingAttemptOutcome_total [OF assms(1) Cons.prems(1), of t k oc]
    have "cb_inv cb1" "maxKeys cb1 = maxKeys cb" "threshold cb1 = threshold cb" "openFor cb1 = openFor cb"
      by auto
    with Cons.IH [of cb1] Cons.prems cb1 Outcome show ?thesis by auto
  next
    case (Ask t)
    let ?cb1 = "snd (UnhealthyCandidateKeys t cb)"
    have "fst ` set (keys ?cb1) = fst ` set (keys cb)"
      by (force simp: UnhealthyCandidateKeys_def)
    moreover have "cb_inv ?cb1" by (rule UnhealthyCandidateKeys_inv [OF Cons.prems(1)])
    ultimately show ?thesis
      using Cons.IH [of ?cb1] Cons.prems Ask
      by (auto simp: UnhealthyCandidateKeys_def lookup_refreshed)
  qed
qed

lemma NewCircuitBreaker_inv: "cb_inv (NewCircuitBreaker opts)"
  by (simp add: NewCircuitBreaker_def cb_inv_def Let_def)

section \<open>Repeated failures of one key\<close>

definition failures_of :: "string \<Rightarrow> gotime list \<Rightarrow> health_event list" where
  "failures_of k ts = map (\<lambda>t. Outcome t k AttemptSurfacedFailure) ts"

text \<open>Streak arithmetic: after the failures at \<open>ts\<close> the streak has grown by their number.\<close>

lemma bumps:
  fixes ts :: "gotime list" and th :: int and d :: duration
  defines "b \<equiv> \<lambda>st ts. foldl (\<lambda>st t. bump th d t st) st ts"
  shows "consecutiveFailures (b st ts) = consecutiveFailures st + int (length ts)"
    and "ts \<noteq> [] \<Longrightarrow> consecutiveFailures st + int (length ts) \<ge> th
          \<Longrightarrow> blockedUntil (b st ts) = last ts + d"
proof -
  have b1: "consecutiveFailures (b st ts) = consecutiveFailures st + int (length ts)" for st ts
    unfolding b_def by (induction ts arbitrary: st) (auto simp: bump_def Let_def)
  show "consecutiveFailures (b st ts) = consecutiveFailures st + int (length ts)" by (rule b1)
  assume "ts \<noteq> []" and th: "consecutiveFailures st + int (length ts) \<ge> th"
  then obtain us u where ts: "ts = us @ [u]" by (meson rev_exhaust)
  have "b st ts = bump th d u (b st us)" by (simp add: b_def ts)
  with th b1 [of st us] show "blockedUntil (b st ts) = last ts + d"
    by (simp add: ts bump_def Let_def)
qed

lemma run_failures_of:
  assumes "range_order it" "cb_inv cb" "k \<noteq> ''''"
  shows "\<exists>cb'. health_run (OnRoutingAttemptOutcome it) UnhealthyCandidateKeys (failures_of k ts) cb = Some cb'
           \<and> cb_inv cb'
           \<and> lookup_key k (keys cb') = foldl (\<lambda>st t. bump (threshold cb) (openFor cb) t st)
                 (lookup_key k (keys cb)) ts"
  using assms(2)
proof (induction ts arbitrary: cb)
  case Nil
  then show ?case by (simp add: failures_of_def)
next
  case (Cons t ts)
  from recordFailure_spec [OF assms(1) Cons.prems [unfolded cb_inv_def] assms(3),
      of "threshold cb" "openFor cb" t]
  obtain ks' where ks': "cb_recordFailure it (maxKeys cb) (threshold cb) (openFor cb) t k (keys cb) = Some ks'"
    "keys_inv (maxKeys cb) ks'"
    "map_of ks' k = Some (bump (threshold cb) (openFor cb) t (lookup_key k (keys cb)))" by blast
  from Cons.IH [of "cb\<lparr>keys := ks'\<rparr>"] ks' assms(3) show ?case
    by (auto simp: failures_of_def OnRoutingAttemptOutcome_def cb_inv_def lookup_key_def)
qed

lemma UnhealthyCandidateKeys_iff:
  assumes "cb_inv cb" "0 \<le> t"
  shows "k \<in> fst (UnhealthyCandidateKeys t cb) \<longleftrightarrow> t < blockedUntil (lookup_key k (keys cb))"
proof -
  from assms(1) have wf: "wf_gomap (keys cb)" by (simp add: cb_inv_def keys_inv_def keys_wf_def)
  have "k \<in> fst (UnhealthyCandidateKeys t cb)
        \<longleftrightarrow> (\<exists>st. map_of (keys cb) k = Some st \<and> t < blockedUntil st)"
    by (force simp: UnhealthyCandidateKeys_def wf_map_of_iff [OF wf])
  also have "\<dots> \<longleftrightarrow> t < blockedUntil (lookup_key k (keys cb))"
    using assms(2) by (auto simp: lookup_key_def split: option.splits)
  finally show ?thesis .
qed

section \<open>Properties\<close>

text \<open>
  Bounded memory. Whatever outcomes are reported and however often health is queried,
  the breaker made by \<open>NewCircuitBreaker\<close> answers every call, never gets stuck in its
  eviction loop, keeps a proper map with at most the configured number of keys, and never
  reports more unhealthy keys than that.
\<close>

theorem breaker_bounded:
  assumes "range_order it"
  shows "\<exists>cb'. health_run (OnRoutingAttemptOutcome it) UnhealthyCandidateKeys es
             (NewCircuitBreaker opts) = Some cb' \<and> cb_inv cb'
           \<and> int (card (fst (UnhealthyCandidateKeys t cb')))
               \<le> effectiveLimit (maxKeys (NewCircuitBreaker opts))"
  using breaker.run_reports_bounded [of it "NewCircuitBreaker opts" es t] assms NewCircuitBreaker_inv
  by auto

theorem breaker_bounded_witness:
  "\<exists>cb'. health_run (OnRoutingAttemptOutcome rev) UnhealthyCandidateKeys
       [Outcome 1 ''a:m'' AttemptSurfacedFailure, Ask 2, Outcome 3 ''b:m'' AttemptSwallowedFailure]
       (NewCircuitBreaker \<lparr>optFailureThreshold = 1, optOpenDuration = 10, optMaxTrackedKeys = 1\<rparr>)
       = Some cb' \<and> cb_inv cb'
     \<and> int (card (fst (UnhealthyCandidateKeys 4 cb')))
         \<le> effectiveLimit (maxKeys (NewCircuitBreaker
              \<lparr>optFailureThreshold = 1, optOpenDuration = 10, optMaxTrackedKeys = 1\<rparr>))"
  by (rule breaker_bounded) simp

text \<open>The map and the machines, with room for all keys.\<close>

lemma breaker_streaks:
  assumes "range_order it" "int (card (event_keys es)) \<le> effectiveLimit (maxKeys (NewCircuitBreaker opts))"
  shows "health_run (OnRoutingAttemptOutcome it) UnhealthyCandidateKeys es (NewCircuitBreaker opts) \<noteq> None"
    and "health_run (OnRoutingAttemptOutcome it) UnhealthyCandidateKeys es (NewCircuitBreaker opts) = Some cb
      \<Longrightarrow> lookup_key k (keys cb) = foldl (key_step (threshold (NewCircuitBreaker opts)) (openFor (NewCircuitBreaker opts)) k) zero_cbState es"
proof -
  have "finite (event_keys es)" by (induction es rule: event_keys.induct) auto
  moreover have "keys (NewCircuitBreaker opts) = []" by (simp add: NewCircuitBreaker_def Let_def)
  ultimately have run: "\<exists>cb'. health_run (OnRoutingAttemptOutcome it) UnhealthyCandidateKeys es (NewCircuitBreaker opts) = Some cb'
      \<and> (\<forall>k. lookup_key k (keys cb') = foldl (key_step (threshold (NewCircuitBreaker opts)) (openFor (NewCircuitBreaker opts)) k) zero_cbState es)"
    using breaker_simulates [OF assms(1) NewCircuitBreaker_inv _ assms(2), of es] by (simp add: lookup_key_def)
  then show "health_run (OnRoutingAttemptOutcome it) UnhealthyCandidateKeys es (NewCircuitBreaker opts) \<noteq> None" by auto
  show "lookup_key k (keys cb) = foldl (key_step (threshold (NewCircuitBreaker opts)) (openFor (NewCircuitBreaker opts)) k) zero_cbState es"
    if "health_run (OnRoutingAttemptOutcome it) UnhealthyCandidateKeys es (NewCircuitBreaker opts) = Some cb"
    using run that by auto
qed

lemma breaker_run_inv:
  assumes "range_order it" "health_run (OnRoutingAttemptOutcome it) UnhealthyCandidateKeys es (NewCircuitBreaker opts) = Some cb"
  shows "cb_inv cb"
  using breaker.run_reports_bounded [of it "NewCircuitBreaker opts" es 0] assms NewCircuitBreaker_inv by auto

text \<open>
  C17: Refinement. While the candidate keys in use fit under the cap, the bounded map
  behaves exactly like one independent streak machine per key: no key's streak or block is
  affected by what happens to another key.
\<close>

theorem breaker_refines_per_key_streaks:
  assumes "range_order it"
    and "int (card (event_keys es)) \<le> effectiveLimit (maxKeys (NewCircuitBreaker opts))"
  shows "\<exists>cb'. health_run (OnRoutingAttemptOutcome it) UnhealthyCandidateKeys es
             (NewCircuitBreaker opts) = Some cb'
           \<and> (\<forall>k. lookup_key k (keys cb')
                 = foldl (key_step (threshold (NewCircuitBreaker opts)) (openFor (NewCircuitBreaker opts)) k)
                     zero_cbState es)"
  using breaker_streaks [OF assms] by (metis not_None_eq)

theorem breaker_refines_per_key_streaks_witness:
  "\<exists>cb'. health_run (OnRoutingAttemptOutcome rev) UnhealthyCandidateKeys
       [Outcome 1 ''a'' AttemptSurfacedFailure, Outcome 2 ''b'' AttemptSurfacedFailure]
       (NewCircuitBreaker \<lparr>optFailureThreshold = 1, optOpenDuration = 10, optMaxTrackedKeys = 2\<rparr>)
       = Some cb'
     \<and> (\<forall>k. lookup_key k (keys cb')
           = foldl (key_step (threshold (NewCircuitBreaker \<lparr>optFailureThreshold = 1, optOpenDuration = 10, optMaxTrackedKeys = 2\<rparr>))
               (openFor (NewCircuitBreaker \<lparr>optFailureThreshold = 1, optOpenDuration = 10, optMaxTrackedKeys = 2\<rparr>)) k)
               zero_cbState
               [Outcome 1 ''a'' AttemptSurfacedFailure, Outcome 2 ''b'' AttemptSurfacedFailure])"
  by (rule breaker_refines_per_key_streaks)
     (simp_all add: NewCircuitBreaker_def effectiveLimit_def)

text \<open>The times of the failures of one key in a history.\<close>

fun failure_times :: "string \<Rightarrow> health_event list \<Rightarrow> gotime list" where
  "failure_times k [] = []"
| "failure_times k (Outcome t k' oc # es) =
     (if k' = k \<and> oc \<in> {AttemptSurfacedFailure, AttemptSwallowedFailure} then [t] else []) @ failure_times k es"
| "failure_times k (Ask t # es) = failure_times k es"

lemma failure_times_append [simp]: "failure_times k (es @ es') = failure_times k es @ failure_times k es'"
  by (induction k es rule: failure_times.induct) auto

definition sane_streak :: "int \<Rightarrow> cbState \<Rightarrow> bool" where
  "sane_streak th st \<longleftrightarrow> 0 \<le> consecutiveFailures st \<and> (blockedUntil st \<noteq> 0 \<longrightarrow> th \<le> consecutiveFailures st)"

lemma key_step_sane: "sane_streak th st \<Longrightarrow> sane_streak th (key_step th d k st e)"
  by (cases e) (auto simp: sane_streak_def bump_def refresh_def Let_def split: AttemptOutcome.splits)

lemma streak_sane: "sane_streak th st \<Longrightarrow> sane_streak th (foldl (key_step th d k) st es)"
  by (induction es arbitrary: st) (auto intro: key_step_sane)

text \<open>
  A stretch without a success of the key in which no query comes after the end of a block: the
  streak has at least the failures of the stretch, and once these reach the threshold the
  block ends \<open>openFor\<close> after the last of them.
\<close>

lemma streak_open:
  assumes "sane_streak th st" "k \<noteq> []" "\<forall>u. Outcome u k AttemptSuccess \<notin> set es"
    and "\<forall>q f. Ask q \<in> set es \<longrightarrow> f \<in> set (failure_times k es) \<longrightarrow> q < f + d"
  defines "st' \<equiv> foldl (key_step th d k) st es"
  shows "int (length (failure_times k es)) \<le> consecutiveFailures st'
     \<and> (failure_times k es \<noteq> [] \<longrightarrow> blockedUntil st' = 0 \<or> blockedUntil st' = last (failure_times k es) + d)
     \<and> (failure_times k es \<noteq> [] \<longrightarrow> th \<le> int (length (failure_times k es)) \<longrightarrow> blockedUntil st' = last (failure_times k es) + d)"
  using assms(3,4) unfolding st'_def
proof (induction es rule: rev_induct)
  case Nil
  then show ?case using assms(1) by (simp add: sane_streak_def)
next
  case (snoc e es)
  let ?st = "foldl (key_step th d k) st es" and ?fs = "failure_times k es"
  have sane: "sane_streak th ?st" by (rule streak_sane [OF assms(1)])
  have IH: "int (length ?fs) \<le> consecutiveFailures ?st" "?fs \<noteq> [] \<Longrightarrow> blockedUntil ?st = 0 \<or> blockedUntil ?st = last ?fs + d"
    "?fs \<noteq> [] \<Longrightarrow> th \<le> int (length ?fs) \<Longrightarrow> blockedUntil ?st = last ?fs + d"
    using snoc by auto
  show ?case
  proof (cases e)
    case (Outcome t k' oc)
    consider "k' \<noteq> k" | "k' = k" "oc \<in> {AttemptSurfacedFailure, AttemptSwallowedFailure}"
      | "k' = k" "oc \<notin> {AttemptSuccess, AttemptSurfacedFailure, AttemptSwallowedFailure}"
      using snoc.prems(1) Outcome by auto
    then show ?thesis
    proof cases
      case 2
      then have step: "key_step th d k ?st e = bump th d t ?st" using Outcome assms(2) by auto
      have "consecutiveFailures ?st + 1 \<ge> th \<or> blockedUntil ?st = 0" using sane by (auto simp: sane_streak_def)
      with IH(1) 2 show ?thesis using Outcome step by (auto simp: bump_def Let_def)
    qed (use IH Outcome in \<open>auto split: AttemptOutcome.splits\<close>)
  next
    case (Ask q)
    have "q < last ?fs + d" if "?fs \<noteq> []" using snoc.prems(2) Ask that by auto
    moreover have "0 \<le> consecutiveFailures ?st" using sane by (simp add: sane_streak_def)
    ultimately show ?thesis using IH Ask by (cases "?fs = []") (auto simp: refresh_def)
  qed
qed

lemma breaker_open_window:
  assumes "range_order it" "cb_inv cb" "k \<noteq> ''''" "0 \<le> t"
    and "ts \<noteq> []" "threshold cb \<le> int (length ts)"
  shows "\<exists>cb'. health_run (OnRoutingAttemptOutcome it) UnhealthyCandidateKeys (failures_of k ts) cb = Some cb'
           \<and> (k \<in> fst (UnhealthyCandidateKeys t cb') \<longleftrightarrow> t < last ts + openFor cb)
           \<and> (last ts + openFor cb \<le> t \<and> last ts + openFor cb \<noteq> 0 \<longrightarrow>
                lookup_key k (keys (snd (UnhealthyCandidateKeys t cb'))) = zero_cbState)"
proof -
  from run_failures_of [OF assms(1-3), of ts] obtain cb' where cb':
    "health_run (OnRoutingAttemptOutcome it) UnhealthyCandidateKeys (failures_of k ts) cb = Some cb'"
    "cb_inv cb'" "lookup_key k (keys cb') = foldl (\<lambda>st t. bump (threshold cb) (openFor cb) t st)
                 (lookup_key k (keys cb)) ts" by blast
  have "0 \<le> consecutiveFailures (lookup_key k (keys cb))"
    using assms(2) by (auto simp: cb_inv_def keys_inv_def intro: nonneg_lookup)
  then have until: "blockedUntil (lookup_key k (keys cb')) = last ts + openFor cb"
    using bumps(2) [OF assms(5), of "threshold cb" "lookup_key k (keys cb)" "openFor cb"] assms(6)
    by (simp add: cb'(3))
  moreover have "lookup_key k (keys (snd (UnhealthyCandidateKeys t cb')))
      = refresh t (lookup_key k (keys cb'))"
    by (simp add: UnhealthyCandidateKeys_def lookup_refreshed)
  ultimately show ?thesis
    using cb'(1) UnhealthyCandidateKeys_iff [OF cb'(2) assms(4), of k]
    by (auto simp: refresh_def intro!: cbState_eq_zero)
qed

text \<open>
  Opening and recovery. After a run of at least \<open>threshold\<close> failures of a key, from
  any valid state, the key is reported unhealthy exactly until \<open>openFor\<close> has passed since
  the last failure; the first query after that forgets the streak.
\<close>

theorem breaker_opens_and_recovers:
  assumes "range_order it" "cb_inv cb" "k \<noteq> ''''" "0 \<le> t"
    and "ts \<noteq> []" "threshold cb \<le> int (length ts)"
  shows "\<exists>cb'. health_run (OnRoutingAttemptOutcome it) UnhealthyCandidateKeys (failures_of k ts) cb = Some cb'
           \<and> (k \<in> fst (UnhealthyCandidateKeys t cb') \<longleftrightarrow> t < last ts + openFor cb)
           \<and> (last ts + openFor cb \<le> t \<and> last ts + openFor cb \<noteq> 0 \<longrightarrow>
                lookup_key k (keys (snd (UnhealthyCandidateKeys t cb'))) = zero_cbState)"
  by (rule breaker_open_window [OF assms])

theorem breaker_opens_and_recovers_witness:
  "\<exists>cb'. health_run (OnRoutingAttemptOutcome rev) UnhealthyCandidateKeys (failures_of ''a:m'' [3, 4])
         \<lparr>threshold = 2, openFor = 10, maxKeys = 5, keys = []\<rparr> = Some cb'
       \<and> (''a:m'' \<in> fst (UnhealthyCandidateKeys 20 cb') \<longleftrightarrow>
            20 < last [3, 4] + openFor \<lparr>threshold = 2, openFor = 10, maxKeys = 5, keys = []\<rparr>)
       \<and> (last [3, 4] + openFor \<lparr>threshold = 2, openFor = 10, maxKeys = 5, keys = []\<rparr> \<le> 20
            \<and> last [3, 4] + openFor \<lparr>threshold = 2, openFor = 10, maxKeys = 5, keys = []\<rparr> \<noteq> 0
          \<longrightarrow> lookup_key ''a:m'' (keys (snd (UnhealthyCandidateKeys 20 cb'))) = zero_cbState)"
  by (rule breaker_opens_and_recovers) (simp_all add: cb_inv_def)

text \<open>
  Eviction order. When room is needed, an idle key goes first; a key with a streak or a
  block is evicted only if no idle key exists, and then it is the one with the least
  streak, ties broken by the smaller key. The choice of a non-idle victim does not depend on
  the map's iteration order.
\<close>

theorem eviction_spares_pressured_keys:
  assumes "range_order it" "keys_wf ks" "ks \<noteq> []"
  shows "\<exists>v st. map_of ks v = Some st
           \<and> (case evictOneIdleLocked it ks of
                (evicted, ks1) \<Rightarrow> if evicted then ks1 else evictLowestPressureLocked it ks)
               = AList.delete v ks
           \<and> (idle st \<or> (\<forall>(k, st') \<in> set ks. \<not> idle st' \<and> pressure_le (v, st) (k, st')))"
  using evict_round [OF assms] .

theorem eviction_spares_pressured_keys_witness:
  "\<exists>v st. map_of [(''b'', \<lparr>consecutiveFailures = 2, blockedUntil = 0\<rparr>),
                  (''a'', \<lparr>consecutiveFailures = 2, blockedUntil = 7\<rparr>)] v = Some st
     \<and> (case evictOneIdleLocked rev [(''b'', \<lparr>consecutiveFailures = 2, blockedUntil = 0\<rparr>),
                  (''a'', \<lparr>consecutiveFailures = 2, blockedUntil = 7\<rparr>)] of
          (evicted, ks1) \<Rightarrow> if evicted then ks1
            else evictLowestPressureLocked rev [(''b'', \<lparr>consecutiveFailures = 2, blockedUntil = 0\<rparr>),
                  (''a'', \<lparr>consecutiveFailures = 2, blockedUntil = 7\<rparr>)])
         = AList.delete v [(''b'', \<lparr>consecutiveFailures = 2, blockedUntil = 0\<rparr>),
                  (''a'', \<lparr>consecutiveFailures = 2, blockedUntil = 7\<rparr>)]
     \<and> (idle st \<or> (\<forall>(k, st') \<in> set [(''b'', \<lparr>consecutiveFailures = 2, blockedUntil = 0\<rparr>),
                  (''a'', \<lparr>consecutiveFailures = 2, blockedUntil = 7\<rparr>)].
            \<not> idle st' \<and> pressure_le (v, st) (k, st')))"
  by (rule eviction_spares_pressured_keys) (simp_all add: keys_wf_def wf_gomap_def)

section \<open>The policy view does not recover\<close>

lemma policy_run_failures_of:
  assumes "range_order it" "state_inv s" "k \<noteq> ''''"
  shows "\<exists>s'. health_run (\<lambda>t k oc. policy_OnRoutingAttemptOutcome it t k oc p)
             (\<lambda>t. policy_UnhealthyCandidateKeys t p) (failures_of k ts) s = Some s'
           \<and> state_inv s'
           \<and> lookup_key k (s_keys s') = foldl (\<lambda>st t. bump (p_threshold p) (p_openFor p) t st)
                 (lookup_key k (s_keys s)) ts
           \<and> (ts \<noteq> [] \<longrightarrow> k \<in> fst ` set (s_keys s'))"
  using assms(2)
proof (induction ts arbitrary: s rule: rev_induct)
  case Nil
  then show ?case by (simp add: failures_of_def)
next
  case (snoc t ts)
  from snoc obtain s1 where s1: "health_run (\<lambda>t k oc. policy_OnRoutingAttemptOutcome it t k oc p)
             (\<lambda>t. policy_UnhealthyCandidateKeys t p) (failures_of k ts) s = Some s1" "state_inv s1"
      "lookup_key k (s_keys s1) = foldl (\<lambda>st t. bump (p_threshold p) (p_openFor p) t st)
                 (lookup_key k (s_keys s)) ts" by blast
  from recordFailure_spec [OF assms(1) s1(2) [unfolded state_inv_def] assms(3),
      of "p_threshold p" "p_openFor p" t]
  obtain ks' where ks': "cb_recordFailure it (s_maxKeys s1) (p_threshold p) (p_openFor p) t k (s_keys s1) = Some ks'"
    "keys_inv (s_maxKeys s1) ks'"
    "map_of ks' k = Some (bump (p_threshold p) (p_openFor p) t (lookup_key k (s_keys s1)))" by blast
  from ks'(3) have "k \<in> fst ` set ks'" by (force dest: map_of_SomeD)
  moreover have "policy_OnRoutingAttemptOutcome it t k AttemptSurfacedFailure p s1
      = Some (s1\<lparr>s_keys := ks'\<rparr>)"
    using ks'(1) assms(3) by (simp add: policy_OnRoutingAttemptOutcome_def state_recordFailure_eq)
  moreover have "lookup_key k ks' = bump (p_threshold p) (p_openFor p) t (lookup_key k (s_keys s1))"
    using ks'(3) by (simp add: lookup_key_def)
  ultimately show ?case
    using s1 ks'(2) by (simp add: failures_of_def health_run_append state_inv_def)
qed

definition stuck_open :: "CircuitBreakerPolicy \<Rightarrow> string \<Rightarrow> CircuitBreakerState \<Rightarrow> bool" where
  "stuck_open p k s \<longleftrightarrow> state_inv s \<and> 0 < p_threshold p
     \<and> (\<exists>st. map_of (s_keys s) k = Some st \<and> p_threshold p \<le> consecutiveFailures st)"

text \<open>The state after the views \<open>v\<close> asked at the times \<open>u\<close>.\<close>

fun asked :: "(CircuitBreakerPolicy \<times> gotime) list \<Rightarrow> CircuitBreakerState \<Rightarrow> CircuitBreakerState" where
  "asked [] s = s"
| "asked ((v, u) # asks) s = asked asks (snd (policy_UnhealthyCandidateKeys u v s))"

lemma stuck_open_ask:
  assumes "stuck_open p k s"
  shows "k \<in> fst (policy_UnhealthyCandidateKeys t p s)"
    and "0 < p_threshold v \<Longrightarrow> p_threshold v \<le> p_threshold p \<Longrightarrow> stuck_open p k (snd (policy_UnhealthyCandidateKeys t v s))"
proof -
  from assms obtain st where st: "map_of (s_keys s) k = Some st" "p_threshold p \<le> consecutiveFailures st"
    and inv: "state_inv s" and th: "0 < p_threshold p" by (auto simp: stuck_open_def)
  from map_of_SomeD [OF st(1)] st(2) th show "k \<in> fst (policy_UnhealthyCandidateKeys t p s)"
    by (force simp: policy_UnhealthyCandidateKeys_def unhealthyKeys_def state_unhealthy_def)
  assume v: "0 < p_threshold v" "p_threshold v \<le> p_threshold p"
  have "state_inv (snd (policy_UnhealthyCandidateKeys t v s))"
    using policy_view.ask_inv [of "\<lambda>m. m" s t v] inv by simp
  moreover have "state_refresh t (p_threshold v) st = st"
    using v st(2) by (simp add: state_refresh_def)
  ultimately show "stuck_open p k (snd (policy_UnhealthyCandidateKeys t v s))"
    using st th by (auto simp: stuck_open_def policy_UnhealthyCandidateKeys_def unhealthyKeys_def map_of_map_snd)
qed

lemma stuck_open_asked:
  assumes "stuck_open p k s" "\<forall>(v, u) \<in> set asks. 0 < p_threshold v \<and> p_threshold v \<le> p_threshold p"
  shows "stuck_open p k (asked asks s)"
  using assms by (induction asks s rule: asked.induct) (auto intro: stuck_open_ask(2))

text \<open>
  C29: A policy view over the shared observation store does not let a key recover on its own.
  Once a key has failed threshold times in a row under a view, then, as long as no outcome is
  recorded and only views with at most that threshold ask, every later query of the view reports
  the key unhealthy, however long ago \<open>openFor\<close> elapsed and however often health is queried in
  between: \<open>unhealthyKeys\<close> tests the streak before the branch that would reset an expired block.
  As unhealthy keys are excluded from planning, no success can be recorded for the key either.
  (A query of a view with a higher threshold does reset the expired streak.)
\<close>

theorem policy_view_never_recovers:
  assumes "range_order it" "state_inv s" "k \<noteq> ''''" "ts \<noteq> []" "p = NewCircuitBreakerPolicy opts"
    and "p_threshold p \<le> int (length ts)"
    and "\<forall>(v, u) \<in> set asks. 0 < p_threshold v \<and> p_threshold v \<le> p_threshold p"
  shows "\<exists>s'. health_run (\<lambda>t k oc. policy_OnRoutingAttemptOutcome it t k oc p)
             (\<lambda>t. policy_UnhealthyCandidateKeys t p) (failures_of k ts) s = Some s'
           \<and> (\<forall>t. k \<in> fst (policy_UnhealthyCandidateKeys t p (asked asks s')))"
proof -
  have th: "0 < p_threshold p"
    by (simp add: assms(5) NewCircuitBreakerPolicy_def DefaultFailureThreshold_def Let_def)
  from policy_run_failures_of [OF assms(1-3), of p ts] assms(4) obtain s' where s':
    "health_run (\<lambda>t k oc. policy_OnRoutingAttemptOutcome it t k oc p)
             (\<lambda>t. policy_UnhealthyCandidateKeys t p) (failures_of k ts) s = Some s'" "state_inv s'"
    "lookup_key k (s_keys s') = foldl (\<lambda>st t. bump (p_threshold p) (p_openFor p) t st)
                 (lookup_key k (s_keys s)) ts" "k \<in> fst ` set (s_keys s')" by blast
  have "0 \<le> consecutiveFailures (lookup_key k (s_keys s))"
    using assms(2) by (auto simp: state_inv_def keys_inv_def intro: nonneg_lookup)
  then have "p_threshold p \<le> consecutiveFailures (lookup_key k (s_keys s'))"
    using assms(6) by (simp add: s'(3) bumps(1))
  moreover obtain st where "map_of (s_keys s') k = Some st"
    using s'(4) map_of_None_keys [of "s_keys s'" k] by (cases "map_of (s_keys s') k") auto
  ultimately have "stuck_open p k s'"
    using s'(2) th by (auto simp: stuck_open_def lookup_key_def)
  with stuck_open_asked [OF _ assms(7)] s'(1) stuck_open_ask(1) show ?thesis by blast
qed

definition strict_view :: CircuitBreakerPolicy where
  "strict_view = NewCircuitBreakerPolicy \<lparr>optFailureThreshold = 1, optOpenDuration = 1, optMaxTrackedKeys = 0\<rparr>"

definition lenient_view :: CircuitBreakerPolicy where
  "lenient_view = NewCircuitBreakerPolicy \<lparr>optFailureThreshold = 2, optOpenDuration = 1, optMaxTrackedKeys = 0\<rparr>"

theorem policy_view_never_recovers_witness:
  "\<exists>s'. health_run (\<lambda>t k oc. policy_OnRoutingAttemptOutcome rev t k oc lenient_view)
         (\<lambda>t. policy_UnhealthyCandidateKeys t lenient_view)
         (failures_of ''a:m'' [5, 6]) (NewCircuitBreakerState 0) = Some s'
       \<and> (\<forall>t. ''a:m'' \<in> fst (policy_UnhealthyCandidateKeys t lenient_view (asked [(strict_view, 900), (lenient_view, 1000)] s')))"
  by (rule policy_view_never_recovers [OF _ _ _ _ lenient_view_def])
     (simp_all add: state_inv_def NewCircuitBreakerState_def NewCircuitBreakerPolicy_def strict_view_def lenient_view_def)

end
