(* ===== verification/Go_Strings.thy ===== *)
theory Go_Strings
  imports Aip_Prelude
begin

text \<open>
  The parts of Go's \<open>strings\<close> and \<open>strconv\<close> packages that the modelled code uses, on byte
  strings. \<open>TrimSpace\<close> removes every UTF-8 encoded rune that \<open>unicode.IsSpace\<close> accepts.
  \<open>ToLower\<close> is exact on ASCII and on the two non-ASCII runes whose lower case is ASCII
  (U+0130 and U+212A); it leaves other bytes alone, which no comparison with an ASCII
  keyword can observe. \<open>ParseInt\<close> is base 10 with a 64-bit result.
\<close>

section \<open>Trimming\<close>

definition ascii_space :: "char \<Rightarrow> bool" where
  "ascii_space c \<longleftrightarrow> of_char c \<in> {9, 10, 11, 12, 13, 32 :: nat}"

definition space2 :: "char \<Rightarrow> char \<Rightarrow> bool" where
  "space2 a b \<longleftrightarrow> of_char a = (194 :: nat) \<and> of_char b \<in> {133, 160 :: nat}"

definition space3 :: "char \<Rightarrow> char \<Rightarrow> char \<Rightarrow> bool" where
  "space3 a b c \<longleftrightarrow>
     (of_char a = (225 :: nat) \<and> of_char b = (154 :: nat) \<and> of_char c = (128 :: nat))
   \<or> (of_char a = (226 :: nat) \<and> of_char b = (128 :: nat)
        \<and> (128 \<le> (of_char c :: nat) \<and> (of_char c :: nat) \<le> 138 \<or> of_char c \<in> {168, 169, 175 :: nat}))
   \<or> (of_char a = (226 :: nat) \<and> of_char b = (129 :: nat) \<and> of_char c = (159 :: nat))
   \<or> (of_char a = (227 :: nat) \<and> of_char b = (128 :: nat) \<and> of_char c = (128 :: nat))"

text \<open>Length of the space rune at the start of a string, 0 if there is none.\<close>

fun space_len :: "string \<Rightarrow> nat" where
  "space_len [] = 0"
| "space_len [a] = (if ascii_space a then 1 else 0)"
| "space_len [a, b] = (if ascii_space a then 1 else if space2 a b then 2 else 0)"
| "space_len (a # b # c # s) =
     (if ascii_space a then 1 else if space2 a b then 2 else if space3 a b c then 3 else 0)"

text \<open>The same at the end of a string, which is given reversed.\<close>

fun rspace_len :: "string \<Rightarrow> nat" where
  "rspace_len [] = 0"
| "rspace_len [a] = (if ascii_space a then 1 else 0)"
| "rspace_len [a, b] = (if ascii_space a then 1 else if space2 b a then 2 else 0)"
| "rspace_len (a # b # c # s) =
     (if ascii_space a then 1 else if space2 b a then 2 else if space3 c b a then 3 else 0)"

function trimLeft :: "string \<Rightarrow> string" where
  "trimLeft s = (if space_len s = 0 then s else trimLeft (drop (space_len s) s))"
  by pat_completeness auto
termination
proof (relation "measure length", simp)
  fix s :: string
  assume "space_len s \<noteq> 0"
  then show "(drop (space_len s) s, s) \<in> measure length" by (cases s) auto
qed

function trimRev :: "string \<Rightarrow> string" where
  "trimRev s = (if rspace_len s = 0 then s else trimRev (drop (rspace_len s) s))"
  by pat_completeness auto
termination
proof (relation "measure length", simp)
  fix s :: string
  assume "rspace_len s \<noteq> 0"
  then show "(drop (rspace_len s) s, s) \<in> measure length" by (cases s) auto
qed

declare trimLeft.simps [simp del] trimRev.simps [simp del]

definition TrimSpace :: "string \<Rightarrow> string" where
  "TrimSpace s = rev (trimRev (rev (trimLeft s)))"

lemma length_trimLeft: "length (trimLeft s) \<le> length s"
proof (induction s rule: trimLeft.induct)
  case (1 s)
  show ?case
  proof (cases "space_len s = 0")
    case False
    with 1 have "length (trimLeft (drop (space_len s) s)) \<le> length (drop (space_len s) s)" by simp
    with False show ?thesis by (simp add: trimLeft.simps [of s])
  qed (simp add: trimLeft.simps [of s])
qed

lemma length_trimRev: "length (trimRev s) \<le> length s"
proof (induction s rule: trimRev.induct)
  case (1 s)
  show ?case
  proof (cases "rspace_len s = 0")
    case False
    with 1 have "length (trimRev (drop (rspace_len s) s)) \<le> length (drop (rspace_len s) s)" by simp
    with False show ?thesis by (simp add: trimRev.simps [of s])
  qed (simp add: trimRev.simps [of s])
qed

lemma length_TrimSpace: "length (TrimSpace s) \<le> length s"
  using length_trimRev [of "rev (trimLeft s)"] length_trimLeft [of s] by (simp add: TrimSpace_def)

lemma TrimSpace_Nil [simp]: "TrimSpace [] = []"
  using length_TrimSpace [of "[]"] by simp

lemma space_len_trimLeft: "space_len (trimLeft s) = 0"
proof (induction s rule: trimLeft.induct)
  case (1 s)
  then show ?case by (cases "space_len s = 0") (simp_all add: trimLeft.simps [of s])
qed

lemma rspace_len_trimRev: "rspace_len (trimRev s) = 0"
proof (induction s rule: trimRev.induct)
  case (1 s)
  then show ?case by (cases "rspace_len s = 0") (simp_all add: trimRev.simps [of s])
qed

lemma trimRev_suffix: "\<exists>p. s = p @ trimRev s"
proof (induction s rule: trimRev.induct)
  case (1 s)
  show ?case
  proof (cases "rspace_len s = 0")
    case True
    then show ?thesis by (simp add: trimRev.simps [of s])
  next
    case False
    with 1 obtain p where "drop (rspace_len s) s = p @ trimRev (drop (rspace_len s) s)" by blast
    then have "s = (take (rspace_len s) s @ p) @ trimRev (drop (rspace_len s) s)"
      by (metis append_assoc append_take_drop_id)
    with False show ?thesis by (metis trimRev.simps)
  qed
qed

lemma trimLeft_suffix: "\<exists>p. s = p @ trimLeft s"
proof (induction s rule: trimLeft.induct)
  case (1 s)
  show ?case
  proof (cases "space_len s = 0")
    case True
    then show ?thesis by (simp add: trimLeft.simps [of s])
  next
    case False
    with 1 obtain p where "drop (space_len s) s = p @ trimLeft (drop (space_len s) s)" by blast
    then have "s = (take (space_len s) s @ p) @ trimLeft (drop (space_len s) s)"
      by (metis append_assoc append_take_drop_id)
    with False show ?thesis by (metis trimLeft.simps)
  qed
qed

text \<open>The trimmed string is a contiguous part of the string.\<close>

lemma TrimSpace_infix: "\<exists>p q. s = p @ TrimSpace s @ q"
proof -
  obtain p where p: "s = p @ trimLeft s" using trimLeft_suffix by blast
  obtain q where q: "rev (trimLeft s) = q @ trimRev (rev (trimLeft s))" using trimRev_suffix by blast
  from q have "trimLeft s = TrimSpace s @ rev q"
    unfolding TrimSpace_def by (metis rev_append rev_rev_ident)
  with p show ?thesis by metis
qed

lemma set_TrimSpace: "set (TrimSpace s) \<subseteq> set s"
  using TrimSpace_infix [of s] by (metis Un_upper1 Un_upper2 set_append subset_trans)

lemma space_len_append: "space_len s \<noteq> 0 \<Longrightarrow> space_len (s @ t) = space_len s"
  by (cases s rule: space_len.cases; cases t; cases "tl t") (auto split: if_splits)

lemma TrimSpace_idem [simp]: "TrimSpace (TrimSpace s) = TrimSpace s"
proof -
  obtain q where q: "rev (trimLeft s) = q @ trimRev (rev (trimLeft s))" using trimRev_suffix by blast
  then have "trimLeft s = TrimSpace s @ rev q"
    unfolding TrimSpace_def by (metis rev_append rev_rev_ident)
  then have "space_len (TrimSpace s) = 0"
    using space_len_trimLeft [of s] space_len_append by metis
  then have "trimLeft (TrimSpace s) = TrimSpace s" by (simp add: trimLeft.simps)
  moreover have "trimRev (rev (TrimSpace s)) = rev (TrimSpace s)"
    by (simp add: TrimSpace_def trimRev.simps [of "trimRev _"] rspace_len_trimRev)
  ultimately show ?thesis unfolding TrimSpace_def [of "TrimSpace s"] by simp
qed

text \<open>A string whose first and last byte are printable ASCII is not changed.\<close>

definition graphic :: "char \<Rightarrow> bool" where
  "graphic c \<longleftrightarrow> 33 \<le> (of_char c :: nat) \<and> (of_char c :: nat) \<le> 126"

lemma graphic_no_space: "graphic a \<Longrightarrow> space_len (a # s) = 0" "graphic a \<Longrightarrow> rspace_len (a # s) = 0"
proof -
  assume "graphic a"
  then have a: "\<not> ascii_space a" "\<And>b. \<not> space2 a b" "\<And>b. \<not> space2 b a"
    "\<And>b c. \<not> space3 a b c" "\<And>b c. \<not> space3 b c a"
    by (auto simp: graphic_def ascii_space_def space2_def space3_def)
  then show "space_len (a # s) = 0" by (cases s; cases "tl s") auto
  from a show "rspace_len (a # s) = 0" by (cases s; cases "tl s") auto
qed

lemma TrimSpace_graphic:
  assumes "s \<noteq> []" "graphic (hd s)" "graphic (last s)"
  shows "TrimSpace s = s"
proof -
  obtain a t where s: "s = a # t" using assms(1) by (cases s) auto
  have "trimLeft s = s" using assms(2) by (simp add: s trimLeft.simps graphic_no_space)
  moreover obtain b u where u: "rev s = b # u" using assms(1) by (cases "rev s") auto
  then have "b = last s" by (metis last_rev hd_rev list.sel(1) rev_rev_ident)
  then have "trimRev (rev s) = rev s" using assms(3) by (simp add: u trimRev.simps graphic_no_space)
  ultimately show ?thesis by (simp add: TrimSpace_def)
qed

section \<open>Cutting, splitting, case\<close>

definition Cut :: "char \<Rightarrow> string \<Rightarrow> string \<times> string \<times> bool" where
  "Cut c s = (if c \<in> set s then (takeWhile (\<lambda>x. x \<noteq> c) s, tl (dropWhile (\<lambda>x. x \<noteq> c) s), True)
              else (s, [], False))"

lemma Cut_append [simp]: "c \<notin> set a \<Longrightarrow> Cut c (a @ c # b) = (a, b, True)"
  by (induction a) (auto simp: Cut_def)

lemma Cut_absent [simp]: "c \<notin> set a \<Longrightarrow> Cut c a = (a, [], False)"
  by (simp add: Cut_def)

lemma Cut_found:
  "Cut c s = (a, b, True) \<Longrightarrow> s = a @ c # b \<and> c \<notin> set a"
proof -
  assume eq: "Cut c s = (a, b, True)"
  then have c: "c \<in> set s" by (auto simp: Cut_def split: if_splits)
  then obtain ys zs where ys: "s = ys @ c # zs" "c \<notin> set ys"
    by (meson split_list_first)
  then have "Cut c s = (ys, zs, True)" by simp
  with eq ys show ?thesis by simp
qed

lemma Cut_not_found: "Cut c s = (a, b, False) \<Longrightarrow> a = s \<and> b = [] \<and> c \<notin> set s"
  by (auto simp: Cut_def split: if_splits)

fun Split :: "char \<Rightarrow> string \<Rightarrow> string list" where
  "Split c [] = [[]]"
| "Split c (x # s) =
     (if x = c then [] # Split c s
      else case Split c s of [] \<Rightarrow> [[x]] | p # ps \<Rightarrow> (x # p) # ps)"

lemma Split_ne [simp]: "Split c s \<noteq> []"
  by (induction s) (auto split: list.splits)

lemma Split_absent [simp]: "c \<notin> set s \<Longrightarrow> Split c s = [s]"
  by (induction s) auto

lemma Split_append: "c \<notin> set a \<Longrightarrow> Split c (a @ c # s) = a # Split c s"
  by (induction a) (auto split: list.splits)

fun Join :: "string \<Rightarrow> string list \<Rightarrow> string" where
  "Join sep [] = []"
| "Join sep [x] = x"
| "Join sep (x # y # zs) = x @ sep @ Join sep (y # zs)"

lemma Split_Join:
  assumes "ps \<noteq> []" "\<forall>p \<in> set ps. c \<notin> set p"
  shows "Split c (Join [c] ps) = ps"
  using assms by (induction "[c]" ps rule: Join.induct) (auto simp: Split_append)

definition lower_ascii :: "char \<Rightarrow> char" where
  "lower_ascii c = (if 65 \<le> (of_char c :: nat) \<and> (of_char c :: nat) \<le> 90
                    then char_of ((of_char c :: nat) + 32) else c)"

fun ToLower :: "string \<Rightarrow> string" where
  "ToLower [] = []"
| "ToLower [a] = [lower_ascii a]"
| "ToLower [a, b] =
     (if of_char a = (196 :: nat) \<and> of_char b = (176 :: nat) then ''i''
      else lower_ascii a # ToLower [b])"
| "ToLower (a # b # c # s) =
     (if of_char a = (196 :: nat) \<and> of_char b = (176 :: nat) then CHR ''i'' # ToLower (c # s)
      else if of_char a = (226 :: nat) \<and> of_char b = (132 :: nat) \<and> of_char c = (170 :: nat)
           then CHR ''k'' # ToLower s
      else lower_ascii a # ToLower (b # c # s))"

section \<open>Decimal integers\<close>

definition is_digit :: "char \<Rightarrow> bool" where
  "is_digit c \<longleftrightarrow> 48 \<le> (of_char c :: nat) \<and> (of_char c :: nat) \<le> 57"

definition digit_val :: "char \<Rightarrow> int" where
  "digit_val c = int (of_char c) - 48"

definition digits_val :: "string \<Rightarrow> int" where
  "digits_val s = foldl (\<lambda>n c. 10 * n + digit_val c) 0 s"

definition ParseInt :: "string \<Rightarrow> int option" where
  "ParseInt s =
     (let (neg, body) = (case s of
            [] \<Rightarrow> (False, [])
          | c # r \<Rightarrow> if c = CHR ''-'' then (True, r) else if c = CHR ''+'' then (False, r) else (False, s))
      in if body = [] \<or> \<not> list_all is_digit body then None
         else let n = (if neg then - digits_val body else digits_val body)
              in if - MaxInt64 - 1 \<le> n \<and> n \<le> MaxInt64 then Some n else None)"

lemma ParseInt_bounds: "ParseInt s = Some n \<Longrightarrow> - MaxInt64 - 1 \<le> n \<and> n \<le> MaxInt64"
  by (auto simp: ParseInt_def Let_def split: prod.splits if_splits)

definition HasPrefix :: "string \<Rightarrow> string \<Rightarrow> bool" where
  "HasPrefix s p \<longleftrightarrow> take (length p) s = p"

lemma HasPrefix_append [simp]: "HasPrefix (p @ s) p"
  by (simp add: HasPrefix_def)

end
