(* ===== verification/Go_Url.thy ===== *)
theory Go_Url
  imports Go_Strings
begin

text \<open>
  The query half of Go's \<open>net/url\<close> that route selectors use: \<open>url.Values\<close> as a map from
  a key to its values, \<open>ParseQuery\<close>, \<open>Values.Get\<close> and \<open>Values.Encode\<close>, with
  \<open>QueryEscape\<close>/\<open>QueryUnescape\<close> on bytes. The main result is that parsing inverts encoding.
\<close>

type_synonym url_values = "(string, string list) gomap"

section \<open>Escaping\<close>

definition unreserved :: "char \<Rightarrow> bool" where
  "unreserved c \<longleftrightarrow>
     (let n = (of_char c :: nat) in
      97 \<le> n \<and> n \<le> 122 \<or> 65 \<le> n \<and> n \<le> 90 \<or> 48 \<le> n \<and> n \<le> 57 \<or> n \<in> {45, 95, 46, 126})"

definition hex_char :: "nat \<Rightarrow> char" where
  "hex_char n = (if n < 10 then char_of (48 + n) else char_of (55 + n))"

definition unhex :: "char \<Rightarrow> nat option" where
  "unhex c =
     (let n = (of_char c :: nat) in
      if 48 \<le> n \<and> n \<le> 57 then Some (n - 48)
      else if 97 \<le> n \<and> n \<le> 102 then Some (n - 87)
      else if 65 \<le> n \<and> n \<le> 70 then Some (n - 55)
      else None)"

definition escape_char :: "char \<Rightarrow> string" where
  "escape_char c =
     (if unreserved c then [c]
      else if c = CHR '' '' then ''+''
      else [CHR ''%'', hex_char (of_char c div 16), hex_char (of_char c mod 16)])"

definition QueryEscape :: "string \<Rightarrow> string" where
  "QueryEscape s = concat (map escape_char s)"

fun QueryUnescape :: "string \<Rightarrow> string option" where
  "QueryUnescape [] = Some []"
| "QueryUnescape (c # s) =
     (if c = CHR ''%'' then
        (case s of
           a # b # r \<Rightarrow>
             (case (unhex a, unhex b) of
                (Some x, Some y) \<Rightarrow> map_option (\<lambda>t. char_of (16 * x + y) # t) (QueryUnescape r)
              | _ \<Rightarrow> None)
         | _ \<Rightarrow> None)
      else map_option (\<lambda>t. (if c = CHR ''+'' then CHR '' '' else c) # t) (QueryUnescape s))"

lemma unhex_hex_char: "n < 16 \<Longrightarrow> unhex (hex_char n) = Some n"
  by (auto simp: unhex_def hex_char_def)

lemma of_char_lt: "(of_char c :: nat) < 256"
  by simp

lemma unreserved_not_special: "unreserved c \<Longrightarrow> c \<noteq> CHR ''%'' \<and> c \<noteq> CHR ''+''"
  by (auto simp: unreserved_def)

lemma QueryUnescape_escape_char:
  "QueryUnescape (escape_char c @ s) = map_option (\<lambda>t. c # t) (QueryUnescape s)"
proof -
  consider "unreserved c" | "\<not> unreserved c" "c = CHR '' ''" | "\<not> unreserved c" "c \<noteq> CHR '' ''" by blast
  then show ?thesis
  proof cases
    case 1
    then show ?thesis using unreserved_not_special [OF 1] by (simp add: escape_char_def)
  next
    case 2
    then show ?thesis by (simp add: escape_char_def)
  next
    case 3
    have "(of_char c :: nat) div 16 < 16" using of_char_lt [of c] by linarith
    moreover have "16 * ((of_char c :: nat) div 16) + of_char c mod 16 = of_char c" by simp
    ultimately show ?thesis using 3 by (simp add: escape_char_def unhex_hex_char)
  qed
qed

lemma QueryUnescape_QueryEscape [simp]: "QueryUnescape (QueryEscape s) = Some s"
  by (induction s) (simp_all add: QueryEscape_def QueryUnescape_escape_char)

text \<open>Characters that can occur in an escaped string.\<close>

definition query_safe :: "char \<Rightarrow> bool" where
  "query_safe c \<longleftrightarrow> unreserved c \<or> c = CHR ''+'' \<or> c = CHR ''%''"

lemma hex_char_unreserved: "n < 16 \<Longrightarrow> unreserved (hex_char n)"
  by (auto simp: unreserved_def hex_char_def)

lemma QueryEscape_safe: "c \<in> set (QueryEscape s) \<Longrightarrow> query_safe c"
proof -
  have "query_safe c" if "c \<in> set (escape_char x)" for x
  proof -
    have "(of_char x :: nat) div 16 < 16" using of_char_lt [of x] by linarith
    then have "unreserved (hex_char (of_char x div 16))" "unreserved (hex_char (of_char x mod 16))"
      by (simp_all add: hex_char_unreserved)
    with that show ?thesis
      by (auto simp: escape_char_def query_safe_def split: if_splits)
  qed
  then show "c \<in> set (QueryEscape s) \<Longrightarrow> query_safe c" by (auto simp: QueryEscape_def)
qed

lemma query_safe_not:
  "query_safe c \<Longrightarrow> c \<notin> {CHR ''&'', CHR ''='', CHR '';'', CHR ''?''}"
  by (auto simp: query_safe_def unreserved_def)

lemma query_safe_graphic: "query_safe c \<Longrightarrow> graphic c"
  by (auto simp: query_safe_def unreserved_def graphic_def Let_def)

section \<open>Values\<close>

definition values_add :: "string \<Rightarrow> string \<Rightarrow> url_values \<Rightarrow> url_values" where
  "values_add k v m = AList.update k ((case map_of m k of None \<Rightarrow> [] | Some vs \<Rightarrow> vs) @ [v]) m"

definition Values_Get :: "url_values \<Rightarrow> string \<Rightarrow> string" where
  "Values_Get m k = (case map_of m k of Some (v # vs) \<Rightarrow> v | _ \<Rightarrow> [])"

fun parse_pairs :: "string list \<Rightarrow> url_values \<Rightarrow> url_values option" where
  "parse_pairs [] m = Some m"
| "parse_pairs (p # ps) m =
     (if CHR '';'' \<in> set p then None
      else if p = [] then parse_pairs ps m
      else case Cut (CHR ''='') p of (k, v, _) \<Rightarrow>
        (case QueryUnescape k of
           None \<Rightarrow> None
         | Some k' \<Rightarrow>
             (case QueryUnescape v of
                None \<Rightarrow> None
              | Some v' \<Rightarrow> parse_pairs ps (values_add k' v' m))))"

definition ParseQuery :: "string \<Rightarrow> url_values option" where
  "ParseQuery q = parse_pairs (Split (CHR ''&'') q) []"

definition encode_pair :: "string \<Rightarrow> string \<Rightarrow> string" where
  "encode_pair k v = QueryEscape k @ CHR ''='' # QueryEscape v"

definition encode_pairs :: "url_values \<Rightarrow> string list" where
  "encode_pairs m = concat (map (\<lambda>(k, vs). map (encode_pair k) vs) m)"

text \<open>\<open>Encode\<close> visits the keys in sorted order.\<close>

definition sorted_values :: "url_values \<Rightarrow> url_values" where
  "sorted_values m = map (\<lambda>k. (k, the (map_of m k))) (sort (map fst m))"

definition Values_Encode :: "url_values \<Rightarrow> string" where
  "Values_Encode m = Join ''&'' (encode_pairs (sorted_values m))"

definition canonical_values :: "url_values \<Rightarrow> bool" where
  "canonical_values m \<longleftrightarrow> sorted (map fst m) \<and> distinct (map fst m) \<and> (\<forall>(k, vs) \<in> set m. vs \<noteq> [])"

lemma sorted_values_canonical: "canonical_values m \<Longrightarrow> sorted_values m = m"
proof -
  assume m: "canonical_values m"
  then have "sort (map fst m) = map fst m" by (simp add: canonical_values_def sorted_sort_id)
  then have "sorted_values m = map (\<lambda>p. (fst p, the (map_of m (fst p)))) m"
    by (simp add: sorted_values_def)
  also have "\<dots> = map (\<lambda>p. p) m"
    using m by (intro map_cong) (auto simp: canonical_values_def)
  finally show ?thesis by simp
qed

lemma values_add_fresh: "k \<notin> fst ` set m \<Longrightarrow> values_add k v m = m @ [(k, [v])]"
proof -
  have "k \<notin> fst ` set m \<Longrightarrow> AList.update k x m = m @ [(k, x)]" for x :: "string list"
    by (induction m) auto
  moreover assume "k \<notin> fst ` set m"
  moreover from this have "map_of m k = None" by (simp add: map_of_eq_None_iff)
  ultimately show ?thesis by (simp add: values_add_def)
qed

lemma values_add_last: "k \<notin> fst ` set m \<Longrightarrow> values_add k v (m @ [(k, vs)]) = m @ [(k, vs @ [v])]"
proof -
  have "k \<notin> fst ` set m \<Longrightarrow> AList.update k x (m @ [(k, y)]) = m @ [(k, x)]" for x y :: "string list"
    by (induction m) auto
  moreover assume "k \<notin> fst ` set m"
  moreover from this have "map_of (m @ [(k, vs)]) k = Some vs"
    by (simp add: map_add_def map_of_eq_None_iff [THEN iffD2])
  ultimately show ?thesis by (simp add: values_add_def)
qed

lemma encode_pair_chars:
  "CHR ''&'' \<notin> set (encode_pair k v)" "CHR '';'' \<notin> set (encode_pair k v)"
  "CHR ''?'' \<notin> set (encode_pair k v)" "encode_pair k v \<noteq> []"
  "Cut (CHR ''='') (encode_pair k v) = (QueryEscape k, QueryEscape v, True)"
proof -
  have no: "c \<notin> set (QueryEscape s)" if "c \<in> {CHR ''&'', CHR ''='', CHR '';'', CHR ''?''}" for c s
    using that QueryEscape_safe [THEN query_safe_not] by blast
  then show "CHR ''&'' \<notin> set (encode_pair k v)" "CHR '';'' \<notin> set (encode_pair k v)"
    "CHR ''?'' \<notin> set (encode_pair k v)" "encode_pair k v \<noteq> []"
    by (auto simp: encode_pair_def)
  from no have "CHR ''='' \<notin> set (QueryEscape k)" by simp
  then show "Cut (CHR ''='') (encode_pair k v) = (QueryEscape k, QueryEscape v, True)"
    by (simp add: encode_pair_def)
qed

lemma parse_pairs_step:
  "parse_pairs (encode_pair k v # ps) m = parse_pairs ps (values_add k v m)"
  by (simp add: encode_pair_chars)

lemma parse_pairs_more:
  "k \<notin> fst ` set m \<Longrightarrow>
   parse_pairs (map (encode_pair k) vs @ ps) (m @ [(k, ws)]) = parse_pairs ps (m @ [(k, ws @ vs)])"
  by (induction vs arbitrary: ws) (simp_all add: parse_pairs_step values_add_last del: parse_pairs.simps)

lemma parse_pairs_key:
  assumes "k \<notin> fst ` set m" "vs \<noteq> []"
  shows "parse_pairs (map (encode_pair k) vs @ ps) m = parse_pairs ps (m @ [(k, vs)])"
  using assms by (cases vs)
    (simp_all add: parse_pairs_step values_add_fresh parse_pairs_more del: parse_pairs.simps)

lemma parse_pairs_encode:
  assumes "distinct (map fst (m @ n))" "\<forall>(k, vs) \<in> set n. vs \<noteq> []"
  shows "parse_pairs (encode_pairs n) m = Some (m @ n)"
  using assms
proof (induction n arbitrary: m)
  case Nil
  then show ?case by (simp add: encode_pairs_def)
next
  case (Cons p n)
  obtain k vs where p: "p = (k, vs)" by (cases p)
  with Cons.prems have "k \<notin> fst ` set m" "vs \<noteq> []" by auto
  then have "parse_pairs (encode_pairs (p # n)) m = parse_pairs (encode_pairs n) (m @ [(k, vs)])"
    by (simp add: p encode_pairs_def parse_pairs_key del: parse_pairs.simps)
  with Cons.IH [of "m @ [(k, vs)]"] Cons.prems p show ?case by simp
qed

lemma ParseQuery_Encode:
  assumes "canonical_values m"
  shows "ParseQuery (Values_Encode m) = Some m"
proof (cases "encode_pairs m = []")
  case True
  with assms have "m = []"
    by (cases m) (auto simp: encode_pairs_def canonical_values_def)
  then show ?thesis by (simp add: ParseQuery_def Values_Encode_def encode_pairs_def sorted_values_def)
next
  case False
  have "\<forall>p \<in> set (encode_pairs m). CHR ''&'' \<notin> set p"
    by (auto simp: encode_pairs_def encode_pair_chars)
  then have "Split (CHR ''&'') (Values_Encode m) = encode_pairs m"
    using False by (simp add: Values_Encode_def sorted_values_canonical [OF assms] Split_Join)
  then show ?thesis
    using parse_pairs_encode [of "[]" m] assms by (simp add: ParseQuery_def canonical_values_def)
qed

lemma set_Join: "set (Join sep ps) \<subseteq> set sep \<union> (\<Union>p \<in> set ps. set p)"
  by (induction sep ps rule: Join.induct) auto

lemma Values_Encode_chars: "c \<in> set (Values_Encode m) \<Longrightarrow> query_safe c \<or> c = CHR ''&'' \<or> c = CHR ''=''"
  using set_Join [of "''&''" "encode_pairs (sorted_values m)"]
  by (fastforce simp: Values_Encode_def encode_pairs_def encode_pair_def dest: QueryEscape_safe)

end
