(* ===== verification/Routing_Selector.thy ===== *)
theory Routing_Selector
  imports Go_Url
begin

text \<open>
  The route selector AST of \<open>internal/core/routing/selector.go\<close>: an ordered failover
  chain whose arms are a single primary, a weighted group or a parallel race, and the
  diagnostic key of a primary, which the exclusion and health maps use. A nil pointer is
  \<open>None\<close>; \<open>url.Values\<close> nil and empty are both the empty map. The selector loops of the
  parser are in \<open>Routing_Parser\<close>.
\<close>

datatype AffinityMode = AffinityNone | AffinitySession | AffinityClient | AffinityOther string

record RequestSizeConstraint =
  MinContextTokens :: "int option"
  MaxContextTokens :: "int option"

record Primary =
  Backend :: string
  Model :: string
  NativeModel :: string
  Params :: url_values
  Size :: RequestSizeConstraint
  TTFTTimeout :: "duration option"

record ParallelBranch =
  pbTarget :: Primary
  pbHandicap :: duration

record Parallel =
  pBranches :: "ParallelBranch list"

record WeightedBranch =
  Weight :: int
  IsFirst :: bool
  IsThinker :: bool
  wbTarget :: Primary
  wbParallel :: "Parallel option"

record Weighted =
  wBranches :: "WeightedBranch list"

record FailoverAlt =
  altPrimary :: "Primary option"
  altWeighted :: "Weighted option"
  altParallel :: "Parallel option"

record Selector =
  Alternatives :: "FailoverAlt list"
  GlobalTTFTTimeout :: "duration option"
  Affinity :: AffinityMode

definition no_size :: RequestSizeConstraint where
  "no_size = \<lparr>MinContextTokens = None, MaxContextTokens = None\<rparr>"

definition zero_Primary :: Primary where
  "zero_Primary = \<lparr>Backend = [], Model = [], NativeModel = [], Params = [], Size = no_size, TTFTTimeout = None\<rparr>"

definition TrimmedParam :: "Primary \<Rightarrow> string \<Rightarrow> string" where
  "TrimmedParam p key = TrimSpace (Values_Get (Params p) key)"

definition Primary_String :: "Primary \<Rightarrow> string" where
  "Primary_String p =
     (if Backend p \<noteq> [] then Backend p @ '':'' else [])
     @ Model p
     @ (if Params p \<noteq> [] then CHR ''?'' # Values_Encode (Params p) else [])"

text \<open>Every leaf of a selector, in execution-plan order.\<close>

definition branch_leaves :: "WeightedBranch \<Rightarrow> Primary list" where
  "branch_leaves b = (case wbParallel b of
       Some g \<Rightarrow> map pbTarget (pBranches g)
     | None \<Rightarrow> [wbTarget b])"

definition alt_leaves :: "FailoverAlt \<Rightarrow> Primary list" where
  "alt_leaves alt =
     (case altPrimary alt of Some p \<Rightarrow> [p]
      | None \<Rightarrow> (case altWeighted alt of Some w \<Rightarrow> concat (map branch_leaves (wBranches w))
      | None \<Rightarrow> (case altParallel alt of Some g \<Rightarrow> map pbTarget (pBranches g)
      | None \<Rightarrow> [])))"

end
