(* ===== verification/Routing_Parser.thy ===== *)
theory Routing_Parser
  imports Routing_Selector
begin

text \<open>
  The recursive-descent parser of \<open>internal/core/routing/parser.go\<close>, from the selector
  string to the AST. Every error of the parser wraps \<open>ErrInvalidSelector\<close>; the model keeps
  the fixed text of each message and drops its formatted arguments. Loops that consume a
  bracket prefix recurse on the rest of the string and terminate because it gets shorter.
\<close>

datatype sel_error = ErrInvalidSelector string

type_synonym 'a res = "sel_error + 'a"

definition maxParallelBranches :: nat where
  "maxParallelBranches = 16"

section \<open>Scanning\<close>

fun splitOutside :: "char \<Rightarrow> int \<Rightarrow> string \<Rightarrow> string \<Rightarrow> string list" where
  "splitOutside sep depth cur [] = [rev cur]"
| "splitOutside sep depth cur (c # s) =
     (if c = CHR ''['' then splitOutside sep (depth + 1) (c # cur) s
      else if c = CHR '']'' then splitOutside sep (depth - 1) (c # cur) s
      else if c = sep \<and> depth = 0 then rev cur # splitOutside sep depth [] s
      else splitOutside sep depth (c # cur) s)"

definition splitOutsideBrackets :: "string \<Rightarrow> char \<Rightarrow> string list" where
  "splitOutsideBrackets s sep = splitOutside sep 0 [] s"

fun hasTopLevel :: "char \<Rightarrow> int \<Rightarrow> string \<Rightarrow> bool" where
  "hasTopLevel x depth [] = False"
| "hasTopLevel x depth (c # s) =
     (if c = CHR ''['' then hasTopLevel x (depth + 1) s
      else if c = CHR '']'' then hasTopLevel x (depth - 1) s
      else if c = x \<and> depth = 0 then True
      else hasTopLevel x depth s)"

definition hasTopLevelBang :: "string \<Rightarrow> bool" where
  "hasTopLevelBang s = hasTopLevel (CHR ''!'') 0 s"

definition hasTopLevelCaret :: "string \<Rightarrow> bool" where
  "hasTopLevelCaret s = hasTopLevel (CHR ''^'') 0 s"

definition splitParallelLegs :: "string \<Rightarrow> string list" where
  "splitParallelLegs s = splitOutsideBrackets s (CHR ''!'')"

text \<open>\<open>strings.HasPrefix(s, string(c))\<close> for one byte.\<close>

definition starts :: "char \<Rightarrow> string \<Rightarrow> bool" where
  "starts c s = (case s of [] \<Rightarrow> False | x # _ \<Rightarrow> x = c)"

text \<open>
  A leading \<open>[...]\<close>: the text inside and the rest. \<open>None\<close> when there is no closing bracket.
\<close>

definition bracket_block :: "string \<Rightarrow> (string \<times> string) option" where
  "bracket_block s = (case Cut (CHR '']'') s of
       (pre, after, found) \<Rightarrow> if found then Some (tl pre, after) else None)"

lemma bracket_block_shorter:
  "starts (CHR ''['') s \<Longrightarrow> bracket_block s = Some (i, after) \<Longrightarrow> length (TrimSpace after) < length s"
proof -
  assume "bracket_block s = Some (i, after)"
  then obtain pre where "Cut (CHR '']'') s = (pre, after, True)"
    by (auto simp: bracket_block_def split: prod.splits if_splits)
  then have "s = pre @ CHR '']'' # after" using Cut_found by blast
  then show "length (TrimSpace after) < length s"
    using length_TrimSpace [of after] by simp
qed

text \<open>The key of an annotation entry, trimmed and lower-cased.\<close>

definition entry_key :: "string \<Rightarrow> string" where
  "entry_key entry =
     (let key = TrimSpace entry in
      case Cut (CHR ''='') key of (left, _, ok) \<Rightarrow> ToLower (TrimSpace (if ok then left else key)))"

function hasAnnotation :: "string list \<Rightarrow> bool \<Rightarrow> string \<Rightarrow> bool" where
  "hasAnnotation names unclosed s =
     (if \<not> starts (CHR ''['') s then False
      else case bracket_block s of
             None \<Rightarrow> unclosed
           | Some (inside, after) \<Rightarrow>
               if list_ex (\<lambda>e. entry_key e \<in> set names) (Split (CHR '','') inside) then True
               else hasAnnotation names unclosed (TrimSpace after))"
  by pat_completeness auto
termination
  by (relation "measure (\<lambda>(n, u, s). length s)") (auto intro: bracket_block_shorter)

declare hasAnnotation.simps [simp del]

definition hasWeightedAnnotationPrefix :: "string \<Rightarrow> bool" where
  "hasWeightedAnnotationPrefix s = hasAnnotation [''weight'', ''first'', ''thinker''] True (TrimSpace s)"

definition prefixHasThinker :: "string \<Rightarrow> bool" where
  "prefixHasThinker s = hasAnnotation [''thinker''] False (TrimSpace s)"

function globalBlock :: "char option \<Rightarrow> string \<Rightarrow> bool" where
  "globalBlock prev [] = False"
| "globalBlock prev (c # s) =
     (if c \<noteq> CHR ''{'' \<or> prev = Some (CHR ''$'') then globalBlock (Some c) s
      else case Cut (CHR ''}'') s of (inside, after, found) \<Rightarrow>
        if \<not> found then globalBlock (Some c) s
        else if ToLower (TrimSpace (fst (Cut (CHR ''='') (TrimSpace inside))))
                  \<in> {''ttft_timeout'', ''affinity'', ''session_sticky'', ''client_sticky''} then True
        else globalBlock (Some (CHR ''}'')) after)"
  by pat_completeness auto
termination
  by (relation "measure (\<lambda>(p, s). length s)") (auto dest!: Cut_found [OF sym])

definition containsGlobalParamBlock :: "string \<Rightarrow> bool" where
  "containsGlobalParamBlock s = globalBlock None s"

section \<open>Annotation values\<close>

definition parsePositiveInt64Annotation :: "string \<Rightarrow> bool \<Rightarrow> int res" where
  "parsePositiveInt64Annotation raw hasValue =
     (if \<not> hasValue \<or> TrimSpace raw = [] then Inl (ErrInvalidSelector ''must be a positive integer'')
      else case ParseInt raw of
             None \<Rightarrow> Inl (ErrInvalidSelector ''must be a positive integer'')
           | Some n \<Rightarrow> if n \<le> 0 then Inl (ErrInvalidSelector ''must be a positive integer'') else Inr n)"

definition parsePositiveIntAnnotation :: "string \<Rightarrow> bool \<Rightarrow> int res" where
  "parsePositiveIntAnnotation raw hasValue =
     (case parsePositiveInt64Annotation raw hasValue of
        Inl e \<Rightarrow> Inl e
      | Inr n \<Rightarrow> if n > MaxInt64 then Inl (ErrInvalidSelector ''is too large'') else Inr n)"

definition parsePositiveTokenCountAnnotation :: "string \<Rightarrow> bool \<Rightarrow> int res" where
  "parsePositiveTokenCountAnnotation raw hasValue =
     (let bad = Inl (ErrInvalidSelector ''must be a positive token count with optional K/M suffix'') in
      if \<not> hasValue \<or> TrimSpace raw = [] then bad
      else let s = TrimSpace raw;
               (multiplier, s) =
                 (if last s \<in> {CHR ''k'', CHR ''K''} then (1000, TrimSpace (butlast s))
                  else if last s \<in> {CHR ''m'', CHR ''M''} then (1000000, TrimSpace (butlast s))
                  else (1, s))
           in if s = [] then bad
              else case ParseInt s of
                     None \<Rightarrow> bad
                   | Some n \<Rightarrow>
                       if n \<le> 0 then bad
                       else if n > MaxInt64 div multiplier then Inl (ErrInvalidSelector ''is too large'')
                       else Inr (n * multiplier))"

definition parsePositiveSecondsDurationAnnotation :: "string \<Rightarrow> bool \<Rightarrow> duration res" where
  "parsePositiveSecondsDurationAnnotation raw hasValue =
     (case parsePositiveInt64Annotation raw hasValue of
        Inl e \<Rightarrow> Inl e
      | Inr n \<Rightarrow> if n > MaxInt64 div Second then Inl (ErrInvalidSelector ''is too large'')
                 else Inr (n * Second))"

definition parseThinkerValue :: "string \<Rightarrow> bool \<Rightarrow> bool res" where
  "parseThinkerValue raw hasValue =
     (if \<not> hasValue then Inr True
      else if ToLower (TrimSpace raw) \<in> {''1'', ''yes'', ''true''} then Inr True
      else Inl (ErrInvalidSelector ''[thinker] must be a true-valued boolean''))"

section \<open>Prefix annotations\<close>

record prefixAnnotations =
  annWeight :: "int option"
  annFirst :: bool
  annThinker :: bool
  annSize :: RequestSizeConstraint
  annTTFT :: "duration option"
  annHandicap :: "duration option"

definition no_annotations :: prefixAnnotations where
  "no_annotations = \<lparr>annWeight = None, annFirst = False, annThinker = False, annSize = no_size,
     annTTFT = None, annHandicap = None\<rparr>"

text \<open>One iteration of the loop over the comma-separated entries of an annotation block.\<close>

definition annotationEntry :: "prefixAnnotations \<Rightarrow> string \<Rightarrow> prefixAnnotations res" where
  "annotationEntry ann entry0 =
     (let entry = TrimSpace entry0 in
      if entry = [] then Inl (ErrInvalidSelector ''malformed annotation list'')
      else case Cut (CHR ''='') entry of (key0, raw0, hasValue) \<Rightarrow>
        let key = ToLower (TrimSpace key0);
            raw = (if hasValue then TrimSpace raw0 else raw0)
        in if key = ''weight'' then
             (if annWeight ann \<noteq> None then Inl (ErrInvalidSelector ''duplicate [weight=N] annotation'')
              else case parsePositiveIntAnnotation raw hasValue of
                     Inl e \<Rightarrow> Inl e | Inr n \<Rightarrow> Inr (ann\<lparr>annWeight := Some n\<rparr>))
           else if key = ''first'' then
             (if annFirst ann then Inl (ErrInvalidSelector ''duplicate [first] annotation'')
              else if hasValue \<and> TrimSpace raw \<noteq> [] then
                Inl (ErrInvalidSelector ''[first] does not take a value'')
              else Inr (ann\<lparr>annFirst := True\<rparr>))
           else if key = ''thinker'' then
             (if annThinker ann then Inl (ErrInvalidSelector ''duplicate [thinker] annotation'')
              else case parseThinkerValue raw hasValue of
                     Inl e \<Rightarrow> Inl e | Inr on \<Rightarrow> Inr (ann\<lparr>annThinker := on\<rparr>))
           else if key = ''max_context'' then
             (if MaxContextTokens (annSize ann) \<noteq> None then
                Inl (ErrInvalidSelector ''duplicate [max_context=N] annotation'')
              else case parsePositiveTokenCountAnnotation raw hasValue of
                     Inl e \<Rightarrow> Inl e
                   | Inr n \<Rightarrow> Inr (ann\<lparr>annSize := (annSize ann)\<lparr>MaxContextTokens := Some n\<rparr>\<rparr>))
           else if key = ''min_context'' then
             (if MinContextTokens (annSize ann) \<noteq> None then
                Inl (ErrInvalidSelector ''duplicate [min_context=N] annotation'')
              else case parsePositiveTokenCountAnnotation raw hasValue of
                     Inl e \<Rightarrow> Inl e
                   | Inr n \<Rightarrow> Inr (ann\<lparr>annSize := (annSize ann)\<lparr>MinContextTokens := Some n\<rparr>\<rparr>))
           else if key = ''ttft_timeout'' then
             (if annTTFT ann \<noteq> None then Inl (ErrInvalidSelector ''duplicate [ttft_timeout=N] annotation'')
              else case parsePositiveSecondsDurationAnnotation raw hasValue of
                     Inl e \<Rightarrow> Inl e | Inr d \<Rightarrow> Inr (ann\<lparr>annTTFT := Some d\<rparr>))
           else if key = ''handicap'' then
             (if annHandicap ann \<noteq> None then Inl (ErrInvalidSelector ''duplicate [handicap=N] annotation'')
              else case parsePositiveSecondsDurationAnnotation raw hasValue of
                     Inl e \<Rightarrow> Inl e | Inr d \<Rightarrow> Inr (ann\<lparr>annHandicap := Some d\<rparr>))
           else Inl (ErrInvalidSelector ''unsupported annotation key''))"

function annotationBlocks :: "prefixAnnotations \<Rightarrow> string \<Rightarrow> (prefixAnnotations \<times> string) res" where
  "annotationBlocks ann rest =
     (if \<not> starts (CHR ''['') rest then Inr (ann, rest)
      else case bracket_block rest of
             None \<Rightarrow> Inl (ErrInvalidSelector ''unclosed annotation prefix'')
           | Some (inside, after) \<Rightarrow>
               if TrimSpace inside = [] then Inl (ErrInvalidSelector ''empty annotation prefix'')
               else case foldR annotationEntry ann (Split (CHR '','') (TrimSpace inside)) of
                      Inl e \<Rightarrow> Inl e
                    | Inr ann' \<Rightarrow> annotationBlocks ann' (TrimSpace after))"
  by pat_completeness auto
termination
  by (relation "measure (\<lambda>(a, s). length s)") (auto intro: bracket_block_shorter)

declare annotationBlocks.simps [simp del]

definition extractPrefixAnnotations :: "string \<Rightarrow> (prefixAnnotations \<times> string) res" where
  "extractPrefixAnnotations s =
     (case annotationBlocks no_annotations (TrimSpace s) of
        Inl e \<Rightarrow> Inl e
      | Inr (ann, rest) \<Rightarrow>
          (case (MinContextTokens (annSize ann), MaxContextTokens (annSize ann)) of
             (Some lo, Some hi) \<Rightarrow>
               if lo \<ge> hi then Inl (ErrInvalidSelector ''min_context must be less than max_context'')
               else Inr (ann, rest)
           | _ \<Rightarrow> Inr (ann, rest)))"

section \<open>Primaries and branches\<close>

definition parsePrimaryWithAnnotations :: "string \<Rightarrow> prefixAnnotations \<Rightarrow> Primary res" where
  "parsePrimaryWithAnnotations s ann =
     (let raw = TrimSpace s in
      if raw = [] then Inl (ErrInvalidSelector ''empty primary'')
      else case Cut (CHR ''?'') raw of (path0, queryStr, hasQuery) \<Rightarrow>
        (case (if hasQuery then ParseQuery queryStr else Some []) of
           None \<Rightarrow> Inl (ErrInvalidSelector ''parse query'')
         | Some vals \<Rightarrow>
             let path = TrimSpace path0 in
             if path = [] then Inl (ErrInvalidSelector ''missing model in primary'')
             else if containsGlobalParamBlock path then
               Inl (ErrInvalidSelector ''global parameters must appear before the first leaf'')
             else case Cut (CHR '':'') path of (backend0, model0, hasColon) \<Rightarrow>
               let backend = TrimSpace (if hasColon then backend0 else []);
                   model = TrimSpace (if hasColon then model0 else path)
               in if model = [] then Inl (ErrInvalidSelector ''model is required'')
                  else if CHR ''|'' \<in> set backend \<or> CHR ''|'' \<in> set model then
                    Inl (ErrInvalidSelector ''unexpected pipe in primary'')
                  else Inr \<lparr>Backend = backend, Model = model, NativeModel = [], Params = vals,
                            Size = annSize ann, TTFTTimeout = annTTFT ann\<rparr>))"

definition parsePrimary :: "string \<Rightarrow> Primary res" where
  "parsePrimary s =
     (case extractPrefixAnnotations s of
        Inl e \<Rightarrow> Inl e
      | Inr (ann, rest) \<Rightarrow>
          if annWeight ann \<noteq> None \<or> annFirst ann then
            Inl (ErrInvalidSelector ''[weight] and [first] are only valid on weighted branches'')
          else if annThinker ann then
            Inl (ErrInvalidSelector ''[thinker] is only valid on weighted branches'')
          else if annHandicap ann \<noteq> None then
            Inl (ErrInvalidSelector ''[handicap] is only valid on parallel branches'')
          else parsePrimaryWithAnnotations rest ann)"

definition parseParallelBranch :: "string \<Rightarrow> ParallelBranch res" where
  "parseParallelBranch s =
     (case extractPrefixAnnotations s of
        Inl e \<Rightarrow> Inl e
      | Inr (ann, rest0) \<Rightarrow>
          if annWeight ann \<noteq> None \<or> annFirst ann then
            Inl (ErrInvalidSelector ''[weight] and [first] are not valid on parallel branches'')
          else if annThinker ann then
            Inl (ErrInvalidSelector ''[thinker] is only valid on weighted branches'')
          else let rest = TrimSpace rest0 in
            if rest = [] then Inl (ErrInvalidSelector ''missing primary after annotations'')
            else case parsePrimaryWithAnnotations rest ann of
                   Inl e \<Rightarrow> Inl e
                 | Inr p \<Rightarrow> Inr \<lparr>pbTarget = p,
                     pbHandicap = (case annHandicap ann of None \<Rightarrow> 0 | Some d \<Rightarrow> d)\<rparr>)"

definition parseParallel :: "string \<Rightarrow> Parallel res" where
  "parseParallel s =
     (let parts = splitParallelLegs s in
      if length parts > maxParallelBranches then Inl (ErrInvalidSelector ''too many parallel branches'')
      else case mapR (\<lambda>part. let part = TrimSpace part in
                  if part = [] then Inl (ErrInvalidSelector ''empty parallel branch'')
                  else parseParallelBranch part) parts of
             Inl e \<Rightarrow> Inl e
           | Inr branches \<Rightarrow>
               if branches = [] then Inl (ErrInvalidSelector ''no parallel branches'')
               else Inr \<lparr>pBranches = branches\<rparr>)"

definition parseWeightedBranch :: "string \<Rightarrow> WeightedBranch res" where
  "parseWeightedBranch s =
     (case extractPrefixAnnotations s of
        Inl e \<Rightarrow> Inl e
      | Inr (ann, rest0) \<Rightarrow>
          if annHandicap ann \<noteq> None then
            Inl (ErrInvalidSelector ''[handicap] is only valid on parallel branches'')
          else let weight = (case annWeight ann of None \<Rightarrow> 1 | Some n \<Rightarrow> n) in
            if annFirst ann \<and> annThinker ann then
              Inl (ErrInvalidSelector ''[first] and [thinker] cannot be combined on the same branch'')
            else let rest = TrimSpace rest0 in
              if rest = [] then Inl (ErrInvalidSelector ''missing primary after annotations'')
              else case parsePrimaryWithAnnotations rest ann of
                     Inl e \<Rightarrow> Inl e
                   | Inr p \<Rightarrow> Inr \<lparr>Weight = weight, IsFirst = annFirst ann, IsThinker = annThinker ann,
                                   wbTarget = p, wbParallel = None\<rparr>)"

definition parseWeighted :: "string \<Rightarrow> Weighted res" where
  "parseWeighted s =
     (case mapR (\<lambda>part. let part = TrimSpace part in
             if part = [] then Inl (ErrInvalidSelector ''empty weighted branch'')
             else parseWeightedBranch part) (splitOutsideBrackets s (CHR ''^'')) of
        Inl e \<Rightarrow> Inl e
      | Inr branches \<Rightarrow>
          if branches = [] then Inl (ErrInvalidSelector ''no weighted branches'')
          else Inr \<lparr>wBranches = branches\<rparr>)"

definition parseWeightedBranchWithParallelTarget :: "string \<Rightarrow> WeightedBranch res" where
  "parseWeightedBranchWithParallelTarget s =
     (let rest = TrimSpace s in
      if rest = [] then Inl (ErrInvalidSelector ''missing parallel executor expression'')
      else if \<not> hasTopLevelBang rest then
        Inl (ErrInvalidSelector ''embedded executor branch must be a parallel group'')
      else case parseParallel rest of
             Inl e \<Rightarrow> Inl e
           | Inr p \<Rightarrow> Inr \<lparr>Weight = 1, IsFirst = False, IsThinker = False,
                           wbTarget = zero_Primary, wbParallel = Some p\<rparr>)"

definition validateWeightedFirst :: "Weighted \<Rightarrow> unit res" where
  "validateWeightedFirst w =
     (if length (filter IsFirst (wBranches w)) > 1
      then Inl (ErrInvalidSelector ''at most one [first] branch is allowed in a weighted selector'')
      else Inr ())"

definition validateWeightedThinker :: "Weighted \<Rightarrow> unit res" where
  "validateWeightedThinker w =
     (let thinkerCount = length (filter IsThinker (wBranches w));
          executorCount = length (filter (\<lambda>b. \<not> IsThinker b) (wBranches w))
      in if thinkerCount > 1
         then Inl (ErrInvalidSelector ''at most one [thinker] branch is allowed in a weighted selector'')
         else if thinkerCount > 0 \<and> executorCount = 0
         then Inl (ErrInvalidSelector
                ''weighted selector with [thinker] requires at least one non-thinker branch'')
         else Inr ())"

text \<open>\<open>Inr None\<close> is the source's \<open>(nil, nil)\<close>: the input does not have the hybrid shape.\<close>

definition tryParseThinkerParallelHybrid :: "string \<Rightarrow> Weighted option res" where
  "tryParseThinkerParallelHybrid s =
     (case splitOutsideBrackets s (CHR ''^'') of
        [part0, part1] \<Rightarrow>
          (let t0 = prefixHasThinker part0; t1 = prefixHasThinker part1 in
           if t0 = t1 then Inr None
           else let thinkerPart = (if t1 then part1 else part0);
                    executorPart = (if t1 then part0 else part1)
             in if hasTopLevelBang thinkerPart then
                  Inl (ErrInvalidSelector ''[thinker] branch cannot target an embedded parallel executor group'')
                else if \<not> hasTopLevelBang executorPart then Inr None
                else case parseWeightedBranch thinkerPart of
                       Inl e \<Rightarrow> Inl e
                     | Inr thinker \<Rightarrow>
                         if \<not> IsThinker thinker then
                           Inl (ErrInvalidSelector ''[thinker] annotation required on thinker branch'')
                         else case parseWeightedBranchWithParallelTarget executorPart of
                                Inl e \<Rightarrow> Inl e
                              | Inr executor \<Rightarrow>
                                  Inr (Some \<lparr>wBranches = (if t1 then [executor, thinker]
                                                          else [thinker, executor])\<rparr>))
      | _ \<Rightarrow> Inr None)"

section \<open>Failover arms and the selector\<close>

definition alt_of_primary :: "Primary \<Rightarrow> FailoverAlt" where
  "alt_of_primary p = \<lparr>altPrimary = Some p, altWeighted = None, altParallel = None\<rparr>"

definition alt_of_weighted :: "Weighted \<Rightarrow> FailoverAlt" where
  "alt_of_weighted w = \<lparr>altPrimary = None, altWeighted = Some w, altParallel = None\<rparr>"

definition alt_of_parallel :: "Parallel \<Rightarrow> FailoverAlt" where
  "alt_of_parallel g = \<lparr>altPrimary = None, altWeighted = None, altParallel = Some g\<rparr>"

text \<open>The two validations every weighted arm passes before it is returned.\<close>

definition validatedWeighted :: "Weighted \<Rightarrow> FailoverAlt res" where
  "validatedWeighted w =
     (case validateWeightedFirst w of
        Inl e \<Rightarrow> Inl e
      | Inr _ \<Rightarrow> (case validateWeightedThinker w of Inl e \<Rightarrow> Inl e | Inr _ \<Rightarrow> Inr (alt_of_weighted w)))"

definition parseFailoverAlt :: "string \<Rightarrow> FailoverAlt res" where
  "parseFailoverAlt s0 =
     (let s = TrimSpace s0;
          hasBang = hasTopLevelBang s;
          hasCaret = hasTopLevelCaret s;
          hasWeightAnn = hasWeightedAnnotationPrefix s
      in if hasBang \<and> (hasCaret \<or> hasWeightAnn) then
           (case tryParseThinkerParallelHybrid s of
              Inl e \<Rightarrow> Inl e
            | Inr (Some w) \<Rightarrow> validatedWeighted w
            | Inr None \<Rightarrow> Inl (ErrInvalidSelector ''parallel and weighted cannot be mixed in one arm''))
         else if hasBang then
           (case parseParallel s of Inl e \<Rightarrow> Inl e | Inr p \<Rightarrow> Inr (alt_of_parallel p))
         else if hasCaret \<or> hasWeightAnn then
           (case parseWeighted s of Inl e \<Rightarrow> Inl e | Inr w \<Rightarrow> validatedWeighted w)
         else (case parsePrimary s of Inl e \<Rightarrow> Inl e | Inr p \<Rightarrow> Inr (alt_of_primary p)))"

record globalParams =
  gTTFT :: "duration option"
  gAffinity :: AffinityMode

definition globalEntry :: "globalParams \<Rightarrow> string \<Rightarrow> globalParams res" where
  "globalEntry out entry0 =
     (let entry = TrimSpace entry0 in
      if entry = [] then Inl (ErrInvalidSelector ''malformed global parameter list'')
      else case Cut (CHR ''='') entry of (key0, raw0, hasValue) \<Rightarrow>
        let key = ToLower (TrimSpace key0);
            raw = (if hasValue then TrimSpace raw0 else raw0)
        in if key = ''ttft_timeout'' then
             (if gTTFT out \<noteq> None then Inl (ErrInvalidSelector ''duplicate ttft_timeout global parameter'')
              else case parsePositiveSecondsDurationAnnotation raw hasValue of
                     Inl e \<Rightarrow> Inl e | Inr d \<Rightarrow> Inr (out\<lparr>gTTFT := Some d\<rparr>))
           else if key = ''affinity'' then
             (if gAffinity out \<noteq> AffinityNone then
                Inl (ErrInvalidSelector ''duplicate affinity global parameter'')
              else if \<not> hasValue \<or> TrimSpace raw = [] then
                Inl (ErrInvalidSelector ''affinity must be session or client'')
              else if ToLower (TrimSpace raw) = ''session'' then Inr (out\<lparr>gAffinity := AffinitySession\<rparr>)
              else if ToLower (TrimSpace raw) = ''client'' then Inr (out\<lparr>gAffinity := AffinityClient\<rparr>)
              else Inl (ErrInvalidSelector ''affinity must be session or client''))
           else if key = ''session_sticky'' \<or> key = ''client_sticky'' then
             (if gAffinity out \<noteq> AffinityNone then
                Inl (ErrInvalidSelector ''duplicate affinity global parameter'')
              else if hasValue then Inl (ErrInvalidSelector ''does not take a value'')
              else if key = ''session_sticky'' then Inr (out\<lparr>gAffinity := AffinitySession\<rparr>)
              else Inr (out\<lparr>gAffinity := AffinityClient\<rparr>))
           else Inl (ErrInvalidSelector ''unsupported global parameter key''))"

definition extractGlobalParams :: "string \<Rightarrow> (globalParams \<times> string) res" where
  "extractGlobalParams s =
     (let out = \<lparr>gTTFT = None, gAffinity = AffinityNone\<rparr>; rest = TrimSpace s in
      if \<not> starts (CHR ''{'') rest then Inr (out, rest)
      else case Cut (CHR ''}'') rest of (pre, after, found) \<Rightarrow>
        if \<not> found then Inl (ErrInvalidSelector ''unclosed global parameter block'')
        else let inside = TrimSpace (tl pre) in
          if inside = [] then Inl (ErrInvalidSelector ''empty global parameter block'')
          else case foldR globalEntry out (Split (CHR '','') inside) of
                 Inl e \<Rightarrow> Inl e
               | Inr out' \<Rightarrow>
                   let rest' = TrimSpace after in
                   if starts (CHR ''{'') rest' then
                     Inl (ErrInvalidSelector ''duplicate global parameter block'')
                   else Inr (out', rest'))"

definition Parse :: "string \<Rightarrow> Selector res" where
  "Parse s0 =
     (let s = TrimSpace s0 in
      if s = [] then Inl (ErrInvalidSelector ''empty selector'')
      else case extractGlobalParams s of
             Inl e \<Rightarrow> Inl e
           | Inr (globals, rest) \<Rightarrow>
               let s = TrimSpace rest in
               if s = [] then Inl (ErrInvalidSelector ''empty selector'')
               else case mapR (\<lambda>part. let part = TrimSpace part in
                           if part = [] then Inl (ErrInvalidSelector ''empty failover alternative'')
                           else parseFailoverAlt part) (splitOutsideBrackets s (CHR ''|'')) of
                      Inl e \<Rightarrow> Inl e
                    | Inr alts \<Rightarrow> Inr \<lparr>Alternatives = alts, GlobalTTFTTimeout = gTTFT globals,
                                     Affinity = gAffinity globals\<rparr>)"

section \<open>Well-formed selectors\<close>

definition token_bound :: "int option \<Rightarrow> bool" where
  "token_bound n = (case n of None \<Rightarrow> True | Some n \<Rightarrow> 1 \<le> n \<and> n \<le> MaxInt64)"

definition timeout_bound :: "duration option \<Rightarrow> bool" where
  "timeout_bound d = (case d of None \<Rightarrow> True | Some d \<Rightarrow> Second \<le> d \<and> d \<le> MaxInt64)"

definition wf_size :: "RequestSizeConstraint \<Rightarrow> bool" where
  "wf_size sz \<longleftrightarrow> token_bound (MinContextTokens sz) \<and> token_bound (MaxContextTokens sz)
     \<and> (case (MinContextTokens sz, MaxContextTokens sz) of (Some lo, Some hi) \<Rightarrow> lo < hi | _ \<Rightarrow> True)"

definition wf_primary :: "Primary \<Rightarrow> bool" where
  "wf_primary p \<longleftrightarrow> Model p \<noteq> [] \<and> CHR ''|'' \<notin> set (Backend p) \<and> CHR ''|'' \<notin> set (Model p)
     \<and> NativeModel p = [] \<and> wf_size (Size p) \<and> timeout_bound (TTFTTimeout p)"

definition wf_parallel :: "Parallel \<Rightarrow> bool" where
  "wf_parallel g \<longleftrightarrow> pBranches g \<noteq> [] \<and> length (pBranches g) \<le> maxParallelBranches
     \<and> (\<forall>b \<in> set (pBranches g). wf_primary (pbTarget b) \<and> 0 \<le> pbHandicap b \<and> pbHandicap b \<le> MaxInt64)"

definition wf_branch :: "WeightedBranch \<Rightarrow> bool" where
  "wf_branch b \<longleftrightarrow> 1 \<le> Weight b \<and> Weight b \<le> MaxInt64 \<and> \<not> (IsFirst b \<and> IsThinker b)
     \<and> (case wbParallel b of
          None \<Rightarrow> wf_primary (wbTarget b)
        | Some g \<Rightarrow> wf_parallel g \<and> \<not> IsThinker b \<and> \<not> IsFirst b)"

definition wf_weighted :: "Weighted \<Rightarrow> bool" where
  "wf_weighted w \<longleftrightarrow> wBranches w \<noteq> [] \<and> (\<forall>b \<in> set (wBranches w). wf_branch b)
     \<and> length (filter IsFirst (wBranches w)) \<le> 1
     \<and> length (filter IsThinker (wBranches w)) \<le> 1
     \<and> (list_ex IsThinker (wBranches w) \<longrightarrow> list_ex (\<lambda>b. \<not> IsThinker b) (wBranches w))
     \<and> (list_ex (\<lambda>b. wbParallel b \<noteq> None) (wBranches w) \<longrightarrow>
          length (wBranches w) = 2 \<and> list_ex IsThinker (wBranches w))"

definition wf_alt :: "FailoverAlt \<Rightarrow> bool" where
  "wf_alt alt = (case (altPrimary alt, altWeighted alt, altParallel alt) of
       (Some p, None, None) \<Rightarrow> wf_primary p
     | (None, Some w, None) \<Rightarrow> wf_weighted w
     | (None, None, Some g) \<Rightarrow> wf_parallel g
     | _ \<Rightarrow> False)"

definition wf_selector :: "Selector \<Rightarrow> bool" where
  "wf_selector sel \<longleftrightarrow> Alternatives sel \<noteq> [] \<and> (\<forall>alt \<in> set (Alternatives sel). wf_alt alt)
     \<and> timeout_bound (GlobalTTFTTimeout sel)
     \<and> Affinity sel \<in> {AffinityNone, AffinitySession, AffinityClient}"

section \<open>Annotation values stay in range\<close>

lemma parsePositiveInt64_bounds:
  "parsePositiveInt64Annotation raw hv = Inr n \<Longrightarrow> 1 \<le> n \<and> n \<le> MaxInt64"
  by (auto simp: parsePositiveInt64Annotation_def dest: ParseInt_bounds split: if_splits option.splits)

lemma parsePositiveInt_bounds:
  "parsePositiveIntAnnotation raw hv = Inr n \<Longrightarrow> 1 \<le> n \<and> n \<le> MaxInt64"
  by (auto simp: parsePositiveIntAnnotation_def dest: parsePositiveInt64_bounds
      split: if_splits sum.splits)

lemma parseSeconds_bounds:
  "parsePositiveSecondsDurationAnnotation raw hv = Inr d \<Longrightarrow> Second \<le> d \<and> d \<le> MaxInt64"
  by (auto simp: parsePositiveSecondsDurationAnnotation_def Second_def
      dest: parsePositiveInt64_bounds split: if_splits sum.splits)

lemma parseTokenCount_bounds:
  "parsePositiveTokenCountAnnotation raw hv = Inr n \<Longrightarrow> 1 \<le> n \<and> n \<le> MaxInt64"
  by (auto simp: parsePositiveTokenCountAnnotation_def Let_def split: if_splits option.splits prod.splits)

definition ann_ok :: "prefixAnnotations \<Rightarrow> bool" where
  "ann_ok ann \<longleftrightarrow> token_bound (annWeight ann)
     \<and> token_bound (MinContextTokens (annSize ann)) \<and> token_bound (MaxContextTokens (annSize ann))
     \<and> timeout_bound (annTTFT ann) \<and> timeout_bound (annHandicap ann)"

lemma annotationEntry_ok:
  assumes "ann_ok ann" "annotationEntry ann e = Inr ann'"
  shows "ann_ok ann'"
  using assms
  by (auto simp: annotationEntry_def Let_def ann_ok_def token_bound_def timeout_bound_def
      dest: parsePositiveInt_bounds parseTokenCount_bounds parseSeconds_bounds
      split: if_splits sum.splits prod.splits)

lemma annotationBlocks_ok:
  "annotationBlocks ann s = Inr (ann', rest) \<Longrightarrow> ann_ok ann \<Longrightarrow> ann_ok ann' \<and> \<not> starts (CHR ''['') rest"
proof (induction ann s rule: annotationBlocks.induct)
  case (1 ann s)
  show ?case
  proof (cases "starts (CHR ''['') s")
    case False
    with 1 show ?thesis by (auto simp: annotationBlocks.simps [of ann s])
  next
    case True
    with "1.prems"(1) obtain inside after ann1 where
      b: "bracket_block s = Some (inside, after)" "TrimSpace inside \<noteq> []"
      "foldR annotationEntry ann (Split (CHR '','') (TrimSpace inside)) = Inr ann1"
      "annotationBlocks ann1 (TrimSpace after) = Inr (ann', rest)"
      by (auto simp: annotationBlocks.simps [of ann s] split: option.splits if_splits sum.splits)
    from foldR_inv [where P = ann_ok, OF b(3) "1.prems"(2)] annotationEntry_ok have "ann_ok ann1" by blast
    with "1.IH" [of "(inside, after)"] True b show ?thesis by auto
  qed
qed

lemma no_annotations_ok [simp]: "ann_ok no_annotations"
  by (simp add: ann_ok_def no_annotations_def no_size_def token_bound_def timeout_bound_def)

lemma extractPrefixAnnotations_ok:
  assumes "extractPrefixAnnotations s = Inr (ann, rest)"
  shows "ann_ok ann \<and> wf_size (annSize ann)"
proof -
  from assms have "annotationBlocks no_annotations (TrimSpace s) = Inr (ann, rest)"
    and "case (MinContextTokens (annSize ann), MaxContextTokens (annSize ann)) of
           (Some lo, Some hi) \<Rightarrow> lo < hi | _ \<Rightarrow> True"
    by (auto simp: extractPrefixAnnotations_def split: sum.splits prod.splits option.splits if_splits)
  moreover from this(1) have "ann_ok ann" using annotationBlocks_ok by simp
  ultimately show ?thesis by (simp add: wf_size_def ann_ok_def)
qed

section \<open>The parser returns only well-formed selectors\<close>

lemma parsePrimaryWithAnnotations_wf:
  assumes "ann_ok ann" "wf_size (annSize ann)" "parsePrimaryWithAnnotations s ann = Inr p"
  shows "wf_primary p"
  using assms
  by (auto simp: parsePrimaryWithAnnotations_def Let_def wf_primary_def ann_ok_def
      split: if_splits sum.splits prod.splits option.splits)

lemma parsePrimary_wf: "parsePrimary s = Inr p \<Longrightarrow> wf_primary p"
  by (auto simp: parsePrimary_def dest: extractPrefixAnnotations_ok
      intro: parsePrimaryWithAnnotations_wf split: sum.splits prod.splits if_splits)

lemma parseParallelBranch_wf:
  assumes "parseParallelBranch s = Inr b"
  shows "wf_primary (pbTarget b) \<and> 0 \<le> pbHandicap b \<and> pbHandicap b \<le> MaxInt64"
proof -
  from assms obtain ann rest p where e: "extractPrefixAnnotations s = Inr (ann, rest)"
    "parsePrimaryWithAnnotations (TrimSpace rest) ann = Inr p"
    "b = \<lparr>pbTarget = p, pbHandicap = (case annHandicap ann of None \<Rightarrow> 0 | Some d \<Rightarrow> d)\<rparr>"
    by (auto simp: parseParallelBranch_def Let_def split: sum.splits prod.splits if_splits)
  with extractPrefixAnnotations_ok [OF e(1)] parsePrimaryWithAnnotations_wf [OF _ _ e(2)]
  show ?thesis by (auto simp: ann_ok_def timeout_bound_def Second_def split: option.splits)
qed

lemma parseParallel_wf:
  assumes "parseParallel s = Inr g"
  shows "wf_parallel g"
proof -
  define f where "f = (\<lambda>part. let part = TrimSpace part in
      if part = [] then Inl (ErrInvalidSelector ''empty parallel branch'') else parseParallelBranch part)"
  from assms obtain bs where bs: "mapR f (splitParallelLegs s) = Inr bs" "bs \<noteq> []" "g = \<lparr>pBranches = bs\<rparr>"
    "length (splitParallelLegs s) \<le> maxParallelBranches"
    by (auto simp: parseParallel_def Let_def f_def split: sum.splits if_splits)
  have "wf_primary (pbTarget b) \<and> 0 \<le> pbHandicap b \<and> pbHandicap b \<le> MaxInt64" if "b \<in> set bs" for b
  proof -
    from mapR_Inr_all [OF bs(1) that] obtain part where "f part = Inr b" by blast
    then have "parseParallelBranch (TrimSpace part) = Inr b" by (auto simp: f_def Let_def split: if_splits)
    then show ?thesis by (rule parseParallelBranch_wf)
  qed
  with bs mapR_Inr_length [OF bs(1)] show ?thesis by (simp add: wf_parallel_def)
qed

lemma parseWeightedBranch_wf:
  assumes "parseWeightedBranch s = Inr b"
  shows "wf_branch b \<and> wbParallel b = None"
proof -
  from assms obtain ann rest p where e: "extractPrefixAnnotations s = Inr (ann, rest)"
    "parsePrimaryWithAnnotations (TrimSpace rest) ann = Inr p" "\<not> (annFirst ann \<and> annThinker ann)"
    "b = \<lparr>Weight = (case annWeight ann of None \<Rightarrow> 1 | Some n \<Rightarrow> n), IsFirst = annFirst ann,
          IsThinker = annThinker ann, wbTarget = p, wbParallel = None\<rparr>"
    by (auto simp: parseWeightedBranch_def Let_def split: sum.splits prod.splits if_splits)
  with extractPrefixAnnotations_ok [OF e(1)] parsePrimaryWithAnnotations_wf [OF _ _ e(2)]
  show ?thesis by (auto simp: wf_branch_def ann_ok_def token_bound_def split: option.splits)
qed

lemma parseWeighted_wf:
  assumes "parseWeighted s = Inr w"
  shows "wBranches w \<noteq> [] \<and> (\<forall>b \<in> set (wBranches w). wf_branch b \<and> wbParallel b = None)"
proof -
  define f where "f = (\<lambda>part. let part = TrimSpace part in
      if part = [] then Inl (ErrInvalidSelector ''empty weighted branch'') else parseWeightedBranch part)"
  from assms obtain bs where bs: "mapR f (splitOutsideBrackets s (CHR ''^'')) = Inr bs" "bs \<noteq> []"
    "w = \<lparr>wBranches = bs\<rparr>"
    by (auto simp: parseWeighted_def Let_def f_def split: sum.splits if_splits)
  have "wf_branch b \<and> wbParallel b = None" if "b \<in> set bs" for b
  proof -
    from mapR_Inr_all [OF bs(1) that] obtain part where "f part = Inr b" by blast
    then have "parseWeightedBranch (TrimSpace part) = Inr b" by (auto simp: f_def Let_def split: if_splits)
    then show ?thesis by (rule parseWeightedBranch_wf)
  qed
  with bs show ?thesis by simp
qed

lemma parseParallelTarget_wf:
  assumes "parseWeightedBranchWithParallelTarget s = Inr b"
  shows "wf_branch b \<and> \<not> IsThinker b"
  using assms parseParallel_wf
  by (auto simp: parseWeightedBranchWithParallelTarget_def Let_def wf_branch_def
      split: if_splits sum.splits)

lemma hybrid_wf:
  assumes "tryParseThinkerParallelHybrid s = Inr (Some w)"
  shows "wBranches w \<noteq> [] \<and> (\<forall>b \<in> set (wBranches w). wf_branch b)
    \<and> length (wBranches w) = 2 \<and> list_ex IsThinker (wBranches w)"
proof -
  from assms obtain t e tp ep where "parseWeightedBranch tp = Inr t" "IsThinker t"
    "parseWeightedBranchWithParallelTarget ep = Inr e"
    "wBranches w = [e, t] \<or> wBranches w = [t, e]"
    by (auto simp: tryParseThinkerParallelHybrid_def Let_def split: list.splits if_splits sum.splits)
  with parseWeightedBranch_wf parseParallelTarget_wf show ?thesis by auto
qed

lemma validatedWeighted_wf:
  assumes "validatedWeighted w = Inr alt" "wBranches w \<noteq> []" "\<forall>b \<in> set (wBranches w). wf_branch b"
    and "list_ex (\<lambda>b. wbParallel b \<noteq> None) (wBranches w) \<Longrightarrow>
          length (wBranches w) = 2 \<and> list_ex IsThinker (wBranches w)"
  shows "wf_alt alt"
proof -
  from assms(1) have alt: "alt = alt_of_weighted w" and v: "length (filter IsFirst (wBranches w)) \<le> 1"
    "length (filter IsThinker (wBranches w)) \<le> 1"
    "filter IsThinker (wBranches w) \<noteq> [] \<longrightarrow> filter (\<lambda>b. \<not> IsThinker b) (wBranches w) \<noteq> []"
    by (auto simp: validatedWeighted_def validateWeightedFirst_def validateWeightedThinker_def Let_def
        split: if_splits sum.splits)
  from v(3) have "list_ex IsThinker (wBranches w) \<longrightarrow> list_ex (\<lambda>b. \<not> IsThinker b) (wBranches w)"
    by (auto simp: filter_empty_conv list_ex_iff)
  with v assms(2-4) show ?thesis by (simp add: alt wf_alt_def alt_of_weighted_def wf_weighted_def)
qed

lemma wf_alt_simps [simp]:
  "wf_alt (alt_of_primary p) = wf_primary p" "wf_alt (alt_of_weighted w) = wf_weighted w"
  "wf_alt (alt_of_parallel g) = wf_parallel g"
  by (simp_all add: wf_alt_def alt_of_primary_def alt_of_weighted_def alt_of_parallel_def)

lemma parseFailoverAlt_wf:
  assumes "parseFailoverAlt s = Inr alt"
  shows "wf_alt alt"
proof -
  from assms consider
    w where "tryParseThinkerParallelHybrid (TrimSpace s) = Inr (Some w)" "validatedWeighted w = Inr alt"
  | g where "parseParallel (TrimSpace s) = Inr g" "alt = alt_of_parallel g"
  | w where "parseWeighted (TrimSpace s) = Inr w" "validatedWeighted w = Inr alt"
  | p where "parsePrimary (TrimSpace s) = Inr p" "alt = alt_of_primary p"
    by (auto simp: parseFailoverAlt_def Let_def split: if_splits sum.splits option.splits)
  then show ?thesis
  proof cases
    case 1
    with hybrid_wf [OF 1(1)] show ?thesis by (auto intro: validatedWeighted_wf)
  next
    case 2
    then show ?thesis using parseParallel_wf by simp
  next
    case 3
    with parseWeighted_wf [OF 3(1)] show ?thesis
      by (auto simp: list_ex_iff intro: validatedWeighted_wf)
  next
    case 4
    then show ?thesis using parsePrimary_wf by simp
  qed
qed

lemma extractGlobalParams_ok:
  assumes "extractGlobalParams s = Inr (g, rest)"
  shows "timeout_bound (gTTFT g) \<and> gAffinity g \<in> {AffinityNone, AffinitySession, AffinityClient}"
proof -
  let ?P = "\<lambda>g. timeout_bound (gTTFT g) \<and> gAffinity g \<in> {AffinityNone, AffinitySession, AffinityClient}"
  have step: "?P g'" if "?P g" "globalEntry g e = Inr g'" for g e g'
    using that by (auto simp: globalEntry_def Let_def timeout_bound_def dest: parseSeconds_bounds
        split: if_splits sum.splits prod.splits)
  have z: "?P \<lparr>gTTFT = None, gAffinity = AffinityNone\<rparr>" by (simp add: timeout_bound_def)
  from assms z show ?thesis
    by (auto simp: extractGlobalParams_def Let_def split: if_splits prod.splits sum.splits
        dest!: foldR_inv [where P = ?P, OF _ z step])
qed

section \<open>Printing and parsing a primary\<close>

definition name_char :: "char \<Rightarrow> bool" where
  "name_char c \<longleftrightarrow> graphic c \<and>
     c \<notin> {CHR ''?'', CHR ''|'', CHR ''{'', CHR ''['', CHR '']'', CHR ''!'', CHR ''^''}"

text \<open>
  Primaries whose names need no quoting: printable names without selector operators, a
  backend without a colon, and parameters in the order \<open>Encode\<close> produces.
\<close>

definition plain_primary :: "Primary \<Rightarrow> bool" where
  "plain_primary p \<longleftrightarrow>
     list_all name_char (Backend p) \<and> list_all name_char (Model p) \<and> Model p \<noteq> []
     \<and> CHR '':'' \<notin> set (Backend p) \<and> (Backend p = [] \<longrightarrow> CHR '':'' \<notin> set (Model p))
     \<and> NativeModel p = [] \<and> canonical_values (Params p) \<and> Size p = no_size \<and> TTFTTimeout p = None"

definition primary_path :: "Primary \<Rightarrow> string" where
  "primary_path p = (if Backend p \<noteq> [] then Backend p @ '':'' else []) @ Model p"

lemma TrimSpace_all_graphic: "list_all graphic s \<Longrightarrow> TrimSpace s = s"
  by (cases "s = []") (auto simp: list_all_iff intro!: TrimSpace_graphic)

lemma splitOutside_absent: "sep \<notin> set s \<Longrightarrow> splitOutside sep d cur s = [rev cur @ s]"
  by (induction s arbitrary: d cur) auto

lemma hasTopLevel_absent: "x \<notin> set s \<Longrightarrow> \<not> hasTopLevel x d s"
  by (induction s arbitrary: d) auto

lemma globalBlock_absent: "CHR ''{'' \<notin> set s \<Longrightarrow> \<not> globalBlock prev s"
  by (induction s arbitrary: prev) auto

lemma starts_absent: "c \<notin> set s \<Longrightarrow> \<not> starts c s"
  by (cases s) (auto simp: starts_def)

lemma name_char_colon: "name_char (CHR '':'')"
  by (simp add: name_char_def graphic_def)

lemma path_chars: "plain_primary p \<Longrightarrow> c \<in> set (primary_path p) \<Longrightarrow> name_char c"
  using name_char_colon by (auto simp: plain_primary_def primary_path_def list_all_iff split: if_splits)

lemma query_char_ok:
  "query_safe c \<or> c = CHR ''&'' \<or> c = CHR ''='' \<Longrightarrow> name_char c"
  by (auto simp: name_char_def graphic_def query_safe_def unreserved_def Let_def)

lemma Primary_String_path:
  "Primary_String p = primary_path p @ (if Params p \<noteq> [] then CHR ''?'' # Values_Encode (Params p) else [])"
  by (simp add: Primary_String_def primary_path_def)

lemma Primary_String_chars:
  assumes "plain_primary p" "c \<in> set (Primary_String p)"
  shows "name_char c \<or> c = CHR ''?''"
  using assms(2) path_chars [OF assms(1)] Values_Encode_chars [THEN query_char_ok]
  by (fastforce simp: Primary_String_path split: if_splits)

lemma Primary_String_plain:
  assumes "plain_primary p"
  shows "TrimSpace (Primary_String p) = Primary_String p" "Primary_String p \<noteq> []"
    "\<forall>c \<in> {CHR ''|'', CHR ''{'', CHR ''['', CHR ''!'', CHR ''^''}. c \<notin> set (Primary_String p)"
proof -
  have "graphic c" if "c \<in> set (Primary_String p)" for c
    using Primary_String_chars [OF assms that] by (auto simp: name_char_def graphic_def)
  then show "TrimSpace (Primary_String p) = Primary_String p"
    by (simp add: TrimSpace_all_graphic list_all_iff)
  show "Primary_String p \<noteq> []" using assms by (simp add: Primary_String_def plain_primary_def)
  show "\<forall>c \<in> {CHR ''|'', CHR ''{'', CHR ''['', CHR ''!'', CHR ''^''}. c \<notin> set (Primary_String p)"
    using Primary_String_chars [OF assms] by (auto simp: name_char_def)
qed

lemma path_cut:
  assumes "plain_primary p"
  shows "Cut (CHR ''?'') (Primary_String p)
      = (primary_path p, if Params p \<noteq> [] then Values_Encode (Params p) else [], Params p \<noteq> [])"
proof -
  have "CHR ''?'' \<notin> set (primary_path p)" using path_chars [OF assms] by (auto simp: name_char_def)
  then show ?thesis by (simp add: Primary_String_path)
qed

lemma path_names:
  assumes "plain_primary p"
  shows "TrimSpace (primary_path p) = primary_path p" "primary_path p \<noteq> []"
    "\<not> containsGlobalParamBlock (primary_path p)"
    "(case Cut (CHR '':'') (primary_path p) of (b, m, ok) \<Rightarrow>
        (TrimSpace (if ok then b else []), TrimSpace (if ok then m else primary_path p))) = (Backend p, Model p)"
proof -
  have g: "list_all graphic (primary_path p)" "CHR ''{'' \<notin> set (primary_path p)"
    using path_chars [OF assms] by (auto simp: list_all_iff name_char_def)
  then show "TrimSpace (primary_path p) = primary_path p" by (simp add: TrimSpace_all_graphic)
  show "primary_path p \<noteq> []" using assms by (simp add: primary_path_def plain_primary_def)
  show "\<not> containsGlobalParamBlock (primary_path p)"
    using g by (simp add: containsGlobalParamBlock_def globalBlock_absent)
  have "list_all graphic (Backend p)" "list_all graphic (Model p)"
    using assms by (auto simp: plain_primary_def list_all_iff name_char_def)
  then have "TrimSpace (Backend p) = Backend p" "TrimSpace (Model p) = Model p"
    by (simp_all add: TrimSpace_all_graphic)
  with assms show "(case Cut (CHR '':'') (primary_path p) of (b, m, ok) \<Rightarrow>
        (TrimSpace (if ok then b else []), TrimSpace (if ok then m else primary_path p))) = (Backend p, Model p)"
    by (auto simp: primary_path_def plain_primary_def)
qed

lemma parsePrimary_String:
  assumes "plain_primary p"
  shows "parsePrimary (Primary_String p) = Inr p"
proof -
  let ?s = "Primary_String p"
  have ann: "extractPrefixAnnotations ?s = Inr (no_annotations, ?s)"
    using Primary_String_plain [OF assms]
    by (simp add: extractPrefixAnnotations_def annotationBlocks.simps starts_absent
        no_annotations_def no_size_def)
  obtain b m ok where cut: "Cut (CHR '':'') (primary_path p) = (b, m, ok)" by (cases "Cut (CHR '':'') (primary_path p)")
  with path_names(4) [OF assms] have bm: "TrimSpace (if ok then b else []) = Backend p"
    "TrimSpace (if ok then m else primary_path p) = Model p" by auto
  have q: "(if Params p \<noteq> [] then ParseQuery (if Params p \<noteq> [] then Values_Encode (Params p) else []) else Some [])
      = Some (Params p)"
    using assms by (auto simp: plain_primary_def ParseQuery_Encode)
  have "Model p \<noteq> []" "CHR ''|'' \<notin> set (Backend p)" "CHR ''|'' \<notin> set (Model p)"
    using assms by (auto simp: plain_primary_def list_all_iff name_char_def)
  moreover have "\<lparr>Backend = Backend p, Model = Model p, NativeModel = [], Params = Params p,
      Size = annSize no_annotations, TTFTTimeout = annTTFT no_annotations\<rparr> = p"
    using assms by (simp add: plain_primary_def no_annotations_def)
  ultimately have "parsePrimaryWithAnnotations ?s no_annotations = Inr p"
    using Primary_String_plain(1,2) [OF assms] path_cut [OF assms] path_names(1-3) [OF assms] cut bm q
    unfolding parsePrimaryWithAnnotations_def Let_def by (cases ok) simp_all
  then show ?thesis by (simp add: parsePrimary_def ann) (simp add: no_annotations_def)
qed

lemma Parse_wf:
  assumes "Parse s = Inr sel"
  shows "wf_selector sel"
proof -
  define f where "f = (\<lambda>part. let part = TrimSpace part in
      if part = [] then Inl (ErrInvalidSelector ''empty failover alternative'') else parseFailoverAlt part)"
  from assms obtain g rest alts where e: "extractGlobalParams (TrimSpace s) = Inr (g, rest)"
    "mapR f (splitOutsideBrackets (TrimSpace rest) (CHR ''|'')) = Inr alts"
    "sel = \<lparr>Alternatives = alts, GlobalTTFTTimeout = gTTFT g, Affinity = gAffinity g\<rparr>"
    by (auto simp: Parse_def Let_def f_def split: if_splits sum.splits prod.splits)
  have "wf_alt alt" if "alt \<in> set alts" for alt
  proof -
    from mapR_Inr_all [OF e(2) that] obtain part where "f part = Inr alt" by blast
    then have "parseFailoverAlt (TrimSpace part) = Inr alt" by (auto simp: f_def Let_def split: if_splits)
    then show ?thesis by (rule parseFailoverAlt_wf)
  qed
  moreover have "splitOutside x d cur t \<noteq> []" for x d cur t
    by (induction t arbitrary: d cur) auto
  then have "alts \<noteq> []" using mapR_Inr_length [OF e(2)] by (auto simp: splitOutsideBrackets_def)
  ultimately show ?thesis
    using extractGlobalParams_ok [OF e(1)] by (simp add: wf_selector_def e(3))
qed

section \<open>Properties\<close>

text \<open>
  C5: Soundness of the parser. A selector that parses is well formed: it has at least one
  arm; each arm is exactly one of primary, weighted group or parallel group; weights are
  positive 64-bit numbers, context bounds and timeouts are positive and their scaling by
  the K/M suffix or by seconds did not overflow, and the lower context bound is below the
  upper one; a parallel group has between one and sixteen legs; a weighted group has at
  most one first branch, at most one thinker and then also an executor, and only the
  executor of a two-branch thinker group may be a parallel group.
\<close>

theorem parse_sound:
  assumes "Parse s = Inr sel"
  shows "wf_selector sel"
  using assms by (rule Parse_wf)

theorem parse_sound_witness:
  "\<exists>sel. Parse ''{affinity=session} [thinker]a:b^c:d![handicap=2]e:f | [max_context=8k]g:h'' = Inr sel
     \<and> wf_selector sel"
proof -
  have "case Parse ''{affinity=session} [thinker]a:b^c:d![handicap=2]e:f | [max_context=8k]g:h'' of
      Inl _ \<Rightarrow> False | Inr _ \<Rightarrow> True" by code_simp
  then obtain sel where "Parse ''{affinity=session} [thinker]a:b^c:d![handicap=2]e:f | [max_context=8k]g:h'' = Inr sel"
    by (auto split: sum.splits)
  then show ?thesis using parse_sound by blast
qed

text \<open>
  C28: Round trip. The diagnostic key of a plain primary, query parameters included, parses
  back as a one-arm selector with exactly that primary: keys of different plain primaries
  never collide in the exclusion and health maps.
\<close>

theorem primary_string_roundtrip:
  assumes "plain_primary p"
  shows "Parse (Primary_String p)
       = Inr \<lparr>Alternatives = [alt_of_primary p], GlobalTTFTTimeout = None, Affinity = AffinityNone\<rparr>"
proof -
  let ?s = "Primary_String p"
  note s = Primary_String_plain [OF assms]
  have "\<not> hasWeightedAnnotationPrefix ?s"
    using s by (simp add: hasWeightedAnnotationPrefix_def hasAnnotation.simps starts_absent)
  then have "parseFailoverAlt ?s = Inr (alt_of_primary p)"
    using s parsePrimary_String [OF assms]
    by (simp add: parseFailoverAlt_def hasTopLevelBang_def hasTopLevelCaret_def hasTopLevel_absent)
  moreover have "extractGlobalParams ?s = Inr (\<lparr>gTTFT = None, gAffinity = AffinityNone\<rparr>, ?s)"
    using s by (simp add: extractGlobalParams_def starts_absent)
  ultimately show ?thesis
    using s by (simp add: Parse_def splitOutsideBrackets_def splitOutside_absent)
qed

theorem primary_string_roundtrip_witness:
  "Parse (Primary_String \<lparr>Backend = ''openai'', Model = ''gpt-4o:mini'', NativeModel = [],
       Params = [(''a b'', [''1&2'', ''?'']), (''z'', ['''' ])], Size = no_size, TTFTTimeout = None\<rparr>)
   = Inr \<lparr>Alternatives = [alt_of_primary \<lparr>Backend = ''openai'', Model = ''gpt-4o:mini'', NativeModel = [],
       Params = [(''a b'', [''1&2'', ''?'']), (''z'', ['''' ])], Size = no_size, TTFTTimeout = None\<rparr>],
       GlobalTTFTTimeout = None, Affinity = AffinityNone\<rparr>"
  by (rule primary_string_roundtrip) code_simp

end
