(* ===== verification/Interleaved_State.thy ===== *)
theory Interleaved_State
  imports Aip_Prelude
begin

text \<open>
  The persisted cursor of a thinker-aware weighted cycle:
  \<open>internal/core/interleavedstate/cycle.go\<close>. The JSON text encoding of the state is not
  modelled.
\<close>

section \<open>The thinker cycle cursor\<close>

datatype Role = RoleNone | RoleThinker | RoleExecutor | RoleOther string

record CycleEntry =
  entryKey :: string
  entryRole :: Role

record CycleState =
  SelectorKey :: string
  Sequence :: "CycleEntry list"
  NextIndex :: int

datatype cycle_error = NextIndexNotZero | NextIndexOutOfBounds

definition CycleState_IsEmpty :: "CycleState \<Rightarrow> bool" where
  "CycleState_IsEmpty c \<longleftrightarrow> Sequence c = []"

definition CycleState_Validate :: "CycleState \<Rightarrow> cycle_error + unit" where
  "CycleState_Validate c =
     (if CycleState_IsEmpty c
      then (if NextIndex c \<noteq> 0 then Inl NextIndexNotZero else Inr ())
      else if NextIndex c < 0 \<or> NextIndex c \<ge> int (length (Sequence c)) then Inl NextIndexOutOfBounds
      else Inr ())"

definition CycleState_MatchesSelector :: "CycleState \<Rightarrow> string \<Rightarrow> bool" where
  "CycleState_MatchesSelector c selectorKey =
     (if CycleState_IsEmpty c then True else SelectorKey c = selectorKey)"

definition CycleState_Equal :: "CycleState \<Rightarrow> CycleState \<Rightarrow> bool" where
  "CycleState_Equal c c' \<longleftrightarrow> SelectorKey c = SelectorKey c' \<and> NextIndex c = NextIndex c'
     \<and> list_all2 (\<lambda>x y. entryKey x = entryKey y \<and> entryRole x = entryRole y) (Sequence c) (Sequence c')"

record Interleaved =
  Cycle :: CycleState

definition Interleaved_IsEmpty :: "Interleaved \<Rightarrow> bool" where
  "Interleaved_IsEmpty s = CycleState_IsEmpty (Cycle s)"

definition Interleaved_Validate :: "Interleaved \<Rightarrow> cycle_error + unit" where
  "Interleaved_Validate s = CycleState_Validate (Cycle s)"

definition Interleaved_Equal :: "Interleaved \<Rightarrow> Interleaved \<Rightarrow> bool" where
  "Interleaved_Equal s s' = CycleState_Equal (Cycle s) (Cycle s')"

end
