(* ===== verification/Routing_Planner.thy ===== *)
theory Routing_Planner
  imports Routing_Parser Interleaved_State
begin

text \<open>
  Route planning: \<open>internal/core/routing/planner.go\<close>, \<open>weighted.go\<close> and \<open>planned.go\<close>, with
  the cycle cursor of \<open>Interleaved_State\<close>. A selector is expanded into
  ordered attempt groups, one per eligible arm.

  \<^item> \<open>PlanOptions.Session\<close> is a pointer that planning updates in place, and the RNG is a
    stateful object shared by the arms of one selector: both are threaded as a
    \<open>plan_state\<close> (the session flag and the number of rolls drawn so far).
  \<^item> The RNG is a parameter: \<open>Rand i n\<close> is the result of the \<open>i\<close>-th call \<open>Intn(n)\<close>. When
    \<open>opt.Rand\<close> is nil the source makes a fresh generator with seed 0 for each pick, whose
    first roll is the parameter \<open>SeededRoll n\<close>.
  \<^item> When planning returns an error, the session flag and the rolls already consumed by
    earlier arms are not part of the result.
\<close>

section \<open>Cycle sequences\<close>

definition cycleSequenceEqual :: "CycleEntry list \<Rightarrow> CycleEntry list \<Rightarrow> bool" where
  "cycleSequenceEqual a b \<longleftrightarrow>
     list_all2 (\<lambda>x y. entryKey x = entryKey y \<and> entryRole x = entryRole y) a b"

section \<open>Plan options, candidates and groups\<close>

record RequestSizeEstimate =
  Available :: bool
  Tokens :: int

record PlanOptions =
  Excluded :: "string set"
  Unhealthy :: "string set"
  RequestSize :: RequestSizeEstimate
  PreferredCandidateKeys :: "string list"
  StickyBackendID :: string
  Rand :: "(nat \<Rightarrow> int \<Rightarrow> int) option"
  SeededRoll :: "int \<Rightarrow> int"
  IsRetryPath :: bool
  ThinkerCycle :: CycleState
  SuppressThinker :: bool

text \<open>\<open>psSession\<close> is \<open>opt.Session\<close>: \<open>None\<close> for nil, else \<open>FirstRequestConsumed\<close>.\<close>

record plan_state =
  psSession :: "bool option"
  psRolls :: nat

record AttemptCandidate =
  acPrimary :: Primary
  acKey :: string
  MarkedFirst :: bool
  IsParallel :: bool
  Handicap :: duration
  InterleavedRole :: Role
  acSelectorKey :: string

record AttemptGroup =
  Candidates :: "AttemptCandidate list"
  NextThinkerCycle :: "CycleState option"

datatype plan_error =
  ErrNoEligibleCandidate | ErrWeightedTotalTooLarge | ErrMultipleFirst | ErrInvalidAlternative
| ErrNilSelector

section \<open>Eligibility\<close>

definition excluded :: "string \<Rightarrow> string set \<Rightarrow> string set \<Rightarrow> bool" where
  "excluded key ex uh \<longleftrightarrow> key \<in> ex \<or> key \<in> uh"

definition requestSizeEligible :: "RequestSizeConstraint \<Rightarrow> RequestSizeEstimate \<Rightarrow> bool" where
  "requestSizeEligible c est =
     (if \<not> Available est then True
      else if (case MaxContextTokens c of None \<Rightarrow> False | Some hi \<Rightarrow> Tokens est > hi) then False
      else if (case MinContextTokens c of None \<Rightarrow> False | Some lo \<Rightarrow> Tokens est \<le> lo) then False
      else True)"

definition candidateEligible :: "Primary \<Rightarrow> string \<Rightarrow> PlanOptions \<Rightarrow> bool" where
  "candidateEligible p key opt =
     (if excluded key (Excluded opt) (Unhealthy opt) then False
      else requestSizeEligible (Size p) (RequestSize opt))"

lemma candidateEligible_iff:
  "candidateEligible p key opt \<longleftrightarrow>
     key \<notin> Excluded opt \<and> key \<notin> Unhealthy opt \<and> requestSizeEligible (Size p) (RequestSize opt)"
  by (simp add: candidateEligible_def excluded_def)

definition hasRequestSizeConstraint :: "RequestSizeConstraint \<Rightarrow> bool" where
  "hasRequestSizeConstraint c \<longleftrightarrow> MinContextTokens c \<noteq> None \<or> MaxContextTokens c \<noteq> None"

definition SelectorHasRequestSizeConstraints :: "Selector \<Rightarrow> bool" where
  "SelectorHasRequestSizeConstraints sel =
     list_ex (\<lambda>alt.
       (case altPrimary alt of Some p \<Rightarrow> hasRequestSizeConstraint (Size p) | None \<Rightarrow> False)
       \<or> (case altWeighted alt of
            Some w \<Rightarrow> list_ex (\<lambda>b. case wbParallel b of
                Some g \<Rightarrow> list_ex (\<lambda>leg. hasRequestSizeConstraint (Size (pbTarget leg))) (pBranches g)
              | None \<Rightarrow> hasRequestSizeConstraint (Size (wbTarget b))) (wBranches w)
          | None \<Rightarrow> False)
       \<or> (case altParallel alt of
            Some g \<Rightarrow> list_ex (\<lambda>b. hasRequestSizeConstraint (Size (pbTarget b))) (pBranches g)
          | None \<Rightarrow> False))
     (Alternatives sel)"

section \<open>Planned leaves\<close>

record PlannedLeaf =
  leafKey :: string
  leafBackend :: string
  leafModel :: string
  leafParams :: url_values

definition planned_leaf :: "Primary \<Rightarrow> PlannedLeaf" where
  "planned_leaf p = \<lparr>leafKey = Primary_String p, leafBackend = Backend p, leafModel = Model p,
     leafParams = Params p\<rparr>"

definition PlannedLeaves :: "Selector \<Rightarrow> PlannedLeaf list" where
  "PlannedLeaves sel =
     concat (map (\<lambda>alt.
       case altPrimary alt of
         Some p \<Rightarrow> [planned_leaf p]
       | None \<Rightarrow> (case altWeighted alt of
           Some w \<Rightarrow> concat (map (\<lambda>b. case wbParallel b of
               Some g \<Rightarrow> map (\<lambda>pb. planned_leaf (pbTarget pb)) (pBranches g)
             | None \<Rightarrow> [planned_leaf (wbTarget b)]) (wBranches w))
         | None \<Rightarrow> (case altParallel alt of
             Some g \<Rightarrow> map (\<lambda>pb. planned_leaf (pbTarget pb)) (pBranches g)
           | None \<Rightarrow> []))) (Alternatives sel))"

section \<open>Weighted picks\<close>

definition effectiveWeight :: "int \<Rightarrow> int" where
  "effectiveWeight w = (if w \<le> 0 then 1 else w)"

definition maxThinkerCycleWeightRepeats :: int where
  "maxThinkerCycleWeightRepeats = 100"

definition thinkerCycleWeight :: "int \<Rightarrow> int" where
  "thinkerCycleWeight w =
     (let wt = effectiveWeight w in
      if wt > maxThinkerCycleWeightRepeats then maxThinkerCycleWeightRepeats else wt)"

fun sumWeightsLoop :: "int \<Rightarrow> WeightedBranch list \<Rightarrow> plan_error + int" where
  "sumWeightsLoop tot [] = Inr tot"
| "sumWeightsLoop tot (b # bs) =
     (let wt = effectiveWeight (Weight b) in
      if wt > 0 \<and> tot > MaxInt64 - wt then Inl ErrWeightedTotalTooLarge
      else sumWeightsLoop (tot + wt) bs)"

definition sumEligibleWeights :: "WeightedBranch list \<Rightarrow> plan_error + int" where
  "sumEligibleWeights eligible =
     (case sumWeightsLoop 0 eligible of
        Inl e \<Rightarrow> Inl e
      | Inr tot \<Rightarrow>
          if tot < 1 then Inl ErrNoEligibleCandidate
          else if tot > MaxInt64 then Inl ErrWeightedTotalTooLarge
          else Inr tot)"

text \<open>The cumulative scan; Go's zero branch when no prefix sum exceeds the roll is \<open>None\<close>.\<close>

fun chooseByRoll :: "int \<Rightarrow> int \<Rightarrow> WeightedBranch list \<Rightarrow> WeightedBranch option" where
  "chooseByRoll roll acc [] = None"
| "chooseByRoll roll acc (b # bs) =
     (let acc' = acc + effectiveWeight (Weight b) in
      if roll < acc' then Some b else chooseByRoll roll acc' bs)"

definition zero_branch :: WeightedBranch where
  "zero_branch = \<lparr>Weight = 0, IsFirst = False, IsThinker = False, wbTarget = zero_Primary, wbParallel = None\<rparr>"

definition plain_candidate :: "Primary \<Rightarrow> AttemptCandidate" where
  "plain_candidate p = \<lparr>acPrimary = p, acKey = Primary_String p, MarkedFirst = False, IsParallel = False,
     Handicap = 0, InterleavedRole = RoleNone, acSelectorKey = []\<rparr>"

definition parallel_candidate :: "ParallelBranch \<Rightarrow> AttemptCandidate" where
  "parallel_candidate b = (plain_candidate (pbTarget b))\<lparr>IsParallel := True, Handicap := pbHandicap b\<rparr>"

definition first_allowed :: "PlanOptions \<Rightarrow> plan_state \<Rightarrow> bool" where
  "first_allowed opt ps \<longleftrightarrow> \<not> IsRetryPath opt \<and> psSession ps = Some False"

definition next_roll :: "PlanOptions \<Rightarrow> plan_state \<Rightarrow> int \<Rightarrow> int \<times> plan_state" where
  "next_roll opt ps n = (case Rand opt of
       Some r \<Rightarrow> (r (psRolls ps) n, ps\<lparr>psRolls := Suc (psRolls ps)\<rparr>)
     | None \<Rightarrow> (SeededRoll opt n, ps))"

definition pickWeightedLegacy ::
  "Weighted \<Rightarrow> PlanOptions \<Rightarrow> plan_state \<Rightarrow> plan_error + (AttemptCandidate \<times> bool \<times> plan_state)" where
  "pickWeightedLegacy w opt ps =
     (let eligible = filter (\<lambda>b. candidateEligible (wbTarget b) (Primary_String (wbTarget b)) opt) (wBranches w) in
      if eligible = [] then Inl ErrNoEligibleCandidate
      else let firsts = (if first_allowed opt ps then filter IsFirst eligible else []) in
        case firsts of
          [b] \<Rightarrow> Inr ((plain_candidate (wbTarget b))\<lparr>MarkedFirst := True\<rparr>, True, ps)
        | _ # _ # _ \<Rightarrow> Inl ErrMultipleFirst
        | [] \<Rightarrow>
            (case sumEligibleWeights eligible of
               Inl e \<Rightarrow> Inl e
             | Inr tot \<Rightarrow>
                 (case next_roll opt ps tot of (roll, ps') \<Rightarrow>
                    let chosen = (case chooseByRoll roll 0 eligible of Some b \<Rightarrow> b | None \<Rightarrow> zero_branch)
                    in Inr ((plain_candidate (wbTarget chosen))
                             \<lparr>MarkedFirst := IsFirst chosen \<and> \<not> IsRetryPath opt\<rparr>, False, ps'))))"

definition branchKey :: "WeightedBranch \<Rightarrow> string" where
  "branchKey b = (case wbParallel b of
       Some g \<Rightarrow> ''parallel:'' @ Join ''!'' (map (\<lambda>leg. Primary_String (pbTarget leg)) (pBranches g))
     | None \<Rightarrow> Primary_String (wbTarget b))"

definition buildThinkerCycle :: "Weighted \<Rightarrow> CycleEntry list \<times> string" where
  "buildThinkerCycle w =
     (let selKey = Join ''^'' (map branchKey (wBranches w));
          executors = concat (map (\<lambda>b. if IsThinker b then []
              else replicate (nat (thinkerCycleWeight (Weight b)))
                     \<lparr>entryKey = branchKey b, entryRole = RoleExecutor\<rparr>) (wBranches w));
          thinker = (case find IsThinker (wBranches w) of
              Some b \<Rightarrow> [\<lparr>entryKey = branchKey b, entryRole = RoleThinker\<rparr>] | None \<Rightarrow> [])
      in (executors @ thinker, selKey))"

definition expandParallel :: "Parallel \<Rightarrow> PlanOptions \<Rightarrow> AttemptCandidate list" where
  "expandParallel p opt =
     filter (\<lambda>c. candidateEligible (acPrimary c) (acKey c) opt) (map parallel_candidate (pBranches p))"

definition cycleCandidates ::
  "Weighted \<Rightarrow> CycleEntry \<Rightarrow> string \<Rightarrow> PlanOptions \<Rightarrow> AttemptCandidate list option" where
  "cycleCandidates w entry selKey opt =
     (case find (\<lambda>b. branchKey b = entryKey entry) (wBranches w) of
        None \<Rightarrow> None
      | Some b \<Rightarrow>
          (case wbParallel b of
             Some g \<Rightarrow>
               let legs = expandParallel g opt in
               if legs = [] then None
               else Some (map (\<lambda>c. c\<lparr>InterleavedRole := entryRole entry, acSelectorKey := selKey\<rparr>) legs)
           | None \<Rightarrow>
               if \<not> candidateEligible (wbTarget b) (entryKey entry) opt then None
               else Some [\<lparr>acPrimary = wbTarget b, acKey = entryKey entry, MarkedFirst = False,
                     IsParallel = False, Handicap = 0, InterleavedRole = entryRole entry,
                     acSelectorKey = selKey\<rparr>]))"

text \<open>The loop \<open>for i := range n\<close> of \<open>pickThinkerCycle\<close>, from position \<open>i\<close> on.\<close>

fun cycleLoop :: "Weighted \<Rightarrow> PlanOptions \<Rightarrow> CycleEntry list \<Rightarrow> string \<Rightarrow> int \<Rightarrow> nat list
    \<Rightarrow> (AttemptCandidate list \<times> int) option" where
  "cycleLoop w opt entries selKey start [] = None"
| "cycleLoop w opt entries selKey start (i # rest) =
     (let n = length entries;
          idx = (start + int i) mod int n;
          entry = entries ! nat idx
      in if entryRole entry = RoleThinker \<and> SuppressThinker opt then cycleLoop w opt entries selKey start rest
         else case cycleCandidates w entry selKey opt of
                None \<Rightarrow> cycleLoop w opt entries selKey start rest
              | Some cands \<Rightarrow> Some (cands, (idx + 1) mod int n))"

definition cycle_valid :: "CycleState \<Rightarrow> CycleEntry list \<Rightarrow> string \<Rightarrow> bool" where
  "cycle_valid c entries selKey \<longleftrightarrow> \<not> CycleState_IsEmpty c \<and> SelectorKey c = selKey
     \<and> cycleSequenceEqual (Sequence c) entries"

definition pickThinkerCycle ::
  "Weighted \<Rightarrow> PlanOptions \<Rightarrow> plan_state
   \<Rightarrow> plan_error + (AttemptCandidate list \<times> bool \<times> CycleState option \<times> plan_state)" where
  "pickThinkerCycle w opt ps =
     (case buildThinkerCycle w of (entries, selKey) \<Rightarrow>
        let firsts = (if first_allowed opt ps
              then find (\<lambda>b. IsFirst b \<and> candidateEligible (wbTarget b) (Primary_String (wbTarget b)) opt) (wBranches w)
              else None)
        in case firsts of
             Some b \<Rightarrow> Inr ([(plain_candidate (wbTarget b))
                     \<lparr>MarkedFirst := True, InterleavedRole := RoleExecutor, acSelectorKey := selKey\<rparr>], True,
                   Some \<lparr>SelectorKey = selKey, Sequence = entries, NextIndex = 0\<rparr>, ps)
           | None \<Rightarrow>
               let state = (if cycle_valid (ThinkerCycle opt) entries selKey
                     then (if NextIndex (ThinkerCycle opt) < 0 \<or> NextIndex (ThinkerCycle opt) \<ge> int (length entries)
                           then (ThinkerCycle opt)\<lparr>NextIndex := 0\<rparr> else ThinkerCycle opt)
                     else \<lparr>SelectorKey = selKey, Sequence = entries, NextIndex = 0\<rparr>)
               in case cycleLoop w opt entries selKey (NextIndex state) [0..<length entries] of
                    None \<Rightarrow> Inl ErrNoEligibleCandidate
                  | Some (cands, next) \<Rightarrow> Inr (cands, False, Some (state\<lparr>NextIndex := next\<rparr>), ps))"

definition pickWeighted ::
  "Weighted \<Rightarrow> PlanOptions \<Rightarrow> plan_state
   \<Rightarrow> plan_error + (AttemptCandidate list \<times> bool \<times> CycleState option \<times> plan_state)" where
  "pickWeighted w opt ps =
     (if wBranches w = [] then Inl ErrNoEligibleCandidate
      else if \<not> list_ex IsThinker (wBranches w) then
        (case pickWeightedLegacy w opt ps of
           Inl e \<Rightarrow> Inl e
         | Inr (c, consumeFirst, ps') \<Rightarrow> Inr ([c], consumeFirst, None, ps'))
      else pickThinkerCycle w opt ps)"

definition ReplanWeighted ::
  "Weighted \<Rightarrow> PlanOptions \<Rightarrow> plan_state \<Rightarrow> plan_error + (AttemptCandidate \<times> plan_state)" where
  "ReplanWeighted w opt ps =
     (case pickWeighted w (opt\<lparr>IsRetryPath := True\<rparr>) ps of
        Inl e \<Rightarrow> Inl e
      | Inr (cands, _, _, ps') \<Rightarrow> Inr (hd cands, ps'))"

section \<open>Sticky selection\<close>

definition stickyCycleStartIdx :: "PlanOptions \<Rightarrow> CycleEntry list \<Rightarrow> string \<Rightarrow> int" where
  "stickyCycleStartIdx opt entries selKey =
     (if \<not> cycle_valid (ThinkerCycle opt) entries selKey then 0
      else if NextIndex (ThinkerCycle opt) < 0 \<or> NextIndex (ThinkerCycle opt) \<ge> int (length entries) then 0
      else NextIndex (ThinkerCycle opt))"

fun nextCycleLoop :: "CycleEntry list \<Rightarrow> string \<Rightarrow> string \<Rightarrow> Role \<Rightarrow> int \<Rightarrow> nat list \<Rightarrow> CycleState option" where
  "nextCycleLoop entries selKey key role startIdx [] = None"
| "nextCycleLoop entries selKey key role startIdx (i # rest) =
     (let n = length entries;
          idx = (startIdx + int i) mod int n;
          entry = entries ! nat idx
      in if entryKey entry = key \<and> entryRole entry = role
         then Some \<lparr>SelectorKey = selKey, Sequence = entries, NextIndex = (idx + 1) mod int n\<rparr>
         else nextCycleLoop entries selKey key role startIdx rest)"

definition nextCycleForEntry :: "CycleEntry list \<Rightarrow> string \<Rightarrow> string \<Rightarrow> Role \<Rightarrow> int \<Rightarrow> CycleState option" where
  "nextCycleForEntry entries selKey key role startIdx =
     (if entries = [] then None
      else let start = (if startIdx < 0 \<or> startIdx \<ge> int (length entries) then 0 else startIdx)
           in nextCycleLoop entries selKey key role start [0..<length entries])"

type_synonym sticky_pick = "AttemptCandidate \<times> CycleState option"

text \<open>\<open>thinkerAware\<close> with the cycle built from the weighted arm is \<open>Some (entries, selKey)\<close>.\<close>

definition sticky_cycle :: "Weighted \<Rightarrow> (CycleEntry list \<times> string) option" where
  "sticky_cycle w = (if list_ex IsThinker (wBranches w) then Some (buildThinkerCycle w) else None)"

definition sticky_finish :: "PlanOptions \<Rightarrow> plan_state \<Rightarrow> (CycleEntry list \<times> string) option
    \<Rightarrow> WeightedBranch \<Rightarrow> Role \<Rightarrow> AttemptCandidate \<Rightarrow> sticky_pick" where
  "sticky_finish opt ps cyc b role c =
     (let c' = c\<lparr>MarkedFirst := IsFirst b \<and> first_allowed opt ps\<rparr> in
      case cyc of
        None \<Rightarrow> (c', None)
      | Some (entries, selKey) \<Rightarrow>
          (c'\<lparr>acSelectorKey := selKey, InterleavedRole := role\<rparr>,
           nextCycleForEntry entries selKey (branchKey b) role (stickyCycleStartIdx opt entries selKey)))"

definition sticky_match :: "PlanOptions \<Rightarrow> string \<Rightarrow> Primary \<Rightarrow> bool" where
  "sticky_match opt backend p \<longleftrightarrow>
     TrimSpace (Backend p) = backend \<and> candidateEligible p (Primary_String p) opt"

fun sticky_branches :: "PlanOptions \<Rightarrow> plan_state \<Rightarrow> string \<Rightarrow> (CycleEntry list \<times> string) option
    \<Rightarrow> WeightedBranch list \<Rightarrow> sticky_pick option" where
  "sticky_branches opt ps backend cyc [] = None"
| "sticky_branches opt ps backend cyc (b # bs) =
     (if IsThinker b \<and> SuppressThinker opt then sticky_branches opt ps backend cyc bs
      else case wbParallel b of
        Some g \<Rightarrow>
          (case find (\<lambda>leg. sticky_match opt backend (pbTarget leg)) (pBranches g) of
             Some leg \<Rightarrow> Some (sticky_finish opt ps cyc b RoleExecutor (parallel_candidate leg))
           | None \<Rightarrow> sticky_branches opt ps backend cyc bs)
      | None \<Rightarrow>
          if sticky_match opt backend (wbTarget b)
          then Some (sticky_finish opt ps cyc b (if IsThinker b then RoleThinker else RoleExecutor)
                       (plain_candidate (wbTarget b)))
          else sticky_branches opt ps backend cyc bs)"

definition sticky_alternative :: "PlanOptions \<Rightarrow> plan_state \<Rightarrow> string \<Rightarrow> FailoverAlt \<Rightarrow> sticky_pick option" where
  "sticky_alternative opt ps backend alt =
     (case altPrimary alt of
        Some p \<Rightarrow> if sticky_match opt backend p then Some (plain_candidate p, None) else None
      | None \<Rightarrow> (case altWeighted alt of
          Some w \<Rightarrow> sticky_branches opt ps backend (sticky_cycle w) (wBranches w)
        | None \<Rightarrow> (case altParallel alt of
            Some g \<Rightarrow> (case find (\<lambda>b. sticky_match opt backend (pbTarget b)) (pBranches g) of
                Some b \<Rightarrow> Some (parallel_candidate b, None) | None \<Rightarrow> None)
          | None \<Rightarrow> None)))"

fun sticky_alternatives :: "PlanOptions \<Rightarrow> plan_state \<Rightarrow> string \<Rightarrow> FailoverAlt list \<Rightarrow> sticky_pick option" where
  "sticky_alternatives opt ps backend [] = None"
| "sticky_alternatives opt ps backend (alt # alts) =
     (case sticky_alternative opt ps backend alt of
        Some r \<Rightarrow> Some r
      | None \<Rightarrow> sticky_alternatives opt ps backend alts)"

definition stickyCandidate :: "Selector option \<Rightarrow> PlanOptions \<Rightarrow> plan_state \<Rightarrow> sticky_pick option" where
  "stickyCandidate sel opt ps =
     (let backend = TrimSpace (StickyBackendID opt) in
      case sel of
        None \<Rightarrow> None
      | Some s \<Rightarrow> if backend = [] then None else sticky_alternatives opt ps backend (Alternatives s))"

definition stickyAttemptGroup :: "Selector option \<Rightarrow> PlanOptions \<Rightarrow> plan_state \<Rightarrow> AttemptGroup option" where
  "stickyAttemptGroup sel opt ps =
     (case stickyCandidate sel opt ps of
        None \<Rightarrow> None
      | Some (c, nxt) \<Rightarrow> Some \<lparr>Candidates = [c], NextThinkerCycle = nxt\<rparr>)"

section \<open>Advisory reordering\<close>

text \<open>The first loop of \<open>reorderPreferredCandidates\<close>; the keys moved to the front are \<open>seen\<close>.\<close>

fun preferred_front :: "AttemptCandidate list \<Rightarrow> string set \<Rightarrow> string list \<Rightarrow> AttemptCandidate list \<times> string set" where
  "preferred_front cs seen [] = ([], seen)"
| "preferred_front cs seen (k # ks) =
     (if k = [] then preferred_front cs seen ks
      else case find (\<lambda>c. acKey c = k) cs of
        None \<Rightarrow> preferred_front cs seen ks
      | Some c \<Rightarrow>
          if acKey c \<in> seen then preferred_front cs seen ks
          else (case preferred_front cs (insert (acKey c) seen) ks of (out, seen') \<Rightarrow> (c # out, seen')))"

definition reorderPreferredCandidates :: "AttemptCandidate list \<Rightarrow> string list \<Rightarrow> AttemptCandidate list" where
  "reorderPreferredCandidates cs preferred =
     (if length cs \<le> 1 \<or> preferred = [] then cs
      else case preferred_front cs {} preferred of
        (out, seen) \<Rightarrow> out @ filter (\<lambda>c. acKey c \<notin> seen) cs)"

text \<open>\<open>indexByCandidate\<close>: the first group that holds a candidate with the (nonempty) key.\<close>

definition indexByCandidate :: "AttemptGroup list \<Rightarrow> string \<Rightarrow> nat option" where
  "indexByCandidate groups key =
     (if key = [] then None
      else find (\<lambda>gi. list_ex (\<lambda>c. acKey c = key) (Candidates (groups ! gi))) [0..<length groups])"

fun preferred_groups :: "AttemptGroup list \<Rightarrow> nat set \<Rightarrow> string list \<Rightarrow> nat list \<times> nat set" where
  "preferred_groups groups seen [] = ([], seen)"
| "preferred_groups groups seen (k # ks) =
     (case indexByCandidate groups k of
        None \<Rightarrow> preferred_groups groups seen ks
      | Some g \<Rightarrow>
          if g \<in> seen then preferred_groups groups seen ks
          else (case preferred_groups groups (insert g seen) ks of (out, seen') \<Rightarrow> (g # out, seen')))"

definition reorderPreferredGroups :: "AttemptGroup list \<Rightarrow> string list \<Rightarrow> AttemptGroup list" where
  "reorderPreferredGroups groups preferred =
     (if length groups \<le> 1 \<or> preferred = [] then groups
      else case preferred_groups groups {} preferred of
        (out, seen) \<Rightarrow> map (\<lambda>gi. groups ! gi) (out @ filter (\<lambda>gi. gi \<notin> seen) [0..<length groups]))"

section \<open>Failover expansion\<close>

definition expandAlternative ::
  "PlanOptions \<Rightarrow> plan_state \<Rightarrow> FailoverAlt \<Rightarrow> plan_error + (AttemptGroup option \<times> plan_state)" where
  "expandAlternative opt ps alt =
     (case altPrimary alt of
        Some p \<Rightarrow>
          let c = plain_candidate p in
          if \<not> candidateEligible (acPrimary c) (acKey c) opt then Inr (None, ps)
          else Inr (Some \<lparr>Candidates = [c], NextThinkerCycle = None\<rparr>, ps)
      | None \<Rightarrow> (case altWeighted alt of
          Some w \<Rightarrow>
            (case pickWeighted w opt ps of
               Inl ErrNoEligibleCandidate \<Rightarrow> Inr (None, ps)
             | Inl e \<Rightarrow> Inl e
             | Inr (c, consumeFirst, nextCycle, ps') \<Rightarrow>
                 Inr (Some \<lparr>Candidates = c, NextThinkerCycle = nextCycle\<rparr>,
                      if consumeFirst \<and> psSession ps' \<noteq> None then ps'\<lparr>psSession := Some True\<rparr> else ps'))
        | None \<Rightarrow> (case altParallel alt of
            Some g \<Rightarrow>
              let legs = expandParallel g opt in
              if legs = [] then Inr (None, ps)
              else Inr (Some \<lparr>Candidates = reorderPreferredCandidates legs (PreferredCandidateKeys opt),
                             NextThinkerCycle = None\<rparr>, ps)
          | None \<Rightarrow> Inl ErrInvalidAlternative)))"

fun expandAlternatives ::
  "PlanOptions \<Rightarrow> plan_state \<Rightarrow> FailoverAlt list \<Rightarrow> plan_error + (AttemptGroup list \<times> plan_state)" where
  "expandAlternatives opt ps [] = Inr ([], ps)"
| "expandAlternatives opt ps (alt # alts) =
     (case expandAlternative opt ps alt of
        Inl e \<Rightarrow> Inl e
      | Inr (g, ps') \<Rightarrow>
          (case expandAlternatives opt ps' alts of
             Inl e \<Rightarrow> Inl e
           | Inr (gs, ps'') \<Rightarrow> Inr ((case g of None \<Rightarrow> gs | Some g \<Rightarrow> g # gs), ps'')))"

definition ExpandFailoverGroups ::
  "Selector option \<Rightarrow> PlanOptions \<Rightarrow> plan_state \<Rightarrow> plan_error + (AttemptGroup list \<times> plan_state)" where
  "ExpandFailoverGroups sel opt ps =
     (case sel of
        None \<Rightarrow> Inl ErrNilSelector
      | Some s \<Rightarrow>
          (case stickyAttemptGroup sel opt ps of
             Some g \<Rightarrow> Inr ([g], ps)
           | None \<Rightarrow>
               (case expandAlternatives opt ps (Alternatives s) of
                  Inl e \<Rightarrow> Inl e
                | Inr (groups, ps') \<Rightarrow>
                    if groups = [] then Inl ErrNoEligibleCandidate
                    else Inr (reorderPreferredGroups groups (PreferredCandidateKeys opt), ps'))))"

definition ExpandFailover ::
  "Selector option \<Rightarrow> PlanOptions \<Rightarrow> plan_state \<Rightarrow> plan_error + (AttemptCandidate list \<times> plan_state)" where
  "ExpandFailover sel opt ps =
     (case ExpandFailoverGroups sel opt ps of
        Inl e \<Rightarrow> Inl e
      | Inr (groups, ps') \<Rightarrow> Inr (concat (map Candidates groups), ps'))"


section \<open>Eligibility and leaves of picks\<close>

text \<open>The contract of \<open>Rng.Intn\<close>: the result lies in \<open>[0, n)\<close> for positive \<open>n\<close>.\<close>

definition rng_ok :: "PlanOptions \<Rightarrow> bool" where
  "rng_ok opt \<longleftrightarrow> (\<forall>n > 0. 0 \<le> SeededRoll opt n \<and> SeededRoll opt n < n)
     \<and> (\<forall>r. Rand opt = Some r \<longrightarrow> (\<forall>i. \<forall>n > 0. 0 \<le> r i n \<and> r i n < n))"

definition selector_leaves :: "Selector \<Rightarrow> Primary list" where
  "selector_leaves sel = concat (map alt_leaves (Alternatives sel))"

text \<open>A candidate that planning may return for an arm with the given leaves.\<close>

definition good_candidate :: "PlanOptions \<Rightarrow> Primary set \<Rightarrow> AttemptCandidate \<Rightarrow> bool" where
  "good_candidate opt leaves c \<longleftrightarrow> acPrimary c \<in> leaves \<and> acKey c = Primary_String (acPrimary c)
     \<and> candidateEligible (acPrimary c) (acKey c) opt
     \<and> (SuppressThinker opt \<longrightarrow> InterleavedRole c \<noteq> RoleThinker)"

definition good_group :: "PlanOptions \<Rightarrow> Primary set \<Rightarrow> AttemptCandidate list \<Rightarrow> bool" where
  "good_group opt leaves cs \<longleftrightarrow> cs \<noteq> [] \<and> (\<forall>c \<in> set cs. good_candidate opt leaves c)"

definition weighted_leaves :: "Weighted \<Rightarrow> Primary set" where
  "weighted_leaves w = (\<Union>b \<in> set (wBranches w). set (branch_leaves b))"

lemma alt_leaves_simps [simp]:
  "altPrimary alt = Some p \<Longrightarrow> alt_leaves alt = [p]"
  "altPrimary alt = None \<Longrightarrow> altWeighted alt = Some w \<Longrightarrow> set (alt_leaves alt) = weighted_leaves w"
  "altPrimary alt = None \<Longrightarrow> altWeighted alt = None \<Longrightarrow> altParallel alt = Some g \<Longrightarrow>
     alt_leaves alt = map pbTarget (pBranches g)"
  by (auto simp: alt_leaves_def weighted_leaves_def)

lemma plain_candidate_simps [simp]:
  "acPrimary (plain_candidate p) = p" "acKey (plain_candidate p) = Primary_String p"
  "InterleavedRole (plain_candidate p) = RoleNone" "MarkedFirst (plain_candidate p) = False"
  "acPrimary (parallel_candidate b) = pbTarget b" "acKey (parallel_candidate b) = Primary_String (pbTarget b)"
  "InterleavedRole (parallel_candidate b) = RoleNone" "MarkedFirst (parallel_candidate b) = False"
  by (simp_all add: plain_candidate_def parallel_candidate_def)

lemma expandParallel_good:
  "c \<in> set (expandParallel g opt) \<Longrightarrow> good_candidate opt (set (map pbTarget (pBranches g))) c"
  by (auto simp: expandParallel_def good_candidate_def)

lemma good_candidate_mono: "good_candidate opt A c \<Longrightarrow> A \<subseteq> B \<Longrightarrow> good_candidate opt B c"
  by (auto simp: good_candidate_def)

lemma good_group_mono: "good_group opt A cs \<Longrightarrow> A \<subseteq> B \<Longrightarrow> good_group opt B cs"
  by (auto simp: good_group_def intro: good_candidate_mono)

subsection \<open>Weight sums and the roll\<close>

definition weight_sum :: "WeightedBranch list \<Rightarrow> int" where
  "weight_sum bs = sum_list (map (\<lambda>b. effectiveWeight (Weight b)) bs)"

lemma effectiveWeight_pos: "effectiveWeight x \<ge> 1"
  by (simp add: effectiveWeight_def)

lemma weight_sum_simps [simp]:
  "weight_sum [] = 0" "weight_sum (b # bs) = effectiveWeight (Weight b) + weight_sum bs"
  by (simp_all add: weight_sum_def)

lemma weight_sum_ge_length: "weight_sum bs \<ge> int (length bs)"
proof (induction bs)
  case (Cons b bs)
  then show ?case using effectiveWeight_pos [of "Weight b"] by simp
qed simp

lemma sumWeightsLoop_eq:
  "0 \<le> a \<Longrightarrow> a \<le> MaxInt64 \<Longrightarrow> sumWeightsLoop a bs =
     (if a + weight_sum bs \<le> MaxInt64 then Inr (a + weight_sum bs) else Inl ErrWeightedTotalTooLarge)"
proof (induction bs arbitrary: a)
  case (Cons b bs)
  note pos = effectiveWeight_pos [of "Weight b"] and ge = weight_sum_ge_length [of bs]
  show ?case
  proof (cases "a > MaxInt64 - effectiveWeight (Weight b)")
    case True
    with pos ge Cons.prems show ?thesis by (simp add: Let_def)
  next
    case False
    then have "sumWeightsLoop a (b # bs) = sumWeightsLoop (a + effectiveWeight (Weight b)) bs"
      by (simp add: Let_def)
    with Cons.IH [of "a + effectiveWeight (Weight b)"] Cons.prems pos False show ?thesis
      by (simp add: add.assoc)
  qed
qed simp

lemma sumEligibleWeights_eq:
  "bs \<noteq> [] \<Longrightarrow> sumEligibleWeights bs =
     (if weight_sum bs \<le> MaxInt64 then Inr (weight_sum bs) else Inl ErrWeightedTotalTooLarge)"
  using weight_sum_ge_length [of bs] sumWeightsLoop_eq [of 0 bs]
  by (cases bs) (auto simp: sumEligibleWeights_def simp del: sumWeightsLoop.simps)

lemma chooseByRoll_nth:
  "i < length bs \<Longrightarrow> a + weight_sum (take i bs) \<le> roll \<Longrightarrow> roll < a + weight_sum (take (Suc i) bs) \<Longrightarrow>
   chooseByRoll roll a bs = Some (bs ! i)"
proof (induction bs arbitrary: a i)
  case (Cons b bs)
  show ?case
  proof (cases i)
    case 0
    with Cons.prems show ?thesis by (simp add: Let_def)
  next
    case (Suc j)
    have "a + effectiveWeight (Weight b) \<le> roll"
      using Cons.prems(2) weight_sum_ge_length [of "take j bs"] by (simp add: Suc)
    with Cons.prems Cons.IH [of j "a + effectiveWeight (Weight b)"] show ?thesis
      by (simp add: Suc Let_def add.assoc)
  qed
qed simp

lemma chooseByRoll_Some:
  "roll < a + weight_sum bs \<Longrightarrow> bs \<noteq> [] \<Longrightarrow> \<exists>b. chooseByRoll roll a bs = Some b \<and> b \<in> set bs"
proof (induction bs arbitrary: a)
  case (Cons b bs)
  show ?case
  proof (cases "roll < a + effectiveWeight (Weight b)")
    case False
    with Cons.prems have "bs \<noteq> []" by auto
    with Cons.IH [of "a + effectiveWeight (Weight b)"] Cons.prems False show ?thesis
      by (auto simp: Let_def add.assoc)
  qed (simp add: Let_def)
qed simp

lemma next_roll_bound:
  "rng_ok opt \<Longrightarrow> n > 0 \<Longrightarrow> next_roll opt ps n = (roll, ps') \<Longrightarrow> 0 \<le> roll \<and> roll < n \<and> psSession ps' = psSession ps"
  by (auto simp: rng_ok_def next_roll_def split: option.splits)


subsection \<open>The rolled pick\<close>

definition eligible_branches :: "Weighted \<Rightarrow> PlanOptions \<Rightarrow> WeightedBranch list" where
  "eligible_branches w opt =
     filter (\<lambda>b. candidateEligible (wbTarget b) (Primary_String (wbTarget b)) opt) (wBranches w)"

lemma eligible_branches_set:
  "b \<in> set (eligible_branches w opt) \<longleftrightarrow>
     b \<in> set (wBranches w) \<and> candidateEligible (wbTarget b) (Primary_String (wbTarget b)) opt"
  by (simp add: eligible_branches_def)

lemma wf_plain_branches:
  "wf_weighted w \<Longrightarrow> \<not> list_ex IsThinker (wBranches w) \<Longrightarrow> b \<in> set (wBranches w) \<Longrightarrow>
     wbParallel b = None \<and> wbTarget b \<in> weighted_leaves w"
  by (auto simp: wf_weighted_def weighted_leaves_def branch_leaves_def list_ex_iff)

lemma filter_le_one:
  assumes "length (filter P xs) \<le> 1"
  shows "filter P (filter Q xs) = [] \<or> (\<exists>x. filter P (filter Q xs) = [x])"
proof -
  have "length (filter P (filter Q xs)) \<le> length (filter P xs)"
    by (induction xs) auto
  with assms have "length (filter P (filter Q xs)) \<le> 1" by linarith
  then show ?thesis by (cases "filter P (filter Q xs)") (simp_all del: filter_filter)
qed

definition rolled_candidate :: "PlanOptions \<Rightarrow> WeightedBranch \<Rightarrow> AttemptCandidate" where
  "rolled_candidate opt b = (plain_candidate (wbTarget b))\<lparr>MarkedFirst := IsFirst b \<and> \<not> IsRetryPath opt\<rparr>"

text \<open>The four outcomes of the rolled pick on a parsed group.\<close>

lemma pickWeightedLegacy_cases:
  assumes wf: "wf_weighted w" and rng: "rng_ok opt"
  obtains
    (none) "eligible_branches w opt = []" "pickWeightedLegacy w opt ps = Inl ErrNoEligibleCandidate"
  | (first) b where "first_allowed opt ps" "b \<in> set (eligible_branches w opt)" "IsFirst b"
      "pickWeightedLegacy w opt ps = Inr ((plain_candidate (wbTarget b))\<lparr>MarkedFirst := True\<rparr>, True, ps)"
  | (large) "eligible_branches w opt \<noteq> []" "weight_sum (eligible_branches w opt) > MaxInt64"
      "pickWeightedLegacy w opt ps = Inl ErrWeightedTotalTooLarge"
  | (rolled) b roll ps' where "b \<in> set (eligible_branches w opt)"
      "next_roll opt ps (weight_sum (eligible_branches w opt)) = (roll, ps')"
      "chooseByRoll roll 0 (eligible_branches w opt) = Some b" "psSession ps' = psSession ps"
      "pickWeightedLegacy w opt ps = Inr (rolled_candidate opt b, False, ps')"
proof -
  let ?el = "eligible_branches w opt"
  define firsts where "firsts = (if first_allowed opt ps then filter IsFirst ?el else [])"
  obtain roll ps' where nr: "next_roll opt ps (weight_sum ?el) = (roll, ps')" by fastforce
  have "length (filter IsFirst (wBranches w)) \<le> 1" using wf by (simp add: wf_weighted_def)
  then have fc: "firsts = [] \<or> (\<exists>b. firsts = [b])"
    unfolding firsts_def eligible_branches_def
    using filter_le_one [of IsFirst "wBranches w"] by (simp del: filter_filter)
  have unf: "pickWeightedLegacy w opt ps = (if ?el = [] then Inl ErrNoEligibleCandidate
      else case firsts of
          [b] \<Rightarrow> Inr ((plain_candidate (wbTarget b))\<lparr>MarkedFirst := True\<rparr>, True, ps)
        | _ # _ # _ \<Rightarrow> Inl ErrMultipleFirst
        | [] \<Rightarrow> (case sumEligibleWeights ?el of
               Inl e \<Rightarrow> Inl e
             | Inr tot \<Rightarrow> (case next_roll opt ps tot of (roll, ps') \<Rightarrow>
                    let chosen = (case chooseByRoll roll 0 ?el of Some b \<Rightarrow> b | None \<Rightarrow> zero_branch)
                    in Inr (rolled_candidate opt chosen, False, ps'))))"
    unfolding pickWeightedLegacy_def eligible_branches_def firsts_def rolled_candidate_def Let_def by (rule refl)
  show thesis
  proof (cases "?el = []")
    case True
    with unf show thesis by (intro none) auto
  next
    case ne: False
    from fc show thesis
    proof
      assume "\<exists>b. firsts = [b]"
      then obtain b where b: "firsts = [b]" by blast
      then have fa: "first_allowed opt ps" and "set (filter IsFirst ?el) = {b}"
        by (simp_all add: firsts_def split: if_splits del: set_filter)
      then have "b \<in> set ?el" "IsFirst b" by auto
      with fa unf ne b show thesis by (intro first [of b]) auto
    next
      assume f: "firsts = []"
      show thesis
      proof (cases "weight_sum ?el \<le> MaxInt64")
        case False
        with unf ne f sumEligibleWeights_eq [OF ne] show thesis by (intro large) auto
      next
        case True
        have pos: "weight_sum ?el > 0"
          using weight_sum_ge_length [of ?el] ne by (cases ?el) auto
        note r = next_roll_bound [OF rng pos nr]
        from chooseByRoll_Some [of roll 0 ?el] r ne obtain b
          where b: "chooseByRoll roll 0 ?el = Some b" "b \<in> set ?el" by auto
        show thesis
          by (rule rolled [OF b(2) nr b(1)])
            (use r unf ne f True sumEligibleWeights_eq [OF ne] nr b in auto)
      qed
    qed
  qed
qed

subsection \<open>The thinker cycle\<close>

lemma cycle_entry_in:
  assumes "e \<in> set (fst (buildThinkerCycle w))"
  shows "\<exists>b \<in> set (wBranches w). entryKey e = branchKey b
     \<and> entryRole e = (if IsThinker b then RoleThinker else RoleExecutor)"
proof (cases "find IsThinker (wBranches w)")
  case None
  with assms show ?thesis by (auto simp: buildThinkerCycle_def Let_def split: if_splits)
next
  case (Some b)
  with assms find_Some_set [OF Some] show ?thesis
    by (auto simp: buildThinkerCycle_def Let_def split: if_splits)
qed

lemma cycleCandidates_good:
  assumes "cycleCandidates w e selKey opt = Some cs"
    and "\<not> (entryRole e = RoleThinker \<and> SuppressThinker opt)"
  shows "good_group opt (weighted_leaves w) cs \<and> (\<forall>c \<in> set cs. \<not> MarkedFirst c)"
proof -
  from assms(1) obtain b where b: "find (\<lambda>b. branchKey b = entryKey e) (wBranches w) = Some b"
    by (auto simp: cycleCandidates_def split: option.splits)
  then have bin: "b \<in> set (wBranches w)" and bk: "branchKey b = entryKey e"
    by (auto dest: find_Some_set)
  show ?thesis
  proof (cases "wbParallel b")
    case None
    then have "wbTarget b \<in> set (branch_leaves b)" "Primary_String (wbTarget b) = entryKey e"
      using bk by (simp_all add: branch_leaves_def branchKey_def)
    moreover from this bin have "wbTarget b \<in> weighted_leaves w" by (auto simp: weighted_leaves_def)
    ultimately show ?thesis using None assms b
      by (auto simp: cycleCandidates_def good_group_def good_candidate_def split: if_splits)
  next
    case (Some g)
    with assms(1) b have cs: "cs = map (\<lambda>c. c\<lparr>InterleavedRole := entryRole e, acSelectorKey := selKey\<rparr>)
        (expandParallel g opt)" "expandParallel g opt \<noteq> []"
      by (auto simp: cycleCandidates_def Let_def split: if_splits)
    have sub: "set (map pbTarget (pBranches g)) \<subseteq> weighted_leaves w"
      using bin Some by (auto simp: weighted_leaves_def branch_leaves_def)
    have "good_candidate opt (weighted_leaves w) c \<and> \<not> MarkedFirst c" if "c \<in> set cs" for c
    proof -
      from that cs obtain d where d: "d \<in> set (expandParallel g opt)"
        "c = d\<lparr>InterleavedRole := entryRole e, acSelectorKey := selKey\<rparr>" by auto
      from expandParallel_good [OF d(1)] sub have "good_candidate opt (weighted_leaves w) d"
        by (rule good_candidate_mono)
      moreover have "\<not> MarkedFirst d" using d(1) by (auto simp: expandParallel_def)
      ultimately show ?thesis using assms(2) d(2) by (auto simp: good_candidate_def)
    qed
    moreover have "cs \<noteq> []" using cs by simp
    ultimately show ?thesis by (simp add: good_group_def)
  qed
qed

lemma cycleLoop_Some:
  assumes "cycleLoop w opt entries selKey start is = Some (cs, nxt)"
  shows "\<exists>i \<in> set is. let e = entries ! nat ((start + int i) mod int (length entries)) in
     \<not> (entryRole e = RoleThinker \<and> SuppressThinker opt) \<and> cycleCandidates w e selKey opt = Some cs
     \<and> nxt = ((start + int i) mod int (length entries) + 1) mod int (length entries)"
  using assms by (induction "is") (auto simp: Let_def split: if_splits option.splits)

lemma cycleLoop_None:
  "cycleLoop w opt entries selKey start is = None \<longleftrightarrow>
     (\<forall>i \<in> set is. let e = entries ! nat ((start + int i) mod int (length entries)) in
       (entryRole e = RoleThinker \<and> SuppressThinker opt) \<or> cycleCandidates w e selKey opt = None)"
  by (induction "is") (auto simp: Let_def split: option.splits)

lemma pickThinkerCycle_good:
  assumes wf: "wf_weighted w" and ok: "pickThinkerCycle w opt ps = Inr (cs, consumeFirst, nxt, ps')"
  shows "good_group opt (weighted_leaves w) cs" "ps' = ps"
    "consumeFirst \<longrightarrow> first_allowed opt ps" "\<not> consumeFirst \<longrightarrow> (\<forall>c \<in> set cs. \<not> MarkedFirst c)"
    "\<exists>cy. nxt = Some cy"
proof -
  obtain entries selKey where bt: "buildThinkerCycle w = (entries, selKey)" by fastforce
  let ?first = "\<lambda>b. IsFirst b \<and> candidateEligible (wbTarget b) (Primary_String (wbTarget b)) opt"
  have *: "good_group opt (weighted_leaves w) cs \<and> ps' = ps \<and> (consumeFirst \<longrightarrow> first_allowed opt ps)
    \<and> (\<not> consumeFirst \<longrightarrow> (\<forall>c \<in> set cs. \<not> MarkedFirst c)) \<and> (\<exists>cy. nxt = Some cy)"
  proof (cases "first_allowed opt ps \<and> find ?first (wBranches w) \<noteq> None")
    case True
    then obtain b where b: "find ?first (wBranches w) = Some b" by auto
    then have "b \<in> set (wBranches w)" "?first b" by (auto dest: find_Some_set)
    moreover from this wf have "wbTarget b \<in> weighted_leaves w"
      by (force simp: wf_weighted_def wf_branch_def weighted_leaves_def branch_leaves_def split: option.splits)
    ultimately show ?thesis using ok True b bt
      by (auto simp: pickThinkerCycle_def Let_def good_group_def good_candidate_def)
  next
    case False
    then have fs: "(if first_allowed opt ps then find ?first (wBranches w) else None) = None" by auto
    from ok obtain start where
      "\<exists>nx. cycleLoop w opt entries selKey start [0..<length entries] = Some (cs, nx)"
      and r: "\<not> consumeFirst" "ps' = ps" "\<exists>cy. nxt = Some cy"
      unfolding pickThinkerCycle_def bt Let_def prod.case fs
      by (auto split: option.splits prod.splits)
    with cycleLoop_Some cycleCandidates_good show ?thesis by (metis (no_types, lifting))
  qed
  from * show "good_group opt (weighted_leaves w) cs" "ps' = ps"
    "consumeFirst \<longrightarrow> first_allowed opt ps" "\<not> consumeFirst \<longrightarrow> (\<forall>c \<in> set cs. \<not> MarkedFirst c)"
    "\<exists>cy. nxt = Some cy"
    by auto
qed


subsection \<open>No eligible branch is missed\<close>

definition offered :: "PlanOptions \<Rightarrow> Primary \<Rightarrow> bool" where
  "offered opt p \<longleftrightarrow> candidateEligible p (Primary_String p) opt"

definition offered_branches :: "PlanOptions \<Rightarrow> Weighted \<Rightarrow> WeightedBranch list" where
  "offered_branches opt w = filter (\<lambda>b. \<not> (IsThinker b \<and> SuppressThinker opt)) (wBranches w)"

lemma find_distinct_key:
  "distinct (map f xs) \<Longrightarrow> x \<in> set xs \<Longrightarrow> find (\<lambda>y. f y = f x) xs = Some x"
  by (induction xs) auto

lemma filter_le_one_unique:
  "length (filter P xs) \<le> 1 \<Longrightarrow> x \<in> set xs \<Longrightarrow> y \<in> set xs \<Longrightarrow> P x \<Longrightarrow> P y \<Longrightarrow> x = y"
  by (induction xs) (auto simp: filter_empty_conv split: if_splits)

lemma cycle_has_entry:
  assumes "wf_weighted w" "b \<in> set (wBranches w)"
  shows "\<lparr>entryKey = branchKey b, entryRole = (if IsThinker b then RoleThinker else RoleExecutor)\<rparr>
     \<in> set (fst (buildThinkerCycle w))"
proof (cases "IsThinker b")
  case True
  then obtain b' where b': "find IsThinker (wBranches w) = Some b'"
    using assms(2) find_None_set [of IsThinker "wBranches w"] by (cases "find IsThinker (wBranches w)") auto
  moreover have "b' = b"
    using filter_le_one_unique [of IsThinker "wBranches w" b' b] assms find_Some_set [OF b'] True
    by (simp add: wf_weighted_def)
  ultimately show ?thesis using True by (simp add: buildThinkerCycle_def Let_def)
next
  case False
  have "nat (thinkerCycleWeight (Weight b)) \<noteq> 0"
    using effectiveWeight_pos [of "Weight b"]
    by (simp add: thinkerCycleWeight_def maxThinkerCycleWeightRepeats_def Let_def)
  with False assms(2) show ?thesis by (force simp: buildThinkerCycle_def Let_def)
qed

lemma cycle_index_onto:
  assumes "j < n" "0 \<le> start"
  shows "\<exists>i < n. nat ((start + int i) mod int n) = j"
proof -
  let ?i = "(int j - start) mod int n"
  have b: "0 \<le> ?i" "?i < int n" using assms(1) by simp_all
  have "(start + int (nat ?i)) mod int n = (start + (int j - start)) mod int n"
    using b by (simp add: mod_simps)
  also have "\<dots> = int j" using assms(1) by simp
  finally have "nat ((start + int (nat ?i)) mod int n) = j" by (simp only: nat_int)
  with b show ?thesis by (intro exI [of _ "nat ?i"]) auto
qed

lemma cycleCandidates_None:
  assumes "distinct (map branchKey (wBranches w))" "b \<in> set (wBranches w)"
    and "cycleCandidates w \<lparr>entryKey = branchKey b, entryRole = r\<rparr> selKey opt = None" "p \<in> set (branch_leaves b)"
  shows "\<not> offered opt p"
  using assms find_distinct_key [OF assms(1,2)]
  by (auto simp: cycleCandidates_def offered_def branch_leaves_def expandParallel_def branchKey_def Let_def
      filter_empty_conv split: option.splits if_splits)

lemma cycleLoop_all_None:
  assumes "cycleLoop w opt entries selKey start [0..<length entries] = None" "0 \<le> start"
    and "e \<in> set entries" "\<not> (entryRole e = RoleThinker \<and> SuppressThinker opt)"
  shows "cycleCandidates w e selKey opt = None"
proof -
  from assms(3) obtain j where "j < length entries" "e = entries ! j" by (auto simp: in_set_conv_nth)
  with cycle_index_onto [OF this(1) assms(2)] obtain i where
    "i < length entries" "entries ! nat ((start + int i) mod int (length entries)) = e" by auto
  with assms(1,4) show ?thesis by (force simp: cycleLoop_None Let_def)
qed

lemma pickThinkerCycle_error:
  assumes wf: "wf_weighted w" and err: "pickThinkerCycle w opt ps = Inl e"
  shows "e = ErrNoEligibleCandidate"
    "distinct (map branchKey (wBranches w)) \<Longrightarrow> b \<in> set (offered_branches opt w) \<Longrightarrow>
       p \<in> set (branch_leaves b) \<Longrightarrow> \<not> offered opt p"
proof -
  obtain entries selKey where bt: "buildThinkerCycle w = (entries, selKey)" by fastforce
  show "e = ErrNoEligibleCandidate"
    using err by (auto simp: pickThinkerCycle_def Let_def split: prod.splits option.splits)
  from err obtain start where st:
    "cycleLoop w opt entries selKey start [0..<length entries] = None" "0 \<le> start"
    by (auto simp: pickThinkerCycle_def bt Let_def split: option.splits if_splits)
  show "\<not> offered opt p" if "distinct (map branchKey (wBranches w))" "b \<in> set (offered_branches opt w)"
      "p \<in> set (branch_leaves b)"
  proof -
    let ?e = "\<lparr>entryKey = branchKey b, entryRole = (if IsThinker b then RoleThinker else RoleExecutor)\<rparr>"
    have b: "b \<in> set (wBranches w)" "\<not> (IsThinker b \<and> SuppressThinker opt)"
      using that(2) by (auto simp: offered_branches_def)
    have "?e \<in> set entries" using cycle_has_entry [OF wf b(1)] bt by simp
    with b(2) have "cycleCandidates w ?e selKey opt = None"
      by (intro cycleLoop_all_None [OF st]) auto
    from cycleCandidates_None [OF that(1) b(1) this that(3)] show ?thesis .
  qed
qed

subsection \<open>The weighted pick as a whole\<close>

text \<open>Weighted groups whose cycle entries resolve to their own branch.\<close>

definition distinct_cycle :: "Weighted \<Rightarrow> bool" where
  "distinct_cycle w \<longleftrightarrow> (list_ex IsThinker (wBranches w) \<longrightarrow> distinct (map branchKey (wBranches w)))"

lemma pickWeighted_good:
  assumes wf: "wf_weighted w" and rng: "rng_ok opt"
    and ok: "pickWeighted w opt ps = Inr (cs, consumeFirst, nxt, ps')"
  shows "good_group opt (weighted_leaves w) cs \<and> psSession ps' = psSession ps
     \<and> (consumeFirst \<longrightarrow> first_allowed opt ps) \<and> (IsRetryPath opt \<longrightarrow> (\<forall>c \<in> set cs. \<not> MarkedFirst c))"
proof (cases "list_ex IsThinker (wBranches w)")
  case True
  with ok have "pickThinkerCycle w opt ps = Inr (cs, consumeFirst, nxt, ps')"
    by (simp add: pickWeighted_def split: if_splits)
  from pickThinkerCycle_good [OF wf this] show ?thesis by (auto simp: first_allowed_def)
next
  case False
  with ok wf obtain c where c: "pickWeightedLegacy w opt ps = Inr (c, consumeFirst, ps')" "cs = [c]"
    by (auto simp: pickWeighted_def wf_weighted_def split: sum.splits prod.splits if_splits)
  note leaf = wf_plain_branches [OF wf False]
  show ?thesis
  proof (cases rule: pickWeightedLegacy_cases [OF wf rng, of ps, case_names none first large rolled])
    case (first b)
    with c leaf show ?thesis
      by (auto simp: good_group_def good_candidate_def eligible_branches_set first_allowed_def)
  next
    case (rolled b roll ps'')
    with c leaf show ?thesis
      by (auto simp: good_group_def good_candidate_def eligible_branches_set rolled_candidate_def)
  qed (use c in auto)
qed

lemma pickWeighted_error:
  assumes wf: "wf_weighted w" and rng: "rng_ok opt" and err: "pickWeighted w opt ps = Inl e"
  shows "e = ErrNoEligibleCandidate \<and>
      (distinct_cycle w \<longrightarrow> (\<forall>b \<in> set (offered_branches opt w). \<forall>p \<in> set (branch_leaves b). \<not> offered opt p))
    \<or> e = ErrWeightedTotalTooLarge \<and> \<not> list_ex IsThinker (wBranches w)
      \<and> weight_sum (eligible_branches w opt) > MaxInt64"
proof (cases "list_ex IsThinker (wBranches w)")
  case True
  with err wf have "pickThinkerCycle w opt ps = Inl e"
    by (simp add: pickWeighted_def wf_weighted_def)
  from pickThinkerCycle_error [OF wf this] True show ?thesis by (simp add: distinct_cycle_def)
next
  case False
  with err wf have c: "pickWeightedLegacy w opt ps = Inl e"
    by (auto simp: pickWeighted_def wf_weighted_def split: sum.splits prod.splits if_splits)
  show ?thesis
  proof (cases rule: pickWeightedLegacy_cases [OF wf rng, of ps, case_names none first large rolled])
    case none
    have "\<not> offered opt p" if "b \<in> set (offered_branches opt w)" "p \<in> set (branch_leaves b)" for b p
    proof -
      from that(1) have "b \<in> set (wBranches w)" by (simp add: offered_branches_def)
      with wf_plain_branches [OF wf False this] that(2) none(1) eligible_branches_set [of b w opt]
      show ?thesis by (simp add: branch_leaves_def offered_def)
    qed
    with none c show ?thesis by simp
  next
    case large
    with c False show ?thesis by simp
  qed (use c in auto)
qed


subsection \<open>Sticky picks\<close>

definition alt_offered_leaves :: "PlanOptions \<Rightarrow> FailoverAlt \<Rightarrow> Primary set" where
  "alt_offered_leaves opt alt = (case (altPrimary alt, altWeighted alt) of
       (None, Some w) \<Rightarrow> (\<Union>b \<in> set (offered_branches opt w). set (branch_leaves b))
     | _ \<Rightarrow> set (alt_leaves alt))"

lemma sticky_finish_simps:
  "acPrimary (fst (sticky_finish opt ps cyc b role c)) = acPrimary c"
  "acKey (fst (sticky_finish opt ps cyc b role c)) = acKey c"
  "MarkedFirst (fst (sticky_finish opt ps cyc b role c)) \<longleftrightarrow> IsFirst b \<and> first_allowed opt ps"
  "InterleavedRole (fst (sticky_finish opt ps cyc b role c)) = (if cyc = None then InterleavedRole c else role)"
  by (simp_all add: sticky_finish_def Let_def split: option.splits prod.splits)

definition sticky_good :: "PlanOptions \<Rightarrow> string \<Rightarrow> Primary set \<Rightarrow> AttemptCandidate \<Rightarrow> bool" where
  "sticky_good opt backend leaves c \<longleftrightarrow> good_candidate opt leaves c
     \<and> TrimSpace (Backend (acPrimary c)) = backend \<and> (IsRetryPath opt \<longrightarrow> \<not> MarkedFirst c)"

lemma sticky_finish_good:
  assumes "sticky_match opt backend (acPrimary c)" "acPrimary c \<in> leaves" "acKey c = Primary_String (acPrimary c)"
    and "InterleavedRole c = RoleNone" "SuppressThinker opt \<Longrightarrow> role \<noteq> RoleThinker"
  shows "sticky_good opt backend leaves (fst (sticky_finish opt ps cyc b role c))"
  using assms by (auto simp: sticky_good_def good_candidate_def sticky_finish_simps sticky_match_def first_allowed_def)

lemma sticky_good_mono: "sticky_good opt backend A c \<Longrightarrow> A \<subseteq> B \<Longrightarrow> sticky_good opt backend B c"
  by (auto simp: sticky_good_def intro: good_candidate_mono)

lemma sticky_branches_Cons:
  assumes "sticky_branches opt ps backend cyc (b # bs) = Some r"
  shows "sticky_branches opt ps backend cyc bs = Some r \<or>
    (\<exists>role d. r = sticky_finish opt ps cyc b role d \<and> sticky_match opt backend (acPrimary d)
       \<and> acPrimary d \<in> set (branch_leaves b) \<and> acKey d = Primary_String (acPrimary d)
       \<and> InterleavedRole d = RoleNone \<and> (SuppressThinker opt \<longrightarrow> role \<noteq> RoleThinker))"
proof (cases "wbParallel b")
  case None
  with assms show ?thesis
    by (cases "sticky_match opt backend (wbTarget b)")
      (auto simp: branch_leaves_def split: if_splits intro!: exI [of _ "plain_candidate (wbTarget b)"])
next
  case (Some g)
  with assms show ?thesis
    by (cases "find (\<lambda>leg. sticky_match opt backend (pbTarget leg)) (pBranches g)")
      (force simp: branch_leaves_def split: if_splits dest: find_Some_set)+
qed

lemma sticky_branches_good:
  "sticky_branches opt ps backend cyc bs = Some r \<Longrightarrow>
     sticky_good opt backend (\<Union>b \<in> set bs. set (branch_leaves b)) (fst r)"
proof (induction bs)
  case (Cons b bs)
  from sticky_branches_Cons [OF Cons.prems] show ?case
  proof
    assume "sticky_branches opt ps backend cyc bs = Some r"
    from Cons.IH [OF this] show ?thesis by (rule sticky_good_mono) auto
  qed (auto intro!: sticky_finish_good)
qed simp

lemma sticky_branches_None:
  "sticky_branches opt ps backend cyc bs = None \<longleftrightarrow>
     (\<forall>b \<in> set bs. \<not> (IsThinker b \<and> SuppressThinker opt) \<longrightarrow>
        (\<forall>p \<in> set (branch_leaves b). \<not> sticky_match opt backend p))"
  by (induction bs) (auto simp: branch_leaves_def find_None_set split: option.splits dest: find_Some_set)

lemma sticky_alternative_good:
  "sticky_alternative opt ps backend alt = Some (c, nxt) \<Longrightarrow> sticky_good opt backend (set (alt_leaves alt)) c"
  by (auto simp: sticky_alternative_def alt_leaves_def sticky_good_def good_candidate_def sticky_match_def
      split: option.splits if_splits dest!: find_Some_set sticky_branches_good)

lemma sticky_alternative_None:
  "sticky_alternative opt ps backend alt = None \<longleftrightarrow>
     (\<forall>p \<in> alt_offered_leaves opt alt. \<not> sticky_match opt backend p)"
  by (auto simp: sticky_alternative_def alt_offered_leaves_def offered_branches_def alt_leaves_def
      sticky_branches_None find_None_set split: option.splits dest: find_Some_set)

lemma sticky_alternatives_good:
  "sticky_alternatives opt ps backend alts = Some (c, nxt) \<Longrightarrow>
     sticky_good opt backend (set (concat (map alt_leaves alts))) c"
proof (induction alts)
  case (Cons alt alts)
  show ?case
  proof (cases "sticky_alternative opt ps backend alt")
    case None
    with Cons have "sticky_good opt backend (set (concat (map alt_leaves alts))) c" by simp
    then show ?thesis by (rule sticky_good_mono) auto
  next
    case (Some r)
    with Cons.prems have "sticky_alternative opt ps backend alt = Some (c, nxt)" by simp
    from sticky_alternative_good [OF this] show ?thesis by (rule sticky_good_mono) auto
  qed
qed simp

lemma sticky_alternatives_None:
  "sticky_alternatives opt ps backend alts = None \<longleftrightarrow>
     (\<forall>alt \<in> set alts. \<forall>p \<in> alt_offered_leaves opt alt. \<not> sticky_match opt backend p)"
proof (induction alts)
  case (Cons alt alts)
  with sticky_alternative_None [of opt ps backend alt] show ?case
    by (cases "sticky_alternative opt ps backend alt") auto
qed simp

subsection \<open>Reordering keeps the candidates\<close>

lemma preferred_front_Cons:
  assumes "preferred_front cs seen (k # ks) = (out, seen')"
  shows "preferred_front cs seen ks = (out, seen') \<or>
    (\<exists>c rest. c \<in> set cs \<and> acKey c \<notin> seen \<and> out = c # rest
       \<and> preferred_front cs (insert (acKey c) seen) ks = (rest, seen'))"
  using assms by (auto split: if_splits option.splits prod.splits dest: find_Some_set)

lemma preferred_front_all:
  "preferred_front cs seen pref = (out, seen') \<Longrightarrow>
   set out \<subseteq> set cs \<and> seen \<subseteq> seen' \<and> acKey ` set out = seen' - seen \<and> distinct (map acKey out)"
proof (induction pref arbitrary: seen out)
  case (Cons k ks)
  from preferred_front_Cons [OF Cons.prems] show ?case
  proof
    assume "preferred_front cs seen ks = (out, seen')"
    then show ?thesis by (rule Cons.IH)
  next
    assume "\<exists>c rest. c \<in> set cs \<and> acKey c \<notin> seen \<and> out = c # rest
       \<and> preferred_front cs (insert (acKey c) seen) ks = (rest, seen')"
    then obtain c rest where "c \<in> set cs" "acKey c \<notin> seen" "out = c # rest"
      "preferred_front cs (insert (acKey c) seen) ks = (rest, seen')" by blast
    with Cons.IH [OF this(4)] show ?thesis by auto
  qed
qed simp

lemma preferred_front_props:
  assumes "preferred_front cs seen pref = (out, seen')"
  shows "set out \<subseteq> set cs" "seen \<subseteq> seen'" "acKey ` set out = seen' - seen" "distinct (map acKey out)"
  using preferred_front_all [OF assms] by auto

lemma reorderPreferredCandidates_keys:
  "set (reorderPreferredCandidates cs pref) \<subseteq> set cs"
  "acKey ` set (reorderPreferredCandidates cs pref) = acKey ` set cs"
proof -
  obtain out seen where o: "preferred_front cs {} pref = (out, seen)" by fastforce
  note p = preferred_front_props [OF o]
  show "set (reorderPreferredCandidates cs pref) \<subseteq> set cs"
    using p(1) by (auto simp: reorderPreferredCandidates_def o)
  have "acKey ` set (out @ filter (\<lambda>c. acKey c \<notin> seen) cs) = acKey ` set cs"
    using p(1,3) by auto
  then show "acKey ` set (reorderPreferredCandidates cs pref) = acKey ` set cs"
    by (simp add: reorderPreferredCandidates_def o)
qed

lemma reorderPreferredCandidates_perm:
  assumes "distinct (map acKey cs)"
  shows "mset (reorderPreferredCandidates cs pref) = mset cs"
proof -
  obtain out seen where o: "preferred_front cs {} pref = (out, seen)" by fastforce
  note p = preferred_front_props [OF o]
  have inj: "inj_on acKey (set cs)" using assms by (simp add: distinct_map)
  have "set out = {c \<in> set cs. acKey c \<in> seen}"
  proof -
    have "c \<in> set out" if "c \<in> set cs" "acKey c \<in> seen" for c
    proof -
      from that(2) p(3) obtain d where "d \<in> set out" "acKey d = acKey c" by auto
      with inj p(1) that(1) show ?thesis by (metis inj_onD subsetD)
    qed
    with p(1,3) show ?thesis by auto
  qed
  moreover have "distinct out" using p(4) by (simp add: distinct_map)
  moreover have "distinct cs" using assms by (simp add: distinct_map)
  ultimately have "mset out = mset (filter (\<lambda>c. acKey c \<in> seen) cs)"
    by (intro set_eq_iff_mset_eq_distinct [THEN iffD1]) auto
  then have "mset (out @ filter (\<lambda>c. acKey c \<notin> seen) cs) = mset cs" by simp
  then show ?thesis by (simp add: reorderPreferredCandidates_def o)
qed

lemma indexByCandidate_less: "indexByCandidate gs k = Some g \<Longrightarrow> g < length gs"
  by (auto simp: indexByCandidate_def dest: find_Some_set split: if_splits)

lemma preferred_groups_Cons:
  assumes "preferred_groups gs seen (k # ks) = (out, seen')"
  shows "preferred_groups gs seen ks = (out, seen') \<or>
    (\<exists>g rest. g < length gs \<and> g \<notin> seen \<and> out = g # rest
       \<and> preferred_groups gs (insert g seen) ks = (rest, seen'))"
  using assms by (auto split: if_splits option.splits prod.splits dest: indexByCandidate_less)

lemma preferred_groups_props:
  "preferred_groups gs seen pref = (out, seen') \<Longrightarrow>
   set out \<subseteq> {0..<length gs} \<and> seen \<subseteq> seen' \<and> set out = seen' - seen \<and> distinct out"
proof (induction pref arbitrary: seen out)
  case (Cons k ks)
  from preferred_groups_Cons [OF Cons.prems] show ?case
  proof
    assume "preferred_groups gs seen ks = (out, seen')"
    then show ?thesis by (rule Cons.IH)
  next
    assume "\<exists>g rest. g < length gs \<and> g \<notin> seen \<and> out = g # rest
       \<and> preferred_groups gs (insert g seen) ks = (rest, seen')"
    then obtain g rest where "g < length gs" "g \<notin> seen" "out = g # rest"
      "preferred_groups gs (insert g seen) ks = (rest, seen')" by blast
    with Cons.IH [OF this(4)] show ?thesis by auto
  qed
qed simp

lemma reorderPreferredGroups_perm: "mset (reorderPreferredGroups gs pref) = mset gs"
proof -
  obtain out seen where o: "preferred_groups gs {} pref = (out, seen)" by fastforce
  note p = preferred_groups_props [OF o]
  have "mset (out @ filter (\<lambda>gi. gi \<notin> seen) [0..<length gs]) = mset [0..<length gs]"
    using p by (intro set_eq_iff_mset_eq_distinct [THEN iffD1]) auto
  then have "image_mset (\<lambda>gi. gs ! gi) (mset (out @ filter (\<lambda>gi. gi \<notin> seen) [0..<length gs]))
      = image_mset (\<lambda>gi. gs ! gi) (mset [0..<length gs])" by (simp only:)
  then have "mset (map (\<lambda>gi. gs ! gi) (out @ filter (\<lambda>gi. gi \<notin> seen) [0..<length gs])) = mset gs"
    by (simp only: mset_map [symmetric] map_nth)
  then show ?thesis by (simp add: reorderPreferredGroups_def o)
qed


subsection \<open>Failover arms\<close>

lemma wf_alt_cases:
  assumes "wf_alt alt"
  obtains (primary) p where "altPrimary alt = Some p" "wf_primary p"
  | (weighted) w where "altPrimary alt = None" "altWeighted alt = Some w" "wf_weighted w"
  | (parallel) g where "altPrimary alt = None" "altWeighted alt = None" "altParallel alt = Some g" "wf_parallel g"
  using assms by (auto simp: wf_alt_def split: option.splits)

definition alt_distinct_cycle :: "FailoverAlt \<Rightarrow> bool" where
  "alt_distinct_cycle alt = (case altWeighted alt of None \<Rightarrow> True | Some w \<Rightarrow> distinct_cycle w)"

lemma good_group_reorder:
  "good_group opt leaves cs \<Longrightarrow> good_group opt leaves (reorderPreferredCandidates cs pref)"
  using reorderPreferredCandidates_keys [of cs pref] by (fastforce simp: good_group_def)

lemma expandParallel_not_first: "c \<in> set (expandParallel g opt) \<Longrightarrow> \<not> MarkedFirst c"
  by (auto simp: expandParallel_def)

text \<open>What one arm contributes, or why it contributes nothing.\<close>

lemma expandAlternative_group:
  assumes "wf_alt alt" "rng_ok opt" "expandAlternative opt ps alt = Inr (Some g, ps')"
  shows "good_group opt (set (alt_leaves alt)) (Candidates g)
     \<and> (IsRetryPath opt \<longrightarrow> (\<forall>c \<in> set (Candidates g). \<not> MarkedFirst c) \<and> psSession ps' = psSession ps)"
  using assms(1)
proof (cases rule: wf_alt_cases)
  case (primary p)
  with assms(3) show ?thesis
    by (auto simp: expandAlternative_def Let_def good_group_def good_candidate_def split: if_splits)
next
  case (weighted w)
  with assms(3) obtain cs cf nxt ps1 where p: "pickWeighted w opt ps = Inr (cs, cf, nxt, ps1)"
    "g = \<lparr>Candidates = cs, NextThinkerCycle = nxt\<rparr>"
    "ps' = (if cf \<and> psSession ps1 \<noteq> None then ps1\<lparr>psSession := Some True\<rparr> else ps1)"
    by (auto simp: expandAlternative_def split: sum.splits prod.splits plan_error.splits)
  from pickWeighted_good [OF weighted(3) assms(2) p(1)] weighted p(2,3) show ?thesis
    by (auto simp: first_allowed_def)
next
  case (parallel gr)
  with assms(3) have g: "expandParallel gr opt \<noteq> []" "ps' = ps"
    "g = \<lparr>Candidates = reorderPreferredCandidates (expandParallel gr opt) (PreferredCandidateKeys opt),
          NextThinkerCycle = None\<rparr>"
    by (auto simp: expandAlternative_def Let_def split: if_splits)
  have "good_group opt (set (alt_leaves alt)) (expandParallel gr opt)"
    using g(1) expandParallel_good [of _ gr opt] parallel by (auto simp: good_group_def)
  then have "good_group opt (set (alt_leaves alt)) (Candidates g)"
    by (simp add: g(3) good_group_reorder)
  moreover have "\<forall>c \<in> set (Candidates g). \<not> MarkedFirst c"
    using reorderPreferredCandidates_keys(1) expandParallel_not_first by (fastforce simp: g(3))
  ultimately show ?thesis using g(2) by simp
qed

lemma expandAlternative_skip:
  assumes "wf_alt alt" "rng_ok opt" "expandAlternative opt ps alt = Inr (None, ps')"
  shows "ps' = ps" "alt_distinct_cycle alt \<Longrightarrow> p \<in> alt_offered_leaves opt alt \<Longrightarrow> \<not> offered opt p"
proof -
  have *: "ps' = ps \<and> (alt_distinct_cycle alt \<longrightarrow> (\<forall>p \<in> alt_offered_leaves opt alt. \<not> offered opt p))"
    using assms(1)
  proof (cases rule: wf_alt_cases)
    case (primary p)
    with assms(3) show ?thesis
      by (auto simp: expandAlternative_def Let_def alt_offered_leaves_def offered_def split: if_splits)
  next
    case (weighted w)
    with assms(3) have p: "pickWeighted w opt ps = Inl ErrNoEligibleCandidate" "ps' = ps"
      by (auto simp: expandAlternative_def split: sum.splits prod.splits plan_error.splits)
    from pickWeighted_error [OF weighted(3) assms(2) p(1)] weighted p(2) show ?thesis
      by (auto simp: alt_offered_leaves_def alt_distinct_cycle_def)
  next
    case (parallel gr)
    with assms(3) show ?thesis
      by (auto simp: expandAlternative_def Let_def alt_offered_leaves_def offered_def expandParallel_def
          filter_empty_conv split: if_splits)
  qed
  from * show "ps' = ps" "alt_distinct_cycle alt \<Longrightarrow> p \<in> alt_offered_leaves opt alt \<Longrightarrow> \<not> offered opt p"
    by auto
qed

lemma expandAlternative_error:
  assumes "wf_alt alt" "rng_ok opt" "expandAlternative opt ps alt = Inl e"
  shows "e = ErrWeightedTotalTooLarge \<and> (\<exists>w. altWeighted alt = Some w \<and> \<not> list_ex IsThinker (wBranches w)
     \<and> weight_sum (eligible_branches w opt) > MaxInt64)"
  using assms(1)
proof (cases rule: wf_alt_cases)
  case (weighted w)
  with assms(3) have p: "pickWeighted w opt ps = Inl e" "e \<noteq> ErrNoEligibleCandidate"
    by (auto simp: expandAlternative_def split: sum.splits prod.splits plan_error.splits)
  from pickWeighted_error [OF weighted(3) assms(2) p(1)] weighted p(2) show ?thesis by auto
qed (use assms(3) in \<open>auto simp: expandAlternative_def Let_def split: if_splits\<close>)

lemma expandAlternatives_groups:
  assumes "\<forall>alt \<in> set alts. wf_alt alt" "rng_ok opt" "expandAlternatives opt ps alts = Inr (gs, ps')" "g \<in> set gs"
  shows "good_group opt (set (concat (map alt_leaves alts))) (Candidates g)
     \<and> (IsRetryPath opt \<longrightarrow> (\<forall>c \<in> set (Candidates g). \<not> MarkedFirst c))"
  using assms
proof (induction alts arbitrary: ps gs)
  case (Cons alt alts)
  from Cons.prems(3) obtain r ps1 gs1 where r: "expandAlternative opt ps alt = Inr (r, ps1)"
    "expandAlternatives opt ps1 alts = Inr (gs1, ps')" "gs = (case r of None \<Rightarrow> gs1 | Some g \<Rightarrow> g # gs1)"
    by (auto split: sum.splits prod.splits)
  show ?case
  proof (cases "g \<in> set gs1")
    case True
    with Cons.IH [OF _ Cons.prems(2) r(2)] Cons.prems(1) show ?thesis
      by (auto intro: good_group_mono)
  next
    case False
    with Cons.prems(4) r(3) have "r = Some g" by (auto split: option.splits)
    with expandAlternative_group [OF _ Cons.prems(2), of alt ps g ps1] Cons.prems(1) r(1) show ?thesis
      by (auto intro: good_group_mono)
  qed
qed simp

lemma expandAlternatives_empty:
  assumes "\<forall>alt \<in> set alts. wf_alt alt \<and> alt_distinct_cycle alt" "rng_ok opt"
    "expandAlternatives opt ps alts = Inr ([], ps')" "alt \<in> set alts" "p \<in> alt_offered_leaves opt alt"
  shows "\<not> offered opt p"
  using assms
proof (induction alts arbitrary: ps)
  case (Cons a alts)
  from Cons.prems(3) obtain ps1 where r: "expandAlternative opt ps a = Inr (None, ps1)"
    "expandAlternatives opt ps1 alts = Inr ([], ps')"
    by (auto split: sum.splits prod.splits option.splits)
  show ?case
  proof (cases "alt = a")
    case True
    with expandAlternative_skip(2) [OF _ Cons.prems(2) r(1)] Cons.prems(1,5) show ?thesis by auto
  next
    case False
    with Cons.IH [OF _ Cons.prems(2) r(2)] Cons.prems(1,4,5) show ?thesis by auto
  qed
qed simp

lemma expandAlternatives_error:
  assumes "\<forall>alt \<in> set alts. wf_alt alt" "rng_ok opt" "expandAlternatives opt ps alts = Inl e"
  shows "e = ErrWeightedTotalTooLarge \<and> (\<exists>alt \<in> set alts. \<exists>w. altWeighted alt = Some w
     \<and> \<not> list_ex IsThinker (wBranches w) \<and> weight_sum (eligible_branches w opt) > MaxInt64)"
  using assms
proof (induction alts arbitrary: ps)
  case (Cons a alts)
  show ?case
  proof (cases "expandAlternative opt ps a")
    case (Inl e')
    with Cons.prems expandAlternative_error [OF _ Cons.prems(2) Inl] show ?thesis by auto
  next
    case (Inr r)
    with Cons.prems(3) have "expandAlternatives opt (snd r) alts = Inl e"
      by (auto split: sum.splits prod.splits)
    with Cons.IH [OF _ Cons.prems(2) this] Cons.prems(1) show ?thesis by auto
  qed
qed simp


subsection \<open>Returned cycle cursors are in bounds\<close>

definition group_cycle_ok :: "AttemptGroup \<Rightarrow> bool" where
  "group_cycle_ok g \<longleftrightarrow> (\<forall>c. NextThinkerCycle g = Some c \<longrightarrow> CycleState_Validate c = Inr ())"

lemma cursor_valid:
  "0 < length (Sequence c) \<Longrightarrow> 0 \<le> NextIndex c \<Longrightarrow> NextIndex c < int (length (Sequence c)) \<Longrightarrow>
   CycleState_Validate c = Inr ()"
  by (simp add: CycleState_Validate_def CycleState_IsEmpty_def)

lemma pickThinkerCycle_cursor:
  assumes "pickThinkerCycle w opt ps = Inr (cs, cf, Some c, ps')"
  shows "CycleState_Validate c = Inr ()"
proof -
  obtain entries selKey where bt: "buildThinkerCycle w = (entries, selKey)" by fastforce
  define firsts where "firsts = (if first_allowed opt ps
      then find (\<lambda>b. IsFirst b \<and> candidateEligible (wbTarget b) (Primary_String (wbTarget b)) opt) (wBranches w)
      else None)"
  define st where "st = (if cycle_valid (ThinkerCycle opt) entries selKey
      then (if NextIndex (ThinkerCycle opt) < 0 \<or> NextIndex (ThinkerCycle opt) \<ge> int (length entries)
            then (ThinkerCycle opt)\<lparr>NextIndex := 0\<rparr> else ThinkerCycle opt)
      else \<lparr>SelectorKey = selKey, Sequence = entries, NextIndex = 0\<rparr>)"
  have len: "length (Sequence st) = length entries"
    by (auto simp: st_def cycle_valid_def cycleSequenceEqual_def dest: list_all2_lengthD)
  have unf: "pickThinkerCycle w opt ps = (case firsts of
      Some b \<Rightarrow> Inr ([(plain_candidate (wbTarget b))
                     \<lparr>MarkedFirst := True, InterleavedRole := RoleExecutor, acSelectorKey := selKey\<rparr>], True,
                   Some \<lparr>SelectorKey = selKey, Sequence = entries, NextIndex = 0\<rparr>, ps)
    | None \<Rightarrow> (case cycleLoop w opt entries selKey (NextIndex st) [0..<length entries] of
          None \<Rightarrow> Inl ErrNoEligibleCandidate
        | Some (cands, next) \<Rightarrow> Inr (cands, False, Some (st\<lparr>NextIndex := next\<rparr>), ps)))"
    unfolding pickThinkerCycle_def bt prod.case Let_def firsts_def st_def by (rule refl)
  show ?thesis
  proof (cases firsts)
    case (Some b)
    with assms unf show ?thesis
      by (cases entries) (auto simp: CycleState_Validate_def CycleState_IsEmpty_def)
  next
    case None
    with assms unf obtain nxt where nxt: "c = st\<lparr>NextIndex := nxt\<rparr>"
      "cycleLoop w opt entries selKey (NextIndex st) [0..<length entries] = Some (cs, nxt)"
      by (auto split: option.splits)
    from cycleLoop_Some [OF nxt(2)] obtain i where i:
      "i < length entries" "nxt = ((NextIndex st + int i) mod int (length entries) + 1) mod int (length entries)"
      by (auto simp: Let_def)
    then have "0 < int (length entries)" by linarith
    with i(2) have "0 \<le> nxt" "nxt < int (length entries)" by simp_all
    with nxt(1) len i(1) show ?thesis by (intro cursor_valid) auto
  qed
qed

lemma nextCycleLoop_cursor:
  "0 < length entries \<Longrightarrow> nextCycleLoop entries selKey key role start is = Some c \<Longrightarrow> CycleState_Validate c = Inr ()"
  by (induction "is") (auto simp: Let_def intro!: cursor_valid split: if_splits)

lemma nextCycleForEntry_cursor: "nextCycleForEntry entries selKey key role start = Some c \<Longrightarrow> CycleState_Validate c = Inr ()"
  by (auto simp: nextCycleForEntry_def Let_def intro: nextCycleLoop_cursor split: if_splits)

lemma sticky_finish_cursor: "snd (sticky_finish opt ps cyc b role c) = Some cy \<Longrightarrow> CycleState_Validate cy = Inr ()"
  by (auto simp: sticky_finish_def Let_def split: option.splits intro: nextCycleForEntry_cursor)

lemma sticky_branches_cursor:
  "sticky_branches opt ps backend cyc bs = Some r \<Longrightarrow> snd r = Some cy \<Longrightarrow> CycleState_Validate cy = Inr ()"
proof (induction bs)
  case (Cons b bs)
  from sticky_branches_Cons [OF Cons.prems(1)] Cons show ?case by (auto intro: sticky_finish_cursor)
qed simp

lemma sticky_alternatives_cursor:
  "sticky_alternatives opt ps backend alts = Some r \<Longrightarrow> snd r = Some cy \<Longrightarrow> CycleState_Validate cy = Inr ()"
proof (induction alts)
  case (Cons alt alts)
  have "CycleState_Validate cy = Inr ()" if "sticky_alternative opt ps backend alt = Some r"
    using that Cons.prems(2) by (auto simp: sticky_alternative_def split: option.splits if_splits intro: sticky_branches_cursor)
  with Cons show ?case by (auto split: option.splits)
qed simp

lemma expandAlternative_cursor: "expandAlternative opt ps alt = Inr (Some g, ps') \<Longrightarrow> group_cycle_ok g"
  by (auto simp: expandAlternative_def pickWeighted_def group_cycle_ok_def Let_def intro: pickThinkerCycle_cursor
      split: option.splits if_splits sum.splits prod.splits plan_error.splits)

lemma expandAlternatives_cursor:
  "expandAlternatives opt ps alts = Inr (gs, ps') \<Longrightarrow> g \<in> set gs \<Longrightarrow> group_cycle_ok g"
proof (induction alts arbitrary: ps gs)
  case (Cons alt alts)
  from Cons.prems(1) obtain r ps1 gs1 where r: "expandAlternative opt ps alt = Inr (r, ps1)"
    "expandAlternatives opt ps1 alts = Inr (gs1, ps')" "gs = (case r of None \<Rightarrow> gs1 | Some g \<Rightarrow> g # gs1)"
    by (auto split: sum.splits prod.splits)
  with Cons.IH [OF r(2)] Cons.prems(2) expandAlternative_cursor show ?case by (auto split: option.splits)
qed simp

lemma ExpandFailoverGroups_cursor:
  assumes "ExpandFailoverGroups (Some sel) opt ps = Inr (groups, ps')" "g \<in> set groups"
  shows "group_cycle_ok g"
proof (cases "stickyAttemptGroup (Some sel) opt ps")
  case (Some gr)
  with assms have "g = gr" by (auto simp: ExpandFailoverGroups_def)
  with Some show ?thesis
    by (auto simp: stickyAttemptGroup_def stickyCandidate_def group_cycle_ok_def Let_def
        split: option.splits if_splits dest: sticky_alternatives_cursor)
next
  case None
  with assms obtain gs where gs: "expandAlternatives opt ps (Alternatives sel) = Inr (gs, ps')"
    "groups = reorderPreferredGroups gs (PreferredCandidateKeys opt)"
    by (auto simp: ExpandFailoverGroups_def split: sum.splits prod.splits if_splits)
  have "set groups = set gs" unfolding gs(2) by (rule mset_eq_setD) (rule reorderPreferredGroups_perm)
  with expandAlternatives_cursor [OF gs(1)] assms(2) show ?thesis by simp
qed

section \<open>Properties of planning\<close>

lemma ExpandFailoverGroups_good:
  assumes wf: "wf_selector sel" and rng: "rng_ok opt"
    and ok: "ExpandFailoverGroups (Some sel) opt ps = Inr (groups, ps')"
  shows "groups \<noteq> []" "g \<in> set groups \<Longrightarrow> good_group opt (set (selector_leaves sel)) (Candidates g)"
    "g \<in> set groups \<Longrightarrow> IsRetryPath opt \<Longrightarrow> c \<in> set (Candidates g) \<Longrightarrow> \<not> MarkedFirst c"
proof -
  have wfa: "\<forall>alt \<in> set (Alternatives sel). wf_alt alt" using wf by (simp add: wf_selector_def)
  have *: "groups \<noteq> [] \<and> (\<forall>g \<in> set groups. good_group opt (set (selector_leaves sel)) (Candidates g)
     \<and> (IsRetryPath opt \<longrightarrow> (\<forall>c \<in> set (Candidates g). \<not> MarkedFirst c)))"
  proof (cases "stickyAttemptGroup (Some sel) opt ps")
    case (Some g)
    then obtain c nxt where c: "sticky_alternatives opt ps (TrimSpace (StickyBackendID opt)) (Alternatives sel) = Some (c, nxt)"
      "g = \<lparr>Candidates = [c], NextThinkerCycle = nxt\<rparr>"
      by (auto simp: stickyAttemptGroup_def stickyCandidate_def Let_def split: option.splits if_splits)
    from sticky_alternatives_good [OF c(1)] ok Some c(2) show ?thesis
      by (auto simp: ExpandFailoverGroups_def good_group_def sticky_good_def selector_leaves_def)
  next
    case None
    with ok obtain gs where gs: "expandAlternatives opt ps (Alternatives sel) = Inr (gs, ps')" "gs \<noteq> []"
      "groups = reorderPreferredGroups gs (PreferredCandidateKeys opt)"
      by (auto simp: ExpandFailoverGroups_def split: sum.splits prod.splits if_splits)
    have perm: "mset groups = mset gs" by (simp add: gs(3) reorderPreferredGroups_perm)
    then have "set groups = set gs" by (rule mset_eq_setD)
    moreover from this gs(2) have "groups \<noteq> []" by force
    ultimately show ?thesis using expandAlternatives_groups [OF wfa rng gs(1)] by (simp add: selector_leaves_def)
  qed
  from * show "groups \<noteq> []" "g \<in> set groups \<Longrightarrow> good_group opt (set (selector_leaves sel)) (Candidates g)"
    "g \<in> set groups \<Longrightarrow> IsRetryPath opt \<Longrightarrow> c \<in> set (Candidates g) \<Longrightarrow> \<not> MarkedFirst c"
    by auto
qed

text \<open>
  C1: Soundness of planning. For a well-formed selector and an RNG that keeps its
  contract, a plan is a nonempty list of nonempty groups, and every candidate of every
  group is a leaf of the selector, keyed by its diagnostic string, that is neither excluded
  nor unhealthy and whose context bounds admit the request size; with the thinker
  suppressed no candidate has the thinker role, and on the retry path none is marked first.
\<close>

theorem plan_sound:
  assumes "wf_selector sel" "rng_ok opt" "ExpandFailoverGroups (Some sel) opt ps = Inr (groups, ps')"
  shows "groups \<noteq> [] \<and> (\<forall>g \<in> set groups. Candidates g \<noteq> [] \<and> (\<forall>c \<in> set (Candidates g).
      acPrimary c \<in> set (selector_leaves sel) \<and> acKey c = Primary_String (acPrimary c)
      \<and> acKey c \<notin> Excluded opt \<and> acKey c \<notin> Unhealthy opt
      \<and> requestSizeEligible (Size (acPrimary c)) (RequestSize opt)
      \<and> (SuppressThinker opt \<longrightarrow> InterleavedRole c \<noteq> RoleThinker)
      \<and> (IsRetryPath opt \<longrightarrow> \<not> MarkedFirst c)))"
  using ExpandFailoverGroups_good [OF assms]
  unfolding good_group_def good_candidate_def candidateEligible_iff by blast

definition default_options :: PlanOptions where
  "default_options = \<lparr>Excluded = {}, Unhealthy = {}, RequestSize = \<lparr>Available = False, Tokens = 0\<rparr>,
     PreferredCandidateKeys = [], StickyBackendID = [], Rand = None, SeededRoll = (\<lambda>n. 0), IsRetryPath = False,
     ThinkerCycle = \<lparr>SelectorKey = [], Sequence = [], NextIndex = 0\<rparr>, SuppressThinker = False\<rparr>"

definition mk_primary :: "string \<Rightarrow> string \<Rightarrow> Primary" where
  "mk_primary b m = \<lparr>Backend = b, Model = m, NativeModel = [], Params = [], Size = no_size, TTFTTimeout = None\<rparr>"

definition mk_branch :: "int \<Rightarrow> bool \<Rightarrow> bool \<Rightarrow> Primary \<Rightarrow> WeightedBranch" where
  "mk_branch k f t p = \<lparr>Weight = k, IsFirst = f, IsThinker = t, wbTarget = p, wbParallel = None\<rparr>"

definition sample_selector :: Selector where
  "sample_selector = \<lparr>Alternatives =
     [alt_of_weighted \<lparr>wBranches = [mk_branch 3 False False (mk_primary ''a'' ''m''),
                                    mk_branch 5 False False (mk_primary ''b'' ''n'')]\<rparr>,
      alt_of_primary (mk_primary ''c'' ''o'')], GlobalTTFTTimeout = None, Affinity = AffinityNone\<rparr>"

definition is_plan :: "plan_error + (AttemptGroup list \<times> plan_state) \<Rightarrow> bool" where
  "is_plan r = (case r of Inl _ \<Rightarrow> False | Inr _ \<Rightarrow> True)"

lemma sample_wf: "wf_selector sample_selector"
  by (simp add: wf_selector_def sample_selector_def wf_weighted_def wf_branch_def mk_branch_def wf_primary_def
      mk_primary_def wf_size_def token_bound_def timeout_bound_def no_size_def)

theorem plan_sound_witness:
  "\<exists>groups ps'. ExpandFailoverGroups (Some sample_selector) (default_options\<lparr>Unhealthy := {''b:n''}\<rparr>)
       \<lparr>psSession = None, psRolls = 0\<rparr> = Inr (groups, ps')
     \<and> (\<forall>g \<in> set groups. \<forall>c \<in> set (Candidates g). acKey c \<noteq> ''b:n'')"
proof -
  let ?opt = "default_options\<lparr>Unhealthy := {''b:n''}\<rparr>"
  let ?r = "ExpandFailoverGroups (Some sample_selector) ?opt \<lparr>psSession = None, psRolls = 0\<rparr>"
  have "is_plan ?r" by code_simp
  then obtain groups ps' where r: "?r = Inr (groups, ps')" by (auto simp: is_plan_def split: sum.splits)
  have "rng_ok ?opt" by (simp add: rng_ok_def default_options_def)
  from plan_sound [OF sample_wf this r] r show ?thesis by fastforce
qed

lemma ExpandFailoverGroups_error:
  assumes "wf_selector sel" "rng_ok opt" "\<forall>alt \<in> set (Alternatives sel). alt_distinct_cycle alt"
    and "ExpandFailoverGroups (Some sel) opt ps = Inl e"
  shows "e = ErrNoEligibleCandidate
        \<and> (\<forall>alt \<in> set (Alternatives sel). \<forall>p \<in> alt_offered_leaves opt alt.
              \<not> candidateEligible p (Primary_String p) opt)
      \<or> e = ErrWeightedTotalTooLarge
        \<and> (\<exists>alt \<in> set (Alternatives sel). \<exists>w. altWeighted alt = Some w \<and> \<not> list_ex IsThinker (wBranches w)
              \<and> weight_sum (eligible_branches w opt) > MaxInt64)"
proof -
  have wfa: "\<forall>alt \<in> set (Alternatives sel). wf_alt alt" using assms(1) by (simp add: wf_selector_def)
  show ?thesis
  proof (cases "expandAlternatives opt ps (Alternatives sel)")
    case (Inl e')
    with assms(4) have "e = e'" by (auto simp: ExpandFailoverGroups_def split: option.splits)
    with expandAlternatives_error [OF wfa assms(2) Inl] show ?thesis by auto
  next
    case (Inr r)
    with assms(4) have r: "expandAlternatives opt ps (Alternatives sel) = Inr ([], snd r)" "e = ErrNoEligibleCandidate"
      by (auto simp: ExpandFailoverGroups_def split: option.splits prod.splits if_splits)
    have "\<not> offered opt p" if "alt \<in> set (Alternatives sel)" "p \<in> alt_offered_leaves opt alt" for alt p
      using expandAlternatives_empty [OF _ assms(2) r(1) that] wfa assms(3) by blast
    with r(2) show ?thesis by (auto simp: offered_def)
  qed
qed

text \<open>
  C6: Planning fails only when it must. For a well-formed selector whose thinker groups
  have distinct branch keys, an error is either ``no eligible candidate'', and then no
  leaf the options allow is eligible, or ``weighted total too large'', and then a rolled
  weighted group really has eligible weights whose sum exceeds the 64-bit range. So one
  eligible leaf outside such groups is enough for a plan.
\<close>

theorem plan_complete:
  assumes "wf_selector sel" "rng_ok opt" "\<forall>alt \<in> set (Alternatives sel). alt_distinct_cycle alt"
    and "ExpandFailoverGroups (Some sel) opt ps = Inl e"
  shows "e = ErrNoEligibleCandidate
        \<and> (\<forall>alt \<in> set (Alternatives sel). \<forall>p \<in> alt_offered_leaves opt alt.
              \<not> candidateEligible p (Primary_String p) opt)
      \<or> e = ErrWeightedTotalTooLarge
        \<and> (\<exists>alt \<in> set (Alternatives sel). \<exists>w. altWeighted alt = Some w \<and> \<not> list_ex IsThinker (wBranches w)
              \<and> weight_sum (eligible_branches w opt) > MaxInt64)"
  using assms by (rule ExpandFailoverGroups_error)

theorem plan_complete_witness:
  "ExpandFailoverGroups (Some sample_selector) (default_options\<lparr>Unhealthy := {''a:m'', ''b:n''}, Excluded := {''c:o''}\<rparr>)
       \<lparr>psSession = None, psRolls = 0\<rparr> = Inl ErrNoEligibleCandidate
   \<and> {p. \<exists>alt \<in> set (Alternatives sample_selector).
        p \<in> alt_offered_leaves (default_options\<lparr>Unhealthy := {''a:m'', ''b:n''}, Excluded := {''c:o''}\<rparr>) alt
        \<and> candidateEligible p (Primary_String p)
             (default_options\<lparr>Unhealthy := {''a:m'', ''b:n''}, Excluded := {''c:o''}\<rparr>)} = {}"
proof -
  let ?opt = "default_options\<lparr>Unhealthy := {''a:m'', ''b:n''}, Excluded := {''c:o''}\<rparr>"
  have rng: "rng_ok ?opt" by (simp add: rng_ok_def default_options_def)
  have d: "\<forall>alt \<in> set (Alternatives sample_selector). alt_distinct_cycle alt"
    by (simp add: sample_selector_def alt_distinct_cycle_def distinct_cycle_def alt_of_weighted_def
        alt_of_primary_def mk_branch_def)
  have "(case ExpandFailoverGroups (Some sample_selector) ?opt \<lparr>psSession = None, psRolls = 0\<rparr> of
      Inl e \<Rightarrow> e = ErrNoEligibleCandidate | Inr _ \<Rightarrow> False)" by code_simp
  then have "ExpandFailoverGroups (Some sample_selector) ?opt \<lparr>psSession = None, psRolls = 0\<rparr>
      = Inl ErrNoEligibleCandidate" by (simp split: sum.splits)
  with plan_complete [OF sample_wf rng d this] show ?thesis by auto
qed

text \<open>
  Stickiness. When a nonblank sticky backend has an eligible leaf among those the
  options allow, the plan is one group with one candidate of that backend, no roll is
  drawn and the session is left as it was.
\<close>

theorem sticky_plan:
  assumes "TrimSpace (StickyBackendID opt) \<noteq> []" "alt \<in> set (Alternatives sel)"
    and "p \<in> alt_offered_leaves opt alt" "TrimSpace (Backend p) = TrimSpace (StickyBackendID opt)"
    and "candidateEligible p (Primary_String p) opt"
  shows "\<exists>c nxt. ExpandFailoverGroups (Some sel) opt ps = Inr ([\<lparr>Candidates = [c], NextThinkerCycle = nxt\<rparr>], ps)
     \<and> acPrimary c \<in> set (selector_leaves sel)
     \<and> TrimSpace (Backend (acPrimary c)) = TrimSpace (StickyBackendID opt)
     \<and> candidateEligible (acPrimary c) (acKey c) opt"
proof -
  let ?b = "TrimSpace (StickyBackendID opt)"
  have "sticky_match opt ?b p" using assms(4,5) by (simp add: sticky_match_def)
  with assms(2,3) sticky_alternatives_None [of opt ps ?b "Alternatives sel"] obtain c nxt where
    c: "sticky_alternatives opt ps ?b (Alternatives sel) = Some (c, nxt)" by fastforce
  then have "ExpandFailoverGroups (Some sel) opt ps = Inr ([\<lparr>Candidates = [c], NextThinkerCycle = nxt\<rparr>], ps)"
    using assms(1) by (simp add: ExpandFailoverGroups_def stickyAttemptGroup_def stickyCandidate_def)
  with sticky_alternatives_good [OF c] show ?thesis
    by (auto simp: sticky_good_def good_candidate_def selector_leaves_def)
qed

theorem sticky_plan_witness:
  "\<exists>c nxt. ExpandFailoverGroups (Some sample_selector) (default_options\<lparr>StickyBackendID := '' c ''\<rparr>)
        \<lparr>psSession = Some False, psRolls = 0\<rparr>
      = Inr ([\<lparr>Candidates = [c], NextThinkerCycle = nxt\<rparr>], \<lparr>psSession = Some False, psRolls = 0\<rparr>)
     \<and> TrimSpace (Backend (acPrimary c)) = ''c''"
proof -
  have t: "TrimSpace '' c '' = ''c''" by code_simp
  have t2: "TrimSpace ''c'' = ''c''" by code_simp
  show ?thesis
    using sticky_plan [of "default_options\<lparr>StickyBackendID := '' c ''\<rparr>" "alt_of_primary (mk_primary ''c'' ''o'')"
        sample_selector "mk_primary ''c'' ''o''" "\<lparr>psSession = Some False, psRolls = 0\<rparr>"]
    by (auto simp: t t2 sample_selector_def alt_of_primary_def alt_offered_leaves_def alt_leaves_def mk_primary_def
        candidateEligible_def excluded_def requestSizeEligible_def default_options_def)
qed


text \<open>
  C23: Weighted picks are proportional. In a group without thinker, with no first-request
  steering in force and a total weight that fits 64 bits, the roll space
  \<open>[0, total)\<close> is divided into consecutive intervals, one per eligible branch in order
  and as long as its weight: a roll in the interval of the \<open>i\<close>-th eligible branch picks
  that branch. A uniform roll therefore picks every branch with probability weight/total.
\<close>

theorem weighted_pick_proportional:
  assumes "wf_weighted w" "\<not> list_ex IsThinker (wBranches w)" "\<not> first_allowed opt ps"
    and "i < length (eligible_branches w opt)" "weight_sum (eligible_branches w opt) \<le> MaxInt64"
    and "next_roll opt ps (weight_sum (eligible_branches w opt)) = (roll, ps')"
    and "weight_sum (take i (eligible_branches w opt)) \<le> roll"
    and "roll < weight_sum (take i (eligible_branches w opt)) + effectiveWeight (Weight (eligible_branches w opt ! i))"
  shows "pickWeighted w opt ps = Inr ([rolled_candidate opt (eligible_branches w opt ! i)], False, None, ps')"
proof -
  let ?el = "eligible_branches w opt"
  have ne: "?el \<noteq> []" using assms(4) by auto
  have "weight_sum (take (Suc i) ?el) = weight_sum (take i ?el) + effectiveWeight (Weight (?el ! i))"
    using assms(4) by (simp add: take_Suc_conv_app_nth weight_sum_def)
  with chooseByRoll_nth [of i ?el 0 roll] assms(4,7,8) have "chooseByRoll roll 0 ?el = Some (?el ! i)" by simp
  moreover have "sumEligibleWeights ?el = Inr (weight_sum ?el)"
    using sumEligibleWeights_eq [OF ne] assms(5) by simp
  ultimately have "pickWeightedLegacy w opt ps = Inr (rolled_candidate opt (?el ! i), False, ps')"
    using ne assms(3,6)
    by (simp add: pickWeightedLegacy_def eligible_branches_def [symmetric] rolled_candidate_def Let_def)
  with assms(1,2) show ?thesis by (simp add: pickWeighted_def wf_weighted_def)
qed

definition sample_weighted :: Weighted where
  "sample_weighted = \<lparr>wBranches = [mk_branch 3 False False (mk_primary ''a'' ''m''),
                                   mk_branch 5 False False (mk_primary ''b'' ''n'')]\<rparr>"

theorem weighted_pick_proportional_witness:
  "pickWeighted sample_weighted (default_options\<lparr>Rand := Some (\<lambda>i n. 7)\<rparr>) \<lparr>psSession = Some True, psRolls = 0\<rparr>
   = Inr ([plain_candidate (mk_primary ''b'' ''n'')], False, None, \<lparr>psSession = Some True, psRolls = 1\<rparr>)"
proof -
  let ?opt = "default_options\<lparr>Rand := Some (\<lambda>i n. 7)\<rparr>"
  have el: "eligible_branches sample_weighted ?opt = wBranches sample_weighted"
    by (simp add: eligible_branches_def sample_weighted_def candidateEligible_iff default_options_def
        requestSizeEligible_def)
  have wf: "wf_weighted sample_weighted"
    by (simp add: sample_weighted_def wf_weighted_def wf_branch_def mk_branch_def wf_primary_def
      mk_primary_def wf_size_def token_bound_def timeout_bound_def no_size_def)
  show ?thesis
    using weighted_pick_proportional [OF wf, where opt = ?opt and ps = "\<lparr>psSession = Some True, psRolls = 0\<rparr>"
        and i = 1, unfolded el]
    by (simp add: sample_weighted_def mk_branch_def first_allowed_def effectiveWeight_def next_roll_def
        default_options_def rolled_candidate_def plain_candidate_def)
qed

subsection \<open>The thinker rotation\<close>

text \<open>Consecutive picks of one session, each from the cursor the previous one returned.\<close>

fun cycle_picks :: "Weighted \<Rightarrow> PlanOptions \<Rightarrow> plan_state \<Rightarrow> nat \<Rightarrow> AttemptCandidate list list" where
  "cycle_picks w opt ps 0 = []"
| "cycle_picks w opt ps (Suc k) =
     (case pickWeighted w opt ps of
        Inr (cs, _, Some cyc, ps') \<Rightarrow> cs # cycle_picks w (opt\<lparr>ThinkerCycle := cyc\<rparr>) ps' k
      | _ \<Rightarrow> [])"

definition cursor :: "Weighted \<Rightarrow> PlanOptions \<Rightarrow> nat \<Rightarrow> bool" where
  "cursor w opt i \<longleftrightarrow> (case buildThinkerCycle w of (entries, selKey) \<Rightarrow>
      i < length entries \<and> (if i = 0 \<and> CycleState_IsEmpty (ThinkerCycle opt) then True
         else ThinkerCycle opt = \<lparr>SelectorKey = selKey, Sequence = entries, NextIndex = int i\<rparr>))"

lemma cycleSequenceEqual_refl [simp]: "cycleSequenceEqual xs xs"
  by (simp add: cycleSequenceEqual_def list_all2_refl)

lemma candidateEligible_cycle [simp]:
  "candidateEligible p k (opt\<lparr>ThinkerCycle := cy\<rparr>) = candidateEligible p k opt"
  by (simp add: candidateEligible_iff)

lemma expandParallel_cycle [simp]: "expandParallel g (opt\<lparr>ThinkerCycle := cy\<rparr>) = expandParallel g opt"
  by (simp add: expandParallel_def)

lemma cycleCandidates_cycle [simp]:
  "cycleCandidates w e k (opt\<lparr>ThinkerCycle := cy\<rparr>) = cycleCandidates w e k opt"
  by (simp add: cycleCandidates_def cong: option.case_cong)

lemma cycleLoop_head:
  assumes "i < length entries" "\<not> SuppressThinker opt"
    "cycleCandidates w (entries ! i) selKey opt = Some cs"
  shows "cycleLoop w opt entries selKey (int i) [0..<length entries]
       = Some (cs, int (Suc i mod length entries))"
proof -
  have "[0..<length entries] = 0 # [1..<length entries]"
    using assms(1) upt_conv_Cons [of 0 "length entries"] by fastforce
  moreover have "(1 + int i) mod int (length entries) = int (Suc i mod length entries)"
    by (simp add: zmod_int add.commute)
  ultimately show ?thesis using assms by (simp add: Let_def add.commute)
qed

lemma pickWeighted_rotate:
  assumes "list_ex IsThinker (wBranches w)" "\<not> first_allowed opt ps" "\<not> SuppressThinker opt"
    and bt: "buildThinkerCycle w = (entries, selKey)" and cur: "cursor w opt i"
    and cs: "cycleCandidates w (entries ! i) selKey opt = Some cs"
  shows "pickWeighted w opt ps = Inr (cs, False,
     Some \<lparr>SelectorKey = selKey, Sequence = entries, NextIndex = int (Suc i mod length entries)\<rparr>, ps)"
proof -
  have i: "i < length entries" using cur bt by (simp add: cursor_def)
  let ?st = "if cycle_valid (ThinkerCycle opt) entries selKey
       then (if NextIndex (ThinkerCycle opt) < 0 \<or> NextIndex (ThinkerCycle opt) \<ge> int (length entries)
             then (ThinkerCycle opt)\<lparr>NextIndex := 0\<rparr> else ThinkerCycle opt)
       else \<lparr>SelectorKey = selKey, Sequence = entries, NextIndex = 0\<rparr>"
  have "?st = \<lparr>SelectorKey = selKey, Sequence = entries, NextIndex = int i\<rparr>"
    using cur bt i by (auto simp: cursor_def cycle_valid_def CycleState_IsEmpty_def split: if_splits)
  then have "pickThinkerCycle w opt ps = Inr (cs, False,
     Some \<lparr>SelectorKey = selKey, Sequence = entries, NextIndex = int (Suc i mod length entries)\<rparr>, ps)"
    using assms(2) cycleLoop_head [OF i assms(3) cs] by (simp add: pickThinkerCycle_def bt Let_def)
  moreover have "wBranches w \<noteq> []" using assms(1) by auto
  ultimately show ?thesis using assms(1) by (simp add: pickWeighted_def)
qed

lemma cycle_picks_rotate:
  assumes "list_ex IsThinker (wBranches w)" "\<not> first_allowed opt ps" "\<not> SuppressThinker opt"
    and bt: "buildThinkerCycle w = (entries, selKey)"
    and all: "\<forall>e \<in> set entries. cycleCandidates w e selKey opt \<noteq> None" and "cursor w opt i"
  shows "cycle_picks w opt ps k =
     map (\<lambda>j. the (cycleCandidates w (entries ! ((i + j) mod length entries)) selKey opt)) [0..<k]"
  using assms(2,3,5,6)
proof (induction k arbitrary: opt i)
  case (Suc k)
  have i: "i < length entries" using Suc.prems(4) bt by (simp add: cursor_def)
  then obtain cs where cs: "cycleCandidates w (entries ! i) selKey opt = Some cs"
    using Suc.prems(3) nth_mem by blast
  let ?i = "Suc i mod length entries"
  let ?cyc = "\<lparr>SelectorKey = selKey, Sequence = entries, NextIndex = int ?i\<rparr>"
  have "cursor w (opt\<lparr>ThinkerCycle := ?cyc\<rparr>) ?i"
  proof -
    have "0 < length entries" using i by linarith
    then have "?i < length entries" by (rule mod_less_divisor)
    with bt show ?thesis by (simp add: cursor_def)
  qed
  then have "cycle_picks w (opt\<lparr>ThinkerCycle := ?cyc\<rparr>) ps k =
     map (\<lambda>j. the (cycleCandidates w (entries ! ((?i + j) mod length entries)) selKey opt)) [0..<k]"
    using Suc.IH [of "opt\<lparr>ThinkerCycle := ?cyc\<rparr>" ?i] Suc.prems by (simp add: first_allowed_def)
  moreover have "(?i + j) mod length entries = (i + Suc j) mod length entries" for j
    by (simp add: mod_simps)
  ultimately show ?case
    using pickWeighted_rotate [OF assms(1) Suc.prems(1,2) bt Suc.prems(4) cs] i cs
    by (simp add: map_upt_Suc del: upt_Suc)
qed simp

definition branch_entry :: "WeightedBranch \<Rightarrow> CycleEntry" where
  "branch_entry b = \<lparr>entryKey = branchKey b, entryRole = (if IsThinker b then RoleThinker else RoleExecutor)\<rparr>"

definition executor_entries :: "WeightedBranch \<Rightarrow> CycleEntry list" where
  "executor_entries b = (if IsThinker b then []
     else replicate (nat (thinkerCycleWeight (Weight b))) \<lparr>entryKey = branchKey b, entryRole = RoleExecutor\<rparr>)"

lemma count_replicate: "count_list (replicate n x) y = (if x = y then n else 0)"
  by (induction n) auto

lemma executor_entries_one:
  "count_list (executor_entries a) (branch_entry b) =
     (if \<not> IsThinker a \<and> \<not> IsThinker b \<and> branchKey a = branchKey b
      then nat (thinkerCycleWeight (Weight a)) else 0)"
  by (simp add: executor_entries_def branch_entry_def count_replicate)

lemma executor_entries_absent:
  "branchKey b \<notin> branchKey ` set bs \<or> IsThinker b \<Longrightarrow>
     count_list (concat (map executor_entries bs)) (branch_entry b) = 0"
  by (induction bs) (auto simp: executor_entries_one)

lemma executor_entries_count:
  "distinct (map branchKey bs) \<Longrightarrow> b \<in> set bs \<Longrightarrow> \<not> IsThinker b \<Longrightarrow>
     count_list (concat (map executor_entries bs)) (branch_entry b) = nat (thinkerCycleWeight (Weight b))"
proof (induction bs)
  case (Cons a bs)
  show ?case
  proof (cases "a = b")
    case True
    with Cons.prems executor_entries_absent [of b bs] show ?thesis
      by (simp add: executor_entries_one)
  next
    case False
    with Cons.prems have "b \<in> set bs" "branchKey a \<noteq> branchKey b" by auto
    with Cons show ?thesis by (simp add: executor_entries_one)
  qed
qed simp

lemma cycle_entry_count:
  assumes "wf_weighted w" "distinct (map branchKey (wBranches w))" "b \<in> set (wBranches w)"
  shows "count_list (fst (buildThinkerCycle w)) (branch_entry b)
     = (if IsThinker b then 1 else nat (thinkerCycleWeight (Weight b)))"
proof -
  let ?t = "case find IsThinker (wBranches w) of
      Some b \<Rightarrow> [\<lparr>entryKey = branchKey b, entryRole = RoleThinker\<rparr>] | None \<Rightarrow> []"
  have f: "fst (buildThinkerCycle w) = concat (map executor_entries (wBranches w)) @ ?t"
    by (simp add: buildThinkerCycle_def Let_def executor_entries_def [abs_def])
  show ?thesis
  proof (cases "IsThinker b")
    case True
    then obtain b' where b': "find IsThinker (wBranches w) = Some b'"
      using assms(3) find_None_set [of IsThinker "wBranches w"] by (cases "find IsThinker (wBranches w)") auto
    moreover have "b' = b"
      using filter_le_one_unique [of IsThinker "wBranches w" b' b] assms find_Some_set [OF b'] True
      by (simp add: wf_weighted_def)
    ultimately show ?thesis
      using True executor_entries_absent [of b "wBranches w"] f by (simp add: branch_entry_def)
  next
    case False
    then have "count_list ?t (branch_entry b) = 0" by (simp add: branch_entry_def split: option.splits)
    with False executor_entries_count [OF assms(2,3) False] f show ?thesis by simp
  qed
qed

text \<open>
  C19: The thinker rotation is exact. For a well-formed thinker group with distinct branch
  keys, from a fresh session and with every branch eligible, the \<open>k\<close>-th consecutive pick
  is entry \<open>k mod n\<close> of the built cycle, so the picks repeat with period \<open>n\<close>; one period
  holds each executor branch exactly as often as its weight, capped at 100, and the
  thinker exactly once, as the last pick.
\<close>

theorem thinker_rotation:
  assumes "wf_weighted w" "list_ex IsThinker (wBranches w)" "distinct (map branchKey (wBranches w))"
    and "\<not> first_allowed opt ps" "\<not> SuppressThinker opt" "CycleState_IsEmpty (ThinkerCycle opt)"
    and "buildThinkerCycle w = (entries, selKey)"
    and "\<forall>e \<in> set entries. cycleCandidates w e selKey opt \<noteq> None"
  shows "cycle_picks w opt ps k =
           map (\<lambda>j. the (cycleCandidates w (entries ! (j mod length entries)) selKey opt)) [0..<k]
     \<and> (\<forall>b \<in> set (wBranches w). count_list entries (branch_entry b)
           = (if IsThinker b then 1 else nat (min 100 (effectiveWeight (Weight b)))))
     \<and> entryRole (last entries) = RoleThinker"
proof -
  obtain t where t: "find IsThinker (wBranches w) = Some t"
    using assms(2) find_None_set [of IsThinker "wBranches w"] by (cases "find IsThinker (wBranches w)") (auto simp: list_ex_iff)
  then obtain xs where e: "entries = xs @ [\<lparr>entryKey = branchKey t, entryRole = RoleThinker\<rparr>]"
    using assms(7) by (auto simp: buildThinkerCycle_def Let_def)
  then have "cursor w opt 0" using assms(6,7) by (simp add: cursor_def)
  from cycle_picks_rotate [OF assms(2,4,5,7,8) this, of k]
  have "cycle_picks w opt ps k =
      map (\<lambda>j. the (cycleCandidates w (entries ! (j mod length entries)) selKey opt)) [0..<k]" by simp
  moreover have "count_list entries (branch_entry b)
      = (if IsThinker b then 1 else nat (min 100 (effectiveWeight (Weight b))))" if "b \<in> set (wBranches w)" for b
    using cycle_entry_count [OF assms(1,3) that] assms(7)
    by (simp add: thinkerCycleWeight_def maxThinkerCycleWeightRepeats_def Let_def min_def)
  ultimately show ?thesis using e by simp
qed

definition thinker_weighted :: Weighted where
  "thinker_weighted = \<lparr>wBranches = [mk_branch 1 False True (mk_primary ''t'' ''m''),
                                    mk_branch 2 False False (mk_primary ''x'' ''n'')]\<rparr>"

theorem thinker_rotation_witness:
  "map (map acKey) (cycle_picks thinker_weighted default_options \<lparr>psSession = None, psRolls = 0\<rparr> 5)
   = [[''x:n''], [''x:n''], [''t:m''], [''x:n''], [''x:n'']]"
proof -
  let ?e = "\<lambda>k r. \<lparr>entryKey = k, entryRole = r\<rparr>"
  let ?es = "[?e ''x:n'' RoleExecutor, ?e ''x:n'' RoleExecutor, ?e ''t:m'' RoleThinker]"
  have wf: "wf_weighted thinker_weighted"
    by (simp add: thinker_weighted_def wf_weighted_def wf_branch_def mk_branch_def wf_primary_def
      mk_primary_def wf_size_def token_bound_def timeout_bound_def no_size_def)
  have bt: "buildThinkerCycle thinker_weighted = (?es, ''t:m^x:n'')" by code_simp
  have th: "list_ex IsThinker (wBranches thinker_weighted)"
    "distinct (map branchKey (wBranches thinker_weighted))"
    "\<not> first_allowed default_options \<lparr>psSession = None, psRolls = 0\<rparr>"
    "\<not> SuppressThinker default_options" "CycleState_IsEmpty (ThinkerCycle default_options)"
    by (code_simp, code_simp, code_simp, code_simp, code_simp)
  have all: "\<forall>e \<in> set ?es. cycleCandidates thinker_weighted e ''t:m^x:n'' default_options \<noteq> None" by code_simp
  have "cycle_picks thinker_weighted default_options \<lparr>psSession = None, psRolls = 0\<rparr> 5 =
     map (\<lambda>j. the (cycleCandidates thinker_weighted (?es ! (j mod length ?es)) ''t:m^x:n'' default_options)) [0..<5]"
    using thinker_rotation [OF wf th bt all, of 5] by (rule conjunct1)
  moreover have "map (map acKey) (map (\<lambda>j. the (cycleCandidates thinker_weighted (?es ! (j mod length ?es))
      ''t:m^x:n'' default_options)) [0..<5]) = [[''x:n''], [''x:n''], [''t:m''], [''x:n''], [''x:n'']]" by code_simp
  ultimately show ?thesis by (simp only:)
qed

text \<open>
  Advisory reordering never loses an arm. The preferred keys only permute the groups
  of a plan; inside a parallel group with distinct keys they only permute the legs, and
  with repeated keys they keep the set of keys and add nothing.
\<close>

theorem preferred_reordering:
  "mset (reorderPreferredGroups groups pref) = mset groups
   \<and> (distinct (map acKey cs) \<longrightarrow> mset (reorderPreferredCandidates cs pref) = mset cs)
   \<and> set (reorderPreferredCandidates cs pref) \<subseteq> set cs
   \<and> acKey ` set (reorderPreferredCandidates cs pref) = acKey ` set cs"
  using reorderPreferredGroups_perm reorderPreferredCandidates_perm reorderPreferredCandidates_keys
  by (intro conjI impI) auto

theorem preferred_reordering_witness:
  "mset (reorderPreferredCandidates (map (\<lambda>k. plain_candidate (mk_primary k ''m'')) [''a'', ''b'']) [''b:m''])
   = mset (map (\<lambda>k. plain_candidate (mk_primary k ''m'')) [''a'', ''b''])"
proof -
  have "distinct (map acKey (map (\<lambda>k. plain_candidate (mk_primary k ''m'')) [''a'', ''b'']))" by code_simp
  with preferred_reordering [of "[]" "[''b:m'']" "map (\<lambda>k. plain_candidate (mk_primary k ''m'')) [''a'', ''b'']"]
  show ?thesis by blast
qed

end
