(* ===== verification/Terminal_Owner.thy ===== *)
theory Terminal_Owner
  imports Aip_Prelude
begin

text \<open>
  Single terminal ownership: the contract values of \<open>pkg/aipsdk/terminal\<close> (commands,
  scopes, states, outcome codes) and the owner state machine of
  \<open>internal/core/terminal/owner.go\<close> with the accumulator snapshot of \<open>snapshot.go\<close>.

  Every request and every backend attempt has one owner. Finishing, cancelling, timing out
  and so on compete by \<open>Claim\<close>; the first legal claim publishes the outcome and the others
  observe it. \<open>Advance\<close> then walks the owner through the settlement phases. Each operation
  runs under the owner's mutex, so concurrent callers are some sequence of calls, and the
  theorems quantify over all sequences. The string enumerations keep a constructor for
  every other string. Dereferencing a nil outcome is the result \<open>Panicked\<close>.
\<close>

section \<open>Contract values\<close>

datatype Command =
  CommandNormalFinish | CommandPartialError | CommandCancel | CommandClose | CommandTimeout
| CommandGateReplacement | CommandParallelLoser | CommandFrontendEncoderFailure
| CommandPreBackendDenial | CommandPanic | CommandEOF | CommandSwallowedAttempt
| CommandBackendOpenFailure | CommandOther string

datatype Scope = ScopeRequest | ScopeAttempt | ScopeOther string

datatype State =
  StateOpen | StateTerminalizing | StateWorkPending | StateSettled | StateReleasePending
| StateReleased | StateFailed | StateOther string

datatype OutcomeCode =
  OutcomeCodeSuccess | OutcomeCodePartial | OutcomeCodeCancelled | OutcomeCodeError
| OutcomeCodeTimeout | OutcomeCodeReplaced | OutcomeCodeParallelLoser | OutcomeCodeDenied
| OutcomeCodeEncoderFailure | OutcomeCodePanic | OutcomeCodeEOF | OutcomeCodeSwallowed
| OutcomeCodeBackendOpen | OutcomeCodeFailed | OutcomeCodeOther string

datatype term_error =
  ErrInvalid | ErrInvalidTransition | ErrConflict | ErrOutputCommitted | ErrScopeMismatch
| ErrClaimLeaseHeld | ErrNotDue | ErrPermanent

definition AllCommands :: "Command list" where
  "AllCommands = [CommandNormalFinish, CommandPartialError, CommandCancel, CommandClose,
     CommandTimeout, CommandGateReplacement, CommandParallelLoser, CommandFrontendEncoderFailure,
     CommandPreBackendDenial, CommandPanic, CommandEOF, CommandSwallowedAttempt,
     CommandBackendOpenFailure]"

fun Command_IsKnown :: "Command \<Rightarrow> bool" where
  "Command_IsKnown (CommandOther _) = False"
| "Command_IsKnown _ = True"

definition Command_Validate :: "Command \<Rightarrow> term_error option" where
  "Command_Validate c = (if \<not> Command_IsKnown c then Some ErrInvalid else None)"

definition IsRetryOrReplacement :: "Command \<Rightarrow> bool" where
  "IsRetryOrReplacement c \<longleftrightarrow> c = CommandGateReplacement"

fun AllowedScopes :: "Command \<Rightarrow> Scope list" where
  "AllowedScopes CommandFrontendEncoderFailure = [ScopeRequest]"
| "AllowedScopes CommandGateReplacement = [ScopeRequest]"
| "AllowedScopes CommandParallelLoser = [ScopeAttempt]"
| "AllowedScopes CommandSwallowedAttempt = [ScopeAttempt]"
| "AllowedScopes CommandPreBackendDenial = [ScopeAttempt]"
| "AllowedScopes CommandBackendOpenFailure = [ScopeAttempt]"
| "AllowedScopes (CommandOther _) = []"
| "AllowedScopes _ = [ScopeRequest, ScopeAttempt]"

definition AllowsScope :: "Command \<Rightarrow> Scope \<Rightarrow> bool" where
  "AllowsScope c s \<longleftrightarrow> s \<in> set (AllowedScopes c)"

fun OutcomeCodeFor :: "Command \<Rightarrow> OutcomeCode" where
  "OutcomeCodeFor CommandNormalFinish = OutcomeCodeSuccess"
| "OutcomeCodeFor CommandPartialError = OutcomeCodePartial"
| "OutcomeCodeFor CommandCancel = OutcomeCodeCancelled"
| "OutcomeCodeFor CommandClose = OutcomeCodeCancelled"
| "OutcomeCodeFor CommandTimeout = OutcomeCodeTimeout"
| "OutcomeCodeFor CommandGateReplacement = OutcomeCodeReplaced"
| "OutcomeCodeFor CommandParallelLoser = OutcomeCodeParallelLoser"
| "OutcomeCodeFor CommandFrontendEncoderFailure = OutcomeCodeEncoderFailure"
| "OutcomeCodeFor CommandPreBackendDenial = OutcomeCodeDenied"
| "OutcomeCodeFor CommandPanic = OutcomeCodePanic"
| "OutcomeCodeFor CommandEOF = OutcomeCodeEOF"
| "OutcomeCodeFor CommandSwallowedAttempt = OutcomeCodeSwallowed"
| "OutcomeCodeFor CommandBackendOpenFailure = OutcomeCodeBackendOpen"
| "OutcomeCodeFor (CommandOther _) = OutcomeCodeFailed"

fun State_IsKnown :: "State \<Rightarrow> bool" where
  "State_IsKnown (StateOther _) = False"
| "State_IsKnown _ = True"

definition State_Validate :: "State \<Rightarrow> term_error option" where
  "State_Validate s = (if \<not> State_IsKnown s then Some ErrInvalid else None)"

definition State_IsTerminal :: "State \<Rightarrow> bool" where
  "State_IsTerminal s \<longleftrightarrow> s = StateReleased \<or> s = StateFailed"

section \<open>The owner\<close>

record AccumulatorSnapshot =
  raw :: string
  outputCommitted :: bool

definition NewAccumulatorSnapshot :: "string \<Rightarrow> bool \<Rightarrow> AccumulatorSnapshot" where
  "NewAccumulatorSnapshot bytes committed = \<lparr>raw = bytes, outputCommitted = committed\<rparr>"

record Outcome =
  Code :: OutcomeCode
  ocCommand :: Command
  Snapshot :: AccumulatorSnapshot
  SettleCustomer :: bool
  ReleaseConcurrency :: bool
  SettleOperator :: bool
  ReleaseAttempt :: bool
  ocScope :: Scope

record Result =
  Won :: bool
  resOutcome :: "Outcome option"
  resState :: State
  resErr :: "term_error option"

record Owner =
  scope :: Scope
  state :: State
  outcome :: "Outcome option"
  claimed :: bool

datatype call_result = Claimed Result | Advanced "term_error option" | Panicked

definition NewOwner :: "Scope \<Rightarrow> Owner" where
  "NewOwner s = \<lparr>scope = s, state = StateOpen, outcome = None, claimed = False\<rparr>"

definition observeLocked :: "Owner \<Rightarrow> Command \<Rightarrow> call_result" where
  "observeLocked ow cmd =
     (case outcome ow of
        None \<Rightarrow> Panicked
      | Some out \<Rightarrow> Claimed \<lparr>Won = False, resOutcome = Some out, resState = state ow,
          resErr = (if IsRetryOrReplacement cmd \<and> outputCommitted (Snapshot out) then Some ErrOutputCommitted
                    else if cmd = ocCommand out then None
                    else Some ErrConflict)\<rparr>)"

definition lost :: "Owner \<Rightarrow> term_error \<Rightarrow> call_result" where
  "lost ow e = Claimed \<lparr>Won = False, resOutcome = None, resState = state ow, resErr = Some e\<rparr>"

definition won_outcome :: "Owner \<Rightarrow> Command \<Rightarrow> AccumulatorSnapshot \<Rightarrow> Outcome" where
  "won_outcome ow cmd snap =
     \<lparr>Code = OutcomeCodeFor cmd, ocCommand = cmd, Snapshot = snap,
      SettleCustomer = (scope ow = ScopeRequest), ReleaseConcurrency = (scope ow = ScopeRequest),
      SettleOperator = (scope ow = ScopeAttempt), ReleaseAttempt = (scope ow = ScopeAttempt),
      ocScope = scope ow\<rparr>"

definition Claim :: "Command \<Rightarrow> AccumulatorSnapshot \<Rightarrow> Owner \<Rightarrow> call_result \<times> Owner" where
  "Claim cmd snap ow =
     (if claimed ow then (observeLocked ow cmd, ow)
      else case Command_Validate cmd of
        Some e \<Rightarrow> (lost ow ErrInvalid, ow)
      | None \<Rightarrow>
          if \<not> AllowsScope cmd (scope ow) then (lost ow ErrScopeMismatch, ow)
          else if state ow \<noteq> StateOpen then (lost ow ErrInvalidTransition, ow)
          else if IsRetryOrReplacement cmd \<and> outputCommitted snap then (lost ow ErrOutputCommitted, ow)
          else let out = won_outcome ow cmd snap in
            (Claimed \<lparr>Won = True, resOutcome = Some out, resState = StateTerminalizing, resErr = None\<rparr>,
             ow\<lparr>outcome := Some out, claimed := True, state := StateTerminalizing\<rparr>))"

fun legalAdvance :: "State \<Rightarrow> State \<Rightarrow> bool" where
  "legalAdvance from StateFailed \<longleftrightarrow>
     from \<in> {StateTerminalizing, StateWorkPending, StateSettled, StateReleasePending}"
| "legalAdvance StateTerminalizing to \<longleftrightarrow> to = StateWorkPending"
| "legalAdvance StateWorkPending to \<longleftrightarrow> to = StateSettled"
| "legalAdvance StateSettled to \<longleftrightarrow> to = StateReleasePending"
| "legalAdvance StateReleasePending to \<longleftrightarrow> to = StateReleased"
| "legalAdvance from to \<longleftrightarrow> False"

definition Advance :: "State \<Rightarrow> Owner \<Rightarrow> call_result \<times> Owner" where
  "Advance to ow =
     (case State_Validate to of
        Some e \<Rightarrow> (Advanced (Some ErrInvalid), ow)
      | None \<Rightarrow>
          if \<not> legalAdvance (state ow) to then (Advanced (Some ErrInvalidTransition), ow)
          else (Advanced None, ow\<lparr>state := to\<rparr>))"

text \<open>One call, and a sequence of calls with the states after each.\<close>

datatype owner_call = ClaimCall Command AccumulatorSnapshot | AdvanceCall State

fun owner_call_step :: "owner_call \<Rightarrow> Owner \<Rightarrow> call_result \<times> Owner" where
  "owner_call_step (ClaimCall cmd snap) ow = Claim cmd snap ow"
| "owner_call_step (AdvanceCall to) ow = Advance to ow"

fun owner_run :: "Owner \<Rightarrow> owner_call list \<Rightarrow> (call_result \<times> Owner) list" where
  "owner_run ow [] = []"
| "owner_run ow (c # cs) = (let r = owner_call_step c ow in r # owner_run (snd r) cs)"

section \<open>The owner invariant\<close>

text \<open>What a published outcome always satisfies.\<close>

definition outcome_ok :: "Scope \<Rightarrow> Outcome \<Rightarrow> bool" where
  "outcome_ok s out \<longleftrightarrow> ocScope out = s \<and> Command_IsKnown (ocCommand out) \<and> AllowsScope (ocCommand out) s
     \<and> Code out = OutcomeCodeFor (ocCommand out)
     \<and> (SettleCustomer out \<longleftrightarrow> s = ScopeRequest) \<and> (ReleaseConcurrency out \<longleftrightarrow> s = ScopeRequest)
     \<and> (SettleOperator out \<longleftrightarrow> s = ScopeAttempt) \<and> (ReleaseAttempt out \<longleftrightarrow> s = ScopeAttempt)
     \<and> \<not> (IsRetryOrReplacement (ocCommand out) \<and> outputCommitted (Snapshot out))"

definition owner_inv :: "Owner \<Rightarrow> bool" where
  "owner_inv ow \<longleftrightarrow> State_IsKnown (state ow) \<and> (claimed ow \<longleftrightarrow> outcome ow \<noteq> None)
     \<and> (claimed ow \<longleftrightarrow> state ow \<noteq> StateOpen)
     \<and> (\<forall>out. outcome ow = Some out \<longrightarrow> outcome_ok (scope ow) out)"

inductive owner_step :: "Owner \<Rightarrow> Owner \<Rightarrow> bool" where
  claim: "Claim cmd snap ow = (r, ow') \<Longrightarrow> owner_step ow ow'"
| advance: "Advance to ow = (r, ow') \<Longrightarrow> owner_step ow ow'"

inductive_cases owner_stepE: "owner_step ow ow'"

definition owner_init :: "Owner \<Rightarrow> bool" where
  "owner_init ow \<longleftrightarrow> (\<exists>s. ow = NewOwner s)"

lemma Claim_cases:
  obtains (observed) "claimed ow" "Claim cmd snap ow = (observeLocked ow cmd, ow)"
  | (refused) e where "\<not> claimed ow" "Claim cmd snap ow = (lost ow e, ow)"
  | (won) "\<not> claimed ow" "Command_IsKnown cmd" "AllowsScope cmd (scope ow)" "state ow = StateOpen"
      "\<not> (IsRetryOrReplacement cmd \<and> outputCommitted snap)"
      "Claim cmd snap ow =
        (Claimed \<lparr>Won = True, resOutcome = Some (won_outcome ow cmd snap), resState = StateTerminalizing, resErr = None\<rparr>,
         ow\<lparr>outcome := Some (won_outcome ow cmd snap), claimed := True, state := StateTerminalizing\<rparr>)"
proof -
  note d = Claim_def Command_Validate_def Let_def
  consider "claimed ow" | "\<not> claimed ow" "\<not> Command_IsKnown cmd"
    | "\<not> claimed ow" "Command_IsKnown cmd" "\<not> AllowsScope cmd (scope ow)"
    | "\<not> claimed ow" "Command_IsKnown cmd" "AllowsScope cmd (scope ow)" "state ow \<noteq> StateOpen"
    | "\<not> claimed ow" "Command_IsKnown cmd" "AllowsScope cmd (scope ow)" "state ow = StateOpen"
      "IsRetryOrReplacement cmd \<and> outputCommitted snap"
    | "\<not> claimed ow" "Command_IsKnown cmd" "AllowsScope cmd (scope ow)" "state ow = StateOpen"
      "\<not> (IsRetryOrReplacement cmd \<and> outputCommitted snap)"
    by blast
  then show thesis
  proof cases
    case 1 then show thesis by (intro observed) (simp_all add: d)
  next
    case 2 then show thesis by (intro refused [of ErrInvalid]) (simp_all add: d)
  next
    case 3 then show thesis by (intro refused [of ErrScopeMismatch]) (simp_all add: d)
  next
    case 4 then show thesis by (intro refused [of ErrInvalidTransition]) (simp_all add: d)
  next
    case 5 then show thesis by (intro refused [of ErrOutputCommitted]) (simp_all add: d)
  next
    case 6 then show thesis by (intro won) (auto simp: d)
  qed
qed

lemma Advance_cases:
  obtains (refused) e where "Advance to ow = (Advanced (Some e), ow)"
  | (moved) "State_IsKnown to" "legalAdvance (state ow) to" "Advance to ow = (Advanced None, ow\<lparr>state := to\<rparr>)"
proof (cases "State_IsKnown to \<and> legalAdvance (state ow) to")
  case True
  then show thesis by (intro moved) (simp_all add: Advance_def State_Validate_def)
next
  case False
  then show thesis
    by (intro refused [of "if State_IsKnown to then ErrInvalidTransition else ErrInvalid"])
      (simp add: Advance_def State_Validate_def)
qed

lemma legalAdvance_not_open: "legalAdvance from to \<Longrightarrow> from \<noteq> StateOpen \<and> to \<noteq> StateOpen"
  by (cases "(from, to)" rule: legalAdvance.cases) auto

lemma won_outcome_ok:
  "Command_IsKnown cmd \<Longrightarrow> AllowsScope cmd (scope ow) \<Longrightarrow> \<not> (IsRetryOrReplacement cmd \<and> outputCommitted snap) \<Longrightarrow>
   outcome_ok (scope ow) (won_outcome ow cmd snap)"
  by (simp add: outcome_ok_def won_outcome_def)

lemma owner_inv_Claim: "owner_inv ow \<Longrightarrow> owner_inv (snd (Claim cmd snap ow))"
  by (cases rule: Claim_cases [where cmd = cmd and snap = snap and ow = ow])
    (auto simp: owner_inv_def won_outcome_ok)

lemma owner_inv_Advance: "owner_inv ow \<Longrightarrow> owner_inv (snd (Advance to ow))"
  by (cases rule: Advance_cases [where to = to and ow = ow])
    (auto simp: owner_inv_def dest: legalAdvance_not_open)

interpretation owner: step_invariant owner_init owner_step owner_inv
proof
  fix ow assume "owner_init ow"
  then show "owner_inv ow" by (auto simp: owner_init_def owner_inv_def NewOwner_def)
next
  fix ow ow' assume "owner_inv ow" "owner_step ow ow'"
  with owner_inv_Claim owner_inv_Advance show "owner_inv ow'" by (auto elim!: owner_stepE) (metis snd_conv)+
qed

lemma owner_step_outcome: "owner_step ow ow' \<Longrightarrow> owner_inv ow \<and> outcome ow = Some out \<Longrightarrow> owner_inv ow' \<and> outcome ow' = Some out"
proof -
  assume st: "owner_step ow ow'" and i: "owner_inv ow \<and> outcome ow = Some out"
  then have c: "claimed ow" by (simp add: owner_inv_def)
  from st have "outcome ow' = outcome ow"
  proof (rule owner_stepE)
    fix cmd snap r assume "Claim cmd snap ow = (r, ow')"
    with c show ?thesis by (simp add: Claim_def)
  next
    fix to r assume "Advance to ow = (r, ow')"
    then show ?thesis by (auto simp: Advance_def split: option.splits if_splits)
  qed
  with i owner.inv_step [OF _ st] show ?thesis by simp
qed

text \<open>A published outcome is itself an invariant of the machine.\<close>

interpretation published: step_invariant "\<lambda>ow. owner_inv ow \<and> outcome ow = Some out" owner_step
    "\<lambda>ow. owner_inv ow \<and> outcome ow = Some out" for out
  by unfold_locales (use owner_step_outcome in blast)+

section \<open>Runs\<close>

lemma owner_call_step_step: "owner_step ow (snd (owner_call_step c ow))"
proof (cases c)
  case (ClaimCall cmd snap)
  then show ?thesis by (simp add: owner_step.claim [where r = "fst (Claim cmd snap ow)"])
next
  case (AdvanceCall to)
  then show ?thesis by (simp add: owner_step.advance [where r = "fst (Advance to ow)"])
qed

lemma owner_run_inv: "owner_inv ow \<Longrightarrow> r \<in> set (owner_run ow cs) \<Longrightarrow> owner_inv (snd r)"
proof (induction cs arbitrary: ow)
  case (Cons c cs)
  have "owner_inv (snd (owner_call_step c ow))"
    using Cons.prems(1) owner_call_step_step by (rule owner.inv_step)
  with Cons show ?case by (auto simp: Let_def)
qed simp

lemma owner_call_no_panic: "owner_inv ow \<Longrightarrow> fst (owner_call_step c ow) \<noteq> Panicked"
  by (cases c) (auto simp: Claim_def Advance_def observeLocked_def lost_def owner_inv_def Let_def
      split: option.splits)

lemma owner_run_no_panic: "owner_inv ow \<Longrightarrow> r \<in> set (owner_run ow cs) \<Longrightarrow> fst r \<noteq> Panicked"
proof (induction cs arbitrary: ow)
  case (Cons c cs)
  have "owner_inv (snd (owner_call_step c ow))"
    using Cons.prems(1) owner_call_step_step by (rule owner.inv_step)
  with Cons owner_call_no_panic show ?case by (auto simp: Let_def)
qed simp

lemma published_result:
  assumes "owner_inv ow" "outcome ow = Some out" "fst (owner_call_step c ow) = Claimed res"
  shows "\<not> Won res \<and> resOutcome res = Some out"
proof -
  have "claimed ow" using assms(1,2) by (simp add: owner_inv_def)
  with assms show ?thesis
    by (cases c) (auto simp: Claim_def observeLocked_def Advance_def split: option.splits if_splits)
qed

lemma owner_run_published:
  "owner_inv ow \<Longrightarrow> outcome ow = Some out \<Longrightarrow> (Claimed res, ow') \<in> set (owner_run ow cs) \<Longrightarrow>
   \<not> Won res \<and> resOutcome res = Some out"
proof (induction cs arbitrary: ow)
  case (Cons c cs)
  have "owner_inv (snd (owner_call_step c ow)) \<and> outcome (snd (owner_call_step c ow)) = Some out"
    using Cons.prems(1,2) owner_step_outcome [OF owner_call_step_step] by blast
  with Cons published_result [OF Cons.prems(1,2), of c res] show ?case
    by (auto simp: Let_def) (metis fst_conv)+
qed simp


lemma won_publishes:
  assumes "fst (owner_call_step c ow) = Claimed res" "Won res"
  shows "\<exists>out. outcome (snd (owner_call_step c ow)) = Some out \<and> resOutcome res = Some out"
  using assms by (cases c) (auto simp: Claim_def Advance_def observeLocked_def lost_def Let_def
      split: option.splits if_splits)

lemma owner_run_one_winner:
  assumes "owner_inv ow" "i < j" "j < length (owner_run ow cs)" "fst (owner_run ow cs ! i) = Claimed res" "Won res"
    "fst (owner_run ow cs ! j) = Claimed res'"
  shows "\<not> Won res' \<and> resOutcome res' = resOutcome res"
  using assms
proof (induction cs arbitrary: ow i j)
  case (Cons c cs)
  let ?ow = "snd (owner_call_step c ow)"
  have inv: "owner_inv ?ow" using Cons.prems(1) owner_call_step_step by (rule owner.inv_step)
  obtain j' where j: "j = Suc j'" using Cons.prems(2) by (cases j) auto
  show ?case
  proof (cases i)
    case 0
    with Cons.prems(4) have "fst (owner_call_step c ow) = Claimed res" by (simp add: Let_def)
    from won_publishes [OF this Cons.prems(5)] obtain out
      where out: "outcome ?ow = Some out" "resOutcome res = Some out" by blast
    have "owner_run ?ow cs ! j' \<in> set (owner_run ?ow cs)" using Cons.prems(3) j by (simp add: Let_def)
    moreover have "fst (owner_run ?ow cs ! j') = Claimed res'" using Cons.prems(6) j by (simp add: Let_def)
    ultimately have "(Claimed res', snd (owner_run ?ow cs ! j')) \<in> set (owner_run ?ow cs)"
      by (metis prod.collapse)
    from owner_run_published [OF inv out(1) this] out(2) show ?thesis by simp
  next
    case (Suc i')
    with Cons.IH [OF inv, of i' j'] Cons.prems j show ?thesis by (simp add: Let_def)
  qed
qed simp

section \<open>Properties\<close>

text \<open>
  C3: One winner, one outcome. Whatever calls compete on an owner, no call panics, a claim
  that wins is the only one that does, and every later claim, whatever its command, is told
  exactly the winner's outcome.
\<close>

theorem terminal_single_winner:
  assumes "owner_run (NewOwner s) calls = rs"
  shows "(\<forall>r \<in> set rs. fst r \<noteq> Panicked)
     \<and> (\<forall>i j res res'. i < j \<longrightarrow> j < length rs \<longrightarrow> fst (rs ! i) = Claimed res \<longrightarrow> Won res
          \<longrightarrow> fst (rs ! j) = Claimed res' \<longrightarrow> \<not> Won res' \<and> resOutcome res' = resOutcome res)"
proof -
  have i0: "owner_inv (NewOwner s)" by (rule owner.inv_init) (auto simp: owner_init_def)
  show ?thesis unfolding assms [symmetric]
    using owner_run_no_panic [OF i0] owner_run_one_winner [OF i0] by blast
qed

theorem terminal_single_winner_witness:
  "let rs = owner_run (NewOwner ScopeRequest)
       [ClaimCall CommandCancel (NewAccumulatorSnapshot ''x'' True), ClaimCall CommandNormalFinish (NewAccumulatorSnapshot ''y'' True)]
   in \<forall>res'. fst (rs ! 1) = Claimed res' \<longrightarrow> \<not> Won res' \<and> map_option Code (resOutcome res') = Some OutcomeCodeCancelled"
proof -
  let ?rs = "owner_run (NewOwner ScopeRequest)
       [ClaimCall CommandCancel (NewAccumulatorSnapshot ''x'' True), ClaimCall CommandNormalFinish (NewAccumulatorSnapshot ''y'' True)]"
  define res where "res = (case fst (?rs ! 0) of Claimed r \<Rightarrow> r)"
  have r: "length ?rs = 2" "fst (?rs ! 0) = Claimed res" "Won res" "map_option Code (resOutcome res) = Some OutcomeCodeCancelled"
    by (simp_all add: res_def Claim_def NewOwner_def Command_Validate_def AllowsScope_def IsRetryOrReplacement_def
        Let_def won_outcome_def)
  from terminal_single_winner [OF refl, of ScopeRequest
      "[ClaimCall CommandCancel (NewAccumulatorSnapshot ''x'' True), ClaimCall CommandNormalFinish (NewAccumulatorSnapshot ''y'' True)]"]
  have "\<forall>res'. fst (?rs ! 1) = Claimed res' \<longrightarrow> \<not> Won res' \<and> resOutcome res' = resOutcome res"
    using r by (metis one_less_numeral_iff zero_less_one semiring_norm(76))
  with r(4) show ?thesis by simp
qed

text \<open>
  What is published. In every state reachable from a new owner, an outcome is published
  exactly when the owner has left the open state; its command is known and legal for the
  owner's scope, its code is the command's, it asks for the customer effects exactly on the
  request plane and for the operator effects exactly on the attempt plane, and it is never a
  replacement of output that was already committed.
\<close>

theorem terminal_outcome_sound:
  assumes "reach owner_init owner_step ow"
  shows "(outcome ow \<noteq> None \<longleftrightarrow> state ow \<noteq> StateOpen)
     \<and> (\<forall>out. outcome ow = Some out \<longrightarrow>
          AllowsScope (ocCommand out) (scope ow) \<and> Code out = OutcomeCodeFor (ocCommand out)
        \<and> Code out \<noteq> OutcomeCodeFailed
        \<and> (SettleCustomer out \<longleftrightarrow> scope ow = ScopeRequest) \<and> (ReleaseConcurrency out \<longleftrightarrow> scope ow = ScopeRequest)
        \<and> (SettleOperator out \<longleftrightarrow> scope ow = ScopeAttempt) \<and> (ReleaseAttempt out \<longleftrightarrow> scope ow = ScopeAttempt)
        \<and> \<not> (ocCommand out = CommandGateReplacement \<and> outputCommitted (Snapshot out)))"
proof -
  have "OutcomeCodeFor c \<noteq> OutcomeCodeFailed" if "Command_IsKnown c" for c
    using that by (cases c) auto
  with owner.reach_inv [OF assms] show ?thesis
    by (auto simp: owner_inv_def outcome_ok_def IsRetryOrReplacement_def)
qed

theorem terminal_outcome_sound_witness:
  "let ow = snd (Claim CommandTimeout (NewAccumulatorSnapshot [] True) (NewOwner ScopeAttempt)) in
   outcome ow \<noteq> None \<and> (\<forall>out. outcome ow = Some out \<longrightarrow> SettleOperator out \<and> \<not> SettleCustomer out)"
proof -
  let ?ow = "snd (Claim CommandTimeout (NewAccumulatorSnapshot [] True) (NewOwner ScopeAttempt))"
  have "reach owner_init owner_step (NewOwner ScopeAttempt)" by (rule reach_init) (auto simp: owner_init_def)
  then have "reach owner_init owner_step ?ow"
    using owner_call_step_step [of "NewOwner ScopeAttempt" "ClaimCall CommandTimeout (NewAccumulatorSnapshot [] True)"]
    by (auto intro: reach_step)
  from terminal_outcome_sound [OF this] show ?thesis
    by (auto simp: Claim_def NewOwner_def Command_Validate_def AllowsScope_def IsRetryOrReplacement_def
        Let_def won_outcome_def)
qed

text \<open>The settlement phases in order, and the states an owner goes through.\<close>

definition phases :: "State list" where
  "phases = [StateOpen, StateTerminalizing, StateWorkPending, StateSettled, StateReleasePending, StateReleased]"

definition state_history :: "Owner \<Rightarrow> owner_call list \<Rightarrow> State list" where
  "state_history ow cs = remdups_adj (state ow # map (\<lambda>r. state (snd r)) (owner_run ow cs))"

definition phase_suffix :: "nat \<Rightarrow> State list \<Rightarrow> bool" where
  "phase_suffix k hs \<longleftrightarrow> (\<exists>n \<le> length phases. k < n \<and>
     (hs = drop k (take n phases) \<or> (2 \<le> n \<and> n \<le> 5 \<and> hs = drop k (take n phases) @ [StateFailed])))"

lemma owner_call_step_state:
  "state (snd (owner_call_step c ow)) = state ow
   \<or> (state ow = StateOpen \<and> state (snd (owner_call_step c ow)) = StateTerminalizing)
   \<or> legalAdvance (state ow) (state (snd (owner_call_step c ow)))"
  by (cases c) (auto simp: Claim_def Advance_def Let_def split: option.splits)

lemma phase_move:
  assumes "k < length phases" "state ow = phases ! k"
  shows "state (snd (owner_call_step c ow)) = state ow
   \<or> (Suc k < length phases \<and> state (snd (owner_call_step c ow)) = phases ! Suc k)
   \<or> (1 \<le> k \<and> k \<le> 4 \<and> state (snd (owner_call_step c ow)) = StateFailed)"
proof -
  have "k \<in> {0, 1, 2, 3, 4, 5}" using assms(1) by (auto simp: phases_def)
  with owner_call_step_state [of c ow] assms(2) show ?thesis
    by (cases "state (snd (owner_call_step c ow))") (auto simp: phases_def)
qed

lemma failed_stays: "state ow = StateFailed \<Longrightarrow> state_history ow cs = [StateFailed]"
proof (induction cs arbitrary: ow)
  case (Cons c cs)
  have "state (snd (owner_call_step c ow)) = StateFailed"
    using owner_call_step_state [of c ow] Cons.prems
    by (cases "state (snd (owner_call_step c ow))") auto
  with Cons show ?case by (simp add: state_history_def Let_def)
qed (simp add: state_history_def)

lemma state_history_Cons:
  "state_history ow (c # cs) =
     (if state (snd (owner_call_step c ow)) = state ow then state_history (snd (owner_call_step c ow)) cs
      else state ow # state_history (snd (owner_call_step c ow)) cs)"
  by (simp add: state_history_def Let_def)

lemma phase_suffix_Suc:
  assumes "phase_suffix (Suc k) hs"
  shows "phase_suffix k (phases ! k # hs)"
proof -
  from assms obtain n where n: "n \<le> length phases" "Suc k < n"
    "hs = drop (Suc k) (take n phases) \<or> (2 \<le> n \<and> n \<le> 5 \<and> hs = drop (Suc k) (take n phases) @ [StateFailed])"
    by (auto simp: phase_suffix_def)
  then have "drop k (take n phases) = phases ! k # drop (Suc k) (take n phases)"
    by (simp add: Cons_nth_drop_Suc [symmetric])
  with n show ?thesis unfolding phase_suffix_def by (intro exI [of _ n]) auto
qed

lemma history_phases:
  "k < length phases \<Longrightarrow> state ow = phases ! k \<Longrightarrow> phase_suffix k (state_history ow cs)"
proof (induction cs arbitrary: ow k)
  case Nil
  then have "drop k (take (Suc k) phases) = [phases ! k]"
    by (simp add: take_Suc_conv_app_nth)
  with Nil show ?case
    unfolding phase_suffix_def by (intro exI [of _ "Suc k"]) (simp add: state_history_def)
next
  case (Cons c cs)
  let ?ow = "snd (owner_call_step c ow)"
  from phase_move [OF Cons.prems, of c] consider "state ?ow = state ow"
    | "Suc k < length phases" "state ?ow = phases ! Suc k" "state ?ow \<noteq> state ow"
    | "1 \<le> k" "k \<le> 4" "state ?ow = StateFailed" "state ?ow \<noteq> state ow" by blast
  then show ?case
  proof cases
    case 1
    with Cons show ?thesis by (simp add: state_history_Cons)
  next
    case 2
    from phase_suffix_Suc [OF Cons.IH [OF 2(1,2)]] 2 Cons.prems(2) show ?thesis
      by (simp add: state_history_Cons)
  next
    case 3
    have "drop k (take (Suc k) phases) = [phases ! k]" using Cons.prems(1) by (simp add: take_Suc_conv_app_nth)
    with 3 Cons.prems show ?thesis unfolding phase_suffix_def
      by (intro exI [of _ "Suc k"]) (auto simp: state_history_Cons failed_stays phases_def)
  qed
qed

text \<open>
  C24: Lifecycle order. Under any calls the states an owner goes through are an initial part
  of open, terminalizing, work pending, settled, release pending, released, in this order
  and none skipped, possibly left for the failed state between the claim and the release;
  released and failed are never left. In particular the release comes after the settlement,
  and nothing advances before a claim has won.
\<close>

theorem terminal_lifecycle_order:
  "\<exists>n \<le> 6. 1 \<le> n \<and> (state_history (NewOwner s) calls = take n phases
     \<or> (2 \<le> n \<and> n \<le> 5 \<and> state_history (NewOwner s) calls = take n phases @ [StateFailed]))"
proof -
  have "phase_suffix 0 (state_history (NewOwner s) calls)"
    by (rule history_phases) (simp_all add: phases_def NewOwner_def)
  moreover have "length phases = 6" by (simp add: phases_def)
  ultimately show ?thesis unfolding phase_suffix_def by (metis Suc_leI One_nat_def drop0)
qed


end
