(* ===== verification/Terminal_Work.thy ===== *)
theory Terminal_Work
  imports Terminal_Owner Go_Strings
begin

text \<open>
  Durable terminal work: \<open>internal/core/terminalwork\<close> (\<open>workitem.go\<close>, \<open>schedule.go\<close>,
  \<open>sourcekey.go\<close>, \<open>record.go\<close>, \<open>append_outcome.go\<close>, \<open>query.go\<close>) with the work kinds and
  states of \<open>pkg/aipsdk/terminal/work.go\<close>. A work item is one idempotent settlement
  action: intent, then pending, then claimed under a lease, and from there completed,
  retried after a backoff or quarantined.

  The clock is the argument \<open>now\<close> of each transition; a nil clock, which the source
  refuses, is \<open>None\<close>. A backoff product is a wrapping 64-bit multiplication. The attempt
  counter and \<open>time.Time.Add\<close> are unbounded. Payload bytes are a string, and UTC
  normalisation of a timestamp is the identity.
\<close>

section \<open>Kinds and states\<close>

datatype WorkKind =
  WorkKindAppendFact | WorkKindSettleRequestProvider | WorkKindReleaseRequestProvider
| WorkKindSettleAttemptProvider | WorkKindReleaseAttemptProvider | WorkKindCompensateProvider
| WorkKindReleaseLeaseSet | WorkKindAuthoritativeCorrection | WorkKindOther string

fun WorkKind_IsKnown :: "WorkKind \<Rightarrow> bool" where
  "WorkKind_IsKnown (WorkKindOther _) = False"
| "WorkKind_IsKnown _ = True"

definition WorkKind_Validate :: "WorkKind \<Rightarrow> term_error option" where
  "WorkKind_Validate k = (if \<not> WorkKind_IsKnown k then Some ErrInvalid else None)"

definition RequiresProvider :: "WorkKind \<Rightarrow> bool" where
  "RequiresProvider k \<longleftrightarrow> k \<in> {WorkKindSettleRequestProvider, WorkKindReleaseRequestProvider,
     WorkKindSettleAttemptProvider, WorkKindReleaseAttemptProvider, WorkKindCompensateProvider}"

datatype WorkState =
  WorkStateIntent | WorkStatePending | WorkStateClaimed | WorkStateCompleted | WorkStateRetry
| WorkStateQuarantined | WorkStateOther string

fun WorkState_IsKnown :: "WorkState \<Rightarrow> bool" where
  "WorkState_IsKnown (WorkStateOther _) = False"
| "WorkState_IsKnown _ = True"

definition WorkState_Validate :: "WorkState \<Rightarrow> term_error option" where
  "WorkState_Validate s = (if \<not> WorkState_IsKnown s then Some ErrInvalid else None)"

definition WorkState_IsTerminal :: "WorkState \<Rightarrow> bool" where
  "WorkState_IsTerminal s \<longleftrightarrow> s = WorkStateCompleted \<or> s = WorkStateQuarantined"

section \<open>Identities and leases\<close>

record SourceKey =
  IdentityVersion :: int
  Key :: string

definition SourceKey_Validate :: "SourceKey \<Rightarrow> term_error option" where
  "SourceKey_Validate k =
     (if IdentityVersion k < 1 then Some ErrInvalid
      else if TrimSpace (Key k) = [] then Some ErrInvalid
      else None)"

datatype RuntimeIdentityClass = RuntimeIdentityLegacy | RuntimeIdentityExact | RuntimeIdentityMalformed

record BoundVersions =
  GenerationID :: string
  RuntimeInstanceID :: string
  RuntimeGenerationID :: string
  bvProviderID :: string
  RatingID :: string

definition RuntimeIdentity :: "BoundVersions \<Rightarrow> RuntimeIdentityClass" where
  "RuntimeIdentity v =
     (let inst = TrimSpace (RuntimeInstanceID v); gen = TrimSpace (RuntimeGenerationID v) in
      if inst = [] \<and> gen = [] then RuntimeIdentityLegacy
      else if inst \<noteq> [] \<and> gen \<noteq> [] then RuntimeIdentityExact
      else RuntimeIdentityMalformed)"

definition HasRuntimeGeneration :: "BoundVersions \<Rightarrow> bool" where
  "HasRuntimeGeneration v \<longleftrightarrow> RuntimeIdentity v = RuntimeIdentityExact"

record LifecycleCorrelation =
  RequestID :: string
  AttemptID :: string
  TraceID :: string

record ClaimLease =
  leaseOwnerID :: string
  leaseExpiresAt :: gotime

definition no_lease :: ClaimLease where
  "no_lease = \<lparr>leaseOwnerID = [], leaseExpiresAt = 0\<rparr>"

definition HeldAt :: "ClaimLease \<Rightarrow> gotime \<Rightarrow> bool" where
  "HeldAt l now \<longleftrightarrow> leaseOwnerID l \<noteq> [] \<and> now < leaseExpiresAt l"

record BoundedError =
  errCode :: string
  Permanent :: bool
  errMessage :: string

definition no_error :: BoundedError where
  "no_error = \<lparr>errCode = [], Permanent = False, errMessage = []\<rparr>"

section \<open>The retry schedule\<close>

record RetrySchedule =
  Initial :: duration
  Multiplier :: int
  schMax :: duration

fun delayLoop :: "nat \<Rightarrow> int \<Rightarrow> duration \<Rightarrow> duration \<Rightarrow> duration" where
  "delayLoop 0 m hi d = (if hi > 0 \<and> d > hi then hi else d)"
| "delayLoop (Suc k) m hi d =
     (let nxt = wrap64 (d * m) in
      if hi > 0 \<and> nxt > hi then hi else delayLoop k m hi nxt)"

definition Delay :: "RetrySchedule \<Rightarrow> int \<Rightarrow> duration" where
  "Delay s attempt =
     (let attempt' = (if attempt < 1 then 1 else attempt);
          m = max (Multiplier s) 1
      in delayLoop (nat (attempt' - 1)) m (schMax s) (Initial s))"

section \<open>Work items\<close>

record WorkItem =
  wiSourceKey :: SourceKey
  wiWorkID :: string
  wiKind :: WorkKind
  wiState :: WorkState
  wiProviderID :: string
  wiLifecycle :: LifecycleCorrelation
  wiVersions :: BoundVersions
  wiAttempts :: int
  wiNextRetryAt :: gotime
  wiLease :: ClaimLease
  wiError :: BoundedError

definition NewIntent :: "SourceKey \<Rightarrow> string \<Rightarrow> WorkKind \<Rightarrow> string \<Rightarrow> LifecycleCorrelation \<Rightarrow> BoundVersions
    \<Rightarrow> term_error + WorkItem" where
  "NewIntent source workID kind providerID life ver =
     (case SourceKey_Validate source of
        Some e \<Rightarrow> Inl e
      | None \<Rightarrow>
          if TrimSpace workID = [] then Inl ErrInvalid
          else case WorkKind_Validate kind of
            Some e \<Rightarrow> Inl ErrInvalid
          | None \<Rightarrow>
              if RequiresProvider kind \<and> TrimSpace providerID = [] then Inl ErrInvalid
              else Inr \<lparr>wiSourceKey = source, wiWorkID = workID, wiKind = kind, wiState = WorkStateIntent,
                     wiProviderID = providerID, wiLifecycle = life, wiVersions = ver, wiAttempts = 0,
                     wiNextRetryAt = 0, wiLease = no_lease, wiError = no_error\<rparr>)"

definition MarkPending :: "WorkItem \<Rightarrow> term_error + WorkItem" where
  "MarkPending w =
     (if wiState w \<noteq> WorkStateIntent then Inl ErrInvalidTransition
      else Inr (w\<lparr>wiState := WorkStatePending\<rparr>))"

definition claim_item :: "string \<Rightarrow> gotime \<Rightarrow> WorkItem \<Rightarrow> WorkItem" where
  "claim_item ownerID expires w =
     w\<lparr>wiState := WorkStateClaimed, wiLease := \<lparr>leaseOwnerID = ownerID, leaseExpiresAt = expires\<rparr>\<rparr>"

definition WorkItem_Claim :: "string \<Rightarrow> duration \<Rightarrow> gotime option \<Rightarrow> WorkItem \<Rightarrow> term_error + WorkItem" where
  "WorkItem_Claim ownerID ttl clock w =
     (case clock of
        None \<Rightarrow> Inl ErrInvalid
      | Some now \<Rightarrow>
          if TrimSpace ownerID = [] then Inl ErrInvalid
          else if ttl \<le> 0 then Inl ErrInvalid
          else (case wiState w of
              WorkStatePending \<Rightarrow> Inr (claim_item ownerID (now + ttl) w)
            | WorkStateRetry \<Rightarrow>
                if now < wiNextRetryAt w then Inl ErrNotDue else Inr (claim_item ownerID (now + ttl) w)
            | WorkStateClaimed \<Rightarrow>
                if HeldAt (wiLease w) now then Inl ErrClaimLeaseHeld else Inr (claim_item ownerID (now + ttl) w)
            | _ \<Rightarrow> Inl ErrInvalidTransition))"

definition Complete :: "WorkItem \<Rightarrow> term_error + WorkItem" where
  "Complete w =
     (if wiState w \<noteq> WorkStateClaimed then Inl ErrInvalidTransition
      else Inr (w\<lparr>wiState := WorkStateCompleted, wiLease := no_lease, wiError := no_error\<rparr>))"

definition Retry :: "RetrySchedule \<Rightarrow> gotime option \<Rightarrow> BoundedError \<Rightarrow> WorkItem \<Rightarrow> term_error + WorkItem" where
  "Retry schedule clock err w =
     (case clock of
        None \<Rightarrow> Inl ErrInvalid
      | Some now \<Rightarrow>
          if wiState w \<noteq> WorkStateClaimed then Inl ErrInvalidTransition
          else if Permanent err then Inl ErrPermanent
          else let attempts = wiAttempts w + 1 in
            Inr (w\<lparr>wiAttempts := attempts, wiNextRetryAt := now + Delay schedule attempts,
                    wiState := WorkStateRetry, wiLease := no_lease, wiError := err\<rparr>))"

definition RenewClaim :: "string \<Rightarrow> duration \<Rightarrow> gotime option \<Rightarrow> WorkItem \<Rightarrow> term_error + WorkItem" where
  "RenewClaim ownerID ttl clock w =
     (case clock of
        None \<Rightarrow> Inl ErrInvalid
      | Some now \<Rightarrow>
          if TrimSpace ownerID = [] then Inl ErrInvalid
          else if ttl \<le> 0 then Inl ErrInvalid
          else if wiState w \<noteq> WorkStateClaimed then Inl ErrInvalidTransition
          else if leaseOwnerID (wiLease w) \<noteq> ownerID then Inl ErrConflict
          else if \<not> HeldAt (wiLease w) now then Inl ErrClaimLeaseHeld
          else Inr (w\<lparr>wiLease := (wiLease w)\<lparr>leaseExpiresAt := now + ttl\<rparr>\<rparr>))"

definition Quarantine :: "BoundedError \<Rightarrow> WorkItem \<Rightarrow> term_error + WorkItem" where
  "Quarantine err w =
     (if wiState w \<in> {WorkStatePending, WorkStateClaimed, WorkStateRetry}
      then Inr (w\<lparr>wiState := WorkStateQuarantined, wiLease := no_lease, wiError := err\<rparr>)
      else Inl ErrInvalidTransition)"

section \<open>Persisted records\<close>

record WorkRecord =
  wrWorkID :: string
  wrSourceKey :: SourceKey
  PayloadVersion :: int
  wrKind :: WorkKind
  wrState :: WorkState
  wrProviderID :: string
  wrLifecycle :: LifecycleCorrelation
  wrVersions :: BoundVersions
  Payload :: string
  FactID :: string
  LeaseSetID :: string
  wrAttempts :: int
  wrNextRetryAt :: gotime
  wrLease :: ClaimLease
  wrError :: BoundedError
  CreatedAt :: gotime
  UpdatedAt :: gotime

definition WorkRecord_Validate :: "WorkRecord \<Rightarrow> term_error option" where
  "WorkRecord_Validate r =
     (case SourceKey_Validate (wrSourceKey r) of
        Some e \<Rightarrow> Some e
      | None \<Rightarrow>
          if TrimSpace (wrWorkID r) = [] then Some ErrInvalid
          else if PayloadVersion r < 1 then Some ErrInvalid
          else if WorkKind_Validate (wrKind r) \<noteq> None then Some ErrInvalid
          else if WorkState_Validate (wrState r) \<noteq> None then Some ErrInvalid
          else if RequiresProvider (wrKind r) \<and> TrimSpace (wrProviderID r) = [] then Some ErrInvalid
          else None)"

definition SameIntentReplay :: "WorkRecord \<Rightarrow> WorkRecord \<Rightarrow> bool" where
  "SameIntentReplay a b =
     (if wrSourceKey a \<noteq> wrSourceKey b \<or> wrWorkID a \<noteq> wrWorkID b then False
      else if PayloadVersion a \<noteq> PayloadVersion b \<or> wrKind a \<noteq> wrKind b \<or> wrProviderID a \<noteq> wrProviderID b then False
      else if wrLifecycle a \<noteq> wrLifecycle b \<or> wrVersions a \<noteq> wrVersions b then False
      else if FactID a \<noteq> FactID b \<or> LeaseSetID a \<noteq> LeaseSetID b then False
      else Payload a = Payload b)"

definition ToWorkItem :: "WorkRecord \<Rightarrow> WorkItem" where
  "ToWorkItem r = \<lparr>wiSourceKey = wrSourceKey r, wiWorkID = wrWorkID r, wiKind = wrKind r, wiState = wrState r,
     wiProviderID = wrProviderID r, wiLifecycle = wrLifecycle r, wiVersions = wrVersions r,
     wiAttempts = wrAttempts r, wiNextRetryAt = wrNextRetryAt r, wiLease = wrLease r, wiError = wrError r\<rparr>"

definition ApplyWorkItem :: "WorkItem \<Rightarrow> gotime \<Rightarrow> WorkRecord \<Rightarrow> WorkRecord" where
  "ApplyWorkItem w now r = r\<lparr>wrState := wiState w, wrAttempts := wiAttempts w,
     wrNextRetryAt := wiNextRetryAt w, wrLease := wiLease w, wrError := wiError w, UpdatedAt := now\<rparr>"

record AppendIntentOutcome =
  Inserted :: bool
  Replay :: bool

definition Definitive :: "AppendIntentOutcome \<Rightarrow> bool" where
  "Definitive x \<longleftrightarrow> Inserted x \<noteq> Replay x \<and> (Inserted x \<or> Replay x)"


section \<open>The backoff never overflows\<close>

definition sane_schedule :: "RetrySchedule \<Rightarrow> bool" where
  "sane_schedule s \<longleftrightarrow> 0 < Initial s \<and> 0 < schMax s \<and> Initial s \<le> MaxInt64
     \<and> max (Initial s) (schMax s) * max (Multiplier s) 1 \<le> MaxInt64"

lemma delayLoop_min:
  assumes "1 \<le> m" "0 < hi" "0 < d" "max d hi * m \<le> MaxInt64"
  shows "delayLoop k m hi d = min (d * m ^ k) hi"
  using assms(3,4)
proof (induction k arbitrary: d)
  case 0
  then show ?case using assms(2) by (simp add: min_def)
next
  case (Suc k)
  have "d * m \<le> max d hi * m" using assms(1) by (intro mult_right_mono) auto
  moreover have "0 < d * m" using Suc.prems(1) assms(1) by simp
  ultimately have w: "wrap64 (d * m) = d * m"
    using Suc.prems(2) by (intro wrap64_id) auto
  show ?case
  proof (cases "d * m > hi")
    case True
    have "hi \<le> d * m * m ^ k"
      using True one_le_power [OF assms(1), of k] \<open>0 < d * m\<close>
      by (smt (verit) mult_le_cancel_left1)
    with True assms(2) show ?thesis by (simp add: w Let_def min_def mult.assoc)
  next
    case False
    have "max (d * m) hi * m \<le> max d hi * m"
      using False assms(1) by (intro mult_right_mono) auto
    with Suc.prems(2) have "max (d * m) hi * m \<le> MaxInt64" by linarith
    from Suc.IH [OF \<open>0 < d * m\<close> this] False show ?thesis by (simp add: w Let_def mult.assoc)
  qed
qed

section \<open>The work machine\<close>

datatype work_op =
  OpPending | OpClaim string duration gotime | OpComplete | OpRetry RetrySchedule gotime BoundedError
| OpRenew string duration gotime | OpQuarantine BoundedError

fun work_op_step :: "work_op \<Rightarrow> WorkItem \<Rightarrow> term_error + WorkItem" where
  "work_op_step OpPending w = MarkPending w"
| "work_op_step (OpClaim own ttl now) w = WorkItem_Claim own ttl (Some now) w"
| "work_op_step OpComplete w = Complete w"
| "work_op_step (OpRetry sch now err) w = Retry sch (Some now) err w"
| "work_op_step (OpRenew own ttl now) w = RenewClaim own ttl (Some now) w"
| "work_op_step (OpQuarantine err) w = Quarantine err w"

text \<open>An operation that fails leaves the item as it was; the run keeps each result.\<close>

definition after :: "work_op \<Rightarrow> WorkItem \<Rightarrow> WorkItem" where
  "after p w = (case work_op_step p w of Inl _ \<Rightarrow> w | Inr w' \<Rightarrow> w')"

definition work_run :: "work_op list \<Rightarrow> WorkItem \<Rightarrow> WorkItem" where
  "work_run ops w = foldl (\<lambda>w p. after p w) w ops"

definition succeeds :: "work_op \<Rightarrow> WorkItem \<Rightarrow> bool" where
  "succeeds p w \<longleftrightarrow> (case work_op_step p w of Inl _ \<Rightarrow> False | Inr _ \<Rightarrow> True)"

inductive work_step :: "WorkItem \<Rightarrow> WorkItem \<Rightarrow> bool" where
  "work_op_step p w = Inr w' \<Longrightarrow> work_step w w'"

inductive_cases work_stepE: "work_step w w'"

lemmas work_defs = MarkPending_def WorkItem_Claim_def claim_item_def Complete_def Retry_def RenewClaim_def
  Quarantine_def Let_def

definition work_init :: "WorkItem \<Rightarrow> bool" where
  "work_init w \<longleftrightarrow> (\<exists>source workID kind providerID life ver. NewIntent source workID kind providerID life ver = Inr w)"

text \<open>The identity of an item is valid and a lease is present exactly while it is claimed.\<close>

definition work_inv :: "WorkItem \<Rightarrow> bool" where
  "work_inv w \<longleftrightarrow> SourceKey_Validate (wiSourceKey w) = None \<and> TrimSpace (wiWorkID w) \<noteq> []
     \<and> WorkKind_IsKnown (wiKind w) \<and> (RequiresProvider (wiKind w) \<longrightarrow> TrimSpace (wiProviderID w) \<noteq> [])
     \<and> WorkState_IsKnown (wiState w) \<and> 0 \<le> wiAttempts w
     \<and> (if wiState w = WorkStateClaimed then TrimSpace (leaseOwnerID (wiLease w)) \<noteq> [] else wiLease w = no_lease)"


lemma work_inv_step: "work_inv w \<Longrightarrow> work_op_step p w = Inr w' \<Longrightarrow> work_inv w'"
proof (cases p)
  case (OpClaim own ttl now)
  assume "work_inv w" "work_op_step p w = Inr w'"
  with OpClaim show ?thesis
    by (auto simp: work_inv_def work_defs split: if_splits WorkState.splits)
qed (auto simp: work_inv_def work_defs split: if_splits)

interpretation work: step_invariant work_init work_step work_inv
proof
  fix w assume "work_init w"
  then show "work_inv w"
    by (auto simp: work_init_def NewIntent_def work_inv_def no_lease_def WorkKind_Validate_def
        split: option.splits if_splits)
next
  fix w w' assume "work_inv w" "work_step w w'"
  then show "work_inv w'" by (auto elim!: work_stepE intro: work_inv_step)
qed

lemma after_inv: "work_inv w \<Longrightarrow> work_inv (after p w)"
  by (auto simp: after_def intro: work_inv_step split: sum.splits)

lemma work_run_simps [simp]:
  "work_run [] w = w" "work_run (p # ps) w = work_run ps (after p w)"
  by (simp_all add: work_run_def)

text \<open>Operations that end a holder's lease before it expires, or replace it.\<close>

fun ends_lease :: "work_op \<Rightarrow> bool" where
  "ends_lease (OpRetry _ _ _) = True"
| "ends_lease (OpRenew _ _ _) = True"
| "ends_lease _ = False"

definition held_or_done :: "ClaimLease \<Rightarrow> WorkItem \<Rightarrow> bool" where
  "held_or_done l w \<longleftrightarrow> WorkState_IsTerminal (wiState w) \<or> (wiState w = WorkStateClaimed \<and> wiLease w = l)"

lemma held_or_done_after:
  assumes "held_or_done l w" "\<not> ends_lease p" "\<And>own ttl now. p = OpClaim own ttl now \<Longrightarrow> HeldAt l now"
  shows "held_or_done l (after p w)"
proof (cases p)
  case (OpClaim own ttl now)
  with assms show ?thesis
    by (auto simp: held_or_done_def after_def work_defs WorkState_IsTerminal_def split: sum.splits if_splits)
qed (use assms in \<open>auto simp: held_or_done_def after_def work_defs WorkState_IsTerminal_def
      split: sum.splits if_splits\<close>)

lemma held_or_done_run:
  "held_or_done l w \<Longrightarrow> (\<And>p. p \<in> set ops \<Longrightarrow> \<not> ends_lease p) \<Longrightarrow>
   (\<And>own ttl now. OpClaim own ttl now \<in> set ops \<Longrightarrow> HeldAt l now) \<Longrightarrow> held_or_done l (work_run ops w)"
proof (induction ops arbitrary: w)
  case (Cons p ops)
  have "held_or_done l (after p w)" using Cons.prems by (intro held_or_done_after) auto
  then have "held_or_done l (work_run ops (after p w))" by (rule Cons.IH) (use Cons.prems in auto)
  then show ?case by simp
qed simp

lemma uncapped_delay_wraps: "Delay \<lparr>Initial = Second, Multiplier = 2, schMax = 0\<rparr> 35 < 0"
  by code_simp

section \<open>Properties\<close>

text \<open>
  C26: The retry delay is exact. For a positive schedule whose largest value times the
  multiplier fits 64 bits, the delay of the \<open>n\<close>-th attempt is
  \<open>min(Initial * Multiplier^(n-1), Max)\<close>: exponential backoff, capped, with no product
  wrapping around for any attempt number. (Without a cap the products wrap, see
  \<open>uncapped_delay_wraps\<close>; the processor replaces a missing cap by 30 seconds.)
\<close>

theorem retry_delay_exact:
  assumes "sane_schedule s"
  shows "Delay s attempt = min (Initial s * max (Multiplier s) 1 ^ nat (max attempt 1 - 1)) (schMax s)"
proof -
  have "(if attempt < 1 then 1 else attempt) = max attempt 1" by simp
  moreover have "delayLoop k (max (Multiplier s) 1) (schMax s) (Initial s)
      = min (Initial s * max (Multiplier s) 1 ^ k) (schMax s)" for k
    using assms by (intro delayLoop_min) (auto simp: sane_schedule_def)
  ultimately show ?thesis unfolding Delay_def Let_def by simp
qed

theorem retry_delay_exact_witness:
  "Delay \<lparr>Initial = Second, Multiplier = 2, schMax = 30 * Second\<rparr> 4 = 8 * Second
   \<and> Delay \<lparr>Initial = Second, Multiplier = 2, schMax = 30 * Second\<rparr> 1000 = 30 * Second"
proof -
  let ?s = "\<lparr>Initial = Second, Multiplier = 2, schMax = 30 * Second\<rparr>"
  have s: "sane_schedule ?s" by (simp add: sane_schedule_def Second_def)
  have "(2::int) ^ 5 \<le> 2 ^ 999" by (rule power_increasing) auto
  then have "30 * Second \<le> Second * 2 ^ 999" by (simp add: Second_def)
  with retry_delay_exact [OF s, of 4] retry_delay_exact [OF s, of 1000] show ?thesis
    by (simp add: Second_def min_def)
qed

text \<open>
  C18: Claims are exclusive. After a worker claimed an item, no operation sequence without a
  retry or a renewal lets another claim succeed before the lease has expired: every claim
  attempt in the meantime fails, and the item stays with its holder or is finished.
\<close>

theorem work_claim_exclusive:
  assumes "WorkItem_Claim own ttl (Some t) w = Inr w1"
    and "\<forall>p \<in> set ops. \<not> ends_lease p"
    and "\<forall>p \<in> set ops. \<forall>own' ttl' now. p = OpClaim own' ttl' now \<longrightarrow> now < t + ttl"
    and "now < t + ttl"
  shows "\<not> succeeds (OpClaim own' ttl' now) (work_run ops w1)
     \<and> (WorkState_IsTerminal (wiState (work_run ops w1))
        \<or> wiState (work_run ops w1) = WorkStateClaimed \<and> leaseOwnerID (wiLease (work_run ops w1)) = own)"
proof -
  let ?l = "\<lparr>leaseOwnerID = own, leaseExpiresAt = t + ttl\<rparr>"
  from assms(1) have w1: "wiState w1 = WorkStateClaimed" "wiLease w1 = ?l" "own \<noteq> []"
    by (auto simp: WorkItem_Claim_def claim_item_def split: if_splits WorkState.splits)
  then have held: "HeldAt ?l now" if "now < t + ttl" for now using that by (simp add: HeldAt_def)
  have "held_or_done ?l (work_run ops w1)"
    by (rule held_or_done_run) (use w1 assms(2,3) held in \<open>auto simp: held_or_done_def\<close>)
  with held [OF assms(4)] show ?thesis
    by (auto simp: held_or_done_def succeeds_def work_defs WorkState_IsTerminal_def split: sum.splits if_splits)
qed

definition sample_item :: WorkItem where
  "sample_item = \<lparr>wiSourceKey = \<lparr>IdentityVersion = 1, Key = ''k''\<rparr>, wiWorkID = ''w'', wiKind = WorkKindAppendFact,
     wiState = WorkStatePending, wiProviderID = [], wiLifecycle = \<lparr>RequestID = ''r'', AttemptID = [], TraceID = []\<rparr>,
     wiVersions = \<lparr>GenerationID = [], RuntimeInstanceID = [], RuntimeGenerationID = [], bvProviderID = [], RatingID = []\<rparr>,
     wiAttempts = 0, wiNextRetryAt = 0, wiLease = no_lease, wiError = no_error\<rparr>"

theorem work_claim_exclusive_witness:
  "\<not> succeeds (OpClaim ''b'' 10 29) (work_run [OpClaim ''c'' 10 25, OpPending] (claim_item ''a'' 30 sample_item))"
proof -
  have c: "WorkItem_Claim ''a'' 10 (Some 20) sample_item = Inr (claim_item ''a'' 30 sample_item)"
    by (simp add: WorkItem_Claim_def sample_item_def TrimSpace_graphic graphic_def)
  show ?thesis
    using work_claim_exclusive [OF c, of "[OpClaim ''c'' 10 25, OpPending]" 29 "''b''" 10] by simp
qed

text \<open>
  C27: Finished work stays finished, and unfinished work is never lost. Once an item is
  completed or quarantined every further operation fails, and every item reachable from its
  intent has a valid identity; if it is neither finished nor a bare intent, then from some
  time on any worker with a positive lease time can claim it.
\<close>

theorem work_progress:
  assumes "reach work_init work_step w"
  shows "(WorkState_IsTerminal (wiState w) \<longrightarrow> (\<forall>p. \<not> succeeds p w))
     \<and> TrimSpace (wiWorkID w) \<noteq> [] \<and> SourceKey_Validate (wiSourceKey w) = None
     \<and> (\<not> WorkState_IsTerminal (wiState w) \<longrightarrow> wiState w \<noteq> WorkStateIntent \<longrightarrow>
          (\<exists>due. \<forall>now \<ge> due. \<forall>own ttl. TrimSpace own \<noteq> [] \<longrightarrow> 0 < ttl \<longrightarrow> succeeds (OpClaim own ttl now) w))"
proof -
  from work.reach_inv [OF assms] have i: "work_inv w" .
  have "\<not> succeeds p w" if "WorkState_IsTerminal (wiState w)" for p
    using that by (cases p) (auto simp: succeeds_def work_defs WorkState_IsTerminal_def)
  moreover have "succeeds (OpClaim own ttl now) w"
    if "\<not> WorkState_IsTerminal (wiState w)" "wiState w \<noteq> WorkStateIntent"
      "max (wiNextRetryAt w) (leaseExpiresAt (wiLease w)) \<le> now" "TrimSpace own \<noteq> []" "0 < ttl" for own ttl now
    using that i
    by (cases "wiState w") (auto simp: succeeds_def work_defs WorkState_IsTerminal_def HeldAt_def work_inv_def)
  ultimately show ?thesis using i unfolding work_inv_def by blast
qed

theorem work_progress_witness:
  "\<exists>w. NewIntent \<lparr>IdentityVersion = 1, Key = ''k''\<rparr> ''w'' WorkKindAppendFact [] \<lparr>RequestID = ''r'', AttemptID = [], TraceID = []\<rparr>
        \<lparr>GenerationID = [], RuntimeInstanceID = [], RuntimeGenerationID = [], bvProviderID = [], RatingID = []\<rparr> = Inr w
     \<and> (\<exists>due. \<forall>now \<ge> due. \<forall>own ttl. TrimSpace own \<noteq> [] \<longrightarrow> 0 < ttl
          \<longrightarrow> succeeds (OpClaim own ttl now) (after OpPending w))"
proof -
  have t: "TrimSpace ''k'' \<noteq> []" "TrimSpace ''w'' \<noteq> []" by (simp_all add: TrimSpace_graphic graphic_def)
  let ?w = "sample_item\<lparr>wiState := WorkStateIntent\<rparr>"
  have n: "NewIntent \<lparr>IdentityVersion = 1, Key = ''k''\<rparr> ''w'' WorkKindAppendFact [] \<lparr>RequestID = ''r'', AttemptID = [], TraceID = []\<rparr>
        \<lparr>GenerationID = [], RuntimeInstanceID = [], RuntimeGenerationID = [], bvProviderID = [], RatingID = []\<rparr> = Inr ?w"
    using t by (simp add: NewIntent_def SourceKey_Validate_def WorkKind_Validate_def RequiresProvider_def sample_item_def)
  have p: "work_op_step OpPending ?w = Inr sample_item" by (simp add: MarkPending_def sample_item_def)
  have "reach work_init work_step ?w" by (rule reach_init) (use n work_init_def in blast)
  then have "reach work_init work_step sample_item"
    by (rule reach_step) (use p work_step.intros in blast)
  from work_progress [OF this] have "\<exists>due. \<forall>now \<ge> due. \<forall>own ttl. TrimSpace own \<noteq> [] \<longrightarrow> 0 < ttl
          \<longrightarrow> succeeds (OpClaim own ttl now) sample_item"
    by (simp add: sample_item_def WorkState_IsTerminal_def)
  with n p show ?thesis by (auto simp: after_def)
qed


end
