(* ===== verification/B2bua_Store.thy ===== *)
theory B2bua_Store
  imports Aip_Api Interleaved_State Go_Strings
begin

text \<open>
  Session continuity: the in-memory A-leg store of \<open>internal/core/b2bua\<close> (\<open>store.go\<close>,
  \<open>routeoverride_store.go\<close>, \<open>inference_history.go\<close>), with the override state of
  \<open>internal/core/routeoverride/state.go\<close> and its command service (\<open>service.go\<close>).

  An A-leg is the client side of a session; a B-leg is one backend attempt inside it. The
  store maps leg ids to legs, continuity keys to leg ids, numbers the B-legs of a leg,
  keeps one attempt record per number, expires legs by TTL and bounds their number.

  \<^item> Every operation runs under the store's mutex: it is a function from store to result,
    retired leg ids (which the source passes to the retirement observers after unlocking)
    and new store. A Go pointer to a leg is its entry in \<open>legs\<close>.
  \<^item> \<open>ctx\<close> is whether \<open>ctx.Err()\<close> is non-nil. Clock reads are arguments, one per read in
    the order of the source. Random ids are arguments, \<open>None\<close> for a failing generator.
  \<^item> \<open>it\<close> is the \<open>range\<close> order of the leg map.
  \<^item> The observers themselves, which are callbacks of other components, are not modelled.
\<close>

section \<open>Route override state\<close>

record OverrideState =
  ovALegID :: string
  Active :: bool
  ovSelector :: string
  Revision :: int
  ovUpdatedAt :: gotime

datatype b2_error =
  ErrALegNotFound | ErrInvalidContinuityKey | ErrInvalidAttempt | ErrInvalidMaxLegs
| ErrBLegAllocationAuthorityUnsupported | ErrContext | ErrRandom | ErrInterleaved cycle_error
| ErrNotFound | ErrOvInvalidSelector | ErrRevisionExhausted | ErrUnavailable
| ErrOverrideInvalid string | ErrApply string

definition NormalizeSelector :: "string \<Rightarrow> string" where
  "NormalizeSelector s = TrimSpace s"

definition Inactive :: "string \<Rightarrow> OverrideState" where
  "Inactive aLegID = \<lparr>ovALegID = TrimSpace aLegID, Active = False, ovSelector = [], Revision = 0, ovUpdatedAt = 0\<rparr>"

definition Override_Validate :: "OverrideState \<Rightarrow> b2_error option" where
  "Override_Validate s =
     (if Revision s < 0 then Some (ErrOverrideInvalid ''negative revision'')
      else if Revision s = 0 then
        (if Active s then Some (ErrOverrideInvalid ''revision 0 must be inactive'')
         else if ovSelector s \<noteq> [] then Some (ErrOverrideInvalid ''revision 0 must not store a selector'')
         else if ovUpdatedAt s \<noteq> 0 then Some (ErrOverrideInvalid ''revision 0 must have zero updated_at'')
         else None)
      else if Active s \<and> TrimSpace (ovSelector s) = [] then Some (ErrOverrideInvalid ''active state requires a selector'')
      else if Active s \<and> length (ovSelector s) > MaxRouteSelectorBytes then Some (ErrOverrideInvalid ''selector too long'')
      else if \<not> Active s \<and> ovSelector s \<noteq> [] then Some (ErrOverrideInvalid ''inactive state must not store a selector'')
      else if ovUpdatedAt s = 0 then Some (ErrOverrideInvalid ''non-zero revision requires updated_at'')
      else None)"

section \<open>Legs and the store\<close>

record ALegRecord =
  ALegID :: string
  ContinuityKey :: string
  legCreatedAt :: gotime
  LastSeenAt :: gotime
  WeightedFirstConsumed :: bool

record BLegRecord =
  BLegID :: string
  bALegID :: string
  Seq :: int

record legState =
  legRecord :: ALegRecord
  nextSeq :: int
  seqToBLeg :: "(int, string) gomap"
  attemptBySeq :: "(int, AttemptRecord) gomap"
  interleaved :: Interleaved
  override :: OverrideState

type_synonym leg_map = "(string, legState) gomap"

record MemoryStoreOptions =
  optTTL :: duration
  optMaxLegs :: int

record MemoryStore =
  ttl :: duration
  maxLegs :: int
  legs :: leg_map
  byKey :: "(string, string) gomap"

definition DefaultMemoryStoreMaxLegsWithoutTTL :: int where
  "DefaultMemoryStoreMaxLegsWithoutTTL = 100000"

definition NewMemoryStore :: "MemoryStoreOptions \<Rightarrow> b2_error + MemoryStore" where
  "NewMemoryStore opts =
     (if optMaxLegs opts < 0 then Inl ErrInvalidMaxLegs
      else Inr \<lparr>ttl = optTTL opts,
                maxLegs = (if optMaxLegs opts \<le> 0 then DefaultMemoryStoreMaxLegsWithoutTTL else optMaxLegs opts),
                legs = [], byKey = []\<rparr>)"

type_synonym 'a store_op = "MemoryStore \<Rightarrow> (b2_error + 'a) \<times> string list \<times> MemoryStore"

section \<open>Removal, expiry and the bound\<close>

definition removeLegLocked :: "string \<Rightarrow> MemoryStore \<Rightarrow> string \<times> MemoryStore" where
  "removeLegLocked aLegID s =
     (case map_of (legs s) aLegID of
        None \<Rightarrow> ([], s)
      | Some st \<Rightarrow>
          let s1 = s\<lparr>legs := AList.delete aLegID (legs s)\<rparr>;
              key = ContinuityKey (legRecord st)
          in (aLegID, if key \<noteq> [] \<and> map_of (byKey s) key = Some aLegID
                      then s1\<lparr>byKey := AList.delete key (byKey s)\<rparr> else s1))"

definition stale :: "duration \<Rightarrow> gotime \<Rightarrow> legState \<Rightarrow> bool" where
  "stale d now st \<longleftrightarrow> d > 0 \<and> now - LastSeenAt (legRecord st) \<ge> d"

definition evictIfStaleLocked :: "legState \<Rightarrow> gotime \<Rightarrow> MemoryStore \<Rightarrow> bool \<times> MemoryStore" where
  "evictIfStaleLocked st now s =
     (if ttl s \<le> 0 then (False, s)
      else if now - LastSeenAt (legRecord st) < ttl s then (False, s)
      else (True, snd (removeLegLocked (ALegID (legRecord st)) s)))"

fun removeAll :: "string list \<Rightarrow> MemoryStore \<Rightarrow> string list \<times> MemoryStore" where
  "removeAll [] s = ([], s)"
| "removeAll (x # xs) s =
     (case removeLegLocked x s of (retiredID, s1) \<Rightarrow>
        (case removeAll xs s1 of (retired, s2) \<Rightarrow>
           (if retiredID \<noteq> [] then retiredID # retired else retired, s2)))"

definition sweepExpiredLegsLocked ::
  "(leg_map \<Rightarrow> leg_map) \<Rightarrow> gotime \<Rightarrow> MemoryStore \<Rightarrow> string list \<times> MemoryStore" where
  "sweepExpiredLegsLocked it now s =
     (if ttl s \<le> 0 then ([], s)
      else removeAll (map fst (filter (\<lambda>(i, st). now - LastSeenAt (legRecord st) \<ge> ttl s) (it (legs s)))) s)"

text \<open>The victim scan: the oldest leg, ties by the smaller id.\<close>

fun victimScan :: "(string \<times> gotime) option \<Rightarrow> leg_map \<Rightarrow> (string \<times> gotime) option" where
  "victimScan best [] = best"
| "victimScan None ((i, st) # m) = victimScan (Some (i, LastSeenAt (legRecord st))) m"
| "victimScan (Some (victim, oldest)) ((i, st) # m) =
     (let seen = LastSeenAt (legRecord st) in
      if seen < oldest then victimScan (Some (i, seen)) m
      else if seen = oldest \<and> i < victim then victimScan (Some (i, oldest)) m
      else victimScan (Some (victim, oldest)) m)"

definition victim_of :: "(leg_map \<Rightarrow> leg_map) \<Rightarrow> MemoryStore \<Rightarrow> string" where
  "victim_of it s = (case victimScan None (it (legs s)) of None \<Rightarrow> [] | Some (v, _) \<Rightarrow> v)"

text \<open>
  Every iteration of the loop removes one leg, so the number of legs is enough fuel; the
  lemma \<open>enforce_done\<close> below shows that the loop has then exited by its own condition.
\<close>

fun enforceLoop :: "nat \<Rightarrow> (leg_map \<Rightarrow> leg_map) \<Rightarrow> MemoryStore \<Rightarrow> string list \<times> MemoryStore" where
  "enforceLoop 0 it s = ([], s)"
| "enforceLoop (Suc n) it s =
     (if maxLegs s > 0 \<and> int (length (legs s)) > maxLegs s then
        (let victim = victim_of it s in
         if victim = [] then ([], s)
         else case removeLegLocked victim s of (retiredID, s1) \<Rightarrow>
           (case enforceLoop n it s1 of (retired, s2) \<Rightarrow>
              (if retiredID \<noteq> [] then retiredID # retired else retired, s2)))
      else ([], s))"

definition enforceMaxLegsLocked :: "(leg_map \<Rightarrow> leg_map) \<Rightarrow> MemoryStore \<Rightarrow> string list \<times> MemoryStore" where
  "enforceMaxLegsLocked it s = enforceLoop (length (legs s)) it s"

section \<open>Operations\<close>

definition put_leg :: "string \<Rightarrow> legState \<Rightarrow> MemoryStore \<Rightarrow> MemoryStore" where
  "put_leg i st s = s\<lparr>legs := AList.update i st (legs s)\<rparr>"

definition touch :: "gotime \<Rightarrow> legState \<Rightarrow> legState" where
  "touch now st = st\<lparr>legRecord := (legRecord st)\<lparr>LastSeenAt := now\<rparr>\<rparr>"

text \<open>
  The prefix shared by the operations on one leg: unknown and expired legs are not found,
  an expired one is retired; otherwise \<open>f\<close> continues with the leg.
\<close>

definition with_leg :: "b2_error \<Rightarrow> string \<Rightarrow> gotime \<Rightarrow> (legState \<Rightarrow> (b2_error + 'a) \<times> MemoryStore) \<Rightarrow> 'a store_op" where
  "with_leg nf aLegID now f s =
     (case map_of (legs s) aLegID of
        None \<Rightarrow> (Inl nf, [], s)
      | Some st \<Rightarrow>
          (case evictIfStaleLocked st now s of
             (True, s1) \<Rightarrow> (Inl nf, [ALegID (legRecord st)], s1)
           | (False, _) \<Rightarrow> (case f st of (r, s1) \<Rightarrow> (r, [], s1))))"

definition ResolveALeg :: "bool \<Rightarrow> string \<Rightarrow> gotime \<Rightarrow> ALegRecord store_op" where
  "ResolveALeg ctx key now s =
     (if ctx then (Inl ErrContext, [], s)
      else if key = [] then (Inl ErrInvalidContinuityKey, [], s)
      else case map_of (byKey s) key of
        None \<Rightarrow> (Inl ErrALegNotFound, [], s)
      | Some aID \<Rightarrow>
          (case map_of (legs s) aID of
             None \<Rightarrow> (Inl ErrALegNotFound, [], s\<lparr>byKey := AList.delete key (byKey s)\<rparr>)
           | Some _ \<Rightarrow>
               with_leg ErrALegNotFound aID now
                 (\<lambda>st. (Inr (legRecord (touch now st)), put_leg aID (touch now st) s)) s))"

definition new_leg :: "string \<Rightarrow> string \<Rightarrow> gotime \<Rightarrow> legState" where
  "new_leg aID key now = \<lparr>legRecord = \<lparr>ALegID = aID, ContinuityKey = key, legCreatedAt = now, LastSeenAt = now,
        WeightedFirstConsumed = False\<rparr>, nextSeq = 0, seqToBLeg = [], attemptBySeq = [],
      interleaved = \<lparr>Cycle = \<lparr>SelectorKey = [], Sequence = [], NextIndex = 0\<rparr>\<rparr>,
      override = \<lparr>ovALegID = [], Active = False, ovSelector = [], Revision = 0, ovUpdatedAt = 0\<rparr>\<rparr>"

definition register_key :: "string \<Rightarrow> string \<Rightarrow> MemoryStore \<Rightarrow> string list \<times> MemoryStore" where
  "register_key key aID s =
     (if key = [] then ([], s)
      else case (case map_of (byKey s) key of
                   None \<Rightarrow> ([], s)
                 | Some oldID \<Rightarrow> if oldID \<noteq> aID then removeLegLocked oldID s else ([], s)) of
        (retiredID, s1) \<Rightarrow>
          (if retiredID \<noteq> [] then [retiredID] else [], s1\<lparr>byKey := AList.update key aID (byKey s1)\<rparr>))"

definition CreateALeg ::
  "(leg_map \<Rightarrow> leg_map) \<Rightarrow> bool \<Rightarrow> string \<Rightarrow> gotime \<Rightarrow> string option \<Rightarrow> ALegRecord store_op" where
  "CreateALeg it ctx key now rid s =
     (if ctx then (Inl ErrContext, [], s)
      else case sweepExpiredLegsLocked it now s of (retired1, s1) \<Rightarrow>
        (case rid of
           None \<Rightarrow> (Inl ErrRandom, retired1, s1)
         | Some aID \<Rightarrow>
             let st = new_leg aID key now;
                 s2 = put_leg aID st s1
             in case register_key key aID s2 of (retired2, s3) \<Rightarrow>
                (case enforceMaxLegsLocked it s3 of (retired3, s4) \<Rightarrow>
                   (Inr (legRecord st), retired1 @ retired2 @ retired3, s4))))"

definition FetchALeg :: "bool \<Rightarrow> string \<Rightarrow> gotime \<Rightarrow> gotime \<Rightarrow> ALegRecord store_op" where
  "FetchALeg ctx aLegID now now' s =
     (if ctx then (Inl ErrContext, [], s)
      else if aLegID = [] then (Inl ErrALegNotFound, [], s)
      else with_leg ErrALegNotFound aLegID now
        (\<lambda>st. (Inr (legRecord (touch now' st)), put_leg aLegID (touch now' st) s)) s)"

definition SetWeightedFirstConsumed :: "bool \<Rightarrow> string \<Rightarrow> bool \<Rightarrow> gotime \<Rightarrow> gotime \<Rightarrow> unit store_op" where
  "SetWeightedFirstConsumed ctx aLegID consumed now now' s =
     (if ctx then (Inl ErrContext, [], s)
      else with_leg ErrALegNotFound aLegID now
        (\<lambda>st. (Inr (), put_leg aLegID (touch now'
            (st\<lparr>legRecord := (legRecord st)\<lparr>WeightedFirstConsumed := consumed\<rparr>\<rparr>)) s)) s)"

definition SetInterleavedState :: "bool \<Rightarrow> string \<Rightarrow> Interleaved \<Rightarrow> gotime \<Rightarrow> gotime \<Rightarrow> unit store_op" where
  "SetInterleavedState ctx aLegID v now now' s =
     (if ctx then (Inl ErrContext, [], s)
      else case Interleaved_Validate v of
        Inl e \<Rightarrow> (Inl (ErrInterleaved e), [], s)
      | Inr _ \<Rightarrow> with_leg ErrALegNotFound aLegID now
          (\<lambda>st. (Inr (), put_leg aLegID (touch now' (st\<lparr>interleaved := v\<rparr>)) s)) s)"

definition FetchInterleavedState :: "bool \<Rightarrow> string \<Rightarrow> gotime \<Rightarrow> gotime \<Rightarrow> Interleaved store_op" where
  "FetchInterleavedState ctx aLegID now now' s =
     (if ctx then (Inl ErrContext, [], s)
      else with_leg ErrALegNotFound aLegID now
        (\<lambda>st. (Inr (interleaved st), put_leg aLegID (touch now' st) s)) s)"

definition NextBLeg :: "bool \<Rightarrow> string \<Rightarrow> gotime \<Rightarrow> string option \<Rightarrow> BLegRecord store_op" where
  "NextBLeg ctx aLegID now rid s =
     (if ctx then (Inl ErrContext, [], s)
      else with_leg ErrALegNotFound aLegID now
        (\<lambda>st. let sq = nextSeq st + 1; st1 = st\<lparr>nextSeq := sq\<rparr> in
          (case rid of
             None \<Rightarrow> (Inl ErrRandom, put_leg aLegID st1 s)
           | Some bid \<Rightarrow>
               (Inr \<lparr>BLegID = bid, bALegID = aLegID, Seq = sq\<rparr>,
                put_leg aLegID (touch now (st1\<lparr>seqToBLeg := AList.update sq bid (seqToBLeg st1)\<rparr>)) s))) s)"

definition RecordAttempt :: "bool \<Rightarrow> AttemptRecord \<Rightarrow> gotime \<Rightarrow> unit store_op" where
  "RecordAttempt ctx rec now s =
     (if ctx then (Inl ErrContext, [], s)
      else if arALegID rec = [] \<or> arSeq rec \<le> 0 \<or> arBLegID rec = [] then (Inl ErrInvalidAttempt, [], s)
      else with_leg ErrALegNotFound (arALegID rec) now
        (\<lambda>st.
          if arSeq rec > nextSeq st then (Inl ErrInvalidAttempt, s)
          else if map_of (seqToBLeg st) (arSeq rec) \<noteq> Some (arBLegID rec) then (Inl ErrInvalidAttempt, s)
          else (Inr (), put_leg (arALegID rec)
                  (touch now (st\<lparr>attemptBySeq := AList.update (arSeq rec) rec (attemptBySeq st)\<rparr>)) s)) s)"

definition LoadAttempts ::
  "((int, AttemptRecord) gomap \<Rightarrow> (int, AttemptRecord) gomap) \<Rightarrow> bool \<Rightarrow> string \<Rightarrow> gotime \<Rightarrow> gotime
   \<Rightarrow> AttemptRecord list store_op" where
  "LoadAttempts ita ctx aLegID now now' s =
     (if ctx then (Inl ErrContext, [], s)
      else with_leg ErrALegNotFound aLegID now
        (\<lambda>st. (Inr (sort_key arSeq (map snd (ita (attemptBySeq st)))), put_leg aLegID (touch now' st) s)) s)"

definition WithBLegAllocationAuthority ::
  "bool \<Rightarrow> bool \<Rightarrow> string \<Rightarrow> (bool \<Rightarrow> b2_error option) option \<Rightarrow> gotime \<Rightarrow> unit store_op" where
  "WithBLegAllocationAuthority ctx ctx' aLegID apply_fn now s =
     (if ctx then (Inl ErrContext, [], s)
      else case apply_fn of
        None \<Rightarrow> (Inl ErrBLegAllocationAuthorityUnsupported, [], s)
      | Some g \<Rightarrow>
          if ctx' then (Inl ErrContext, [], s)
          else with_leg ErrALegNotFound aLegID now
            (\<lambda>st. ((case g (nextSeq st > 0) of None \<Rightarrow> Inr () | Some e \<Rightarrow> Inl e), s)) s)"

section \<open>Route overrides of a leg\<close>

definition copyOverride :: "string \<Rightarrow> OverrideState \<Rightarrow> b2_error + OverrideState" where
  "copyOverride aLegID ov =
     (let out = ov\<lparr>ovALegID := aLegID\<rparr> in
      if Revision out = 0 \<and> \<not> Active out \<and> ovSelector out = [] \<and> ovUpdatedAt out = 0 then Inr (Inactive aLegID)
      else case Override_Validate out of Some e \<Rightarrow> Inl e | None \<Rightarrow> Inr out)"

definition normalizeStoredSelector :: "string \<Rightarrow> b2_error + string" where
  "normalizeStoredSelector s =
     (let n = NormalizeSelector s in
      if n = [] then Inl ErrOvInvalidSelector
      else if length n > MaxRouteSelectorBytes then Inl ErrOvInvalidSelector
      else Inr n)"

definition nextOverrideRevision :: "int \<Rightarrow> b2_error + int" where
  "nextOverrideRevision current = (if current = MaxInt64 then Inl ErrRevisionExhausted else Inr (current + 1))"

definition legForOverrideLocked ::
  "string \<Rightarrow> gotime \<Rightarrow> (legState \<Rightarrow> (b2_error + 'a) \<times> MemoryStore) \<Rightarrow> 'a store_op" where
  "legForOverrideLocked aLegID now f s =
     (if aLegID = [] then (Inl ErrNotFound, [], s) else with_leg ErrNotFound aLegID now f s)"

definition readOverride :: "bool \<Rightarrow> string \<Rightarrow> gotime \<Rightarrow> OverrideState store_op" where
  "readOverride ctx aLegID now s =
     (if ctx then (Inl ErrContext, [], s)
      else legForOverrideLocked aLegID now
        (\<lambda>st. case copyOverride aLegID (override st) of
                Inl e \<Rightarrow> (Inl e, s)
              | Inr out \<Rightarrow> (Inr out, put_leg aLegID (touch now st) s)) s)"

definition Replace :: "bool \<Rightarrow> string \<Rightarrow> string \<Rightarrow> gotime \<Rightarrow> gotime \<Rightarrow> OverrideState store_op" where
  "Replace ctx aLegID sel now seen s =
     (if ctx then (Inl ErrContext, [], s)
      else case normalizeStoredSelector sel of
        Inl e \<Rightarrow> (Inl e, [], s)
      | Inr n \<Rightarrow> legForOverrideLocked aLegID seen
          (\<lambda>st. case copyOverride aLegID (override st) of
                  Inl e \<Rightarrow> (Inl e, s)
                | Inr current \<Rightarrow>
                    if Active current \<and> ovSelector current = n then (Inr current, put_leg aLegID (touch seen st) s)
                    else case nextOverrideRevision (Revision current) of
                      Inl e \<Rightarrow> (Inl e, s)
                    | Inr nextRev \<Rightarrow>
                        let nxt = \<lparr>ovALegID = aLegID, Active = True, ovSelector = n, Revision = nextRev, ovUpdatedAt = now\<rparr> in
                        (case Override_Validate nxt of
                           Some e \<Rightarrow> (Inl ErrOvInvalidSelector, s)
                         | None \<Rightarrow> (Inr nxt, put_leg aLegID (touch seen (st\<lparr>override := nxt\<rparr>)) s))) s)"

definition Clear :: "bool \<Rightarrow> string \<Rightarrow> gotime \<Rightarrow> gotime \<Rightarrow> OverrideState store_op" where
  "Clear ctx aLegID now seen s =
     (if ctx then (Inl ErrContext, [], s)
      else legForOverrideLocked aLegID seen
        (\<lambda>st. case copyOverride aLegID (override st) of
                Inl e \<Rightarrow> (Inl e, s)
              | Inr current \<Rightarrow>
                  if \<not> Active current then (Inr current, put_leg aLegID (touch seen st) s)
                  else case nextOverrideRevision (Revision current) of
                    Inl e \<Rightarrow> (Inl e, s)
                  | Inr nextRev \<Rightarrow>
                      let nxt = \<lparr>ovALegID = aLegID, Active = False, ovSelector = [], Revision = nextRev, ovUpdatedAt = now\<rparr> in
                      (case Override_Validate nxt of
                         Some e \<Rightarrow> (Inl e, s)
                       | None \<Rightarrow> (Inr nxt, put_leg aLegID (touch seen (st\<lparr>override := nxt\<rparr>)) s))) s)"

section \<open>The override command service\<close>

definition normalizeALegID :: "string \<Rightarrow> b2_error + string" where
  "normalizeALegID s = (let i = TrimSpace s in if i = [] then Inl ErrNotFound else Inr i)"

definition prepareSelector :: "string \<Rightarrow> b2_error + string" where
  "prepareSelector s =
     (let n = NormalizeSelector s in
      if n = [] then Inl ErrOvInvalidSelector
      else if length n > MaxRouteSelectorBytes then Inl ErrOvInvalidSelector
      else Inr n)"

definition mapStoreErr :: "b2_error + 'a \<Rightarrow> b2_error + 'a" where
  "mapStoreErr r = (case r of
       Inr v \<Rightarrow> Inr v
     | Inl e \<Rightarrow> if e \<in> {ErrNotFound, ErrOvInvalidSelector, ErrRevisionExhausted, ErrUnavailable, ErrContext}
               then Inl e else Inl ErrUnavailable)"

text \<open>\<open>validator\<close> is the generation's selector check, a parameter.\<close>

definition Service_Get :: "bool \<Rightarrow> string \<Rightarrow> gotime \<Rightarrow> OverrideState store_op" where
  "Service_Get ctx aLegID seen s =
     (case normalizeALegID aLegID of
        Inl e \<Rightarrow> (Inl e, [], s)
      | Inr i \<Rightarrow> (case readOverride ctx i seen s of (r, retired, s1) \<Rightarrow> (mapStoreErr r, retired, s1)))"

definition Service_Replace ::
  "(string \<Rightarrow> b2_error option) \<Rightarrow> bool \<Rightarrow> string \<Rightarrow> string \<Rightarrow> gotime \<Rightarrow> gotime \<Rightarrow> OverrideState store_op" where
  "Service_Replace validator ctx aLegID sel now seen s =
     (case normalizeALegID aLegID of
        Inl e \<Rightarrow> (Inl e, [], s)
      | Inr i \<Rightarrow>
          (case prepareSelector sel of
             Inl e \<Rightarrow> (Inl e, [], s)
           | Inr n \<Rightarrow>
               (case validator n of
                  Some e \<Rightarrow> (Inl ErrOvInvalidSelector, [], s)
                | None \<Rightarrow> (case Replace ctx i n now seen s of (r, retired, s1) \<Rightarrow> (mapStoreErr r, retired, s1)))))"

definition Service_Clear :: "bool \<Rightarrow> string \<Rightarrow> gotime \<Rightarrow> gotime \<Rightarrow> OverrideState store_op" where
  "Service_Clear ctx aLegID now seen s =
     (case normalizeALegID aLegID of
        Inl e \<Rightarrow> (Inl e, [], s)
      | Inr i \<Rightarrow> (case Clear ctx i now seen s of (r, retired, s1) \<Rightarrow> (mapStoreErr r, retired, s1)))"

section \<open>The store invariant\<close>

definition leg_ok :: "string \<Rightarrow> legState \<Rightarrow> bool" where
  "leg_ok i st \<longleftrightarrow> ALegID (legRecord st) = i \<and> i \<noteq> [] \<and> 0 \<le> nextSeq st
     \<and> wf_gomap (seqToBLeg st) \<and> wf_gomap (attemptBySeq st)
     \<and> (\<forall>q b. map_of (seqToBLeg st) q = Some b \<longrightarrow> 1 \<le> q \<and> q \<le> nextSeq st)
     \<and> (\<forall>q r. map_of (attemptBySeq st) q = Some r \<longrightarrow>
          arSeq r = q \<and> arALegID r = i \<and> map_of (seqToBLeg st) q = Some (arBLegID r))
     \<and> Interleaved_Validate (interleaved st) = Inr ()
     \<and> Override_Validate (override st) = None \<and> Revision (override st) \<le> MaxInt64"

definition key_of :: "legState \<Rightarrow> string" where
  "key_of st = ContinuityKey (legRecord st)"

definition store_core :: "MemoryStore \<Rightarrow> bool" where
  "store_core s \<longleftrightarrow> wf_gomap (legs s) \<and> wf_gomap (byKey s)
     \<and> (\<forall>i st. map_of (legs s) i = Some st \<longrightarrow> leg_ok i st)
     \<and> (\<forall>k i. map_of (byKey s) k = Some i \<longleftrightarrow>
          k \<noteq> [] \<and> (\<exists>st. map_of (legs s) i = Some st \<and> key_of st = k))"

definition store_inv :: "MemoryStore \<Rightarrow> bool" where
  "store_inv s \<longleftrightarrow> store_core s \<and> 0 < maxLegs s \<and> int (length (legs s)) \<le> maxLegs s"

lemma core_wf: "store_core s \<Longrightarrow> wf_gomap (legs s)" "store_core s \<Longrightarrow> wf_gomap (byKey s)"
  by (simp_all add: store_core_def)

lemma core_leg: "store_core s \<Longrightarrow> map_of (legs s) i = Some st \<Longrightarrow> leg_ok i st"
  by (simp add: store_core_def)

lemma core_byKey:
  "store_core s \<Longrightarrow> map_of (byKey s) k = Some i \<longleftrightarrow> k \<noteq> [] \<and> (\<exists>st. map_of (legs s) i = Some st \<and> key_of st = k)"
  unfolding store_core_def by blast

lemma core_nil: "store_core s \<Longrightarrow> map_of (legs s) [] = None"
  using core_leg [of s "[]"] by (cases "map_of (legs s) []") (auto simp: leg_ok_def)

lemma store_coreI:
  assumes "wf_gomap (legs s)" "wf_gomap (byKey s)" "\<And>i st. map_of (legs s) i = Some st \<Longrightarrow> leg_ok i st"
    and "\<And>k i. map_of (byKey s) k = Some i \<longleftrightarrow> k \<noteq> [] \<and> (\<exists>st. map_of (legs s) i = Some st \<and> key_of st = k)"
  shows "store_core s"
  using assms unfolding store_core_def by blast

lemma touch_simps [simp]:
  "legRecord (touch now st) = (legRecord st)\<lparr>LastSeenAt := now\<rparr>" "nextSeq (touch now st) = nextSeq st"
  "seqToBLeg (touch now st) = seqToBLeg st" "attemptBySeq (touch now st) = attemptBySeq st"
  "interleaved (touch now st) = interleaved st" "override (touch now st) = override st"
  "key_of (touch now st) = key_of st" "leg_ok i (touch now st) = leg_ok i st"
  by (simp_all add: touch_def key_of_def leg_ok_def)

lemma put_leg_simps [simp]:
  "legs (put_leg i st s) = AList.update i st (legs s)" "byKey (put_leg i st s) = byKey s"
  "ttl (put_leg i st s) = ttl s" "maxLegs (put_leg i st s) = maxLegs s"
  by (simp_all add: put_leg_def)

subsection \<open>Removal\<close>

lemma removeLeg_simps [simp]:
  "ttl (snd (removeLegLocked i s)) = ttl s" "maxLegs (snd (removeLegLocked i s)) = maxLegs s"
  "map_of (legs (snd (removeLegLocked i s))) j = (if j = i then None else map_of (legs s) j)"
  "fst (removeLegLocked i s) = (if map_of (legs s) i = None then [] else i)"
  by (auto simp: removeLegLocked_def Let_def split: option.splits)

lemma removeLeg_length:
  "wf_gomap (legs s) \<Longrightarrow> map_of (legs s) i \<noteq> None \<Longrightarrow> Suc (length (legs (snd (removeLegLocked i s)))) = length (legs s)"
  using length_delete_present [of "legs s" i] by (auto simp: removeLegLocked_def Let_def split: option.splits)

lemma removeLeg_byKey:
  "map_of (byKey (snd (removeLegLocked i s))) k =
     (case map_of (legs s) i of
        Some st \<Rightarrow> if key_of st \<noteq> [] \<and> k = key_of st \<and> map_of (byKey s) k = Some i then None else map_of (byKey s) k
      | None \<Rightarrow> map_of (byKey s) k)"
  by (auto simp: removeLegLocked_def Let_def key_of_def split: option.splits)

lemma removeLeg_wf: "store_core s \<Longrightarrow> wf_gomap (legs (snd (removeLegLocked i s))) \<and> wf_gomap (byKey (snd (removeLegLocked i s)))"
  by (auto simp: removeLegLocked_def Let_def store_core_def split: option.splits)

lemma removeLeg_core:
  assumes "store_core s"
  shows "store_core (snd (removeLegLocked i s))"
proof (cases "map_of (legs s) i")
  case None
  then have "snd (removeLegLocked i s) = s" by (simp add: removeLegLocked_def)
  with assms show ?thesis by simp
next
  case (Some st0)
  let ?s = "snd (removeLegLocked i s)"
  have "map_of (byKey ?s) k = Some j \<longleftrightarrow> k \<noteq> [] \<and> (\<exists>st. map_of (legs ?s) j = Some st \<and> key_of st = k)" for k j
  proof (cases "j = i")
    case True
    have "k = key_of st0 \<and> k \<noteq> []" if "map_of (byKey s) k = Some i"
      using that core_byKey [OF assms, of k i] Some by auto
    then have "map_of (byKey ?s) k \<noteq> Some i" using Some by (auto simp: removeLeg_byKey)
    with True show ?thesis by simp
  next
    case False
    then have "map_of (byKey ?s) k = Some j \<longleftrightarrow> map_of (byKey s) k = Some j" using Some by (auto simp: removeLeg_byKey)
    with False core_byKey [OF assms, of k j] show ?thesis by simp
  qed
  with removeLeg_wf [OF assms] core_leg [OF assms] show ?thesis
    by (intro store_coreI) (auto split: if_splits)
qed

lemma removeAll_props:
  assumes "store_core s" "removeAll xs s = (retired, s')"
  shows "store_core s' \<and> ttl s' = ttl s \<and> maxLegs s' = maxLegs s
     \<and> (\<forall>i. map_of (legs s') i = (if i \<in> set xs then None else map_of (legs s) i))
     \<and> set retired = {i \<in> set xs. map_of (legs s) i \<noteq> None} \<and> length (legs s') \<le> length (legs s)"
  using assms
proof (induction xs arbitrary: s retired s')
  case (Cons x xs)
  obtain rid s1 where r: "removeLegLocked x s = (rid, s1)" by fastforce
  obtain rest s2 where r2: "removeAll xs s1 = (rest, s2)" by fastforce
  have s1: "s1 = snd (removeLegLocked x s)" "rid = fst (removeLegLocked x s)" using r by simp_all
  have core: "store_core s1" using removeLeg_core [OF Cons.prems(1)] s1 by simp
  note ih = Cons.IH [OF core r2]
  have ne: "map_of (legs s) [] = None"
    using Cons.prems(1) by (rule core_nil)
  have len: "length (legs s1) \<le> length (legs s)"
    by (auto simp: s1 removeLegLocked_def Let_def gomap_length_delete_le split: option.splits)
  have res: "s' = s2" "retired = (if rid \<noteq> [] then rid # rest else rest)"
    using Cons.prems(2) r r2 by auto
  show ?case using ih len ne unfolding res by (auto simp: s1)
qed simp

lemma sweep_props:
  assumes "store_core s" "range_order it" "sweepExpiredLegsLocked it now s = (retired, s')"
  shows "store_core s' \<and> ttl s' = ttl s \<and> maxLegs s' = maxLegs s
     \<and> (\<forall>i. map_of (legs s') i = (case map_of (legs s) i of
            Some st \<Rightarrow> if stale (ttl s) now st then None else Some st | None \<Rightarrow> None))
     \<and> set retired = {i. \<exists>st. map_of (legs s) i = Some st \<and> stale (ttl s) now st}
     \<and> length (legs s') \<le> length (legs s)"
proof (cases "ttl s \<le> 0")
  case True
  with assms show ?thesis by (auto simp: sweepExpiredLegsLocked_def stale_def split: option.splits)
next
  case False
  let ?xs = "map fst (filter (\<lambda>(i, st). now - LastSeenAt (legRecord st) \<ge> ttl s) (it (legs s)))"
  have wf: "wf_gomap (legs s)" using assms(1) by (simp add: store_core_def)
  have xs: "i \<in> set ?xs \<longleftrightarrow> (\<exists>st. map_of (legs s) i = Some st \<and> stale (ttl s) now st)" for i
    using False by (force simp: range_order_set [OF assms(2)] wf_map_of_iff [OF wf] stale_def)
  have "removeAll ?xs s = (retired, s')" using assms(3) False by (simp add: sweepExpiredLegsLocked_def)
  from removeAll_props [OF assms(1) this] xs show ?thesis by (auto split: option.splits)
qed

subsection \<open>The bound on the number of legs\<close>

definition older :: "string \<times> gotime \<Rightarrow> string \<times> gotime \<Rightarrow> bool" where
  "older a b \<longleftrightarrow> snd a < snd b \<or> (snd a = snd b \<and> fst a \<le> fst b)"

definition seen_of :: "string \<times> legState \<Rightarrow> string \<times> gotime" where
  "seen_of p = (fst p, LastSeenAt (legRecord (snd p)))"

definition better :: "string \<times> gotime \<Rightarrow> string \<times> gotime \<Rightarrow> string \<times> gotime" where
  "better b x = (if snd x < snd b then x else if snd x = snd b \<and> fst x < fst b then x else b)"

lemma better_props: "better b x \<in> {b, x}" "older (better b x) b" "older (better b x) x"
  by (auto simp: better_def older_def)

lemma older_refl [simp]: "older v v" by (simp add: older_def)

lemma older_trans: "older a b \<Longrightarrow> older b c \<Longrightarrow> older a c"
  by (auto simp: older_def)

lemma victimScan_Some: "victimScan (Some b) (p # m) = victimScan (Some (better b (seen_of p))) m"
  by (cases b; cases p) (auto simp: better_def seen_of_def Let_def)

lemma victimScan_oldest:
  "\<exists>v. victimScan (Some b) m = Some v \<and> v \<in> insert b (seen_of ` set m) \<and> (\<forall>x \<in> insert b (seen_of ` set m). older v x)"
proof (induction m arbitrary: b)
  case (Cons p m)
  let ?b = "better b (seen_of p)"
  from Cons.IH [of ?b] obtain v where v: "victimScan (Some ?b) m = Some v" "v \<in> insert ?b (seen_of ` set m)"
    "\<forall>x \<in> insert ?b (seen_of ` set m). older v x" by blast
  have "older v b" "older v (seen_of p)"
    using v(3) better_props [of b "seen_of p"] older_trans by blast+
  moreover have "v \<in> insert b (seen_of ` set (p # m))"
    using v(2) better_props(1) [of b "seen_of p"] by auto
  ultimately show ?case using v by (simp add: victimScan_Some)
qed simp

lemma victim_of_props:
  assumes "store_core s" "range_order it" "legs s \<noteq> []"
  shows "\<exists>st. map_of (legs s) (victim_of it s) = Some st \<and> victim_of it s \<noteq> []
     \<and> (\<forall>j st'. map_of (legs s) j = Some st' \<longrightarrow> LastSeenAt (legRecord st) \<le> LastSeenAt (legRecord st'))"
proof -
  have wf: "wf_gomap (legs s)" using assms(1) by (simp add: store_core_def)
  have set_it: "set (it (legs s)) = set (legs s)" by (rule range_order_set [OF assms(2)])
  with assms(3) have "it (legs s) \<noteq> []" by force
  then obtain p m where pm: "it (legs s) = p # m" by (cases "it (legs s)") auto
  then have "victimScan None (it (legs s)) = victimScan (Some (seen_of p)) m"
    by (cases p) (simp add: seen_of_def)
  with victimScan_oldest [of "seen_of p" m] obtain v where
    v: "victimScan None (it (legs s)) = Some v" "v \<in> seen_of ` set (legs s)" "\<forall>x \<in> seen_of ` set (legs s). older v x"
    unfolding set_it [symmetric] pm by auto
  then obtain st where st: "(fst v, st) \<in> set (legs s)" "snd v = LastSeenAt (legRecord st)"
    by (auto simp: seen_of_def)
  have "victim_of it s = fst v" using v(1) by (simp add: victim_of_def split: prod.splits)
  moreover have "LastSeenAt (legRecord st) \<le> LastSeenAt (legRecord st')" if "(j, st') \<in> set (legs s)" for j st'
    using v(3) that st(2) by (force simp: seen_of_def older_def)
  ultimately show ?thesis
    using st core_nil [OF assms(1)] wf_map_of_iff [OF wf] by (metis option.distinct(1))
qed


text \<open>With as much fuel as legs the loop stops by its own condition; what it retires is gone.\<close>

lemma enforce_done:
  assumes "store_core s" "range_order it" "0 < maxLegs s" "length (legs s) \<le> n" "enforceLoop n it s = (retired, s')"
  shows "store_core s' \<and> ttl s' = ttl s \<and> maxLegs s' = maxLegs s \<and> int (length (legs s')) \<le> maxLegs s
     \<and> (\<forall>i. map_of (legs s') i = (if i \<in> set retired then None else map_of (legs s) i))
     \<and> set retired \<subseteq> {i. map_of (legs s) i \<noteq> None}"
  using assms
proof (induction n arbitrary: s retired s')
  case (Suc n)
  show ?case
  proof (cases "int (length (legs s)) > maxLegs s")
    case False
    with Suc.prems show ?thesis by simp
  next
    case True
    let ?v = "victim_of it s"
    have ne: "legs s \<noteq> []" using True Suc.prems(3) by auto
    from victim_of_props [OF Suc.prems(1,2) ne] have v: "map_of (legs s) ?v \<noteq> None" "?v \<noteq> []" by auto
    define s1 where "s1 = snd (removeLegLocked ?v s)"
    obtain rest s2 where r2: "enforceLoop n it s1 = (rest, s2)" by fastforce
    have "removeLegLocked ?v s = (?v, s1)" using v(1) by (intro prod_eqI) (auto simp: s1_def)
    then have res: "s' = s2" "retired = ?v # rest"
      using Suc.prems(3,5) True v(2) r2 by (simp_all add: Let_def)
    have core1: "store_core s1" unfolding s1_def by (rule removeLeg_core [OF Suc.prems(1)])
    have "length (legs s1) \<le> n"
      using removeLeg_length [OF core_wf(1) [OF Suc.prems(1)] v(1)] Suc.prems(4) by (simp add: s1_def)
    note ih = Suc.IH [OF core1 Suc.prems(2) _ this r2]
    have s1: "ttl s1 = ttl s" "maxLegs s1 = maxLegs s"
      "\<And>i. map_of (legs s1) i = (if i = ?v then None else map_of (legs s) i)" by (simp_all add: s1_def)
    have "set rest \<subseteq> {i. map_of (legs s) i \<noteq> None}"
      using ih Suc.prems(3) s1 by (auto split: if_splits dest!: subsetD)
    then show ?thesis using ih Suc.prems(3) v s1 unfolding res by auto
  qed
qed simp

subsection \<open>Creating a leg\<close>

lemma new_leg_ok: "aID \<noteq> [] \<Longrightarrow> leg_ok aID (new_leg aID key now)" "key_of (new_leg aID key now) = key"
  by (simp_all add: leg_ok_def new_leg_def key_of_def Interleaved_Validate_def CycleState_Validate_def
      CycleState_IsEmpty_def Override_Validate_def)

lemma register_key_effect:
  assumes core: "store_core s" and fresh: "map_of (legs s) aID = None"
    and reg: "register_key key aID (put_leg aID (new_leg aID key now) s) = (retired, s')"
  shows "set retired = {j. key \<noteq> [] \<and> map_of (byKey s) key = Some j} \<and> ttl s' = ttl s \<and> maxLegs s' = maxLegs s
      \<and> (\<forall>i. map_of (legs s') i = (if i \<in> set retired then None
           else if i = aID then Some (new_leg aID key now) else map_of (legs s) i))
      \<and> (\<forall>k. map_of (byKey s') k = (if key \<noteq> [] \<and> k = key then Some aID else map_of (byKey s) k))
      \<and> wf_gomap (legs s') \<and> wf_gomap (byKey s')"
proof (cases "map_of (byKey s) key")
  case None
  with reg core_wf [OF core] show ?thesis by (auto simp: register_key_def split: if_splits)
next
  case (Some old)
  then obtain st where k: "key \<noteq> []" "map_of (legs s) old = Some st" "key_of st = key" "old \<noteq> []" "old \<noteq> aID"
    using core_byKey [OF core, of key old] core_nil [OF core] fresh by fastforce
  let ?s = "put_leg aID (new_leg aID key now) s"
  define s1 where "s1 = snd (removeLegLocked old ?s)"
  have "removeLegLocked old ?s = (old, s1)" using k by (intro prod_eqI) (auto simp: s1_def)
  then have res: "retired = [old]" "s' = s1\<lparr>byKey := AList.update key aID (byKey s1)\<rparr>"
    using reg Some k by (simp_all add: register_key_def)
  have "wf_gomap (legs s1) \<and> wf_gomap (byKey s1)"
    using core_wf [OF core] k by (simp add: s1_def removeLegLocked_def Let_def)
  with k Some show ?thesis by (auto simp: res s1_def removeLeg_byKey)
qed

lemma register_key_core:
  assumes core: "store_core s" and fresh: "map_of (legs s) aID = None" "aID \<noteq> []"
    and reg: "register_key key aID (put_leg aID (new_leg aID key now) s) = (retired, s')"
  shows "store_core s' \<and> aID \<notin> set retired"
proof -
  note eff = register_key_effect [OF core fresh(1) reg]
  have va: "aID \<notin> set retired" using eff core_byKey [OF core, of key aID] fresh(1) by auto
  have vict: "i \<in> set retired \<longleftrightarrow> key \<noteq> [] \<and> (\<exists>st. map_of (legs s) i = Some st \<and> key_of st = key)" for i
    using eff core_byKey [OF core, of key i] by auto
  have "leg_ok i st" if "map_of (legs s') i = Some st" for i st
    using that eff new_leg_ok(1) [OF fresh(2)] core_leg [OF core, of i st] by (auto split: if_splits)
  moreover have "map_of (byKey s') k = Some i \<longleftrightarrow> k \<noteq> [] \<and> (\<exists>st. map_of (legs s') i = Some st \<and> key_of st = k)" for k i
  proof (cases "i = aID")
    case True
    have "map_of (byKey s) k \<noteq> Some aID" using core_byKey [OF core, of k aID] fresh(1) by simp
    with True eff va show ?thesis by (auto simp: new_leg_ok(2))
  next
    case False
    have "map_of (byKey s') k = Some i \<longleftrightarrow> \<not> (key \<noteq> [] \<and> k = key) \<and> map_of (byKey s) k = Some i"
      using eff False by auto
    moreover have "map_of (legs s') i = (if i \<in> set retired then None else map_of (legs s) i)"
      using eff False by simp
    ultimately show ?thesis using core_byKey [OF core, of k i] vict [of i] by (cases "i \<in> set retired") auto
  qed
  ultimately show ?thesis using va eff by (intro conjI store_coreI) auto
qed

lemma CreateALeg_props:
  assumes inv: "store_inv s" and it: "range_order it" and fresh: "map_of (legs s) aID = None" "aID \<noteq> []"
    and cr: "CreateALeg it False key now (Some aID) s = (r, retired, s')"
  shows "store_inv s' \<and> r = Inr (legRecord (new_leg aID key now)) \<and> ttl s' = ttl s \<and> maxLegs s' = maxLegs s
     \<and> (\<forall>i. map_of (legs s') i = (if i \<in> set retired then None
          else if i = aID then Some (new_leg aID key now) else map_of (legs s) i))
     \<and> set retired \<subseteq> insert aID {i. map_of (legs s) i \<noteq> None}"
proof -
  have core: "store_core s" and mx: "0 < maxLegs s" using inv by (simp_all add: store_inv_def)
  obtain r1 s1 where sw: "sweepExpiredLegsLocked it now s = (r1, s1)" by fastforce
  note p1 = sweep_props [OF core it sw]
  have core1: "store_core s1" and f1: "map_of (legs s1) aID = None" using p1 fresh(1) by auto
  obtain r2 s2 where rg: "register_key key aID (put_leg aID (new_leg aID key now) s1) = (r2, s2)" by fastforce
  note p2 = register_key_effect [OF core1 f1 rg] and c2 = register_key_core [OF core1 f1 fresh(2) rg]
  obtain r3 s3 where en: "enforceMaxLegsLocked it s2 = (r3, s3)" by fastforce
  have mx2: "0 < maxLegs s2" using p1 p2 mx by simp
  note p3 = enforce_done [OF conjunct1 [OF c2] it mx2 order.refl en [unfolded enforceMaxLegsLocked_def]]
  have res: "r = Inr (legRecord (new_leg aID key now))" "retired = r1 @ r2 @ r3" "s' = s3"
    using cr by (simp_all add: CreateALeg_def sw rg en Let_def)
  have l1: "map_of (legs s1) i = (if i \<in> set r1 then None else map_of (legs s) i)"
    and d1: "i \<in> set r1 \<Longrightarrow> map_of (legs s) i \<noteq> None" for i
    using p1 by (auto split: option.splits if_splits)
  have l2: "map_of (legs s2) i = (if i \<in> set r2 then None else if i = aID then Some (new_leg aID key now) else map_of (legs s1) i)"
    and d2: "i \<in> set r2 \<Longrightarrow> map_of (legs s1) i \<noteq> None" for i
    using p2 core_byKey [OF core1, of key i] by auto
  have l3: "map_of (legs s3) i = (if i \<in> set r3 then None else map_of (legs s2) i)"
    and d3: "i \<in> set r3 \<Longrightarrow> map_of (legs s2) i \<noteq> None" for i
    using p3 by auto
  have "store_inv s'" "ttl s' = ttl s" "maxLegs s' = maxLegs s"
    using p1 p2 p3 mx by (simp_all add: store_inv_def res)
  moreover have "map_of (legs s') i = (if i \<in> set retired then None
          else if i = aID then Some (new_leg aID key now) else map_of (legs s) i)" for i
    using d1 [of i] fresh(1) by (auto simp: res l1 l2 l3)
  moreover have "i = aID \<or> map_of (legs s) i \<noteq> None" if "i \<in> set retired" for i
    using that d1 [of i] d2 [of i] d3 [of i] by (auto simp: res l1 l2 split: if_splits)
  ultimately show ?thesis using res(1) by blast
qed

subsection \<open>Operations on one leg\<close>

lemma evict_eq:
  "leg_ok i st \<Longrightarrow> evictIfStaleLocked st now s =
     (if stale (ttl s) now st then (True, snd (removeLegLocked i s)) else (False, s))"
  by (auto simp: evictIfStaleLocked_def stale_def leg_ok_def)

lemma with_leg_cases:
  assumes "store_core s"
  obtains (missing) "map_of (legs s) i = None" "with_leg nf i now f s = (Inl nf, [], s)"
  | (expired) st where "map_of (legs s) i = Some st" "stale (ttl s) now st"
      "with_leg nf i now f s = (Inl nf, [i], snd (removeLegLocked i s))"
  | (live) st where "map_of (legs s) i = Some st" "\<not> stale (ttl s) now st"
      "with_leg nf i now f s = (fst (f st), [], snd (f st))"
proof (cases "map_of (legs s) i")
  case None
  then show ?thesis by (intro missing) (simp_all add: with_leg_def)
next
  case (Some st)
  note ok = core_leg [OF assms Some]
  then have "ALegID (legRecord st) = i" by (simp add: leg_ok_def)
  with Some evict_eq [OF ok, of now s] have
    "with_leg nf i now f s = (if stale (ttl s) now st then (Inl nf, [i], snd (removeLegLocked i s))
       else (fst (f st), [], snd (f st)))"
    by (simp add: with_leg_def split: prod.splits)
  with Some show ?thesis by (cases "stale (ttl s) now st") (auto intro: expired live)
qed

lemma put_leg_inv:
  assumes "store_inv s" "map_of (legs s) i = Some st" "leg_ok i st'" "key_of st' = key_of st"
  shows "store_inv (put_leg i st' s)"
proof -
  have core: "store_core s" using assms(1) by (simp add: store_inv_def)
  have "store_core (put_leg i st' s)"
  proof (rule store_coreI)
    fix k j
    show "map_of (byKey (put_leg i st' s)) k = Some j \<longleftrightarrow>
        k \<noteq> [] \<and> (\<exists>x. map_of (legs (put_leg i st' s)) j = Some x \<and> key_of x = k)"
      using core_byKey [OF core, of k j] assms(2,4) by auto
  qed (use core_wf [OF core] core_leg [OF core] assms(3) in \<open>auto split: if_splits\<close>)
  moreover have "length (legs (put_leg i st' s)) = length (legs s)"
    using assms(2) by (simp add: length_update_old)
  ultimately show ?thesis using assms(1) by (simp add: store_inv_def)
qed

lemma removeLeg_inv: "store_inv s \<Longrightarrow> store_inv (snd (removeLegLocked i s))"
proof -
  assume "store_inv s"
  moreover have "length (legs (snd (removeLegLocked i s))) \<le> length (legs s)"
    by (auto simp: removeLegLocked_def Let_def gomap_length_delete_le split: option.splits)
  ultimately show ?thesis using removeLeg_core [of s i] by (simp add: store_inv_def)
qed

text \<open>
  A continuation is admissible when it leaves the store alone or updates just its leg, to
  a well-formed one with the same key, and never lowers the sequence counter.
\<close>

definition leg_update :: "string \<Rightarrow> MemoryStore \<Rightarrow> legState \<Rightarrow> MemoryStore \<Rightarrow> bool" where
  "leg_update i s st s1 \<longleftrightarrow> s1 = s \<or> (\<exists>st'. s1 = put_leg i st' s \<and> leg_ok i st' \<and> key_of st' = key_of st
     \<and> nextSeq st \<le> nextSeq st' \<and> Revision (override st) \<le> Revision (override st'))"

text \<open>What any operation may do to a store, apart from creating a leg.\<close>

definition leg_step :: "string \<Rightarrow> MemoryStore \<Rightarrow> MemoryStore \<Rightarrow> bool" where
  "leg_step i s s' \<longleftrightarrow> s' = s \<or> s' = snd (removeLegLocked i s)
     \<or> (\<exists>st. map_of (legs s) i = Some st \<and> leg_update i s st s')"

lemma with_leg_step:
  assumes "store_core s" "\<And>st. map_of (legs s) i = Some st \<Longrightarrow> leg_ok i st \<Longrightarrow> leg_update i s st (snd (f st))"
  shows "leg_step i s (snd (snd (with_leg nf i now f s)))"
  using assms(1)
proof (cases rule: with_leg_cases [where i = i and nf = nf and now = now and f = f, case_names missing expired live])
  case (live st)
  with assms(2) core_leg [OF assms(1) live(1)] show ?thesis by (auto simp: leg_step_def)
qed (auto simp: leg_step_def)

lemma leg_step_inv: "store_inv s \<Longrightarrow> leg_step i s s' \<Longrightarrow> store_inv s'"
  by (auto simp: leg_step_def leg_update_def intro: put_leg_inv removeLeg_inv)

lemma leg_step_config: "leg_step i s s' \<Longrightarrow> ttl s' = ttl s \<and> maxLegs s' = maxLegs s"
  by (auto simp: leg_step_def leg_update_def)


lemma leg_updateI:
  "leg_ok i st' \<Longrightarrow> key_of st' = key_of st \<Longrightarrow> nextSeq st \<le> nextSeq st' \<Longrightarrow>
   Revision (override st) \<le> Revision (override st') \<Longrightarrow> leg_update i s st (put_leg i st' s)"
  by (auto simp: leg_update_def)

lemma leg_update_same [simp]: "leg_update i s st s"
  by (simp add: leg_update_def)

lemma leg_step_same [simp]: "leg_step i s s"
  by (simp add: leg_step_def)

lemma leg_ok_touch_only [simp]:
  "leg_ok i (st\<lparr>legRecord := (legRecord st)\<lparr>WeightedFirstConsumed := b\<rparr>\<rparr>) = leg_ok i st"
  "key_of (st\<lparr>legRecord := (legRecord st)\<lparr>WeightedFirstConsumed := b\<rparr>\<rparr>) = key_of st"
  "key_of (st\<lparr>interleaved := v\<rparr>) = key_of st" "key_of (st\<lparr>nextSeq := q\<rparr>) = key_of st"
  "key_of (st\<lparr>attemptBySeq := m\<rparr>) = key_of st" "key_of (st\<lparr>override := ov\<rparr>) = key_of st"
  "key_of (st\<lparr>nextSeq := q, seqToBLeg := m'\<rparr>) = key_of st"
  by (simp_all add: leg_ok_def key_of_def)

lemma leg_ok_interleaved: "leg_ok i st \<Longrightarrow> Interleaved_Validate v = Inr () \<Longrightarrow> leg_ok i (st\<lparr>interleaved := v\<rparr>)"
  by (simp add: leg_ok_def)

lemma leg_ok_next: "leg_ok i st \<Longrightarrow> leg_ok i (st\<lparr>nextSeq := nextSeq st + 1\<rparr>)"
  unfolding leg_ok_def by force

lemma leg_ok_alloc:
  assumes "leg_ok i st"
  shows "leg_ok i (st\<lparr>nextSeq := nextSeq st + 1, seqToBLeg := AList.update (nextSeq st + 1) bid (seqToBLeg st)\<rparr>)"
proof -
  have "map_of (attemptBySeq st) (nextSeq st + 1) = None"
    using assms unfolding leg_ok_def by (metis add_le_same_cancel1 not_one_le_zero option.exhaust)
  with assms show ?thesis unfolding leg_ok_def by (force split: if_splits)
qed

lemma leg_ok_attempt:
  "leg_ok i st \<Longrightarrow> arALegID rec = i \<Longrightarrow> map_of (seqToBLeg st) (arSeq rec) = Some (arBLegID rec) \<Longrightarrow>
   leg_ok i (st\<lparr>attemptBySeq := AList.update (arSeq rec) rec (attemptBySeq st)\<rparr>)"
  by (auto simp: leg_ok_def)

lemma leg_ok_override:
  "leg_ok i st \<Longrightarrow> Override_Validate ov = None \<Longrightarrow> Revision ov \<le> MaxInt64 \<Longrightarrow> leg_ok i (st\<lparr>override := ov\<rparr>)"
  by (simp add: leg_ok_def)

lemma Override_Validate_id [simp]: "Override_Validate (ov\<lparr>ovALegID := x\<rparr>) = Override_Validate ov"
  unfolding Override_Validate_def by simp

lemma copyOverride_ok:
  assumes "leg_ok i st"
  shows "\<exists>v. copyOverride i (override st) = Inr v \<and> Revision v = Revision (override st)
     \<and> Active v = Active (override st) \<and> ovSelector v = ovSelector (override st) \<and> ovUpdatedAt v = ovUpdatedAt (override st)"
proof -
  have "Override_Validate ((override st)\<lparr>ovALegID := i\<rparr>) = None"
    using assms by (simp add: leg_ok_def)
  then show ?thesis by (simp add: copyOverride_def Let_def Inactive_def)
qed

lemma next_revision: "nextOverrideRevision n = Inr m \<Longrightarrow> n \<le> MaxInt64 \<Longrightarrow> m = n + 1 \<and> m \<le> MaxInt64"
  by (auto simp: nextOverrideRevision_def split: if_splits)

lemma Fetch_step: "store_core s \<Longrightarrow> leg_step i s (snd (snd (FetchALeg ctx i n n' s)))"
  by (auto simp: FetchALeg_def intro!: with_leg_step leg_updateI)

lemma SetFirst_step: "store_core s \<Longrightarrow> leg_step i s (snd (snd (SetWeightedFirstConsumed ctx i b n n' s)))"
  by (auto simp: SetWeightedFirstConsumed_def intro!: with_leg_step leg_updateI)

lemma SetInterleaved_step: "store_core s \<Longrightarrow> leg_step i s (snd (snd (SetInterleavedState ctx i v n n' s)))"
  by (auto simp: SetInterleavedState_def intro!: with_leg_step leg_updateI leg_ok_interleaved split: sum.splits)

lemma FetchInterleaved_step: "store_core s \<Longrightarrow> leg_step i s (snd (snd (FetchInterleavedState ctx i n n' s)))"
  by (auto simp: FetchInterleavedState_def intro!: with_leg_step leg_updateI)

lemma NextBLeg_step: "store_core s \<Longrightarrow> leg_step i s (snd (snd (NextBLeg ctx i n rid s)))"
  by (auto simp: NextBLeg_def Let_def intro!: with_leg_step leg_updateI leg_ok_next leg_ok_alloc split: option.splits)

lemma Record_step: "store_core s \<Longrightarrow> leg_step (arALegID rec) s (snd (snd (RecordAttempt ctx rec n s)))"
  by (auto simp: RecordAttempt_def intro!: with_leg_step leg_updateI leg_ok_attempt)

lemma Load_step: "store_core s \<Longrightarrow> leg_step i s (snd (snd (LoadAttempts ita ctx i n n' s)))"
  by (auto simp: LoadAttempts_def intro!: with_leg_step leg_updateI)

lemma Authority_step: "store_core s \<Longrightarrow> leg_step i s (snd (snd (WithBLegAllocationAuthority ctx ctx' i g n s)))"
  by (auto simp: WithBLegAllocationAuthority_def intro!: with_leg_step leg_updateI split: option.splits)

lemma Read_step: "store_core s \<Longrightarrow> leg_step i s (snd (snd (readOverride ctx i n s)))"
  by (auto simp: readOverride_def legForOverrideLocked_def intro!: with_leg_step leg_updateI split: sum.splits)

lemma override_update:
  assumes "leg_ok i st" "copyOverride i (override st) = Inr cur" "nextOverrideRevision (Revision cur) = Inr m"
    "Override_Validate \<lparr>ovALegID = x, Active = a, ovSelector = sel, Revision = m, ovUpdatedAt = u\<rparr> = None"
  shows "leg_update i s st (put_leg i (touch now
    (st\<lparr>override := \<lparr>ovALegID = x, Active = a, ovSelector = sel, Revision = m, ovUpdatedAt = u\<rparr>\<rparr>)) s)"
proof -
  have c: "Revision cur = Revision (override st)" using copyOverride_ok [OF assms(1)] assms(2) by auto
  moreover have "Revision (override st) \<le> MaxInt64" using assms(1) by (simp add: leg_ok_def)
  ultimately have "m = Revision (override st) + 1 \<and> m \<le> MaxInt64" using next_revision [OF assms(3)] by simp
  with assms(1,4) show ?thesis by (intro leg_updateI) (simp_all add: leg_ok_override)
qed

lemma touch_update: "leg_ok i st \<Longrightarrow> leg_update i s st (put_leg i (touch now st) s)"
  by (intro leg_updateI) simp_all

lemma Replace_step: "store_core s \<Longrightarrow> leg_step i s (snd (snd (Replace ctx i sel n n' s)))"
  by (auto simp: Replace_def legForOverrideLocked_def Let_def intro!: with_leg_step touch_update
      split: sum.splits option.splits intro: override_update)

lemma Clear_step: "store_core s \<Longrightarrow> leg_step i s (snd (snd (Clear ctx i n n' s)))"
  by (auto simp: Clear_def legForOverrideLocked_def Let_def intro!: with_leg_step touch_update
      split: sum.splits option.splits intro: override_update)

lemma Resolve_step: "store_core s \<Longrightarrow> \<exists>i. leg_step i s (snd (snd (ResolveALeg ctx key n s)))"
proof -
  assume core: "store_core s"
  show ?thesis
  proof (cases "map_of (byKey s) key")
    case None
    then show ?thesis by (simp add: ResolveALeg_def)
  next
    case (Some i)
    then obtain st where "map_of (legs s) i = Some st" using core_byKey [OF core, of key i] by blast
    with Some core have "leg_step i s (snd (snd (ResolveALeg ctx key n s)))"
      by (auto simp: ResolveALeg_def intro!: with_leg_step leg_updateI)
    then show ?thesis by blast
  qed
qed


section \<open>The store as a state machine\<close>

text \<open>
  One call of any operation. The random source of the leg ids is modelled by what the code
  relies on: a new id is not in use, and not one of the ids \<open>U\<close> set aside.
\<close>

inductive store_step :: "string set \<Rightarrow> MemoryStore \<Rightarrow> MemoryStore \<Rightarrow> bool" for U where
  create: "range_order it \<Longrightarrow> map_of (legs s) aID = None \<Longrightarrow> aID \<noteq> [] \<Longrightarrow> aID \<notin> U \<Longrightarrow>
    store_step U s (snd (snd (CreateALeg it ctx key now (Some aID) s)))"
| create_failed: "range_order it \<Longrightarrow> store_step U s (snd (snd (CreateALeg it ctx key now None s)))"
| resolve: "store_step U s (snd (snd (ResolveALeg ctx key now s)))"
| fetch: "store_step U s (snd (snd (FetchALeg ctx i now now' s)))"
| set_first: "store_step U s (snd (snd (SetWeightedFirstConsumed ctx i b now now' s)))"
| set_interleaved: "store_step U s (snd (snd (SetInterleavedState ctx i v now now' s)))"
| fetch_interleaved: "store_step U s (snd (snd (FetchInterleavedState ctx i now now' s)))"
| next_bleg: "store_step U s (snd (snd (NextBLeg ctx i now rid s)))"
| record_attempt: "store_step U s (snd (snd (RecordAttempt ctx rec now s)))"
| load: "range_order ita \<Longrightarrow> store_step U s (snd (snd (LoadAttempts ita ctx i now now' s)))"
| authority: "store_step U s (snd (snd (WithBLegAllocationAuthority ctx ctx' i g now s)))"
| read_override: "store_step U s (snd (snd (readOverride ctx i now s)))"
| replace: "store_step U s (snd (snd (Replace ctx i sel now seen s)))"
| clear: "store_step U s (snd (snd (Clear ctx i now seen s)))"

inductive_cases store_stepE: "store_step U s s'"

lemmas op_steps = Fetch_step SetFirst_step SetInterleaved_step FetchInterleaved_step NextBLeg_step Record_step
  Load_step Authority_step Read_step Replace_step Clear_step

text \<open>The three shapes of a step: one leg is touched, legs expire, or a leg is created.\<close>

lemma store_step_cases:
  assumes "store_step U s s'" "store_inv s"
  obtains (leg) i where "leg_step i s s'"
  | (sweep) it now retired where "range_order it" "sweepExpiredLegsLocked it now s = (retired, s')"
  | (new) it key now aID r retired where "range_order it" "map_of (legs s) aID = None" "aID \<noteq> []" "aID \<notin> U"
      "CreateALeg it False key now (Some aID) s = (r, retired, s')"
proof -
  have core: "store_core s" using assms(2) by (simp add: store_inv_def)
  show thesis using assms(1)
  proof (cases rule: store_step.cases)
    case (create it aID ctx key now)
    then show ?thesis
    proof (cases ctx)
      case False
      with create show ?thesis
        by (intro new [of it aID key now "fst (CreateALeg it False key now (Some aID) s)"
              "fst (snd (CreateALeg it False key now (Some aID) s))"]) auto
    qed (use create leg in \<open>auto simp: CreateALeg_def\<close>)
  next
    case (create_failed it ctx key now)
    then show ?thesis
    proof (cases ctx)
      case False
      with create_failed show ?thesis
        by (intro sweep [of it now "fst (sweepExpiredLegsLocked it now s)"])
          (auto simp: CreateALeg_def split: prod.splits)
    qed (use create_failed leg in \<open>auto simp: CreateALeg_def\<close>)
  next
    case (resolve ctx key now)
    then show ?thesis using Resolve_step [of s ctx key now] assms(2) leg by (auto simp: store_inv_def)
  qed (rule leg, hypsubst, rule op_steps [OF core])+
qed

lemma store_step_inv:
  assumes "store_inv s" "store_step U s s'"
  shows "store_inv s'"
  using assms(2,1)
proof (cases rule: store_step_cases)
  case (leg i)
  with assms(1) show ?thesis by (rule leg_step_inv)
next
  case (sweep it now retired)
  with sweep_props [OF _ sweep] assms(1) show ?thesis by (auto simp: store_inv_def)
next
  case (new it key now aID r retired)
  from CreateALeg_props [OF assms(1) new(1,2,3,5)] show ?thesis by blast
qed

definition store_init :: "MemoryStore \<Rightarrow> bool" where
  "store_init s \<longleftrightarrow> (\<exists>opts. NewMemoryStore opts = Inr s)"

interpretation store: step_invariant store_init "store_step U" store_inv for U
proof
  fix s assume "store_init s"
  then show "store_inv s"
    by (auto simp: store_init_def NewMemoryStore_def store_inv_def store_core_def
        DefaultMemoryStoreMaxLegsWithoutTTL_def split: if_splits)
next
  fix s s' assume "store_inv s" "store_step U s s'"
  then show "store_inv s'" by (rule store_step_inv)
qed

text \<open>While the id of a leg is not reused, its counters never decrease.\<close>

definition at_least :: "string \<Rightarrow> int \<Rightarrow> int \<Rightarrow> MemoryStore \<Rightarrow> bool" where
  "at_least i q m s \<longleftrightarrow> (\<forall>st. map_of (legs s) i = Some st \<longrightarrow> q \<le> nextSeq st \<and> m \<le> Revision (override st))"

lemma at_least_step:
  assumes "store_inv s \<and> at_least i q m s" "store_step {i} s s'"
  shows "store_inv s' \<and> at_least i q m s'"
proof
  show inv': "store_inv s'" using assms store_step_inv by blast
  have inv: "store_inv s" and al: "at_least i q m s" using assms(1) by auto
  from assms(2) inv show "at_least i q m s'"
  proof (cases rule: store_step_cases)
    case (leg j)
    with al show ?thesis by (fastforce simp: leg_step_def leg_update_def at_least_def split: if_splits)
  next
    case (sweep it now retired)
    from sweep_props [OF _ sweep] inv al show ?thesis
      by (auto simp: at_least_def store_inv_def split: option.splits if_splits)
  next
    case (new it key now aID r retired)
    from CreateALeg_props [OF inv new(1,2,3,5)] new(4) al show ?thesis
      by (auto simp: at_least_def split: if_splits)
  qed
qed

interpretation counters: step_invariant "\<lambda>s. store_inv s \<and> at_least i q m s" "store_step {i}"
    "\<lambda>s. store_inv s \<and> at_least i q m s" for i q m
  by unfold_locales (use at_least_step in blast)+


section \<open>The override contract\<close>

text \<open>
  What \<open>routeoverride.Store\<close> promises its clients. \<open>live i t s\<close> says that the leg exists
  and has not expired at \<open>t\<close>.
\<close>

locale override_store =
  fixes inv :: "'s \<Rightarrow> bool" and live :: "string \<Rightarrow> gotime \<Rightarrow> 's \<Rightarrow> bool"
    and get :: "string \<Rightarrow> gotime \<Rightarrow> 's \<Rightarrow> (b2_error + OverrideState) \<times> 's"
    and replace :: "string \<Rightarrow> string \<Rightarrow> gotime \<Rightarrow> gotime \<Rightarrow> 's \<Rightarrow> (b2_error + OverrideState) \<times> 's"
    and clear :: "string \<Rightarrow> gotime \<Rightarrow> gotime \<Rightarrow> 's \<Rightarrow> (b2_error + OverrideState) \<times> 's"
  assumes inv_get: "inv s \<Longrightarrow> inv (snd (get i t s))"
    and inv_replace: "inv s \<Longrightarrow> inv (snd (replace i sel now t s))"
    and inv_clear: "inv s \<Longrightarrow> inv (snd (clear i now t s))"
    and get_live: "inv s \<Longrightarrow> live i t s \<Longrightarrow> \<exists>v. fst (get i t s) = Inr v"
    and replace_value: "inv s \<Longrightarrow> fst (replace i sel now t s) = Inr v \<Longrightarrow> Active v \<and> ovSelector v = TrimSpace sel"
    and replace_get: "inv s \<Longrightarrow> fst (replace i sel now t s) = Inr v \<Longrightarrow> live i t' (snd (replace i sel now t s)) \<Longrightarrow>
        fst (get i t' (snd (replace i sel now t s))) = Inr v"
    and replace_same: "inv s \<Longrightarrow> live i t s \<Longrightarrow> fst (get i t s) = Inr v \<Longrightarrow> Active v \<Longrightarrow> ovSelector v = TrimSpace sel \<Longrightarrow>
        TrimSpace sel \<noteq> [] \<Longrightarrow> length (TrimSpace sel) \<le> MaxRouteSelectorBytes \<Longrightarrow> fst (replace i sel now t s) = Inr v"
    and clear_get: "inv s \<Longrightarrow> fst (clear i now t s) = Inr v \<Longrightarrow> live i t' (snd (clear i now t s)) \<Longrightarrow>
        fst (get i t' (snd (clear i now t s))) = Inr v"
    and clear_value: "inv s \<Longrightarrow> live i t s \<Longrightarrow> fst (get i t s) = Inr u \<Longrightarrow> fst (clear i now t s) = Inr v \<Longrightarrow>
        \<not> Active v \<and> Revision v = Revision u + (if Active u then 1 else 0)"
begin

text \<open>Replacing twice with the same selector changes nothing the second time.\<close>

lemma replace_idempotent:
  assumes "inv s" "fst (replace i sel now t s) = Inr v" "live i t' (snd (replace i sel now t s))"
    "TrimSpace sel \<noteq> []" "length (TrimSpace sel) \<le> MaxRouteSelectorBytes"
  shows "fst (replace i sel now' t' (snd (replace i sel now t s))) = Inr v"
  using replace_same [OF inv_replace [OF assms(1)] assms(3) replace_get [OF assms(1,2,3)]]
    replace_value [OF assms(1,2)] assms(4,5) by blast

text \<open>Clearing an override leaves a tombstone one revision later.\<close>

lemma replace_then_clear:
  assumes "inv s" "fst (replace i sel now t s) = Inr v" "live i t' (snd (replace i sel now t s))"
    "fst (clear i now' t' (snd (replace i sel now t s))) = Inr w"
  shows "\<not> Active w \<and> Revision w = Revision v + 1"
  using clear_value [OF inv_replace [OF assms(1)] assms(3) replace_get [OF assms(1,2,3)] assms(4)]
    replace_value [OF assms(1,2)] by simp

end

definition live_leg :: "string \<Rightarrow> gotime \<Rightarrow> MemoryStore \<Rightarrow> bool" where
  "live_leg i t s \<longleftrightarrow> (\<exists>st. map_of (legs s) i = Some st \<and> \<not> stale (ttl s) t st)"

definition mem_get :: "string \<Rightarrow> gotime \<Rightarrow> MemoryStore \<Rightarrow> (b2_error + OverrideState) \<times> MemoryStore" where
  "mem_get i t s = (case readOverride False i t s of (r, _, s') \<Rightarrow> (r, s'))"

definition mem_replace ::
  "string \<Rightarrow> string \<Rightarrow> gotime \<Rightarrow> gotime \<Rightarrow> MemoryStore \<Rightarrow> (b2_error + OverrideState) \<times> MemoryStore" where
  "mem_replace i sel now t s = (case Replace False i sel now t s of (r, _, s') \<Rightarrow> (r, s'))"

definition mem_clear :: "string \<Rightarrow> gotime \<Rightarrow> gotime \<Rightarrow> MemoryStore \<Rightarrow> (b2_error + OverrideState) \<times> MemoryStore" where
  "mem_clear i now t s = (case Clear False i now t s of (r, _, s') \<Rightarrow> (r, s'))"

lemma mem_ops_inv:
  assumes "store_inv s"
  shows "store_inv (snd (mem_get i t s))" "store_inv (snd (mem_replace i sel now t s))"
    "store_inv (snd (mem_clear i now t s))"
proof -
  have core: "store_core s" using assms by (simp add: store_inv_def)
  show "store_inv (snd (mem_get i t s))" "store_inv (snd (mem_replace i sel now t s))"
    "store_inv (snd (mem_clear i now t s))"
    using leg_step_inv [OF assms Read_step [OF core]] leg_step_inv [OF assms Replace_step [OF core]]
      leg_step_inv [OF assms Clear_step [OF core]]
    by (auto simp: mem_get_def mem_replace_def mem_clear_def split: prod.splits) (metis snd_conv)+
qed

lemma with_leg_live:
  assumes "store_core s" "map_of (legs s) i = Some st" "\<not> stale (ttl s) now st"
  shows "with_leg nf i now f s = (fst (f st), [], snd (f st))"
  using assms(1)
  by (cases rule: with_leg_cases [where i = i and nf = nf and now = now and f = f]) (use assms in auto)

lemma with_leg_Inr:
  assumes "store_core s" "fst (with_leg nf i now f s) = Inr v"
  obtains st where "map_of (legs s) i = Some st" "\<not> stale (ttl s) now st" "i \<noteq> []"
    "with_leg nf i now f s = (fst (f st), [], snd (f st))"
  using assms(1)
proof (cases rule: with_leg_cases [where i = i and nf = nf and now = now and f = f, case_names missing expired live])
  case (live st)
  moreover from this have "i \<noteq> []" using core_nil [OF assms(1)] by auto
  ultimately show ?thesis by (intro that)
qed (use assms(2) in auto)

text \<open>The stored override as clients see it.\<close>

definition visible :: "string \<Rightarrow> legState \<Rightarrow> OverrideState" where
  "visible i st = (case copyOverride i (override st) of Inr v \<Rightarrow> v | Inl _ \<Rightarrow> Inactive i)"

lemma copyOverride_visible: "leg_ok i st \<Longrightarrow> copyOverride i (override st) = Inr (visible i st)"
  using copyOverride_ok [of i st] by (auto simp: visible_def)

lemma mem_get_live:
  assumes "store_core s" "map_of (legs s) i = Some st" "\<not> stale (ttl s) t st"
  shows "mem_get i t s = (Inr (visible i st), put_leg i (touch t st) s)"
proof -
  have "leg_ok i st" by (rule core_leg [OF assms(1,2)])
  moreover from this have "i \<noteq> []" by (simp add: leg_ok_def)
  ultimately show ?thesis
    by (simp add: mem_get_def readOverride_def legForOverrideLocked_def with_leg_live [OF assms] copyOverride_visible)
qed


lemma stale_touch: "stale d t (touch t' st) \<longleftrightarrow> d > 0 \<and> t - t' \<ge> d"
  by (simp add: stale_def)

lemma visible_props:
  assumes "leg_ok i st"
  shows "Revision (visible i st) = Revision (override st)" "Active (visible i st) = Active (override st)"
    "ovSelector (visible i st) = ovSelector (override st)"
  using copyOverride_ok [OF assms] by (auto simp: visible_def)

lemma visible_new:
  assumes "Override_Validate ov = None" "Revision ov \<noteq> 0" "ovALegID ov = i"
  shows "visible i (st\<lparr>override := ov\<rparr>) = ov"
  using assms by (simp add: visible_def copyOverride_def Let_def)

lemma visible_touch [simp]: "visible i (touch t st) = visible i st"
  by (simp add: visible_def)

definition next_override :: "string \<Rightarrow> bool \<Rightarrow> string \<Rightarrow> gotime \<Rightarrow> legState \<Rightarrow> OverrideState" where
  "next_override i act sel now st =
     \<lparr>ovALegID = i, Active = act, ovSelector = sel, Revision = Revision (visible i st) + 1, ovUpdatedAt = now\<rparr>"

lemma next_override_simps [simp]:
  "ovALegID (next_override i act sel now st) = i" "Active (next_override i act sel now st) = act"
  "ovSelector (next_override i act sel now st) = sel"
  "Revision (next_override i act sel now st) = Revision (visible i st) + 1"
  by (simp_all add: next_override_def)

lemma visible_next:
  assumes "leg_ok i st" "Override_Validate (next_override i act sel now st) = None"
  shows "visible i (st\<lparr>override := next_override i act sel now st\<rparr>) = next_override i act sel now st"
proof (rule visible_new [OF assms(2)])
  have "0 \<le> Revision (visible i st)"
    using assms(1) visible_props(1) [OF assms(1)] by (auto simp: leg_ok_def Override_Validate_def split: if_splits)
  then show "Revision (next_override i act sel now st) \<noteq> 0" by simp
qed simp

lemma mem_replace_live:
  assumes "store_core s" "map_of (legs s) i = Some st" "\<not> stale (ttl s) t st"
  shows "mem_replace i sel now t s =
     (let n = TrimSpace sel; nxt = next_override i True n now st in
      if n = [] \<or> length n > MaxRouteSelectorBytes then (Inl ErrOvInvalidSelector, s)
      else if Active (visible i st) \<and> ovSelector (visible i st) = n then (Inr (visible i st), put_leg i (touch t st) s)
      else if Revision (visible i st) = MaxInt64 then (Inl ErrRevisionExhausted, s)
      else if Override_Validate nxt \<noteq> None then (Inl ErrOvInvalidSelector, s)
      else (Inr nxt, put_leg i (touch t (st\<lparr>override := nxt\<rparr>)) s))"
proof -
  note ok = core_leg [OF assms(1,2)]
  then have "i \<noteq> []" by (simp add: leg_ok_def)
  then show ?thesis
    by (simp add: mem_replace_def Replace_def legForOverrideLocked_def with_leg_live [OF assms]
        copyOverride_visible [OF ok] normalizeStoredSelector_def NormalizeSelector_def Let_def
        nextOverrideRevision_def next_override_def split: option.splits)
qed

lemma mem_clear_live:
  assumes "store_core s" "map_of (legs s) i = Some st" "\<not> stale (ttl s) t st"
  shows "mem_clear i now t s =
     (let nxt = next_override i False [] now st in
      if \<not> Active (visible i st) then (Inr (visible i st), put_leg i (touch t st) s)
      else if Revision (visible i st) = MaxInt64 then (Inl ErrRevisionExhausted, s)
      else case Override_Validate nxt of Some e \<Rightarrow> (Inl e, s)
        | None \<Rightarrow> (Inr nxt, put_leg i (touch t (st\<lparr>override := nxt\<rparr>)) s))"
proof -
  note ok = core_leg [OF assms(1,2)]
  then have "i \<noteq> []" by (simp add: leg_ok_def)
  then show ?thesis
    by (simp add: mem_clear_def Clear_def legForOverrideLocked_def with_leg_live [OF assms]
        copyOverride_visible [OF ok] Let_def nextOverrideRevision_def next_override_def split: option.splits)
qed

text \<open>A successful \<open>Replace\<close> or \<open>Clear\<close> returns what a read sees afterwards.\<close>

definition ov_result :: "string \<Rightarrow> gotime \<Rightarrow> legState \<Rightarrow> MemoryStore \<Rightarrow> (b2_error + OverrideState) \<times> MemoryStore \<Rightarrow> bool" where
  "ov_result i t st s r \<longleftrightarrow> (\<forall>v. fst r = Inr v \<longrightarrow> (\<exists>st'. snd r = put_leg i (touch t st') s \<and> visible i st' = v))"

lemma replace_result:
  assumes "store_core s" "map_of (legs s) i = Some st" "\<not> stale (ttl s) t st"
  shows "ov_result i t st s (mem_replace i sel now t s)"
    "fst (mem_replace i sel now t s) = Inr v \<Longrightarrow> Active v \<and> ovSelector v = TrimSpace sel"
  using mem_replace_live [OF assms, of sel now] visible_next [OF core_leg [OF assms(1,2)]]
  by (auto simp: ov_result_def Let_def split: if_splits)

lemma clear_result:
  assumes "store_core s" "map_of (legs s) i = Some st" "\<not> stale (ttl s) t st"
  shows "ov_result i t st s (mem_clear i now t s)"
    "fst (mem_clear i now t s) = Inr v \<Longrightarrow>
       \<not> Active v \<and> Revision v = Revision (visible i st) + (if Active (visible i st) then 1 else 0)"
  using mem_clear_live [OF assms, of now] visible_next [OF core_leg [OF assms(1,2)]]
  by (auto simp: ov_result_def Let_def split: if_splits option.splits)

lemma mem_ops_Inr:
  assumes "store_core s" "fst (mem_replace i sel now t s) = Inr v \<or> fst (mem_clear i now t s) = Inr v"
  obtains st where "map_of (legs s) i = Some st" "\<not> stale (ttl s) t st"
proof (cases "\<exists>st. map_of (legs s) i = Some st \<and> \<not> stale (ttl s) t st")
  case True
  then show thesis using that by blast
next
  case False
  have nf: "fst (with_leg ErrNotFound i t f s) = Inl ErrNotFound" for f :: "legState \<Rightarrow> (b2_error + OverrideState) \<times> MemoryStore"
    using assms(1)
    by (cases rule: with_leg_cases [where i = i and nf = ErrNotFound and now = t and f = f]) (use False in auto)
  have "fst (mem_replace i sel now t s) = fst (Replace False i sel now t s)"
    "fst (mem_clear i now t s) = fst (Clear False i now t s)"
    by (simp_all add: mem_replace_def mem_clear_def split: prod.splits)
  then have "fst (mem_replace i sel now t s) \<noteq> Inr v" "fst (mem_clear i now t s) \<noteq> Inr v"
    by (simp_all add: Replace_def Clear_def legForOverrideLocked_def nf split: sum.splits)
  with assms(2) show thesis by blast
qed

lemma ov_result_get:
  assumes "ov_result i t st s r" "fst r = Inr v" "store_inv (snd r)" "live_leg i t' (snd r)"
  shows "fst (mem_get i t' (snd r)) = Inr v"
proof -
  from assms(1,2) obtain st' where st': "snd r = put_leg i (touch t st') s" "visible i st' = v"
    by (auto simp: ov_result_def)
  have core: "store_core (snd r)" using assms(3) by (simp add: store_inv_def)
  have l: "map_of (legs (snd r)) i = Some (touch t st')" by (simp add: st'(1))
  with assms(4) have "\<not> stale (ttl (snd r)) t' (touch t st')" by (simp add: live_leg_def)
  from mem_get_live [OF core l this] st'(2) show ?thesis by simp
qed

interpretation overrides: override_store store_inv live_leg mem_get mem_replace mem_clear
proof
  fix s i t sel now v t' u
  assume inv: "store_inv s"
  then have core: "store_core s" by (simp add: store_inv_def)
  show "store_inv (snd (mem_get i t s))" "store_inv (snd (mem_replace i sel now t s))"
    "store_inv (snd (mem_clear i now t s))" by (rule mem_ops_inv [OF inv])+
  { assume "live_leg i t s"
    then show "\<exists>v. fst (mem_get i t s) = Inr v" using mem_get_live [OF core] by (auto simp: live_leg_def) }
  { assume r: "fst (mem_replace i sel now t s) = Inr v"
    obtain st where st: "map_of (legs s) i = Some st" "\<not> stale (ttl s) t st"
      by (rule mem_ops_Inr [OF core, of i sel now t v]) (use r in auto)
    show "Active v \<and> ovSelector v = TrimSpace sel" by (rule replace_result(2) [OF core st r])
    assume "live_leg i t' (snd (mem_replace i sel now t s))"
    with ov_result_get [OF replace_result(1) [OF core st] r mem_ops_inv(2) [OF inv]]
    show "fst (mem_get i t' (snd (mem_replace i sel now t s))) = Inr v" . }
  { assume r: "fst (mem_clear i now t s) = Inr v"
    obtain st where st: "map_of (legs s) i = Some st" "\<not> stale (ttl s) t st"
      by (rule mem_ops_Inr [OF core, of i sel now t v]) (use r in auto)
    { assume "live_leg i t' (snd (mem_clear i now t s))"
      with ov_result_get [OF clear_result(1) [OF core st] r mem_ops_inv(3) [OF inv]]
      show "fst (mem_get i t' (snd (mem_clear i now t s))) = Inr v" . }
    assume "fst (mem_get i t s) = Inr u"
    with clear_result(2) [OF core st r] mem_get_live [OF core st]
    show "\<not> Active v \<and> Revision v = Revision u + (if Active u then 1 else 0)" by simp }
  { assume "live_leg i t s" and g: "fst (mem_get i t s) = Inr v" "Active v" "ovSelector v = TrimSpace sel"
      "TrimSpace sel \<noteq> []" "length (TrimSpace sel) \<le> MaxRouteSelectorBytes"
    then obtain st where st: "map_of (legs s) i = Some st" "\<not> stale (ttl s) t st" by (auto simp: live_leg_def)
    with mem_get_live [OF core st] mem_replace_live [OF core st, of sel now] g
    show "fst (mem_replace i sel now t s) = Inr v" by (simp add: Let_def) }
qed


section \<open>Properties\<close>

text \<open>
  C4: The store stays bounded and consistent. In every store reachable from a new one by
  any sequence of operations, the number of legs is at most the limit; a continuity key
  resolves to a leg exactly when that leg exists with this nonempty key, so keys never
  dangle and no two legs share one; every recorded attempt is filed under its own sequence
  number and names the B-leg that was allocated for that number; and the stored thinker
  cursor and route override are valid.
\<close>

theorem store_consistent:
  assumes "reach store_init (store_step U) s"
  shows "int (length (legs s)) \<le> maxLegs s
     \<and> (\<forall>k i. map_of (byKey s) k = Some i \<longleftrightarrow>
           k \<noteq> [] \<and> (\<exists>st. map_of (legs s) i = Some st \<and> ContinuityKey (legRecord st) = k))
     \<and> (\<forall>i st. map_of (legs s) i = Some st \<longrightarrow> ALegID (legRecord st) = i
         \<and> Interleaved_Validate (interleaved st) = Inr () \<and> Override_Validate (override st) = None
         \<and> (\<forall>q r. map_of (attemptBySeq st) q = Some r \<longrightarrow> arSeq r = q \<and> arALegID r = i
              \<and> 1 \<le> q \<and> q \<le> nextSeq st \<and> map_of (seqToBLeg st) q = Some (arBLegID r)))"
proof -
  from store.reach_inv [OF assms] have inv: "store_inv s" .
  then have core: "store_core s" and len: "int (length (legs s)) \<le> maxLegs s" by (simp_all add: store_inv_def)
  have "ALegID (legRecord st) = i \<and> Interleaved_Validate (interleaved st) = Inr () \<and> Override_Validate (override st) = None
      \<and> (\<forall>q r. map_of (attemptBySeq st) q = Some r \<longrightarrow> arSeq r = q \<and> arALegID r = i
         \<and> 1 \<le> q \<and> q \<le> nextSeq st \<and> map_of (seqToBLeg st) q = Some (arBLegID r))"
    if "map_of (legs s) i = Some st" for i st
    using core_leg [OF core that] unfolding leg_ok_def by blast
  with len core_byKey [OF core] show ?thesis unfolding key_of_def by blast
qed

theorem store_consistent_witness:
  "\<exists>s. NewMemoryStore \<lparr>optTTL = 60, optMaxLegs = 2\<rparr> = Inr s
     \<and> int (length (legs (snd (snd (CreateALeg rev False ''k'' 5 (Some ''a_1'') s))))) \<le> 2"
proof -
  define s where "s = \<lparr>ttl = 60, maxLegs = 2, legs = [], byKey = []\<rparr>"
  have n: "NewMemoryStore \<lparr>optTTL = 60, optMaxLegs = 2\<rparr> = Inr s" by (simp add: NewMemoryStore_def s_def)
  then have "reach store_init (store_step {}) s" by (intro reach_init) (auto simp: store_init_def)
  then have r: "reach store_init (store_step {}) (snd (snd (CreateALeg rev False ''k'' 5 (Some ''a_1'') s)))"
    by (rule reach_step) (rule store_step.create, auto simp: s_def)
  have "maxLegs (snd (snd (CreateALeg rev False ''k'' 5 (Some ''a_1'') s))) = 2" by (simp add: s_def) code_simp
  with store_consistent [OF r] n show ?thesis by auto
qed

text \<open>A leg seen strictly later than all others survives the enforcement of the limit.\<close>

lemma enforce_spares_newest:
  assumes "store_core s" "range_order it" "0 < maxLegs s" "enforceLoop n it s = (retired, s')"
    "map_of (legs s) i = Some st"
    "\<forall>j st'. j \<noteq> i \<longrightarrow> map_of (legs s) j = Some st' \<longrightarrow> LastSeenAt (legRecord st') < LastSeenAt (legRecord st)"
  shows "i \<notin> set retired"
  using assms
proof (induction n arbitrary: s retired s')
  case (Suc n)
  show ?case
  proof (cases "int (length (legs s)) > maxLegs s")
    case False
    with Suc.prems show ?thesis by simp
  next
    case True
    let ?v = "victim_of it s"
    have wf: "wf_gomap (legs s)" by (rule core_wf(1) [OF Suc.prems(1)])
    have ne: "legs s \<noteq> []" using True Suc.prems(3) by auto
    from victim_of_props [OF Suc.prems(1,2) ne] obtain sv where
      v: "map_of (legs s) ?v = Some sv" "?v \<noteq> []"
      "\<forall>j st'. map_of (legs s) j = Some st' \<longrightarrow> LastSeenAt (legRecord sv) \<le> LastSeenAt (legRecord st')" by blast
    have "\<not> fst ` set (legs s) \<subseteq> {i}"
    proof
      assume "fst ` set (legs s) \<subseteq> {i}"
      then have "card (fst ` set (legs s)) \<le> card {i}" by (intro card_mono) auto
      with length_wf_card [OF wf] True Suc.prems(3) show False by simp
    qed
    then obtain j st' where "j \<noteq> i" "map_of (legs s) j = Some st'"
      using wf_map_of_iff [OF wf] by fastforce
    with Suc.prems(5,6) v have vi: "?v \<noteq> i" by fastforce
    define s1 where "s1 = snd (removeLegLocked ?v s)"
    obtain rest s2 where r2: "enforceLoop n it s1 = (rest, s2)" by fastforce
    have "removeLegLocked ?v s = (?v, s1)" using v(1) by (intro prod_eqI) (auto simp: s1_def)
    then have "retired = ?v # rest" using Suc.prems(3,4) True v(2) r2 by (simp add: Let_def)
    moreover have "i \<notin> set rest"
      by (rule Suc.IH [OF _ Suc.prems(2) _ r2]) (use Suc.prems vi removeLeg_core in \<open>auto simp: s1_def\<close>)
    ultimately show ?thesis using vi by simp
  qed
qed simp

lemma create_survives:
  assumes inv: "store_inv s" and it: "range_order it" and fresh: "map_of (legs s) aID = None" "aID \<noteq> []"
    and older: "\<forall>j st. map_of (legs s) j = Some st \<longrightarrow> LastSeenAt (legRecord st) < now"
    and cr: "CreateALeg it False key now (Some aID) s = (r, retired, s')"
  shows "map_of (legs s') aID = Some (new_leg aID key now)"
proof -
  have core: "store_core s" and mx: "0 < maxLegs s" using inv by (simp_all add: store_inv_def)
  obtain r1 s1 where sw: "sweepExpiredLegsLocked it now s = (r1, s1)" by fastforce
  note p1 = sweep_props [OF core it sw]
  have core1: "store_core s1" and f1: "map_of (legs s1) aID = None" using p1 fresh(1) by auto
  obtain r2 s2 where rg: "register_key key aID (put_leg aID (new_leg aID key now) s1) = (r2, s2)" by fastforce
  note p2 = register_key_effect [OF core1 f1 rg] and c2 = register_key_core [OF core1 f1 fresh(2) rg]
  obtain r3 s3 where en: "enforceLoop (length (legs s2)) it s2 = (r3, s3)" by fastforce
  have a2: "map_of (legs s2) aID = Some (new_leg aID key now)" using p2 c2 by simp
  have "aID \<notin> set r3"
  proof (rule enforce_spares_newest [OF conjunct1 [OF c2] it _ en a2])
    show "0 < maxLegs s2" using p1 p2 mx by simp
    have "LastSeenAt (legRecord st) < now" if "j \<noteq> aID" "map_of (legs s2) j = Some st" for j st
      using that p2 p1 older by (auto split: if_splits option.splits)
    then show "\<forall>j st'. j \<noteq> aID \<longrightarrow> map_of (legs s2) j = Some st' \<longrightarrow>
        LastSeenAt (legRecord st') < LastSeenAt (legRecord (new_leg aID key now))"
      by (simp add: new_leg_def)
  qed
  moreover have "s' = s3" using cr by (simp add: CreateALeg_def sw rg en enforceMaxLegsLocked_def Let_def)
  moreover have "map_of (legs s3) aID = (if aID \<in> set r3 then None else map_of (legs s2) aID)"
    using enforce_done [OF conjunct1 [OF c2] it _ order.refl en] p1 p2 mx by simp
  ultimately show ?thesis using a2 by simp
qed

text \<open>
  Continuity. A leg created under a nonempty key, later than every leg in the store was
  seen, is what that key resolves to until it expires, with the time of the resolution as
  its new last-seen time; it replaced any older leg of the key.
\<close>

theorem create_then_resolve:
  assumes "store_inv s" "range_order it" "map_of (legs s) aID = None" "aID \<noteq> []" "key \<noteq> []"
    and "\<forall>j st. map_of (legs s) j = Some st \<longrightarrow> LastSeenAt (legRecord st) < now"
    and "CreateALeg it False key now (Some aID) s = (r, retired, s')" "ttl s \<le> 0 \<or> now' - now < ttl s"
  shows "\<exists>rec s''. r = Inr rec \<and> ALegID rec = aID \<and> ResolveALeg False key now' s' = (Inr (rec\<lparr>LastSeenAt := now'\<rparr>), [], s'')
     \<and> (\<forall>j st. map_of (legs s') j = Some st \<longrightarrow> ContinuityKey (legRecord st) = key \<longrightarrow> j = aID)"
proof -
  note p = CreateALeg_props [OF assms(1-4,7)]
  then have core: "store_core s'" by (simp add: store_inv_def)
  have l: "map_of (legs s') aID = Some (new_leg aID key now)" by (rule create_survives [OF assms(1-4,6,7)])
  have k: "map_of (byKey s') key = Some aID"
    using core_byKey [OF core, of key aID] l assms(5) new_leg_ok(2) by auto
  have live: "\<not> stale (ttl s') now' (new_leg aID key now)"
    using assms(8) p by (auto simp: stale_def new_leg_def)
  have "ResolveALeg False key now' s' =
      (Inr ((legRecord (new_leg aID key now))\<lparr>LastSeenAt := now'\<rparr>), [], put_leg aID (touch now' (new_leg aID key now)) s')"
    using assms(5) k l by (simp add: ResolveALeg_def with_leg_live [OF core l live])
  moreover have "j = aID" if "map_of (legs s') j = Some st" "ContinuityKey (legRecord st) = key" for j st
    using core_byKey [OF core, of key j] that assms(5) k by (auto simp: key_of_def)
  moreover have "r = Inr (legRecord (new_leg aID key now))" "ALegID (legRecord (new_leg aID key now)) = aID"
    using p by (simp_all add: new_leg_def)
  ultimately show ?thesis by blast
qed

definition empty_store :: MemoryStore where
  "empty_store = \<lparr>ttl = 60, maxLegs = 2, legs = [], byKey = []\<rparr>"

lemma empty_store_inv: "store_inv empty_store"
  by (simp add: empty_store_def store_inv_def store_core_def)

theorem create_then_resolve_witness:
  "\<exists>s'' rec. ResolveALeg False ''k'' 20 (snd (snd (CreateALeg rev False ''k'' 5 (Some ''a_1'') empty_store)))
     = (Inr rec, [], s'') \<and> ALegID rec = ''a_1''"
proof -
  obtain r retired s' where c: "CreateALeg rev False ''k'' 5 (Some ''a_1'') empty_store = (r, retired, s')" by (metis prod_cases3)
  have "map_of (legs empty_store) j = None" for j by (simp add: empty_store_def)
  with create_then_resolve [OF empty_store_inv range_order_rev _ _ _ _ c, of 20] show ?thesis
    unfolding c by (auto simp: empty_store_def)
qed


text \<open>
  B-leg numbers are never reused. If a leg is given sequence number \<open>m\<close> and, after any
  further operations that do not reissue the leg's id, is given number \<open>n\<close>, then
  \<open>1 \<le> m < n\<close>.
\<close>

theorem bleg_numbers_increase:
  assumes "store_inv s" "NextBLeg False i now (Some b) s = (Inr r, ret, s1)"
    and "(store_step {i})\<^sup>*\<^sup>* s1 s2" "NextBLeg False i now2 (Some b2) s2 = (Inr r2, ret2, s3)"
  shows "1 \<le> Seq r \<and> Seq r < Seq r2"
proof -
  have core: "store_core s" using assms(1) by (simp add: store_inv_def)
  have next_seq: "\<exists>st. map_of (legs s) i = Some st \<and> Seq r = nextSeq st + 1 \<and> at_least i (Seq r) 0 s1 \<and> 0 \<le> nextSeq st"
    if core: "store_core s" and nx: "NextBLeg False i now (Some b) s = (Inr r, ret, s1)" for s s1 r now b ret
  proof -
    let ?f = "\<lambda>st. let sq = nextSeq st + 1; st1 = st\<lparr>nextSeq := sq\<rparr> in
          (Inr \<lparr>BLegID = b, bALegID = i, Seq = sq\<rparr> :: b2_error + BLegRecord,
           put_leg i (touch now (st1\<lparr>seqToBLeg := AList.update sq b (seqToBLeg st1)\<rparr>)) s)"
    have w: "with_leg ErrALegNotFound i now ?f s = (Inr r, ret, s1)" using nx by (simp add: NextBLeg_def)
    then have "fst (with_leg ErrALegNotFound i now ?f s) = Inr r" by simp
    then obtain st where st: "map_of (legs s) i = Some st"
      "with_leg ErrALegNotFound i now ?f s = (fst (?f st), [], snd (?f st))"
      by (rule with_leg_Inr [OF core])
    with w have eq: "Inr r = fst (?f st)" "s1 = snd (?f st)" by auto
    from core_leg [OF core st(1)] have ok: "0 \<le> nextSeq st" "Override_Validate (override st) = None"
      by (simp_all add: leg_ok_def)
    then have "0 \<le> Revision (override st)" by (auto simp: Override_Validate_def split: if_splits)
    with st(1) eq ok show ?thesis by (auto simp: Let_def at_least_def)
  qed
  from next_seq [OF core assms(2)] have s1: "1 \<le> Seq r" "at_least i (Seq r) 0 s1" by auto
  have "store_inv s1"
    using leg_step_inv [OF assms(1) NextBLeg_step [OF core, of i False now "Some b"]] assms(2) by simp
  with s1(2) counters.inv_rtranclp [OF assms(3)] have s2: "store_inv s2" "at_least i (Seq r) 0 s2" by auto
  from next_seq [OF _ assms(4)] s2(1) obtain st2 where "map_of (legs s2) i = Some st2" "Seq r2 = nextSeq st2 + 1"
    by (auto simp: store_inv_def)
  with s2(2) s1(1) show ?thesis by (auto simp: at_least_def)
qed

definition one_leg :: MemoryStore where
  "one_leg = \<lparr>ttl = 60, maxLegs = 2, legs = [(''a_1'', new_leg ''a_1'' ''k'' 5)], byKey = [(''k'', ''a_1'')]\<rparr>"

lemma one_leg_inv: "store_inv one_leg"
  using new_leg_ok [of "''a_1''" "''k''" 5]
  by (auto simp: one_leg_def store_inv_def store_core_def wf_gomap_def)

theorem bleg_numbers_increase_witness:
  "\<exists>r r2 ret ret2 s1 s3. NextBLeg False ''a_1'' 6 (Some ''b_1'') one_leg = (Inr r, ret, s1)
     \<and> NextBLeg False ''a_1'' 7 (Some ''b_2'') s1 = (Inr r2, ret2, s3) \<and> 1 \<le> Seq r \<and> Seq r < Seq r2"
proof -
  obtain r ret s1 where n1: "NextBLeg False ''a_1'' 6 (Some ''b_1'') one_leg = (Inr r, ret, s1)"
    by (simp add: NextBLeg_def with_leg_def one_leg_def evictIfStaleLocked_def new_leg_def Let_def)
  then obtain r2 ret2 s3 where n2: "NextBLeg False ''a_1'' 7 (Some ''b_2'') s1 = (Inr r2, ret2, s3)"
    by (auto simp: NextBLeg_def with_leg_def one_leg_def evictIfStaleLocked_def new_leg_def Let_def put_leg_def touch_def)
  from bleg_numbers_increase [OF one_leg_inv n1 rtranclp.rtrancl_refl n2] n1 n2 show ?thesis by blast
qed

text \<open>A sorted dump of a map keyed by sequence number is strictly increasing.\<close>

lemma sorted_dump:
  assumes wf: "wf_gomap m" and seqs: "\<And>q r. map_of m q = Some r \<Longrightarrow> arSeq r = q" and it: "range_order ita"
  shows "set (sort_key arSeq (map snd (ita m))) = snd ` set m"
    "sorted_wrt (<) (map arSeq (sort_key arSeq (map snd (ita m))))"
proof -
  let ?rs = "sort_key arSeq (map snd (ita m))"
  show "set ?rs = snd ` set m" by (simp add: range_order_set [OF it])
  have "map (\<lambda>p. arSeq (snd p)) m = map fst m"
    by (intro map_cong refl) (use seqs wf_map_of_iff [OF wf] in \<open>metis prod.collapse\<close>)
  then have "mset (map (\<lambda>p. arSeq (snd p)) (ita m)) = mset (map fst m)"
    using it by (metis mset_map range_order_def)
  moreover have "mset (map arSeq ?rs) = mset (map (\<lambda>p. arSeq (snd p)) (ita m))" by (simp add: multiset.map_comp comp_def)
  ultimately have "distinct (map arSeq ?rs)"
    using wf by (metis mset_eq_imp_distinct_iff wf_gomap_def)
  then show "sorted_wrt (<) (map arSeq ?rs)" by (simp add: strict_sorted_iff)
qed

lemma filter_unique: "distinct (map f xs) \<Longrightarrow> x \<in> set xs \<Longrightarrow> filter (\<lambda>y. f y = f x) xs = [x]"
proof (induction xs)
  case (Cons a xs)
  show ?case
  proof (cases "a = x")
    case True
    with Cons.prems(1) have "\<forall>y \<in> set xs. f y \<noteq> f x" by (auto simp: image_iff)
    then have "filter (\<lambda>y. f y = f x) xs = []" by (simp add: filter_empty_conv)
    with True show ?thesis by simp
  next
    case False
    with Cons show ?thesis by auto
  qed
qed simp

lemma RecordAttempt_effect:
  assumes "store_inv s" "RecordAttempt False rec now s = (Inr (), ret, s1)"
  obtains st where "map_of (legs s1) (arALegID rec) = Some (touch now st)" "leg_ok (arALegID rec) st"
    "map_of (attemptBySeq st) (arSeq rec) = Some rec" "store_core s1" "ttl s1 = ttl s"
proof -
  let ?i = "arALegID rec"
  have core: "store_core s" using assms(1) by (simp add: store_inv_def)
  let ?f = "\<lambda>st. if arSeq rec > nextSeq st then (Inl ErrInvalidAttempt, s)
          else if map_of (seqToBLeg st) (arSeq rec) \<noteq> Some (arBLegID rec) then (Inl ErrInvalidAttempt, s)
          else (Inr (), put_leg ?i (touch now (st\<lparr>attemptBySeq := AList.update (arSeq rec) rec (attemptBySeq st)\<rparr>)) s)"
  have w: "with_leg ErrALegNotFound ?i now ?f s = (Inr (), ret, s1)"
    using assms(2) by (simp add: RecordAttempt_def split: if_splits)
  then have "fst (with_leg ErrALegNotFound ?i now ?f s) = Inr ()" by simp
  then obtain st where st: "map_of (legs s) ?i = Some st"
    "with_leg ErrALegNotFound ?i now ?f s = (fst (?f st), [], snd (?f st))" by (rule with_leg_Inr [OF core])
  let ?st = "st\<lparr>attemptBySeq := AList.update (arSeq rec) rec (attemptBySeq st)\<rparr>"
  have s1: "s1 = put_leg ?i (touch now ?st) s" using st w by (auto split: if_splits)
  have "store_inv s1"
    using leg_step_inv [OF assms(1) Record_step [OF core, of rec False now]] assms(2) by simp
  then have core1: "store_core s1" by (simp add: store_inv_def)
  have l1: "map_of (legs s1) ?i = Some (touch now ?st)" by (simp add: s1)
  moreover have "leg_ok ?i ?st" using core_leg [OF core1 l1] by simp
  ultimately show thesis by (rule that) (simp_all add: core1, simp add: s1)
qed

text \<open>
  Lineage round trip. After an attempt was recorded, loading the attempts of its leg,
  while it has not expired and whatever the map iteration order, returns exactly one record
  with its sequence number, namely that attempt, and the records come in strictly
  increasing sequence order, all of them of this leg.
\<close>

theorem attempt_roundtrip:
  assumes "store_inv s" "RecordAttempt False rec now s = (Inr (), ret, s1)" "range_order ita"
    and "ttl s \<le> 0 \<or> now' - now < ttl s"
  shows "\<exists>rs s2. LoadAttempts ita False (arALegID rec) now' now'' s1 = (Inr rs, [], s2)
     \<and> filter (\<lambda>r. arSeq r = arSeq rec) rs = [rec]
     \<and> sorted_wrt (<) (map arSeq rs) \<and> (\<forall>r \<in> set rs. arALegID r = arALegID rec)"
proof -
  let ?i = "arALegID rec"
  obtain st where st: "map_of (legs s1) ?i = Some (touch now st)" "leg_ok ?i st"
    "map_of (attemptBySeq st) (arSeq rec) = Some rec" "store_core s1" "ttl s1 = ttl s"
    by (rule RecordAttempt_effect [OF assms(1,2)])
  let ?m = "attemptBySeq st"
  let ?rs = "sort_key arSeq (map snd (ita ?m))"
  have live: "\<not> stale (ttl s1) now' (touch now st)" using assms(4) st(5) by (auto simp: stale_def)
  have load: "LoadAttempts ita False ?i now' now'' s1 = (Inr ?rs, [], put_leg ?i (touch now'' (touch now st)) s1)"
    by (simp add: LoadAttempts_def with_leg_live [OF st(4,1) live])
  have wf: "wf_gomap ?m" using st(2) unfolding leg_ok_def by blast
  have seqs: "arSeq r = q \<and> arALegID r = ?i" if "map_of ?m q = Some r" for q r
    using st(2) that unfolding leg_ok_def by blast
  have rs: "set ?rs = snd ` set ?m" "sorted_wrt (<) (map arSeq ?rs)"
    using sorted_dump [OF wf _ assms(3)] seqs by blast+
  have "rec \<in> set ?rs" using st(3) wf_map_of_iff [OF wf] unfolding rs(1) by force
  moreover have "distinct (map arSeq ?rs)" using rs(2) strict_sorted_iff by blast
  ultimately have "filter (\<lambda>r. arSeq r = arSeq rec) ?rs = [rec]" by (intro filter_unique)
  moreover have "arALegID r = ?i" if "r \<in> set ?rs" for r
    using that seqs wf_map_of_iff [OF wf] unfolding rs(1) by auto
  ultimately show ?thesis using load rs(2) by blast
qed

definition allocated_leg :: MemoryStore where
  "allocated_leg = snd (snd (NextBLeg False ''a_1'' 6 (Some ''b_1'') one_leg))"

definition sample_attempt :: AttemptRecord where
  "sample_attempt = \<lparr>arBLegID = ''b_1'', arALegID = ''a_1'', arSeq = 1, arBackendID = ''x'', arEffectiveModel = ''m'',
     arStartedAt = 6, arFinishedAt = 7, arOutcome = AttemptSuccess, arReason = []\<rparr>"

theorem attempt_roundtrip_witness:
  "\<exists>rs s2. LoadAttempts rev False ''a_1'' 9 9 (snd (snd (RecordAttempt False sample_attempt 8 allocated_leg))) = (Inr rs, [], s2)
     \<and> filter (\<lambda>r. arSeq r = 1) rs = [sample_attempt]"
proof -
  have inv: "store_inv allocated_leg"
    using leg_step_inv [OF one_leg_inv NextBLeg_step] one_leg_inv by (simp add: allocated_leg_def store_inv_def)
  have t: "ttl allocated_leg = 60"
    by (simp add: allocated_leg_def NextBLeg_def with_leg_def one_leg_def evictIfStaleLocked_def new_leg_def Let_def)
  obtain ret s1 where r: "RecordAttempt False sample_attempt 8 allocated_leg = (Inr (), ret, s1)"
    by (simp add: RecordAttempt_def sample_attempt_def allocated_leg_def NextBLeg_def with_leg_def one_leg_def
        evictIfStaleLocked_def new_leg_def Let_def touch_def)
  from attempt_roundtrip [OF inv r range_order_rev, of 9 9] t show ?thesis
    unfolding r by (auto simp: sample_attempt_def)
qed

text \<open>
  Expired legs are never served. In a consistent store with expiry on, when a leg has
  not been seen for the TTL, every operation that addresses it answers not found, reports
  exactly this leg as retired and removes it together with its continuity key.
\<close>

theorem expired_leg_retired:
  assumes "store_inv s" "map_of (legs s) i = Some st" "ttl s > 0" "now - LastSeenAt (legRecord st) \<ge> ttl s"
  shows "\<exists>s'. map_of (legs s') i = None \<and> map_of (byKey s') (ContinuityKey (legRecord st)) \<noteq> Some i
     \<and> FetchALeg False i now now' s = (Inl ErrALegNotFound, [i], s')
     \<and> NextBLeg False i now rid s = (Inl ErrALegNotFound, [i], s')
     \<and> SetWeightedFirstConsumed False i b now now' s = (Inl ErrALegNotFound, [i], s')
     \<and> FetchInterleavedState False i now now' s = (Inl ErrALegNotFound, [i], s')
     \<and> LoadAttempts ita False i now now' s = (Inl ErrALegNotFound, [i], s')
     \<and> readOverride False i now s = (Inl ErrNotFound, [i], s')
     \<and> (ContinuityKey (legRecord st) \<noteq> [] \<longrightarrow>
          ResolveALeg False (ContinuityKey (legRecord st)) now s = (Inl ErrALegNotFound, [i], s'))"
proof -
  have core: "store_core s" using assms(1) by (simp add: store_inv_def)
  let ?s = "snd (removeLegLocked i s)"
  have st: "stale (ttl s) now st" using assms(3,4) by (simp add: stale_def)
  have ok: "leg_ok i st" by (rule core_leg [OF core assms(2)])
  have i: "i \<noteq> []" using ok by (simp add: leg_ok_def)
  have w: "with_leg nf i now f s = (Inl nf, [i], ?s)" for nf and f :: "legState \<Rightarrow> (b2_error + 'x) \<times> MemoryStore"
    using assms(2) st ok evict_eq [OF ok, of now s] by (simp add: with_leg_def leg_ok_def)
  have "map_of (byKey s) (ContinuityKey (legRecord st)) = Some i" if "ContinuityKey (legRecord st) \<noteq> []"
    using that core_byKey [OF core, of "ContinuityKey (legRecord st)" i] assms(2) by (simp add: key_of_def)
  moreover have "map_of (byKey ?s) (ContinuityKey (legRecord st)) \<noteq> Some i"
    using core_byKey [OF removeLeg_core [OF core, of i], of "ContinuityKey (legRecord st)" i] by simp
  ultimately show ?thesis using i assms(2)
    by (intro exI [of _ ?s])
      (simp add: FetchALeg_def NextBLeg_def SetWeightedFirstConsumed_def FetchInterleavedState_def LoadAttempts_def
        readOverride_def legForOverrideLocked_def ResolveALeg_def w)
qed

theorem expired_leg_retired_witness:
  "\<exists>s'. map_of (legs s') ''a_1'' = None \<and> FetchALeg False ''a_1'' 65 66 one_leg = (Inl ErrALegNotFound, [''a_1''], s')
     \<and> ResolveALeg False ''k'' 65 one_leg = (Inl ErrALegNotFound, [''a_1''], s')"
proof -
  have l: "map_of (legs one_leg) ''a_1'' = Some (new_leg ''a_1'' ''k'' 5)" by (simp add: one_leg_def)
  from expired_leg_retired [OF one_leg_inv l, of 65 66 None False "\<lambda>m. m"] show ?thesis
    by (simp add: one_leg_def new_leg_def) blast
qed

lemma mem_fst:
  "fst (mem_get i t s) = fst (readOverride False i t s)" "fst (mem_replace i sel now t s) = fst (Replace False i sel now t s)"
  "fst (mem_clear i now t s) = fst (Clear False i now t s)"
  by (simp_all add: mem_get_def mem_replace_def mem_clear_def split: prod.splits)

lemma mapStoreErr_Inr: "mapStoreErr r = Inr w \<longleftrightarrow> r = Inr w"
  by (auto simp: mapStoreErr_def split: sum.splits)

lemma fst_mapStoreErr: "fst (case x of (r, y) \<Rightarrow> (mapStoreErr r, y)) = mapStoreErr (fst x)"
  by (simp split: prod.splits)

text \<open>
  Overrides through the command service. When the service has replaced the override of
  a live leg, it holds the trimmed selector, which passed the validator and the size bound;
  reading it back gives the same state, replacing it again by the same selector leaves
  revision and timestamp alone, and clearing it gives an inactive state one revision later.
\<close>

theorem override_service_contract:
  assumes "store_inv s" "Service_Replace validator False aLegID sel now t s = (Inr v, retired, s1)"
    and "live_leg (TrimSpace aLegID) t' s1"
  shows "Active v \<and> ovSelector v = TrimSpace sel \<and> validator (TrimSpace sel) = None
     \<and> length (ovSelector v) \<le> MaxRouteSelectorBytes
     \<and> fst (Service_Get False aLegID t' s1) = Inr v
     \<and> fst (Service_Replace validator False aLegID sel now' t' s1) = Inr v
     \<and> (\<forall>w. fst (Service_Clear False aLegID now' t' s1) = Inr w \<longrightarrow> \<not> Active w \<and> Revision w = Revision v + 1)"
proof -
  let ?i = "TrimSpace aLegID" and ?n = "TrimSpace sel"
  have prep: "?i \<noteq> []" "?n \<noteq> []" "length ?n \<le> MaxRouteSelectorBytes" "validator ?n = None"
    and rr: "mapStoreErr (fst (Replace False ?i ?n now t s)) = Inr v" "s1 = snd (snd (Replace False ?i ?n now t s))"
    using assms(2) by (auto simp: Service_Replace_def normalizeALegID_def prepareSelector_def NormalizeSelector_def
        Let_def split: if_splits option.splits prod.splits)
  have r: "fst (mem_replace ?i ?n now t s) = Inr v" and s1: "s1 = snd (mem_replace ?i ?n now t s)"
    using rr by (auto simp: mem_replace_def mapStoreErr_def split: prod.splits sum.splits if_splits)
  have nn: "TrimSpace ?n = ?n" by (rule TrimSpace_idem)
  have v: "Active v \<and> ovSelector v = ?n" using overrides.replace_value [OF assms(1) r] by (simp add: nn)
  have "fst (mem_get ?i t' s1) = Inr v"
    using overrides.replace_get [OF assms(1) r] assms(3) by (simp add: s1)
  moreover have "fst (mem_replace ?i ?n now' t' s1) = Inr v"
    using overrides.replace_idempotent [OF assms(1) r] assms(3) prep by (simp add: s1 nn)
  moreover have "\<not> Active w \<and> Revision w = Revision v + 1" if "fst (mem_clear ?i now' t' s1) = Inr w" for w
    using overrides.replace_then_clear [OF assms(1) r] assms(3) that by (simp add: s1)
  moreover have "fst (Service_Get False aLegID t' s1) = mapStoreErr (fst (mem_get ?i t' s1))"
    "fst (Service_Replace validator False aLegID sel now' t' s1) = mapStoreErr (fst (mem_replace ?i ?n now' t' s1))"
    "fst (Service_Clear False aLegID now' t' s1) = mapStoreErr (fst (mem_clear ?i now' t' s1))"
    using prep by (simp_all add: Service_Get_def Service_Replace_def Service_Clear_def normalizeALegID_def
        prepareSelector_def NormalizeSelector_def Let_def mem_fst fst_mapStoreErr)
  ultimately show ?thesis using v prep by (simp add: mapStoreErr_Inr)
qed

theorem override_service_contract_witness:
  "\<exists>v s1. fst (Service_Replace (\<lambda>_. None) False '' a_1 '' '' x:y '' 7 8 one_leg) = Inr v
     \<and> s1 = snd (snd (Service_Replace (\<lambda>_. None) False '' a_1 '' '' x:y '' 7 8 one_leg))
     \<and> fst (Service_Get False '' a_1 '' 9 s1) = Inr v \<and> ovSelector v = ''x:y''"
proof -
  have t: "TrimSpace '' a_1 '' = ''a_1''" "TrimSpace '' x:y '' = ''x:y''" "TrimSpace ''x:y'' = ''x:y''" "TrimSpace ''a_1'' = ''a_1''"
    by code_simp+
  obtain v ret s1 where r: "Service_Replace (\<lambda>_. None) False '' a_1 '' '' x:y '' 7 8 one_leg = (Inr v, ret, s1)"
      and l: "live_leg ''a_1'' 9 s1"
    by (simp add: Service_Replace_def normalizeALegID_def prepareSelector_def NormalizeSelector_def t
        MaxRouteSelectorBytes_def Replace_def normalizeStoredSelector_def legForOverrideLocked_def with_leg_def one_leg_def
        evictIfStaleLocked_def new_leg_def copyOverride_def Inactive_def nextOverrideRevision_def Override_Validate_def
        mapStoreErr_def Let_def live_leg_def put_leg_def touch_def stale_def)
  from override_service_contract [OF one_leg_inv r, of 9 9] l r t show ?thesis by auto
qed


end
