(* ===== verification/Leg_Lifecycle.thy ===== *)
theory Leg_Lifecycle
  imports Aip_Prelude
begin

text \<open>
  The A-leg coordinator of \<open>internal/core/leglifecycle/coordinator.go\<close>: launch permits,
  registration of B-leg attempts, cancellation and teardown.

  Objects that the code shares by pointer live in an explicit heap: an \<open>*ALeg\<close> is its
  position in \<open>lcHeap\<close> (\<open>None\<close> is nil), and a \<open>*LaunchPermit\<close> is its position in
  \<open>lcPermits\<close>. Each successful launch makes one permit, one \<open>launchEntry\<close> and one
  cancellable context at the same time, so one number names all three. A B-leg attempt
  (\<open>ManagedEventStream\<close>, an adapter outside this component) is a number as well; how it
  reacts to \<open>Cancel\<close> and \<open>Close\<close> is a parameter. \<open>lcCancelled\<close> collects the launch
  contexts whose \<open>cancel\<close> has run, \<open>lcTorn\<close> the attempts that were cancelled and closed,
  and \<open>lcCommitted\<close> the launches whose commit was accepted.

  Each method is written as its critical section under \<open>ALeg.mu\<close> followed by what it does
  after unlocking. The step relation \<open>lc_step\<close> interleaves these pieces: work left for
  after the unlock is a task that any later step may run.
\<close>

section \<open>Data\<close>

type_synonym CancelKind = string
type_synonym CancelMode = string
type_synonym aleg_ptr = nat
type_synonym permit_ptr = nat
type_synonym attempt_ptr = nat

definition CancelContextDone :: CancelKind where
  "CancelContextDone = ''context_done''"

definition CancelModeCloseOnly :: CancelMode where
  "CancelModeCloseOnly = ''close_only''"

record CancelCause =
  Kind :: CancelKind
  Detail :: string

datatype lc_error =
  ErrALegCanceled | DeadlineExceeded | ContextErr string | StreamErr string
| Joined "lc_error list" | Wrapped string lc_error

record CancelResult =
  Mode :: CancelMode
  crErr :: "lc_error option"

text \<open>
  The behaviour of an attempt: whether its \<open>Cancel\<close> returns before a context with the given
  timeout is done, what it returns, and what \<open>Close\<close> returns.
\<close>

record ManagedEventStream =
  msReturnsWithin :: "CancelCause \<Rightarrow> duration \<Rightarrow> bool"
  msCancel :: "CancelCause \<Rightarrow> CancelResult"
  msClose :: "lc_error option"

record LaunchCommitResult =
  Canceled :: bool
  Cause :: "CancelCause option"

record LaunchPermit =
  lpALeg :: aleg_ptr
  lpBLegID :: string
  lpSettled :: bool

record ALeg =
  alID :: string
  alCanceled :: bool
  alCause :: "CancelCause option"
  alLaunches :: "(string, permit_ptr) gomap"
  alBlegs :: "(string, attempt_ptr) gomap"

record Lifecycle =
  lcTimeout :: duration
  lcAlegs :: "(string, aleg_ptr) gomap"
  lcHeap :: "ALeg list"
  lcPermits :: "LaunchPermit list"
  lcCancelled :: "permit_ptr set"
  lcTorn :: "(attempt_ptr \<times> CancelCause) list"
  lcCommitted :: "permit_ptr set"

record GoContext =
  ctxErr :: "lc_error option"
  ctxDeadline :: "gotime option"

section \<open>Errors\<close>

definition errors_Join :: "lc_error option list \<Rightarrow> lc_error option" where
  "errors_Join es =
     (case List.map_filter id es of [] \<Rightarrow> None | xs \<Rightarrow> Some (Joined xs))"

fun errors_Is :: "lc_error \<Rightarrow> lc_error \<Rightarrow> bool" where
  "errors_Is target (Joined es) \<longleftrightarrow> target = Joined es \<or> list_ex (errors_Is target) es"
| "errors_Is target (Wrapped msg e) \<longleftrightarrow> target = Wrapped msg e \<or> errors_Is target e"
| "errors_Is target e \<longleftrightarrow> target = e"

section \<open>Bounded teardown of one attempt\<close>

definition DefaultCancelTimeout :: duration where
  "DefaultCancelTimeout = 2 * Second"

definition CloseOnlyAttempt :: "lc_error option option \<Rightarrow> ManagedEventStream" where
  "CloseOnlyAttempt closer =
     \<lparr>msReturnsWithin = (\<lambda>_ _. True),
      msCancel = (\<lambda>_. \<lparr>Mode = CancelModeCloseOnly, crErr = None\<rparr>),
      msClose = (case closer of None \<Rightarrow> None | Some r \<Rightarrow> r)\<rparr>"

text \<open>
  \<open>inTime timeout\<close> says which case of the \<open>select\<close> is taken: that \<open>cancelFn\<close> delivers
  before the timeout and before \<open>force\<close>. In the other cases the result of \<open>cancelFn\<close> is
  received after \<open>closeFn\<close>, which unblocks it.
\<close>

definition BoundedCancelAndClose ::
  "duration \<Rightarrow> (duration \<Rightarrow> bool) \<Rightarrow> CancelResult \<Rightarrow> lc_error option \<Rightarrow> CancelResult \<times> lc_error option" where
  "BoundedCancelAndClose timeout inTime cancelResult closeErr =
     (if inTime timeout then (cancelResult, closeErr)
      else ((case crErr cancelResult of
               None \<Rightarrow> cancelResult\<lparr>crErr := Some DeadlineExceeded\<rparr>
             | Some e \<Rightarrow>
                 if errors_Is DeadlineExceeded e then cancelResult
                 else cancelResult\<lparr>crErr := errors_Join [Some e, Some DeadlineExceeded]\<rparr>), closeErr))"

definition normal_cause :: "CancelCause \<Rightarrow> CancelCause" where
  "normal_cause c = (if Kind c = [] then c\<lparr>Kind := CancelContextDone\<rparr> else c)"

definition effective_timeout :: "gotime \<Rightarrow> GoContext option \<Rightarrow> duration \<Rightarrow> duration" where
  "effective_timeout now parent timeout =
     (let t = (if timeout \<le> 0 then DefaultCancelTimeout else timeout) in
      case parent of
        None \<Rightarrow> t
      | Some ctx \<Rightarrow>
          (case ctxDeadline ctx of None \<Rightarrow> t | Some deadline \<Rightarrow> min t (max 0 (deadline - now))))"

definition cancelAndClose ::
  "(attempt_ptr \<Rightarrow> ManagedEventStream) \<Rightarrow> gotime \<Rightarrow> GoContext option \<Rightarrow> duration
     \<Rightarrow> attempt_ptr \<Rightarrow> CancelCause \<Rightarrow> lc_error option" where
  "cancelAndClose streams now parent timeout b cause =
     (let c = normal_cause cause; m = streams b in
      case BoundedCancelAndClose (effective_timeout now parent timeout) (msReturnsWithin m c)
             (msCancel m c) (msClose m) of
        (res, closeErr) \<Rightarrow>
          let e1 = (case crErr res of None \<Rightarrow> None
                    | Some e \<Rightarrow> errors_Join [None, Some (Wrapped ''cancel b-leg'' e)])
          in (case closeErr of None \<Rightarrow> e1
              | Some e \<Rightarrow> errors_Join [e1, Some (Wrapped ''close b-leg'' e)]))"

section \<open>Coordinator\<close>

definition new_aleg :: "string \<Rightarrow> ALeg" where
  "new_aleg i = \<lparr>alID = i, alCanceled = False, alCause = None, alLaunches = [], alBlegs = []\<rparr>"

definition NewCoordinator :: "duration \<Rightarrow> Lifecycle" where
  "NewCoordinator timeout =
     \<lparr>lcTimeout = timeout, lcAlegs = [], lcHeap = [], lcPermits = [], lcCancelled = {}, lcTorn = [],
      lcCommitted = {}\<rparr>"

definition StartALeg :: "string \<Rightarrow> Lifecycle \<Rightarrow> aleg_ptr \<times> Lifecycle" where
  "StartALeg i w =
     (case map_of (lcAlegs w) i of
        Some a \<Rightarrow> (a, w)
      | None \<Rightarrow> (length (lcHeap w),
          w\<lparr>lcHeap := lcHeap w @ [new_aleg i],
            lcAlegs := AList.update i (length (lcHeap w)) (lcAlegs w)\<rparr>))"

definition EndALeg :: "string \<Rightarrow> Lifecycle \<Rightarrow> Lifecycle" where
  "EndALeg i w = w\<lparr>lcAlegs := AList.delete i (lcAlegs w)\<rparr>"

definition ALeg_End :: "aleg_ptr option \<Rightarrow> Lifecycle \<Rightarrow> Lifecycle" where
  "ALeg_End a w = (case a of None \<Rightarrow> w | Some p \<Rightarrow> EndALeg (alID (lcHeap w ! p)) w)"

definition upd_leg :: "aleg_ptr \<Rightarrow> (ALeg \<Rightarrow> ALeg) \<Rightarrow> Lifecycle \<Rightarrow> Lifecycle" where
  "upd_leg a f w = w\<lparr>lcHeap := (lcHeap w)[a := f (lcHeap w ! a)]\<rparr>"

definition cancel_ctx :: "permit_ptr \<Rightarrow> Lifecycle \<Rightarrow> Lifecycle" where
  "cancel_ctx e w = w\<lparr>lcCancelled := insert e (lcCancelled w)\<rparr>"

definition torn :: "attempt_ptr \<Rightarrow> CancelCause \<Rightarrow> Lifecycle \<Rightarrow> Lifecycle" where
  "torn b c w = w\<lparr>lcTorn := lcTorn w @ [(b, c)]\<rparr>"

section \<open>Launching\<close>

definition begin_locked :: "aleg_ptr \<Rightarrow> string \<Rightarrow> Lifecycle \<Rightarrow> permit_ptr option \<times> Lifecycle" where
  "begin_locked a bLegID w =
     (let leg = lcHeap w ! a; e = length (lcPermits w) in
      if alCanceled leg then (None, w)
      else
        let w1 = (case map_of (alLaunches leg) bLegID of None \<Rightarrow> w | Some old \<Rightarrow> cancel_ctx old w)
        in (Some e, upd_leg a (\<lambda>l. l\<lparr>alLaunches := AList.update bLegID e (alLaunches l)\<rparr>)
             (w1\<lparr>lcPermits := lcPermits w @ [\<lparr>lpALeg = a, lpBLegID = bLegID, lpSettled = False\<rparr>]\<rparr>)))"

definition BeginBLegLaunch ::
  "aleg_ptr option \<Rightarrow> string \<Rightarrow> Lifecycle \<Rightarrow> (lc_error + permit_ptr option) \<times> Lifecycle" where
  "BeginBLegLaunch a bLegID w =
     (case a of
        None \<Rightarrow> (Inr None, w)
      | Some p \<Rightarrow>
          (case begin_locked p bLegID w of
             (None, w') \<Rightarrow> (Inl ErrALegCanceled, w')
           | (Some e, w') \<Rightarrow> (Inr (Some e), w')))"

definition settle :: "permit_ptr \<Rightarrow> Lifecycle \<Rightarrow> Lifecycle" where
  "settle e w = w\<lparr>lcPermits := (lcPermits w)[e := (lcPermits w ! e)\<lparr>lpSettled := True\<rparr>]\<rparr>"

text \<open>Deletes the permit's launch entry if the map still holds that very entry.\<close>

definition drop_launch :: "permit_ptr \<Rightarrow> Lifecycle \<Rightarrow> Lifecycle" where
  "drop_launch e w =
     (let p = lcPermits w ! e; leg = lcHeap w ! lpALeg p in
      if map_of (alLaunches leg) (lpBLegID p) = Some e
      then upd_leg (lpALeg p) (\<lambda>l. l\<lparr>alLaunches := AList.delete (lpBLegID p) (alLaunches l)\<rparr>) w
      else w)"

definition commit_locked ::
  "permit_ptr \<Rightarrow> attempt_ptr option \<Rightarrow> Lifecycle \<Rightarrow> CancelCause option option \<times> Lifecycle" where
  "commit_locked e handle w =
     (let p = lcPermits w ! e; w1 = drop_launch e w; leg = lcHeap w1 ! lpALeg p in
      if alCanceled leg then (Some (alCause leg), w1)
      else (None,
        let w2 = (case handle of
                    None \<Rightarrow> w1
                  | Some h \<Rightarrow> upd_leg (lpALeg p)
                      (\<lambda>l. l\<lparr>alBlegs := AList.update (lpBLegID p) h (alBlegs l)\<rparr>) w1)
        in w2\<lparr>lcCommitted := insert e (lcCommitted w2)\<rparr>))"

definition Commit ::
  "permit_ptr option \<Rightarrow> attempt_ptr option \<Rightarrow> Lifecycle \<Rightarrow> LaunchCommitResult \<times> Lifecycle" where
  "Commit p handle w =
     (case p of
        None \<Rightarrow> (\<lparr>Canceled = False, Cause = None\<rparr>, w)
      | Some e \<Rightarrow>
          if lpSettled (lcPermits w ! e) then (\<lparr>Canceled = False, Cause = None\<rparr>, w)
          else (case commit_locked e handle (settle e w) of
              (Some cause, w1) \<Rightarrow> (\<lparr>Canceled = True, Cause = cause\<rparr>, cancel_ctx e w1)
            | (None, w1) \<Rightarrow> (\<lparr>Canceled = False, Cause = None\<rparr>, w1)))"

definition Abort :: "permit_ptr option \<Rightarrow> Lifecycle \<Rightarrow> Lifecycle" where
  "Abort p w =
     (case p of
        None \<Rightarrow> w
      | Some e \<Rightarrow>
          if lpSettled (lcPermits w ! e) then w
          else cancel_ctx e (drop_launch e (settle e w)))"

section \<open>Registration, cancellation, release\<close>

text \<open>
  \<open>Inl c\<close> is the canceled leg with its cause; \<open>Inr (Some e)\<close> the expired context,
  \<open>Inr None\<close> the registration.
\<close>

definition register_locked ::
  "aleg_ptr \<Rightarrow> GoContext option \<Rightarrow> string \<Rightarrow> attempt_ptr \<Rightarrow> Lifecycle
     \<Rightarrow> (CancelCause option + lc_error option) \<times> Lifecycle" where
  "register_locked a ctx hid h w =
     (let leg = lcHeap w ! a in
      if alCanceled leg then (Inl (alCause leg), w)
      else case (case ctx of None \<Rightarrow> None | Some c \<Rightarrow> ctxErr c) of
          Some err \<Rightarrow> (Inr (Some err), w)
        | None \<Rightarrow> (Inr None, upd_leg a (\<lambda>l. l\<lparr>alBlegs := AList.update hid h (alBlegs l)\<rparr>) w))"

definition zero_cause :: CancelCause where
  "zero_cause = \<lparr>Kind = [], Detail = []\<rparr>"

definition stored_cause :: "CancelCause option \<Rightarrow> CancelCause" where
  "stored_cause c = (case c of None \<Rightarrow> zero_cause | Some x \<Rightarrow> x)"

definition context_done_cause :: CancelCause where
  "context_done_cause = \<lparr>Kind = CancelContextDone, Detail = []\<rparr>"

definition RegisterBLeg ::
  "(attempt_ptr \<Rightarrow> ManagedEventStream) \<Rightarrow> gotime \<Rightarrow> aleg_ptr option \<Rightarrow> GoContext option \<Rightarrow> string
     \<Rightarrow> attempt_ptr option \<Rightarrow> Lifecycle \<Rightarrow> lc_error option \<times> Lifecycle" where
  "RegisterBLeg streams now a ctx hid attempt w =
     (case a of
        None \<Rightarrow> (None, w)
      | Some p \<Rightarrow>
          (case attempt of
             None \<Rightarrow> ((case ctx of None \<Rightarrow> None | Some c \<Rightarrow> ctxErr c), w)
           | Some h \<Rightarrow>
               (case register_locked p ctx hid h w of
                  (Inl c, w1) \<Rightarrow>
                    ((case cancelAndClose streams now ctx (lcTimeout w) h (stored_cause c) of
                        None \<Rightarrow> Some ErrALegCanceled
                      | Some cleanupErr \<Rightarrow> errors_Join [Some ErrALegCanceled, Some cleanupErr]),
                     torn h (normal_cause (stored_cause c)) w1)
                | (Inr (Some err), w1) \<Rightarrow>
                    ((case cancelAndClose streams now ctx (lcTimeout w) h context_done_cause of
                        None \<Rightarrow> Some err
                      | Some cleanupErr \<Rightarrow> errors_Join [Some err, Some cleanupErr]),
                     torn h context_done_cause w1)
                | (Inr None, w1) \<Rightarrow> (None, w1))))"

text \<open>
  The critical section of \<open>Cancel\<close> takes the launches and attempts out of the leg, in the
  order in which its two \<open>range\<close> loops visit them.
\<close>

type_synonym ptr_range = "(string, nat) gomap \<Rightarrow> (string, nat) gomap"

definition cancel_locked ::
  "ptr_range \<Rightarrow> ptr_range \<Rightarrow> aleg_ptr \<Rightarrow> CancelCause \<Rightarrow> Lifecycle
     \<Rightarrow> (permit_ptr list \<times> attempt_ptr list \<times> Lifecycle) option" where
  "cancel_locked itL itB a cause w =
     (let leg = lcHeap w ! a in
      if alCanceled leg then None
      else Some (map snd (itL (alLaunches leg)), map snd (itB (alBlegs leg)),
             upd_leg a (\<lambda>l. l\<lparr>alCanceled := True, alCause := Some cause, alLaunches := [], alBlegs := []\<rparr>) w))"

definition cleanup_error :: "lc_error option list \<Rightarrow> lc_error option" where
  "cleanup_error errs =
     map_option (Wrapped ''leglifecycle: cancel and close b-legs'')
       (if length errs = 1 then hd errs else foldl (\<lambda>acc err. errors_Join [acc, err]) None errs)"

definition ALeg_Cancel ::
  "ptr_range \<Rightarrow> ptr_range \<Rightarrow> (attempt_ptr \<Rightarrow> ManagedEventStream) \<Rightarrow> gotime \<Rightarrow> GoContext option
     \<Rightarrow> CancelCause \<Rightarrow> aleg_ptr option \<Rightarrow> Lifecycle \<Rightarrow> lc_error option \<times> Lifecycle" where
  "ALeg_Cancel itL itB streams now ctx cause0 a w =
     (case a of
        None \<Rightarrow> (None, w)
      | Some p \<Rightarrow>
          let cause = normal_cause cause0 in
          (case cancel_locked itL itB p cause w of
             None \<Rightarrow> (None, w)
           | Some (launches, attempts, w1) \<Rightarrow>
               (cleanup_error (map (\<lambda>b. cancelAndClose streams now ctx (lcTimeout w) b cause) attempts),
                fold (\<lambda>b. torn b cause) attempts (fold cancel_ctx launches w1))))"

definition CancelALeg ::
  "ptr_range \<Rightarrow> ptr_range \<Rightarrow> (attempt_ptr \<Rightarrow> ManagedEventStream) \<Rightarrow> gotime \<Rightarrow> GoContext option
     \<Rightarrow> string \<Rightarrow> CancelCause \<Rightarrow> Lifecycle \<Rightarrow> lc_error option \<times> Lifecycle" where
  "CancelALeg itL itB streams now ctx i cause w =
     (case StartALeg i w of (a, w1) \<Rightarrow> ALeg_Cancel itL itB streams now ctx cause (Some a) w1)"

definition ALeg_Err :: "aleg_ptr option \<Rightarrow> Lifecycle \<Rightarrow> lc_error option" where
  "ALeg_Err a w =
     (case a of None \<Rightarrow> None
      | Some p \<Rightarrow> if alCanceled (lcHeap w ! p) then Some ErrALegCanceled else None)"

definition release_locked :: "aleg_ptr \<Rightarrow> string \<Rightarrow> Lifecycle \<Rightarrow> Lifecycle" where
  "release_locked a i w =
     (let leg = lcHeap w ! a;
          w1 = upd_leg a (\<lambda>l. l\<lparr>alBlegs := AList.delete i (alBlegs l)\<rparr>) w
      in case map_of (alLaunches leg) i of
           None \<Rightarrow> w1
         | Some e \<Rightarrow> cancel_ctx e (upd_leg a (\<lambda>l. l\<lparr>alLaunches := AList.delete i (alLaunches l)\<rparr>) w1))"

definition ReleaseBLeg :: "aleg_ptr option \<Rightarrow> string \<Rightarrow> Lifecycle \<Rightarrow> Lifecycle" where
  "ReleaseBLeg a i w = (case a of None \<Rightarrow> w | Some p \<Rightarrow> release_locked p i w)"

section \<open>Interleavings\<close>

text \<open>
  What a method still has to do after an atomic piece: cancel a launch context, tear an
  attempt down, or enter the critical section of \<open>Commit\<close> or \<open>Abort\<close> after the atomic swap
  of \<open>settled\<close>.
\<close>

datatype lc_task =
  TaskCancel permit_ptr
| TaskTear attempt_ptr CancelCause
| TaskCommit permit_ptr "attempt_ptr option"
| TaskAbort permit_ptr

fun run_task :: "lc_task \<Rightarrow> Lifecycle \<Rightarrow> Lifecycle \<times> lc_task list" where
  "run_task (TaskCancel e) w = (cancel_ctx e w, [])"
| "run_task (TaskTear b c) w = (torn b c w, [])"
| "run_task (TaskCommit e h) w =
     (case commit_locked e h w of (r, w1) \<Rightarrow> (w1, if r = None then [] else [TaskCancel e]))"
| "run_task (TaskAbort e) w = (drop_launch e w, [TaskCancel e])"

inductive lc_step :: "Lifecycle \<times> lc_task multiset \<Rightarrow> Lifecycle \<times> lc_task multiset \<Rightarrow> bool" where
  ls_start: "lc_step (w, T) (snd (StartALeg i w), T)"
| ls_end: "lc_step (w, T) (EndALeg i w, T)"
| ls_begin: "a < length (lcHeap w) \<Longrightarrow> lc_step (w, T) (snd (begin_locked a i w), T)"
| ls_commit: "e < length (lcPermits w) \<Longrightarrow> \<not> lpSettled (lcPermits w ! e) \<Longrightarrow>
    lc_step (w, T) (settle e w, add_mset (TaskCommit e h) T)"
| ls_abort: "e < length (lcPermits w) \<Longrightarrow> \<not> lpSettled (lcPermits w ! e) \<Longrightarrow>
    lc_step (w, T) (settle e w, add_mset (TaskAbort e) T)"
| ls_register: "a < length (lcHeap w) \<Longrightarrow> register_locked a ctx i h w = (Inr None, w') \<Longrightarrow>
    lc_step (w, T) (w', T)"
| ls_refuse: "a < length (lcHeap w) \<Longrightarrow> register_locked a ctx i h w = (r, w') \<Longrightarrow> r \<noteq> Inr None \<Longrightarrow>
    lc_step (w, T) (w', add_mset (TaskTear h c) T)"
| ls_cancel: "a < length (lcHeap w) \<Longrightarrow> range_order itL \<Longrightarrow> range_order itB \<Longrightarrow>
    cancel_locked itL itB a c w = Some (ls, bs, w') \<Longrightarrow>
    lc_step (w, T) (w', mset (map TaskCancel ls) + mset (map (\<lambda>b. TaskTear b c) bs) + T)"
| ls_release: "a < length (lcHeap w) \<Longrightarrow> lc_step (w, T) (release_locked a i w, T)"
| ls_task: "run_task t w = (w', ts) \<Longrightarrow> lc_step (w, add_mset t T) (w', mset ts + T)"

definition lc_init :: "Lifecycle \<times> lc_task multiset \<Rightarrow> bool" where
  "lc_init s \<longleftrightarrow> (\<exists>timeout. s = (NewCoordinator timeout, {#}))"

lemmas lc_defs = upd_leg_def cancel_ctx_def torn_def settle_def

section \<open>The invariant of all interleavings\<close>

text \<open>
  \<open>dying\<close> are the launches whose context is cancelled or about to be. A canceled leg holds
  nothing; the launches a leg holds are its own and not dying; and a launch that is neither
  dying nor committed is still held by its leg.
\<close>

definition dying :: "Lifecycle \<Rightarrow> lc_task multiset \<Rightarrow> permit_ptr set" where
  "dying w T = lcCancelled w \<union> {e. TaskCancel e \<in># T}"

definition legs_ok :: "Lifecycle \<Rightarrow> bool" where
  "legs_ok w \<longleftrightarrow>
     wf_gomap (lcAlegs w)
     \<and> (\<forall>i a. map_of (lcAlegs w) i = Some a \<longrightarrow> a < length (lcHeap w) \<and> alID (lcHeap w ! a) = i)
     \<and> (\<forall>a < length (lcHeap w). alCanceled (lcHeap w ! a) \<longrightarrow>
          alLaunches (lcHeap w ! a) = [] \<and> alBlegs (lcHeap w ! a) = [])"

definition held_launch :: "Lifecycle \<Rightarrow> permit_ptr \<Rightarrow> bool" where
  "held_launch w e \<longleftrightarrow>
     map_of (alLaunches (lcHeap w ! lpALeg (lcPermits w ! e))) (lpBLegID (lcPermits w ! e)) = Some e"

definition launches_ok :: "Lifecycle \<Rightarrow> permit_ptr set \<Rightarrow> bool" where
  "launches_ok w K \<longleftrightarrow>
     (\<forall>a < length (lcHeap w). wf_gomap (alLaunches (lcHeap w ! a))
        \<and> (\<forall>i e. map_of (alLaunches (lcHeap w ! a)) i = Some e \<longrightarrow>
             e < length (lcPermits w) \<and> lpALeg (lcPermits w ! e) = a
             \<and> lpBLegID (lcPermits w ! e) = i \<and> e \<notin> K))"

definition permits_ok :: "Lifecycle \<Rightarrow> permit_ptr set \<Rightarrow> bool" where
  "permits_ok w K \<longleftrightarrow>
     K \<subseteq> {..<length (lcPermits w)}
     \<and> (\<forall>e < length (lcPermits w). lpALeg (lcPermits w ! e) < length (lcHeap w)
        \<and> (e \<in> K \<or> e \<in> lcCommitted w \<or> held_launch w e))"

definition lc_core :: "Lifecycle \<Rightarrow> permit_ptr set \<Rightarrow> bool" where
  "lc_core w K \<longleftrightarrow> legs_ok w \<and> launches_ok w K \<and> permits_ok w K"

fun task_ok :: "Lifecycle \<Rightarrow> lc_task \<Rightarrow> bool" where
  "task_ok w (TaskCommit e h) \<longleftrightarrow> e < length (lcPermits w)"
| "task_ok w (TaskAbort e) \<longleftrightarrow> e < length (lcPermits w)"
| "task_ok w t \<longleftrightarrow> True"

definition lc_inv :: "Lifecycle \<times> lc_task multiset \<Rightarrow> bool" where
  "lc_inv s \<longleftrightarrow> lc_core (fst s) (dying (fst s) (snd s)) \<and> (\<forall>t \<in># snd s. task_ok (fst s) t)"

lemmas core_defs = lc_core_def legs_ok_def launches_ok_def permits_ok_def held_launch_def

lemma core_same:
  "lcAlegs w' = lcAlegs w \<Longrightarrow> lcHeap w' = lcHeap w \<Longrightarrow> lcPermits w' = lcPermits w \<Longrightarrow>
   lcCommitted w' = lcCommitted w \<Longrightarrow> lc_core w' K = lc_core w K"
  by (simp add: core_defs)

lemma core_wf_launches:
  "lc_core w K \<Longrightarrow> a < length (lcHeap w) \<Longrightarrow> wf_gomap (alLaunches (lcHeap w ! a))"
  by (simp add: lc_core_def launches_ok_def)

lemma core_launch:
  "lc_core w K \<Longrightarrow> a < length (lcHeap w) \<Longrightarrow> map_of (alLaunches (lcHeap w ! a)) i = Some e \<Longrightarrow>
   e < length (lcPermits w) \<and> lpALeg (lcPermits w ! e) = a \<and> lpBLegID (lcPermits w ! e) = i \<and> e \<notin> K"
  by (simp add: lc_core_def launches_ok_def)

lemma core_canceled:
  "lc_core w K \<Longrightarrow> a < length (lcHeap w) \<Longrightarrow> alCanceled (lcHeap w ! a) \<Longrightarrow>
   alLaunches (lcHeap w ! a) = [] \<and> alBlegs (lcHeap w ! a) = []"
  by (simp add: lc_core_def legs_ok_def)

lemma core_permit_leg: "lc_core w K \<Longrightarrow> e < length (lcPermits w) \<Longrightarrow> lpALeg (lcPermits w ! e) < length (lcHeap w)"
  by (simp add: lc_core_def permits_ok_def)

lemma core_registered:
  "lc_core w K \<Longrightarrow> map_of (lcAlegs w) i = Some a \<Longrightarrow> a < length (lcHeap w) \<and> alID (lcHeap w ! a) = i"
  by (simp add: lc_core_def legs_ok_def)

lemma core_dying: "lc_core w K \<Longrightarrow> e \<in> K \<Longrightarrow> e < length (lcPermits w)"
  by (auto simp: lc_core_def permits_ok_def)

lemma core_no_leak:
  "lc_core w K \<Longrightarrow> e < length (lcPermits w) \<Longrightarrow> e \<in> K \<or> e \<in> lcCommitted w \<or> held_launch w e"
  by (simp add: lc_core_def permits_ok_def)

lemma coreI:
  assumes "wf_gomap (lcAlegs w)"
    and "\<And>i a. map_of (lcAlegs w) i = Some a \<Longrightarrow> a < length (lcHeap w) \<and> alID (lcHeap w ! a) = i"
    and "\<And>a. a < length (lcHeap w) \<Longrightarrow> alCanceled (lcHeap w ! a) \<Longrightarrow>
          alLaunches (lcHeap w ! a) = [] \<and> alBlegs (lcHeap w ! a) = []"
    and "\<And>a. a < length (lcHeap w) \<Longrightarrow> wf_gomap (alLaunches (lcHeap w ! a))"
    and "\<And>a i e. a < length (lcHeap w) \<Longrightarrow> map_of (alLaunches (lcHeap w ! a)) i = Some e \<Longrightarrow>
          e < length (lcPermits w) \<and> lpALeg (lcPermits w ! e) = a \<and> lpBLegID (lcPermits w ! e) = i \<and> e \<notin> K"
    and "\<And>e. e \<in> K \<Longrightarrow> e < length (lcPermits w)"
    and "\<And>e. e < length (lcPermits w) \<Longrightarrow> lpALeg (lcPermits w ! e) < length (lcHeap w)"
    and "\<And>e. e < length (lcPermits w) \<Longrightarrow> e \<in> K \<or> e \<in> lcCommitted w \<or> held_launch w e"
  shows "lc_core w K"
  using assms by (auto simp: lc_core_def legs_ok_def launches_ok_def permits_ok_def)

lemmas coreD = core_registered core_canceled core_wf_launches core_launch core_dying core_permit_leg core_no_leak

lemma core_wf_alegs: "lc_core w K \<Longrightarrow> wf_gomap (lcAlegs w)"
  by (simp add: lc_core_def legs_ok_def)

lemma core_start:
  assumes core: "lc_core w K"
  shows "lc_core (snd (StartALeg i w)) K"
proof (cases "map_of (lcAlegs w) i")
  case None
  let ?n = "length (lcHeap w)"
  have w: "snd (StartALeg i w) = w\<lparr>lcHeap := lcHeap w @ [new_aleg i], lcAlegs := AList.update i ?n (lcAlegs w)\<rparr>"
    using None by (simp add: StartALeg_def)
  have old: "a < Suc ?n \<Longrightarrow> a \<noteq> ?n \<Longrightarrow> (lcHeap w @ [new_aleg i]) ! a = lcHeap w ! a" for a
    by (simp add: nth_append)
  have new: "(lcHeap w @ [new_aleg i]) ! ?n = new_aleg i" by simp
  show ?thesis unfolding w
  proof (rule coreI; simp)
    show "wf_gomap (AList.update i ?n (lcAlegs w))" using core_wf_alegs [OF core] by simp
  next
    fix j a assume "(if j = i then Some ?n else map_of (lcAlegs w) j) = Some a"
    then show "a < Suc ?n \<and> alID ((lcHeap w @ [new_aleg i]) ! a) = j"
      using core_registered [OF core, of j a] by (auto simp: new_aleg_def nth_append split: if_splits)
  next
    fix a assume "a < Suc ?n" "alCanceled ((lcHeap w @ [new_aleg i]) ! a)"
    then show "alLaunches ((lcHeap w @ [new_aleg i]) ! a) = [] \<and> alBlegs ((lcHeap w @ [new_aleg i]) ! a) = []"
      using core_canceled [OF core, of a] old [of a] new by (cases "a = ?n") (auto simp: new_aleg_def)
  next
    fix a assume "a < Suc ?n"
    then show "wf_gomap (alLaunches ((lcHeap w @ [new_aleg i]) ! a))"
      using core_wf_launches [OF core, of a] old [of a] new by (cases "a = ?n") (auto simp: new_aleg_def)
  next
    fix a j e assume "a < Suc ?n" "map_of (alLaunches ((lcHeap w @ [new_aleg i]) ! a)) j = Some e"
    then show "e < length (lcPermits w) \<and> lpALeg (lcPermits w ! e) = a \<and> lpBLegID (lcPermits w ! e) = j \<and> e \<notin> K"
      using core_launch [OF core, of a j e] old [of a] new by (cases "a = ?n") (auto simp: new_aleg_def)
  next
    fix e assume "e \<in> K"
    then show "e < length (lcPermits w)" by (rule core_dying [OF core])
  next
    fix e assume "e < length (lcPermits w)"
    then show "lpALeg (lcPermits w ! e) < Suc ?n" using core_permit_leg [OF core] less_SucI by blast
  next
    fix e assume e: "e < length (lcPermits w)"
    show "e \<in> K \<or> e \<in> lcCommitted w
      \<or> held_launch (w\<lparr>lcHeap := lcHeap w @ [new_aleg i], lcAlegs := AList.update i ?n (lcAlegs w)\<rparr>) e"
      using core_no_leak [OF core e] core_permit_leg [OF core e] by (simp add: held_launch_def nth_append)
  qed
qed (simp add: StartALeg_def core)

lemma core_end: "lc_core w K \<Longrightarrow> lc_core (EndALeg i w) K"
  unfolding lc_core_def legs_ok_def launches_ok_def permits_ok_def
  by (simp add: EndALeg_def held_launch_def split: if_splits)

lemma settle_frame [simp]:
  "length (lcPermits (settle e w)) = length (lcPermits w)"
  "lcAlegs (settle e w) = lcAlegs w" "lcHeap (settle e w) = lcHeap w"
  "lcCommitted (settle e w) = lcCommitted w" "lcCancelled (settle e w) = lcCancelled w"
  "lcTorn (settle e w) = lcTorn w" "lcTimeout (settle e w) = lcTimeout w"
  by (simp_all add: settle_def)

lemma settle_permit_leg [simp]: "lpALeg (lcPermits (settle e w) ! x) = lpALeg (lcPermits w ! x)"
  by (cases "e < length (lcPermits w)") (auto simp: settle_def nth_list_update list_update_beyond)

lemma settle_permit_id [simp]: "lpBLegID (lcPermits (settle e w) ! x) = lpBLegID (lcPermits w ! x)"
  by (cases "e < length (lcPermits w)") (auto simp: settle_def nth_list_update list_update_beyond)

lemma core_settle: "lc_core (settle e w) K = lc_core w K"
  by (simp add: core_defs)

definition superseded :: "aleg_ptr \<Rightarrow> string \<Rightarrow> Lifecycle \<Rightarrow> permit_ptr set" where
  "superseded a i w = set_option (map_of (alLaunches (lcHeap w ! a)) i)"

lemma begin_fields:
  fixes i :: string and a :: aleg_ptr and w :: Lifecycle
  assumes "\<not> alCanceled (lcHeap w ! a)"
  defines "w' \<equiv> snd (begin_locked a i w)" and "e \<equiv> length (lcPermits w)"
  shows "lcAlegs w' = lcAlegs w"
    "lcHeap w' = (lcHeap w)[a := (lcHeap w ! a)\<lparr>alLaunches := AList.update i e (alLaunches (lcHeap w ! a))\<rparr>]"
    "lcPermits w' = lcPermits w @ [\<lparr>lpALeg = a, lpBLegID = i, lpSettled = False\<rparr>]"
    "lcCommitted w' = lcCommitted w" "lcCancelled w' = lcCancelled w \<union> superseded a i w"
    "lcTimeout w' = lcTimeout w" "lcTorn w' = lcTorn w"
  using assms(1) by (auto simp: w'_def e_def begin_locked_def Let_def upd_leg_def cancel_ctx_def superseded_def
      split: option.splits)

lemma begin_canceled: "alCanceled (lcHeap w ! a) \<Longrightarrow> begin_locked a i w = (None, w)"
  by (simp add: begin_locked_def)

lemma core_begin:
  assumes core: "lc_core w K" and a: "a < length (lcHeap w)" and live: "\<not> alCanceled (lcHeap w ! a)"
  shows "lc_core (snd (begin_locked a i w)) (K \<union> superseded a i w)"
proof -
  let ?w = "snd (begin_locked a i w)"
  note f = begin_fields [OF live, of i]
  have "legs_ok ?w"
    unfolding legs_ok_def
  proof (intro conjI allI impI)
    show "wf_gomap (lcAlegs ?w)" using core_wf_alegs [OF core] by (simp add: f)
    show "b < length (lcHeap ?w)" "alID (lcHeap ?w ! b) = j" if "map_of (lcAlegs ?w) j = Some b" for j b
      using core_registered [OF core, of j b] that a by (auto simp: f nth_list_update)
    show "alLaunches (lcHeap ?w ! b) = []" "alBlegs (lcHeap ?w ! b) = []"
      if "b < length (lcHeap ?w)" "alCanceled (lcHeap ?w ! b)" for b
      using core_canceled [OF core, of b] that live a by (cases "b = a"; simp add: f)+
  qed
  moreover have "launches_ok ?w (K \<union> superseded a i w)"
    unfolding launches_ok_def
  proof (intro allI impI)
    fix b assume b: "b < length (lcHeap ?w)"
    then have b': "b < length (lcHeap w)" by (simp add: f)
    with core have old: "wf_gomap (alLaunches (lcHeap w ! b))"
      "\<And>j e. map_of (alLaunches (lcHeap w ! b)) j = Some e \<Longrightarrow>
         e < length (lcPermits w) \<and> lpALeg (lcPermits w ! e) = b \<and> lpBLegID (lcPermits w ! e) = j \<and> e \<notin> K"
      by (simp_all add: lc_core_def launches_ok_def)
    have fresh: "length (lcPermits w) \<notin> K \<union> superseded a i w"
      using core_dying [OF core] core_launch [OF core a] by (auto simp: superseded_def)
    have sup: "e \<in> superseded a i w \<Longrightarrow> lpALeg (lcPermits w ! e) = a \<and> lpBLegID (lcPermits w ! e) = i" for e
      using core a by (auto simp: superseded_def lc_core_def launches_ok_def)
    show "wf_gomap (alLaunches (lcHeap ?w ! b)) \<and> (\<forall>j e. map_of (alLaunches (lcHeap ?w ! b)) j = Some e \<longrightarrow>
        e < length (lcPermits ?w) \<and> lpALeg (lcPermits ?w ! e) = b \<and> lpBLegID (lcPermits ?w ! e) = j
        \<and> e \<notin> K \<union> superseded a i w)"
    proof (cases "b = a")
      case True
      with a old fresh sup show ?thesis by (auto simp: f nth_append less_Suc_eq)
    next
      case False
      with old sup show ?thesis by (fastforce simp: f nth_append less_Suc_eq)
    qed
  qed
  moreover have "permits_ok ?w (K \<union> superseded a i w)"
    unfolding permits_ok_def
  proof (intro conjI allI impI)
    show "K \<union> superseded a i w \<subseteq> {..<length (lcPermits ?w)}"
      using core_dying [OF core] core_launch [OF core a] by (fastforce simp: f superseded_def)
    fix e assume e: "e < length (lcPermits ?w)"
    show "lpALeg (lcPermits ?w ! e) < length (lcHeap ?w)"
      using core_permit_leg [OF core, of e] a e by (auto simp: f nth_append less_Suc_eq)
    show "e \<in> K \<union> superseded a i w \<or> e \<in> lcCommitted ?w \<or> held_launch ?w e"
    proof (cases "e = length (lcPermits w)")
      case True
      then show ?thesis using a by (simp add: held_launch_def f)
    next
      case False
      with e have e': "e < length (lcPermits w)" by (simp add: f)
      with core have "e \<in> K \<or> e \<in> lcCommitted w \<or> held_launch w e" by (auto simp: lc_core_def permits_ok_def)
      moreover have "held_launch w e \<Longrightarrow> e \<in> superseded a i w \<or> held_launch ?w e"
        using a e' by (auto simp: held_launch_def f nth_append nth_list_update superseded_def)
      ultimately show ?thesis by (auto simp: f(4))
    qed
  qed
  ultimately show ?thesis by (simp add: lc_core_def)
qed

text \<open>
  Every other critical section replaces one leg, keeps a part of its launches, and either
  marks the launches it drops as dying or counts them as committed.
\<close>

lemma core_upd:
  assumes core: "lc_core w K" and a: "a < length (lcHeap w)"
    and leg: "alID leg' = alID (lcHeap w ! a)" "wf_gomap (alLaunches leg')"
      "alCanceled leg' \<Longrightarrow> alLaunches leg' = [] \<and> alBlegs leg' = []"
    and sub: "\<And>i e. map_of (alLaunches leg') i = Some e \<Longrightarrow>
      map_of (alLaunches (lcHeap w ! a)) i = Some e \<and> e \<notin> K'"
    and rest: "\<And>i e. map_of (alLaunches (lcHeap w ! a)) i = Some e \<Longrightarrow>
      map_of (alLaunches leg') i = Some e \<or> e \<in> K' \<or> e \<in> C"
    and K: "K \<subseteq> K'" "\<And>e. e \<in> K' - K \<Longrightarrow> e < length (lcPermits w) \<and> lpALeg (lcPermits w ! e) = a"
    and C: "lcCommitted w \<subseteq> C"
  shows "lc_core (w\<lparr>lcHeap := (lcHeap w)[a := leg'], lcCommitted := C\<rparr>) K'" (is "lc_core ?w K'")
proof -
  have "legs_ok ?w"
    unfolding legs_ok_def
  proof (intro conjI allI impI)
    show "wf_gomap (lcAlegs ?w)" using core_wf_alegs [OF core] by simp
    show "b < length (lcHeap ?w)" "alID (lcHeap ?w ! b) = i" if "map_of (lcAlegs ?w) i = Some b" for i b
      using core_registered [OF core, of i b] that leg(1) a by (auto simp: nth_list_update)
    show "alLaunches (lcHeap ?w ! b) = []" "alBlegs (lcHeap ?w ! b) = []"
      if "b < length (lcHeap ?w)" "alCanceled (lcHeap ?w ! b)" for b
      using core_canceled [OF core, of b] that leg(3) a by (cases "b = a"; simp)+
  qed
  moreover have "launches_ok ?w K'"
    unfolding launches_ok_def
  proof (intro allI impI conjI)
    fix b assume b: "b < length (lcHeap ?w)"
    show "wf_gomap (alLaunches (lcHeap ?w ! b))"
      using core b leg(2) by (cases "b = a") (auto simp: lc_core_def launches_ok_def)
    fix i e assume m: "map_of (alLaunches (lcHeap ?w ! b)) i = Some e"
    have old: "map_of (alLaunches (lcHeap w ! b)) i = Some e \<and> (b = a \<longrightarrow> e \<notin> K')"
      using m a sub by (auto simp: nth_list_update split: if_splits)
    with core b have e: "e < length (lcPermits w) \<and> lpALeg (lcPermits w ! e) = b
        \<and> lpBLegID (lcPermits w ! e) = i \<and> e \<notin> K"
      by (auto simp: lc_core_def launches_ok_def)
    show "e < length (lcPermits ?w)" "lpALeg (lcPermits ?w ! e) = b" "lpBLegID (lcPermits ?w ! e) = i"
      using e by simp_all
    show "e \<notin> K'" using e old K(2) by blast
  qed
  moreover have "permits_ok ?w K'"
    unfolding permits_ok_def
  proof (intro conjI allI impI)
    show "K' \<subseteq> {..<length (lcPermits ?w)}" using core_dying [OF core] K(2) by auto
    fix e assume e: "e < length (lcPermits ?w)"
    then show "lpALeg (lcPermits ?w ! e) < length (lcHeap ?w)" using core by (simp add: core_defs)
    have "e \<in> K \<or> e \<in> lcCommitted w \<or> held_launch w e" using core e by (simp add: lc_core_def permits_ok_def)
    moreover have "held_launch w e \<Longrightarrow> held_launch ?w e \<or> e \<in> K' \<or> e \<in> C"
      using rest a by (auto simp: held_launch_def nth_list_update)
    ultimately show "e \<in> K' \<or> e \<in> lcCommitted ?w \<or> held_launch ?w e" using K(1) C by auto
  qed
  ultimately show ?thesis by (simp add: lc_core_def)
qed

lemma core_cancel:
  assumes core: "lc_core w K" and a: "a < length (lcHeap w)" and it: "range_order itL"
    and cl: "cancel_locked itL itB a c w = Some (ls, bs, w')"
  shows "lc_core w' (K \<union> set ls)"
proof -
  let ?leg = "(lcHeap w ! a)\<lparr>alCanceled := True, alCause := Some c, alLaunches := [], alBlegs := []\<rparr>"
  have w': "w' = w\<lparr>lcHeap := (lcHeap w)[a := ?leg], lcCommitted := lcCommitted w\<rparr>"
    and "ls = map snd (itL (alLaunches (lcHeap w ! a)))"
    using cl by (simp_all add: cancel_locked_def Let_def upd_leg_def split: if_splits)
  then have ls: "set ls = snd ` set (alLaunches (lcHeap w ! a))"
    by (simp only: set_map range_order_set [OF it])
  show ?thesis unfolding w'
  proof (rule core_upd [OF core a])
    fix i e assume "map_of (alLaunches (lcHeap w ! a)) i = Some e"
    then show "map_of (alLaunches ?leg) i = Some e \<or> e \<in> K \<union> set ls \<or> e \<in> lcCommitted w"
      using image_eqI [of e snd "(i, e)", OF _ map_of_SomeD] by (simp add: ls)
  next
    fix e assume "e \<in> K \<union> set ls - K"
    then obtain i where "(i, e) \<in> set (alLaunches (lcHeap w ! a))" using ls by auto
    with core_wf_launches [OF core a] have "map_of (alLaunches (lcHeap w ! a)) i = Some e"
      by (simp add: wf_map_of_iff)
    from core_launch [OF core a this] show "e < length (lcPermits w) \<and> lpALeg (lcPermits w ! e) = a" by blast
  qed auto
qed

lemma core_register:
  assumes "lc_core w K" "a < length (lcHeap w)" "register_locked a ctx i h w = (r, w')"
  shows "lc_core w' K"
proof (cases "r = Inr None")
  case True
  with assms(3) have w': "w' = w\<lparr>lcHeap := (lcHeap w)[a := (lcHeap w ! a)\<lparr>alBlegs := AList.update i h (alBlegs (lcHeap w ! a))\<rparr>],
      lcCommitted := lcCommitted w\<rparr>" and live: "\<not> alCanceled (lcHeap w ! a)"
    by (auto simp: register_locked_def Let_def upd_leg_def split: if_splits option.splits)
  show ?thesis unfolding w'
    by (rule core_upd [OF assms(1,2)])
      (use live core_launch [OF assms(1,2)] core_wf_launches [OF assms(1,2)] in auto)
next
  case False
  with assms(3) have "w' = w" by (auto simp: register_locked_def Let_def split: if_splits option.splits)
  with assms(1) show ?thesis by simp
qed

lemma core_release:
  assumes core: "lc_core w K" and a: "a < length (lcHeap w)"
  shows "lc_core (release_locked a i w) (K \<union> superseded a i w)"
    and "lcCancelled (release_locked a i w) = lcCancelled w \<union> superseded a i w"
    and "lcPermits (release_locked a i w) = lcPermits w"
proof -
  let ?leg = "(lcHeap w ! a)\<lparr>alBlegs := AList.delete i (alBlegs (lcHeap w ! a)),
      alLaunches := AList.delete i (alLaunches (lcHeap w ! a))\<rparr>"
  let ?w = "w\<lparr>lcHeap := (lcHeap w)[a := ?leg], lcCommitted := lcCommitted w\<rparr>"
  have "map_of (alLaunches (lcHeap w ! a)) i = None \<Longrightarrow>
      AList.delete i (alLaunches (lcHeap w ! a)) = alLaunches (lcHeap w ! a)"
    by (simp add: map_of_None_keys delete_idem)
  then have "lcHeap (release_locked a i w) = lcHeap ?w" "lcAlegs (release_locked a i w) = lcAlegs ?w"
    "lcCommitted (release_locked a i w) = lcCommitted ?w"
    and p: "lcPermits (release_locked a i w) = lcPermits w"
    using a by (auto simp: release_locked_def Let_def upd_leg_def cancel_ctx_def split: option.splits)
  then have same: "lc_core (release_locked a i w) L = lc_core ?w L" for L
    by (intro core_same) simp_all
  show "lc_core (release_locked a i w) (K \<union> superseded a i w)" unfolding same
  proof (rule core_upd [OF core a])
    show "wf_gomap (alLaunches ?leg)" using core_wf_launches [OF core a] by simp
    show "alLaunches ?leg = [] \<and> alBlegs ?leg = []" if "alCanceled ?leg"
      using core_canceled [OF core a] that by simp
    fix j e
    show "map_of (alLaunches (lcHeap w ! a)) j = Some e \<and> e \<notin> K \<union> superseded a i w"
      if "map_of (alLaunches ?leg) j = Some e"
      using core_launch [OF core a, of j e] core_launch [OF core a, of i e] that
      by (auto simp: superseded_def split: if_splits)
    show "map_of (alLaunches ?leg) j = Some e \<or> e \<in> K \<union> superseded a i w \<or> e \<in> lcCommitted w"
      if "map_of (alLaunches (lcHeap w ! a)) j = Some e"
      using that by (auto simp: superseded_def)
    show "e < length (lcPermits w) \<and> lpALeg (lcPermits w ! e) = a" if "e \<in> K \<union> superseded a i w - K" for e
      using core_launch [OF core a] that by (auto simp: superseded_def)
  qed auto
  show "lcCancelled (release_locked a i w) = lcCancelled w \<union> superseded a i w"
    by (auto simp: release_locked_def Let_def upd_leg_def cancel_ctx_def superseded_def split: option.splits)
  show "lcPermits (release_locked a i w) = lcPermits w" by (rule p)
qed

text \<open>Dropping a launch: it is either dying afterwards or counted as committed.\<close>

lemma core_drop:
  assumes core: "lc_core w K" and e: "e < length (lcPermits w)" and C: "lcCommitted w \<subseteq> C"
    and out: "e \<in> L \<or> e \<in> C" and L: "K \<subseteq> L" "L \<subseteq> insert e K"
  shows "lc_core (drop_launch e w\<lparr>lcCommitted := C\<rparr>) L"
proof -
  let ?a = "lpALeg (lcPermits w ! e)" and ?i = "lpBLegID (lcPermits w ! e)"
  let ?leg = "lcHeap w ! ?a"
  have a: "?a < length (lcHeap w)" by (rule core_permit_leg [OF core e])
  let ?leg' = "if held_launch w e then ?leg\<lparr>alLaunches := AList.delete ?i (alLaunches ?leg)\<rparr> else ?leg"
  have eq: "drop_launch e w\<lparr>lcCommitted := C\<rparr> = w\<lparr>lcHeap := (lcHeap w)[?a := ?leg'], lcCommitted := C\<rparr>"
    by (simp add: drop_launch_def Let_def upd_leg_def held_launch_def)
  show ?thesis unfolding eq
  proof (rule core_upd [OF core a])
    show "wf_gomap (alLaunches ?leg')" using core_wf_launches [OF core a] by simp
    show "alLaunches ?leg' = [] \<and> alBlegs ?leg' = []" if "alCanceled ?leg'"
      using core_canceled [OF core a] that by (simp split: if_splits)
    fix j x
    show "map_of (alLaunches ?leg) j = Some x \<and> x \<notin> L" if "map_of (alLaunches ?leg') j = Some x"
    proof -
      have old: "map_of (alLaunches ?leg) j = Some x" using that by (simp split: if_splits)
      from core_launch [OF core a old] have "x \<notin> K" "x = e \<Longrightarrow> j = ?i" by auto
      moreover have "x \<noteq> e" using that old calculation(2) by (auto simp: held_launch_def split: if_splits)
      ultimately show ?thesis using old L(2) by auto
    qed
    show "map_of (alLaunches ?leg') j = Some x \<or> x \<in> L \<or> x \<in> C" if "map_of (alLaunches ?leg) j = Some x"
      using that out by (auto simp: held_launch_def)
    show "x < length (lcPermits w) \<and> lpALeg (lcPermits w ! x) = ?a" if "x \<in> L - K" for x
      using that L(2) e by auto
  qed (use L C in auto)
qed

lemma drop_launch_frame [simp]:
  "lcPermits (drop_launch e w) = lcPermits w" "lcCancelled (drop_launch e w) = lcCancelled w"
  "lcCommitted (drop_launch e w) = lcCommitted w" "lcTorn (drop_launch e w) = lcTorn w"
  "lcAlegs (drop_launch e w) = lcAlegs w" "length (lcHeap (drop_launch e w)) = length (lcHeap w)"
  "lcTimeout (drop_launch e w) = lcTimeout w"
  by (simp_all add: drop_launch_def Let_def upd_leg_def)

lemma drop_launch_leg [simp]:
  "alCanceled (lcHeap (drop_launch e w) ! a) = alCanceled (lcHeap w ! a)"
  "alCause (lcHeap (drop_launch e w) ! a) = alCause (lcHeap w ! a)"
  "alBlegs (lcHeap (drop_launch e w) ! a) = alBlegs (lcHeap w ! a)"
  "alID (lcHeap (drop_launch e w) ! a) = alID (lcHeap w ! a)"
  by (cases "lpALeg (lcPermits w ! e) < length (lcHeap w)";
      simp add: drop_launch_def Let_def upd_leg_def nth_list_update list_update_beyond)+

lemma core_commit:
  assumes core: "lc_core w K" and e: "e < length (lcPermits w)" and c: "commit_locked e h w = (r, w')"
  shows "lc_core w' (if r = None then K else insert e K)"
    and "lcPermits w' = lcPermits w" "lcCancelled w' = lcCancelled w"
proof -
  let ?a = "lpALeg (lcPermits w ! e)"
  have a: "?a < length (lcHeap w)" by (rule core_permit_leg [OF core e])
  show "lcPermits w' = lcPermits w" "lcCancelled w' = lcCancelled w"
    using c by (auto simp: commit_locked_def Let_def upd_leg_def split: if_splits option.splits)
  show "lc_core w' (if r = None then K else insert e K)"
  proof (cases "alCanceled (lcHeap w ! ?a)")
    case True
    with c have "w' = drop_launch e w" "r \<noteq> None" by (auto simp: commit_locked_def Let_def)
    moreover have "lc_core (drop_launch e w\<lparr>lcCommitted := lcCommitted w\<rparr>) (insert e K)"
      by (rule core_drop [OF core e]) auto
    ultimately show ?thesis
      using core_same [of "drop_launch e w\<lparr>lcCommitted := lcCommitted w\<rparr>" "drop_launch e w"] by auto
  next
    case False
    let ?w1 = "drop_launch e w\<lparr>lcCommitted := insert e (lcCommitted w)\<rparr>"
    have w1: "lc_core ?w1 K" by (rule core_drop [OF core e]) auto
    show ?thesis
    proof (cases h)
      case None
      with c False w1 show ?thesis by (auto simp: commit_locked_def Let_def)
    next
      case (Some x)
      let ?leg = "(lcHeap ?w1 ! ?a)\<lparr>alBlegs :=
          AList.update (lpBLegID (lcPermits w ! e)) x (alBlegs (lcHeap ?w1 ! ?a))\<rparr>"
      have "w' = ?w1\<lparr>lcHeap := (lcHeap ?w1)[?a := ?leg], lcCommitted := lcCommitted ?w1\<rparr>" "r = None"
        using c False Some by (auto simp: commit_locked_def Let_def upd_leg_def)
      moreover have "lc_core (?w1\<lparr>lcHeap := (lcHeap ?w1)[?a := ?leg], lcCommitted := lcCommitted ?w1\<rparr>) K"
      proof (rule core_upd [OF w1])
        show "?a < length (lcHeap ?w1)" using a by simp
        then show "wf_gomap (alLaunches ?leg)" using core_wf_launches [OF w1] by simp
        show "alLaunches ?leg = [] \<and> alBlegs ?leg = []" if "alCanceled ?leg" using that False by simp
        show "map_of (alLaunches (lcHeap ?w1 ! ?a)) i = Some y \<and> y \<notin> K" if "map_of (alLaunches ?leg) i = Some y" for i y
          using core_launch [OF w1, of ?a i y] a that by simp
      qed auto
      ultimately show ?thesis by simp
    qed
  qed
qed

section \<open>Every step keeps the invariant\<close>

lemma dying_add [simp]:
  "dying w (add_mset (TaskCancel e) T) = insert e (dying w T)"
  "dying w (add_mset (TaskTear b c) T) = dying w T"
  "dying w (add_mset (TaskCommit e h) T) = dying w T"
  "dying w (add_mset (TaskAbort e) T) = dying w T"
  by (auto simp: dying_def)

lemma dying_cong: "lcCancelled w' = lcCancelled w \<Longrightarrow> dying w' T = dying w T"
  by (simp add: dying_def)

lemma dying_more: "lcCancelled w' = lcCancelled w \<union> X \<Longrightarrow> dying w' T = dying w T \<union> X"
  by (auto simp: dying_def)

lemma task_ok_mono:
  "length (lcPermits w) \<le> length (lcPermits w') \<Longrightarrow> task_ok w t \<Longrightarrow> task_ok w' t"
  by (cases t) auto

lemma lc_invI:
  assumes "lc_inv (w, T)" "lc_core w' (dying w' T)" "length (lcPermits w) \<le> length (lcPermits w')"
  shows "lc_inv (w', T)"
  using assms by (auto simp: lc_inv_def intro: task_ok_mono)

lemma lc_inv_core: "lc_inv (w, T) \<Longrightarrow> lc_core w (dying w T)"
  by (simp add: lc_inv_def)

lemma StartALeg_frame [simp]:
  "lcCancelled (snd (StartALeg i w)) = lcCancelled w" "lcPermits (snd (StartALeg i w)) = lcPermits w"
  "lcTorn (snd (StartALeg i w)) = lcTorn w" "lcCommitted (snd (StartALeg i w)) = lcCommitted w"
  by (simp_all add: StartALeg_def split: option.splits)

lemma EndALeg_frame [simp]:
  "lcCancelled (EndALeg i w) = lcCancelled w" "lcPermits (EndALeg i w) = lcPermits w"
  "lcTorn (EndALeg i w) = lcTorn w" "lcCommitted (EndALeg i w) = lcCommitted w" "lcHeap (EndALeg i w) = lcHeap w"
  by (simp_all add: EndALeg_def)

lemma register_frame:
  "register_locked a ctx i h w = (r, w') \<Longrightarrow>
   lcCancelled w' = lcCancelled w \<and> lcPermits w' = lcPermits w \<and> lcCommitted w' = lcCommitted w \<and> lcTorn w' = lcTorn w"
  by (auto simp: register_locked_def Let_def upd_leg_def split: if_splits option.splits)

lemma cancel_locked_frame:
  "cancel_locked itL itB a c w = Some (ls, bs, w') \<Longrightarrow>
   lcCancelled w' = lcCancelled w \<and> lcPermits w' = lcPermits w \<and> lcCommitted w' = lcCommitted w \<and> lcTorn w' = lcTorn w"
  by (auto simp: cancel_locked_def Let_def upd_leg_def split: if_splits)

lemma dying_cancel_tasks:
  "dying w (mset (map TaskCancel ls) + mset (map (\<lambda>b. TaskTear b c) bs) + T) = dying w T \<union> set ls"
  by (auto simp: dying_def)

lemma run_task_inv:
  assumes inv: "lc_inv (w, add_mset t T)" and run: "run_task t w = (w', ts)"
  shows "lc_inv (w', mset ts + T)"
proof -
  have core: "lc_core w (dying w (add_mset t T))" and t: "task_ok w t" and T: "\<forall>x \<in># T. task_ok w x"
    using inv by (auto simp: lc_inv_def)
  show ?thesis
  proof (cases t)
    case (TaskCancel e)
    with run have w': "w' = cancel_ctx e w" "ts = []" by auto
    have "dying w' T = dying w (add_mset t T)" by (auto simp: w' TaskCancel cancel_ctx_def dying_def)
    with core core_same [of w' w] have "lc_core w' (dying w' T)" by (simp add: w' cancel_ctx_def)
    with w' T show ?thesis by (auto simp: lc_inv_def cancel_ctx_def intro: task_ok_mono)
  next
    case (TaskTear b c)
    with run have w': "w' = torn b c w" "ts = []" by auto
    with core TaskTear core_same [of w' w] have "lc_core w' (dying w' T)"
      by (simp add: torn_def dying_def)
    with w' T show ?thesis by (auto simp: lc_inv_def torn_def intro: task_ok_mono)
  next
    case (TaskCommit e h)
    then have e: "e < length (lcPermits w)" using t by simp
    obtain r where c: "commit_locked e h w = (r, w')" and ts: "ts = (if r = None then [] else [TaskCancel e])"
      using run TaskCommit by (auto split: prod.splits)
    have "lc_core w (dying w T)" using core TaskCommit by simp
    from core_commit [OF this e c] have "lc_core w' (dying w' (mset ts + T))" "lcPermits w' = lcPermits w"
      by (auto simp: ts dying_cong [of w' w])
    with T show ?thesis by (auto simp: lc_inv_def ts intro: task_ok_mono)
  next
    case (TaskAbort e)
    then have e: "e < length (lcPermits w)" and w': "w' = drop_launch e w" "ts = [TaskCancel e]" using t run by auto
    have "lc_core w (dying w T)" using core TaskAbort by simp
    then have "lc_core (drop_launch e w\<lparr>lcCommitted := lcCommitted w\<rparr>) (insert e (dying w T))"
      by (rule core_drop [OF _ e]) auto
    then have "lc_core w' (dying w' (mset ts + T))"
      using core_same [of "drop_launch e w\<lparr>lcCommitted := lcCommitted w\<rparr>" "drop_launch e w"]
      by (simp add: w' dying_cong [of "drop_launch e w" w])
    with T show ?thesis by (auto simp: lc_inv_def w' intro: task_ok_mono)
  qed
qed

lemma lc_step_inv: "lc_step s s' \<Longrightarrow> lc_inv s \<Longrightarrow> lc_inv s'"
proof (induction rule: lc_step.induct)
  case (ls_start w T i)
  then show ?case using core_start [OF lc_inv_core] by (intro lc_invI [OF ls_start]) (simp_all add: dying_def)
next
  case (ls_end w T i)
  then show ?case using core_end [OF lc_inv_core] by (intro lc_invI [OF ls_end]) (simp_all add: dying_def)
next
  case (ls_begin a w T i)
  show ?case
  proof (cases "alCanceled (lcHeap w ! a)")
    case True
    with ls_begin show ?thesis by (simp add: begin_canceled)
  next
    case False
    note f = begin_fields [OF False, of i]
    have "lc_core (snd (begin_locked a i w)) (dying (snd (begin_locked a i w)) T)"
      using core_begin [OF lc_inv_core [OF ls_begin(2)] ls_begin(1) False, of i] by (simp add: dying_more [OF f(5)])
    then show ?thesis by (rule lc_invI [OF ls_begin(2)]) (simp add: f)
  qed
next
  case (ls_commit e w T h)
  then show ?case by (auto simp: lc_inv_def core_settle dying_cong [of "settle e w" w] intro: task_ok_mono [of w])
next
  case (ls_abort e w T)
  then show ?case by (auto simp: lc_inv_def core_settle dying_cong [of "settle e w" w] intro: task_ok_mono [of w])
next
  case (ls_register a w ctx i h w' T)
  from core_register [OF lc_inv_core [OF ls_register(3)] ls_register(1,2)] register_frame [OF ls_register(2)]
  show ?case by (intro lc_invI [OF ls_register(3)]) (simp_all add: dying_def)
next
  case (ls_refuse a w ctx i h r w' T c)
  from core_register [OF lc_inv_core [OF ls_refuse(4)] ls_refuse(1,2)] register_frame [OF ls_refuse(2)] ls_refuse(4)
  show ?case by (auto simp: lc_inv_def dying_cong [of w' w] intro: task_ok_mono [of w])
next
  case (ls_cancel a w itL itB c ls bs w' T)
  from cancel_locked_frame [OF ls_cancel(4)]
  have f: "lcCancelled w' = lcCancelled w" "lcPermits w' = lcPermits w" by auto
  from core_cancel [OF lc_inv_core [OF ls_cancel(5)] ls_cancel(1,2,4)] f(1)
  have "lc_core w' (dying w' (mset (map TaskCancel ls) + mset (map (\<lambda>b. TaskTear b c) bs) + T))"
    by (simp only: dying_cancel_tasks dying_cong [of w' w])
  moreover have "\<forall>t \<in># T. task_ok w' t" using ls_cancel(5) f(2) by (auto simp: lc_inv_def intro: task_ok_mono)
  ultimately show ?case by (auto simp: lc_inv_def simp del: mset_map)
next
  case (ls_release a w T i)
  note r = core_release [OF lc_inv_core [OF ls_release(2)] ls_release(1), of i]
  show ?case by (rule lc_invI [OF ls_release(2)]) (use r in \<open>simp_all add: dying_more [OF r(2)]\<close>)
next
  case (ls_task t w w' ts T)
  then show ?case by (intro run_task_inv)
qed

lemma lc_init_inv: "lc_init s \<Longrightarrow> lc_inv s"
  by (auto simp: lc_init_def lc_inv_def NewCoordinator_def dying_def core_defs)

interpretation lifecycle: step_invariant lc_init lc_step lc_inv
  by unfold_locales (auto intro: lc_init_inv lc_step_inv)

section \<open>A canceled leg stays canceled\<close>

definition leg_canceled :: "aleg_ptr \<Rightarrow> CancelCause option \<Rightarrow> Lifecycle \<Rightarrow> bool" where
  "leg_canceled a c w \<longleftrightarrow> a < length (lcHeap w) \<and> alCanceled (lcHeap w ! a) \<and> alCause (lcHeap w ! a) = c"

definition committed_of :: "aleg_ptr \<Rightarrow> Lifecycle \<Rightarrow> permit_ptr set" where
  "committed_of a w = {e \<in> lcCommitted w. e < length (lcPermits w) \<and> lpALeg (lcPermits w ! e) = a}"

definition leg_dead :: "aleg_ptr \<Rightarrow> CancelCause option \<Rightarrow> permit_ptr set \<Rightarrow> Lifecycle \<times> lc_task multiset \<Rightarrow> bool" where
  "leg_dead a c C s \<longleftrightarrow> lc_inv s \<and> leg_canceled a c (fst s) \<and> committed_of a (fst s) \<subseteq> C"

lemma leg_canceled_upd:
  "leg_canceled a c w \<Longrightarrow> lcHeap w' = (lcHeap w)[b := leg] \<Longrightarrow>
   (b = a \<Longrightarrow> alCanceled leg \<and> alCause leg = c) \<Longrightarrow> leg_canceled a c w'"
  by (auto simp: leg_canceled_def nth_upd)

lemma committed_of_cong:
  "lcCommitted w' = lcCommitted w \<Longrightarrow> lcPermits w' = lcPermits w \<Longrightarrow> committed_of a w' = committed_of a w"
  by (simp add: committed_of_def)

lemma dead_begin:
  assumes "leg_canceled a c w" "lc_core w K" "b < length (lcHeap w)"
  shows "leg_canceled a c (snd (begin_locked b i w)) \<and> committed_of a (snd (begin_locked b i w)) \<subseteq> committed_of a w"
proof (cases "alCanceled (lcHeap w ! b)")
  case True
  with assms show ?thesis by (simp add: begin_canceled)
next
  case False
  note f = begin_fields [OF False, of i]
  have "a \<noteq> b" using assms(1) False by (auto simp: leg_canceled_def)
  then have "leg_canceled a c (snd (begin_locked b i w))" by (intro leg_canceled_upd [OF assms(1) f(2)]) auto
  moreover have "committed_of a (snd (begin_locked b i w)) \<subseteq> committed_of a w"
    using \<open>a \<noteq> b\<close> by (auto simp: committed_of_def f nth_append less_Suc_eq)
  ultimately show ?thesis by blast
qed

lemma dead_commit:
  assumes "leg_canceled a c w" "commit_locked e h w = (r, w')" "e < length (lcPermits w)" "lc_core w K"
  shows "leg_canceled a c w' \<and> committed_of a w' \<subseteq> committed_of a w"
proof (cases "alCanceled (lcHeap w ! lpALeg (lcPermits w ! e))")
  case True
  with assms(2) have "w' = drop_launch e w" by (simp add: commit_locked_def Let_def)
  with assms(1) show ?thesis by (simp add: leg_canceled_def committed_of_def)
next
  case False
  let ?b = "lpALeg (lcPermits w ! e)"
  have ab: "a \<noteq> ?b" using assms(1) False by (auto simp: leg_canceled_def)
  have d: "leg_canceled a c (drop_launch e w)" using assms(1) by (simp add: leg_canceled_def)
  have C: "lcCommitted w' = insert e (lcCommitted w)" "lcPermits w' = lcPermits w"
    and "lcHeap w' = (case h of None \<Rightarrow> lcHeap (drop_launch e w)
      | Some x \<Rightarrow> (lcHeap (drop_launch e w))[?b := (lcHeap (drop_launch e w) ! ?b)
          \<lparr>alBlegs := AList.update (lpBLegID (lcPermits w ! e)) x (alBlegs (lcHeap (drop_launch e w) ! ?b))\<rparr>])"
    using assms(2) False by (auto simp: commit_locked_def Let_def upd_leg_def split: option.splits)
  then have "leg_canceled a c w'" using d ab by (auto simp: leg_canceled_def split: option.splits)
  with C ab show ?thesis by (auto simp: committed_of_def)
qed

lemma dead_release:
  assumes "leg_canceled a c w" "b < length (lcHeap w)"
  shows "leg_canceled a c (release_locked b i w) \<and> committed_of a (release_locked b i w) = committed_of a w"
  using assms by (auto simp: leg_canceled_def committed_of_def release_locked_def Let_def upd_leg_def cancel_ctx_def
      nth_upd split: option.splits)

lemma dead_register:
  assumes "leg_canceled a c w" "register_locked b ctx i h w = (r, w')"
  shows "leg_canceled a c w' \<and> committed_of a w' = committed_of a w"
  using assms by (auto simp: leg_canceled_def committed_of_def register_locked_def Let_def upd_leg_def nth_upd
      split: option.splits if_splits)

lemma dead_cancel:
  assumes "leg_canceled a c w" "cancel_locked itL itB b c' w = Some (ls, bs, w')"
  shows "leg_canceled a c w' \<and> committed_of a w' = committed_of a w"
  using assms by (auto simp: leg_canceled_def committed_of_def cancel_locked_def Let_def upd_leg_def nth_upd
      split: if_splits)

lemma dead_task:
  assumes "leg_canceled a c w" "run_task t w = (w', ts)" "task_ok w t" "lc_core w K"
  shows "leg_canceled a c w' \<and> committed_of a w' \<subseteq> committed_of a w"
proof (cases t)
  case (TaskCommit e h)
  with assms(2) obtain r where "commit_locked e h w = (r, w')" by (auto split: prod.splits)
  with dead_commit [OF assms(1)] assms(3,4) TaskCommit show ?thesis by auto
qed (use assms in \<open>auto simp: leg_canceled_def committed_of_def cancel_ctx_def torn_def\<close>)

lemma dead_step: "lc_step s s' \<Longrightarrow> leg_dead a c C s \<Longrightarrow> leg_dead a c C s'"
proof -
  assume st: "lc_step s s'" and dead: "leg_dead a c C s"
  then have inv: "lc_inv s" "lc_inv s'" by (auto simp: leg_dead_def intro: lc_step_inv)
  from st dead have "leg_canceled a c (fst s') \<and> committed_of a (fst s') \<subseteq> C"
  proof (cases rule: lc_step.cases)
    case (ls_start w T i)
    with dead show ?thesis
      by (auto simp: leg_dead_def leg_canceled_def committed_of_def StartALeg_def nth_append split: option.splits)
  next
    case (ls_begin b w T i)
    with dead_begin [of a c w _ b i] dead show ?thesis by (fastforce simp: leg_dead_def lc_inv_def)
  next
    case (ls_register b w ctx i h w' T)
    with dead_register [of a c w b ctx i h] dead show ?thesis by (fastforce simp: leg_dead_def)
  next
    case (ls_refuse b w ctx i h r w' T d)
    with dead_register [of a c w b ctx i h] dead show ?thesis by (fastforce simp: leg_dead_def)
  next
    case (ls_cancel b w itL itB d ls bs w' T)
    with dead_cancel [of a c w itL itB b d] dead show ?thesis by (fastforce simp: leg_dead_def)
  next
    case (ls_release b w T i)
    with dead_release [of a c w b i] dead show ?thesis by (fastforce simp: leg_dead_def)
  next
    case (ls_task t w w' ts T)
    with dead_task [of a c w t] dead show ?thesis by (fastforce simp: leg_dead_def lc_inv_def)
  qed (use dead in \<open>auto simp: leg_dead_def leg_canceled_def committed_of_def\<close>)
  with inv show ?thesis by (simp add: leg_dead_def)
qed

interpretation dead_leg: step_invariant "leg_dead a c C" lc_step "leg_dead a c C" for a c C
  by unfold_locales (auto intro: dead_step)

section \<open>Methods are runs of steps\<close>

lemma run_cancels: "lc_step\<^sup>*\<^sup>* (w, mset (map TaskCancel ls) + T) (fold cancel_ctx ls w, T)"
proof (induction ls arbitrary: w)
  case (Cons e ls)
  have "lc_step (w, add_mset (TaskCancel e) (mset (map TaskCancel ls) + T))
      (cancel_ctx e w, mset [] + (mset (map TaskCancel ls) + T))"
    by (rule ls_task) simp
  then show ?case using Cons.IH [of "cancel_ctx e w"] by (simp add: converse_rtranclp_into_rtranclp)
qed simp

lemma run_tears: "lc_step\<^sup>*\<^sup>* (w, mset (map (\<lambda>b. TaskTear b c) bs) + T) (fold (\<lambda>b. torn b c) bs w, T)"
proof (induction bs arbitrary: w)
  case (Cons b bs)
  have "lc_step (w, add_mset (TaskTear b c) (mset (map (\<lambda>b. TaskTear b c) bs) + T))
      (torn b c w, mset [] + (mset (map (\<lambda>b. TaskTear b c) bs) + T))"
    by (rule ls_task) simp
  then show ?case using Cons.IH [of "torn b c w"] by (simp add: converse_rtranclp_into_rtranclp)
qed simp

lemma lc_then: "lc_step s t \<Longrightarrow> lc_step\<^sup>*\<^sup>* t u \<Longrightarrow> lc_step\<^sup>*\<^sup>* s u"
  by (rule converse_rtranclp_into_rtranclp)

lemma one_task: "run_task t w = (w', ts) \<Longrightarrow> lc_step\<^sup>*\<^sup>* (w', mset ts + T) s \<Longrightarrow> lc_step\<^sup>*\<^sup>* (w, add_mset t T) s"
  using lc_then [OF ls_task] by blast

lemma Commit_run:
  assumes "e < length (lcPermits w)"
  shows "lc_step\<^sup>*\<^sup>* (w, T) (snd (Commit (Some e) h w), T)"
proof (cases "lpSettled (lcPermits w ! e)")
  case False
  obtain r w1 where c: "commit_locked e h (settle e w) = (r, w1)" by fastforce
  have "lc_step (w, T) (settle e w, add_mset (TaskCommit e h) T)" using assms False by (rule ls_commit)
  moreover have "lc_step\<^sup>*\<^sup>* (settle e w, add_mset (TaskCommit e h) T) (snd (Commit (Some e) h w), T)"
  proof (cases r)
    case None
    then show ?thesis using c False by (intro one_task) (auto simp: Commit_def)
  next
    case (Some cause)
    then have "run_task (TaskCommit e h) (settle e w) = (w1, [TaskCancel e])" using c by simp
    moreover have "lc_step\<^sup>*\<^sup>* (w1, add_mset (TaskCancel e) T) (cancel_ctx e w1, T)"
      using run_cancels [of w1 "[e]" T] by simp
    ultimately show ?thesis using one_task [of _ "settle e w"] c False Some by (simp add: Commit_def)
  qed
  ultimately show ?thesis by (rule converse_rtranclp_into_rtranclp)
qed (simp add: Commit_def)

lemma Abort_run:
  assumes "e < length (lcPermits w)"
  shows "lc_step\<^sup>*\<^sup>* (w, T) (Abort (Some e) w, T)"
proof (cases "lpSettled (lcPermits w ! e)")
  case False
  have "lc_step\<^sup>*\<^sup>* (drop_launch e (settle e w), add_mset (TaskCancel e) T)
      (cancel_ctx e (drop_launch e (settle e w)), T)"
    using run_cancels [of "drop_launch e (settle e w)" "[e]" T] by simp
  then have "lc_step\<^sup>*\<^sup>* (settle e w, add_mset (TaskAbort e) T) (Abort (Some e) w, T)"
    using False by (intro one_task) (auto simp: Abort_def)
  moreover have "lc_step (w, T) (settle e w, add_mset (TaskAbort e) T)" using assms False by (rule ls_abort)
  ultimately show ?thesis by (metis converse_rtranclp_into_rtranclp)
qed (simp add: Abort_def)

lemma Register_run:
  assumes "a < length (lcHeap w)"
  shows "lc_step\<^sup>*\<^sup>* (w, T) (snd (RegisterBLeg streams now (Some a) ctx i (Some h) w), T)"
proof -
  obtain r w1 where rl: "register_locked a ctx i h w = (r, w1)" by fastforce
  show ?thesis
  proof (cases "r = Inr None")
    case True
    with rl ls_register [OF assms, of ctx i h w1 T] show ?thesis by (auto simp: RegisterBLeg_def)
  next
    case False
    then obtain c where "snd (RegisterBLeg streams now (Some a) ctx i (Some h) w) = torn h c w1"
      using rl by (cases r) (auto simp: RegisterBLeg_def split: option.splits)
    moreover have "lc_step (w, T) (w1, add_mset (TaskTear h c) T)" using assms rl False by (rule ls_refuse)
    moreover have "lc_step\<^sup>*\<^sup>* (w1, add_mset (TaskTear h c) T) (torn h c w1, T)"
      using run_tears [of w1 c "[h]" T] by simp
    ultimately show ?thesis by (metis converse_rtranclp_into_rtranclp)
  qed
qed

lemma Cancel_run:
  assumes "a < length (lcHeap w)" "range_order itL" "range_order itB"
  shows "lc_step\<^sup>*\<^sup>* (w, T) (snd (ALeg_Cancel itL itB streams now ctx c (Some a) w), T)"
proof (cases "cancel_locked itL itB a (normal_cause c) w")
  case (Some r)
  obtain ls bs w1 where r: "r = (ls, bs, w1)" by (cases r)
  let ?C = "mset (map TaskCancel ls)" and ?B = "mset (map (\<lambda>b. TaskTear b (normal_cause c)) bs)"
  have "lc_step (w, T) (w1, ?C + ?B + T)" using assms Some unfolding r by (rule ls_cancel)
  also have "lc_step\<^sup>*\<^sup>* (w1, ?C + ?B + T) (fold cancel_ctx ls w1, ?B + T)"
    using run_cancels [of w1 ls "?B + T"] by (simp only: add.assoc)
  also have "lc_step\<^sup>*\<^sup>* (fold cancel_ctx ls w1, ?B + T)
      (fold (\<lambda>b. torn b (normal_cause c)) bs (fold cancel_ctx ls w1), T)" by (rule run_tears)
  finally show ?thesis using Some r by (simp add: ALeg_Cancel_def Let_def)
qed (simp add: ALeg_Cancel_def)

lemma CancelALeg_run:
  assumes "lc_inv (w, T)" "range_order itL" "range_order itB"
  shows "lc_step\<^sup>*\<^sup>* (w, T) (snd (CancelALeg itL itB streams now ctx i c w), T)"
proof -
  have "fst (StartALeg i w) < length (lcHeap (snd (StartALeg i w)))"
    using core_registered [OF lc_inv_core [OF assms(1)], of i] by (auto simp: StartALeg_def split: option.splits)
  from Cancel_run [OF this assms(2,3)] show ?thesis
    using lc_then [OF ls_start [of w T i]] by (simp add: CancelALeg_def case_prod_beta)
qed


section \<open>Properties\<close>

text \<open>
  C30: Cancellation is final under every interleaving. Once an A-leg is canceled, whatever
  methods run or are still running on it, it stays canceled with the cause of the first
  cancel and holds neither launches nor attempts. As soon as no method is in flight, each
  launch ever begun on the leg has its context cancelled, unless it was committed before.
\<close>

theorem leg_cancel_final:
  assumes "reach lc_init lc_step (w, T)" "a < length (lcHeap w)" "alCanceled (lcHeap w ! a)"
    and "lc_step\<^sup>*\<^sup>* (w, T) (w', T')"
  shows "alCanceled (lcHeap w' ! a) \<and> alCause (lcHeap w' ! a) = alCause (lcHeap w ! a)
    \<and> alLaunches (lcHeap w' ! a) = [] \<and> alBlegs (lcHeap w' ! a) = []
    \<and> (T' = {#} \<longrightarrow> (\<forall>e < length (lcPermits w'). lpALeg (lcPermits w' ! e) = a \<longrightarrow>
         e \<in> lcCancelled w' \<or> e \<in> lcCommitted w))"
proof -
  have "leg_dead a (alCause (lcHeap w ! a)) (committed_of a w) (w, T)"
    using assms(2,3) lifecycle.reach_inv [OF assms(1)] by (simp add: leg_dead_def leg_canceled_def)
  from dead_leg.inv_rtranclp [OF assms(4) this]
  have core: "lc_core w' (dying w' T')" and c: "leg_canceled a (alCause (lcHeap w ! a)) w'"
    and C: "committed_of a w' \<subseteq> committed_of a w"
    by (auto simp: leg_dead_def lc_inv_def)
  from c have a: "a < length (lcHeap w')" "alCanceled (lcHeap w' ! a)" by (auto simp: leg_canceled_def)
  note empty = core_canceled [OF core a]
  have "e \<in> lcCancelled w' \<or> e \<in> lcCommitted w"
    if "T' = {#}" "e < length (lcPermits w')" "lpALeg (lcPermits w' ! e) = a" for e
    using core_no_leak [OF core that(2)] that C empty
    by (auto simp: dying_def held_launch_def committed_of_def)
  with c empty show ?thesis by (simp add: leg_canceled_def)
qed

definition sample_streams :: "attempt_ptr \<Rightarrow> ManagedEventStream" where
  "sample_streams b = \<lparr>msReturnsWithin = (\<lambda>c d. b < 8), msCancel = (\<lambda>c. \<lparr>Mode = ''provider'', crErr = None\<rparr>),
     msClose = (if b = 9 then Some (StreamErr ''reset'') else None)\<rparr>"

definition sample_launched :: Lifecycle where
  "sample_launched =
     snd (Commit (Some 0) (Some 7) (snd (BeginBLegLaunch (Some 0) ''b2''
       (snd (BeginBLegLaunch (Some 0) ''b1'' (snd (StartALeg ''A'' (NewCoordinator 0))))))))"

definition sample_canceled :: Lifecycle where
  "sample_canceled = snd (ALeg_Cancel (\<lambda>m. m) (\<lambda>m. m) sample_streams 0 None zero_cause (Some 0) sample_launched)"

lemma BeginBLegLaunch_run:
  "a < length (lcHeap w) \<Longrightarrow> lc_step\<^sup>*\<^sup>* (w, T) (snd (BeginBLegLaunch (Some a) i w), T)"
  using ls_begin [of a w T i] by (auto simp: BeginBLegLaunch_def split: prod.splits option.splits)

lemma sample_launched_eq:
  "sample_launched = \<lparr>lcTimeout = 0, lcAlegs = [(''A'', 0)],
     lcHeap = [\<lparr>alID = ''A'', alCanceled = False, alCause = None, alLaunches = [(''b2'', 1)], alBlegs = [(''b1'', 7)]\<rparr>],
     lcPermits = [\<lparr>lpALeg = 0, lpBLegID = ''b1'', lpSettled = True\<rparr>, \<lparr>lpALeg = 0, lpBLegID = ''b2'', lpSettled = False\<rparr>],
     lcCancelled = {}, lcTorn = [], lcCommitted = {0}\<rparr>"
  by (simp add: sample_launched_def NewCoordinator_def StartALeg_def BeginBLegLaunch_def begin_locked_def
      Commit_def commit_locked_def drop_launch_def settle_def upd_leg_def cancel_ctx_def new_aleg_def Let_def)

lemma sample_launched_reach: "reach lc_init lc_step (sample_launched, {#})"
proof -
  let ?w1 = "snd (StartALeg ''A'' (NewCoordinator 0))"
  let ?w2 = "snd (BeginBLegLaunch (Some 0) ''b1'' ?w1)"
  let ?w3 = "snd (BeginBLegLaunch (Some 0) ''b2'' ?w2)"
  have "reach lc_init lc_step (NewCoordinator 0, {#})" by (rule reach_init) (auto simp: lc_init_def)
  then have r1: "reach lc_init lc_step (?w1, {#})" by (rule reach_step) (rule ls_start)
  have r2: "reach lc_init lc_step (?w2, {#})"
    by (rule reach_rtranclp [OF BeginBLegLaunch_run r1]) (simp add: StartALeg_def NewCoordinator_def)
  have r3: "reach lc_init lc_step (?w3, {#})"
    by (rule reach_rtranclp [OF BeginBLegLaunch_run r2])
      (simp add: StartALeg_def NewCoordinator_def BeginBLegLaunch_def begin_locked_def Let_def upd_leg_def new_aleg_def)
  show ?thesis unfolding sample_launched_def
    by (rule reach_rtranclp [OF Commit_run r3])
      (simp add: StartALeg_def NewCoordinator_def BeginBLegLaunch_def begin_locked_def Let_def upd_leg_def new_aleg_def)
qed

lemma sample_canceled_eq:
  "sample_canceled = sample_launched\<lparr>
     lcHeap := [\<lparr>alID = ''A'', alCanceled = True, alCause = Some context_done_cause, alLaunches = [], alBlegs = []\<rparr>],
     lcCancelled := {1}, lcTorn := [(7, context_done_cause)]\<rparr>"
  by (simp add: sample_canceled_def sample_launched_eq ALeg_Cancel_def cancel_locked_def Let_def upd_leg_def
      cancel_ctx_def torn_def normal_cause_def zero_cause_def context_done_cause_def CancelContextDone_def)

theorem leg_cancel_final_witness:
  "alCanceled (lcHeap (snd (Commit (Some 1) (Some 8) sample_canceled)) ! 0)
   \<and> alCause (lcHeap (snd (Commit (Some 1) (Some 8) sample_canceled)) ! 0) = Some context_done_cause
   \<and> alBlegs (lcHeap (snd (Commit (Some 1) (Some 8) sample_canceled)) ! 0) = []
   \<and> 1 \<in> lcCancelled (snd (Commit (Some 1) (Some 8) sample_canceled))"
proof -
  let ?w = "snd (Commit (Some 1) (Some 8) sample_canceled)"
  have r: "reach lc_init lc_step (sample_canceled, {#})" unfolding sample_canceled_def
    by (rule reach_rtranclp [OF Cancel_run sample_launched_reach]) (auto simp: sample_launched_eq)
  have s: "lc_step\<^sup>*\<^sup>* (sample_canceled, {#}) (?w, {#})"
    by (rule Commit_run) (simp add: sample_canceled_eq sample_launched_eq)
  have h: "0 < length (lcHeap sample_canceled)" "alCanceled (lcHeap sample_canceled ! 0)"
    "alCause (lcHeap sample_canceled ! 0) = Some context_done_cause" "lcCommitted sample_canceled = {0}"
    by (simp_all add: sample_canceled_eq sample_launched_eq)
  have p: "1 < length (lcPermits ?w)" "lpALeg (lcPermits ?w ! 1) = 0"
    by (simp_all add: sample_canceled_eq sample_launched_eq Commit_def commit_locked_def Let_def drop_launch_def
        settle_def cancel_ctx_def)
  show ?thesis using leg_cancel_final [OF r h(1,2) s] h(3,4) p by auto
qed

text \<open>
  Methods are sequences of atomic pieces. Every method of the coordinator, its legs and
  its permits, run to the end while other methods are in flight, is a run of the
  interleaving relation that leaves the others' pending work alone.
\<close>

theorem lifecycle_methods_refine_steps:
  assumes "reach lc_init lc_step (w, T)" "a < length (lcHeap w)" "e < length (lcPermits w)"
    and "range_order itL" "range_order itB"
  shows "lc_step\<^sup>*\<^sup>* (w, T) (snd (BeginBLegLaunch (Some a) i w), T)
    \<and> lc_step\<^sup>*\<^sup>* (w, T) (snd (Commit (Some e) handle w), T)
    \<and> lc_step\<^sup>*\<^sup>* (w, T) (Abort (Some e) w, T)
    \<and> lc_step\<^sup>*\<^sup>* (w, T) (snd (RegisterBLeg streams now (Some a) ctx i (Some h) w), T)
    \<and> lc_step\<^sup>*\<^sup>* (w, T) (snd (CancelALeg itL itB streams now ctx i cause w), T)
    \<and> lc_step\<^sup>*\<^sup>* (w, T) (snd (ALeg_Cancel itL itB streams now ctx cause (Some a) w), T)
    \<and> lc_step\<^sup>*\<^sup>* (w, T) (ReleaseBLeg (Some a) i w, T)
    \<and> lc_step\<^sup>*\<^sup>* (w, T) (ALeg_End (Some a) w, T)"
proof (intro conjI)
  show "lc_step\<^sup>*\<^sup>* (w, T) (ReleaseBLeg (Some a) i w, T)"
    using ls_release [OF assms(2)] by (simp add: ReleaseBLeg_def r_into_rtranclp)
  show "lc_step\<^sup>*\<^sup>* (w, T) (ALeg_End (Some a) w, T)"
    using ls_end by (simp add: ALeg_End_def r_into_rtranclp)
qed (use assms lifecycle.reach_inv in
    \<open>auto intro: BeginBLegLaunch_run Commit_run Abort_run Register_run CancelALeg_run Cancel_run\<close>)

theorem lifecycle_methods_refine_steps_witness:
  "lc_step\<^sup>*\<^sup>* (sample_launched, {#}) (snd (CancelALeg rev rev sample_streams 5 None ''A'' zero_cause sample_launched), {#})
   \<and> lcTorn (snd (CancelALeg rev rev sample_streams 5 None ''A'' zero_cause sample_launched)) = [(7, context_done_cause)]"
proof
  show "lc_step\<^sup>*\<^sup>* (sample_launched, {#})
      (snd (CancelALeg rev rev sample_streams 5 None ''A'' zero_cause sample_launched), {#})"
    using lifecycle_methods_refine_steps [OF sample_launched_reach, of 0 1 rev rev]
    by (simp add: sample_launched_eq)
  show "lcTorn (snd (CancelALeg rev rev sample_streams 5 None ''A'' zero_cause sample_launched)) = [(7, context_done_cause)]"
    by (simp add: CancelALeg_def StartALeg_def sample_launched_eq ALeg_Cancel_def cancel_locked_def Let_def upd_leg_def
        cancel_ctx_def torn_def normal_cause_def zero_cause_def context_done_cause_def CancelContextDone_def)
qed

lemma fold_cancel_ctx: "fold cancel_ctx ls w = w\<lparr>lcCancelled := lcCancelled w \<union> set ls\<rparr>"
  by (induction ls arbitrary: w) (auto simp: cancel_ctx_def)

lemma fold_torn: "fold (\<lambda>b. torn b c) bs w = w\<lparr>lcTorn := lcTorn w @ map (\<lambda>b. (b, c)) bs\<rparr>"
  by (induction bs arbitrary: w) (auto simp: torn_def)

lemma Cancel_state:
  assumes "range_order itL" "\<not> alCanceled (lcHeap w ! a)"
  shows "snd (ALeg_Cancel itL itB streams now ctx cause (Some a) w) = w\<lparr>
      lcHeap := (lcHeap w)[a := (lcHeap w ! a)\<lparr>alCanceled := True, alCause := Some (normal_cause cause),
        alLaunches := [], alBlegs := []\<rparr>],
      lcCancelled := lcCancelled w \<union> snd ` set (alLaunches (lcHeap w ! a)),
      lcTorn := lcTorn w @ map (\<lambda>b. (snd b, normal_cause cause)) (itB (alBlegs (lcHeap w ! a)))\<rparr>"
  using assms by (simp add: ALeg_Cancel_def cancel_locked_def Let_def fold_cancel_ctx fold_torn upd_leg_def
      range_order_set o_def)

lemma errors_Join_pair [simp]:
  "errors_Join [None, None] = None" "errors_Join [None, Some e] = Some (Joined [e])"
  "errors_Join [Some e, None] = Some (Joined [e])" "errors_Join [Some e, Some f] = Some (Joined [e, f])"
  by (simp_all add: errors_Join_def map_filter_simps)

lemma errors_Join_pair_None: "errors_Join [x, y] = None \<longleftrightarrow> x = None \<and> y = None"
  by (cases x; cases y) simp_all

lemma fold_join_None:
  "foldl (\<lambda>acc err. errors_Join [acc, err]) x errs = None \<longleftrightarrow> x = None \<and> (\<forall>y \<in> set errs. y = None)"
  by (induction errs arbitrary: x) (auto simp: errors_Join_pair_None)

lemma cleanup_error_None: "cleanup_error errs = None \<longleftrightarrow> (\<forall>y \<in> set errs. y = None)"
  by (cases errs) (auto simp: cleanup_error_def fold_join_None errors_Join_pair_None)

text \<open>
  C31: What one cancel does. Canceling a live leg cancels the contexts of all its launches
  and tears each registered attempt down exactly once, with the given cause (a blank kind
  becomes \<open>context_done\<close>); it reports an error exactly when some teardown does. Afterwards
  the leg refuses launches, hands the cause to a late commit without taking its attempt,
  tears a late registration down, and ignores further cancels.
\<close>

theorem cancel_tears_down:
  assumes "range_order itL" "range_order itB" "a < length (lcHeap w)" "\<not> alCanceled (lcHeap w ! a)"
    and "ALeg_Cancel itL itB streams now ctx cause (Some a) w = (err, w')"
    and "e < length (lcPermits w)" "lpALeg (lcPermits w ! e) = a" "\<not> lpSettled (lcPermits w ! e)"
  shows "lcCancelled w' = lcCancelled w \<union> snd ` set (alLaunches (lcHeap w ! a))
    \<and> mset (lcTorn w') = mset (lcTorn w)
        + mset (map (\<lambda>x. (snd x, normal_cause cause)) (alBlegs (lcHeap w ! a)))
    \<and> (err = None \<longleftrightarrow> (\<forall>b \<in> snd ` set (alBlegs (lcHeap w ! a)).
         cancelAndClose streams now ctx (lcTimeout w) b (normal_cause cause) = None))
    \<and> BeginBLegLaunch (Some a) i w' = (Inl ErrALegCanceled, w')
    \<and> fst (Commit (Some e) (Some h) w') = \<lparr>Canceled = True, Cause = Some (normal_cause cause)\<rparr>
    \<and> alBlegs (lcHeap (snd (Commit (Some e) (Some h) w')) ! a) = []
    \<and> (\<exists>err2. RegisterBLeg streams now (Some a) ctx i (Some h) w' = (Some err2, torn h (normal_cause cause) w')
          \<and> errors_Is ErrALegCanceled err2)
    \<and> ALeg_Cancel itL itB streams now ctx cause2 (Some a) w' = (None, w')
    \<and> ALeg_Err (Some a) w' = Some ErrALegCanceled"
proof -
  let ?leg = "(lcHeap w ! a)\<lparr>alCanceled := True, alCause := Some (normal_cause cause), alLaunches := [], alBlegs := []\<rparr>"
  have w': "w' = w\<lparr>lcHeap := (lcHeap w)[a := ?leg],
      lcCancelled := lcCancelled w \<union> snd ` set (alLaunches (lcHeap w ! a)),
      lcTorn := lcTorn w @ map (\<lambda>b. (snd b, normal_cause cause)) (itB (alBlegs (lcHeap w ! a)))\<rparr>"
    using Cancel_state [OF assms(1,4), of itB streams now ctx cause] assms(5) by simp
  then have leg: "lcHeap w' ! a = ?leg" using assms(3) by simp
  have perm: "mset (itB m) = mset m" for m using assms(2) by (simp add: range_order_def)
  have torn: "mset (lcTorn w') = mset (lcTorn w) + mset (map (\<lambda>x. (snd x, normal_cause cause)) (alBlegs (lcHeap w ! a)))"
    by (simp add: w' perm)
  have "err = cleanup_error (map (\<lambda>b. cancelAndClose streams now ctx (lcTimeout w) b (normal_cause cause))
      (map snd (itB (alBlegs (lcHeap w ! a)))))"
    using assms(4,5) by (simp add: ALeg_Cancel_def cancel_locked_def Let_def)
  then have err: "err = None \<longleftrightarrow> (\<forall>b \<in> snd ` set (alBlegs (lcHeap w ! a)).
         cancelAndClose streams now ctx (lcTimeout w) b (normal_cause cause) = None)"
    by (simp add: cleanup_error_None range_order_set [OF assms(2)])
  have normal: "normal_cause (normal_cause cause) = normal_cause cause"
    by (simp add: normal_cause_def CancelContextDone_def)
  have reg: "\<exists>err2. RegisterBLeg streams now (Some a) ctx i (Some h) w' = (Some err2, torn h (normal_cause cause) w')
      \<and> errors_Is ErrALegCanceled err2"
    by (cases "cancelAndClose streams now ctx (lcTimeout w') h (normal_cause cause)")
      (auto simp: RegisterBLeg_def register_locked_def Let_def leg stored_cause_def normal)
  have p: "lcPermits w' = lcPermits w" by (simp add: w')
  have commit: "fst (Commit (Some e) (Some h) w') = \<lparr>Canceled = True, Cause = Some (normal_cause cause)\<rparr>"
    "alBlegs (lcHeap (snd (Commit (Some e) (Some h) w')) ! a) = []"
    using assms(6-8) by (simp_all add: Commit_def commit_locked_def Let_def p leg cancel_ctx_def)
  show ?thesis using torn err reg commit
    by (simp add: w' [symmetric] leg BeginBLegLaunch_def begin_locked_def ALeg_Cancel_def cancel_locked_def
        Let_def ALeg_Err_def) (simp add: w')
qed

theorem cancel_tears_down_witness:
  "lcCancelled sample_canceled = {1} \<and> BeginBLegLaunch (Some 0) ''b3'' sample_canceled = (Inl ErrALegCanceled, sample_canceled)
   \<and> fst (Commit (Some 1) (Some 8) sample_canceled) = \<lparr>Canceled = True, Cause = Some context_done_cause\<rparr>"
proof -
  obtain err where e: "ALeg_Cancel (\<lambda>m. m) (\<lambda>m. m) sample_streams 0 None zero_cause (Some 0) sample_launched
      = (err, sample_canceled)"
    unfolding sample_canceled_def by (metis prod.collapse)
  have n: "normal_cause zero_cause = context_done_cause"
    by (simp add: normal_cause_def zero_cause_def context_done_cause_def)
  show ?thesis
    using cancel_tears_down [OF _ _ _ _ e, of 1 "''b3''" 8] by (simp add: sample_launched_eq n)
qed

text \<open>
  Bounded teardown. The teardown of an attempt never waits longer for \<open>Cancel\<close> than the
  configured timeout (two seconds if unset) nor past the caller's deadline; it succeeds
  exactly when \<open>Cancel\<close> returned in time without error and \<open>Close\<close> did; and a \<open>Cancel\<close>
  that did not return in time is always reported as an exceeded deadline.
\<close>

theorem bounded_teardown:
  fixes streams :: "attempt_ptr \<Rightarrow> ManagedEventStream" and now :: gotime and ctx :: "GoContext option"
    and timeout :: duration and b :: attempt_ptr and cause :: CancelCause
  defines "t \<equiv> effective_timeout now ctx timeout" and "m \<equiv> streams b" and "c \<equiv> normal_cause cause"
  shows "0 \<le> t \<and> t \<le> (if timeout \<le> 0 then DefaultCancelTimeout else timeout)
    \<and> (\<forall>x d. ctx = Some x \<and> ctxDeadline x = Some d \<and> now \<le> d \<longrightarrow> now + t \<le> d)
    \<and> (cancelAndClose streams now ctx timeout b cause = None \<longleftrightarrow>
         msReturnsWithin m c t \<and> crErr (msCancel m c) = None \<and> msClose m = None)
    \<and> (\<not> msReturnsWithin m c t \<longrightarrow>
         (\<exists>e. cancelAndClose streams now ctx timeout b cause = Some e \<and> errors_Is DeadlineExceeded e))"
proof (intro conjI)
  show "0 \<le> t" "t \<le> (if timeout \<le> 0 then DefaultCancelTimeout else timeout)"
    "\<forall>x d. ctx = Some x \<and> ctxDeadline x = Some d \<and> now \<le> d \<longrightarrow> now + t \<le> d"
    by (auto simp: t_def effective_timeout_def Let_def DefaultCancelTimeout_def Second_def split: option.splits)
  show "cancelAndClose streams now ctx timeout b cause = None \<longleftrightarrow>
      msReturnsWithin m c t \<and> crErr (msCancel m c) = None \<and> msClose m = None"
    by (auto simp: cancelAndClose_def Let_def BoundedCancelAndClose_def t_def m_def c_def errors_Join_pair_None
        split: option.splits)
  show "\<not> msReturnsWithin m c t \<longrightarrow>
      (\<exists>e. cancelAndClose streams now ctx timeout b cause = Some e \<and> errors_Is DeadlineExceeded e)"
    by (auto simp: cancelAndClose_def Let_def BoundedCancelAndClose_def t_def m_def c_def
        split: option.splits)
qed

theorem bounded_teardown_witness:
  "cancelAndClose sample_streams 0 None 0 7 zero_cause = None
   \<and> (\<exists>e. cancelAndClose sample_streams 0 None 0 8 zero_cause = Some e \<and> errors_Is DeadlineExceeded e)"
  using bounded_teardown [of 0 None 0 sample_streams 7 zero_cause] bounded_teardown [of 0 None 0 sample_streams 8 zero_cause]
  by (simp add: sample_streams_def)

end
