(* ===== verification/Ingress_Defense.thy ===== *)
theory Ingress_Defense
  imports Aip_Prelude "HOL-Library.Word"
begin

text \<open>
  The adaptive defense state of \<open>internal/core/ingressdefense\<close> (\<open>policy.go\<close>,
  \<open>state.go\<close>): per-address failure windows, offense levels and quarantines in a sharded,
  bounded store with an admission ring per shard.

  Addresses and prefixes are those of \<open>net/netip\<close>: an IPv4 address is a 32-bit word, an
  IPv6 address a 128-bit word with a zone. The hash and the admission counter wrap at their
  widths of 32 and 64 bits. \<open>Time.Sub\<close> is plain subtraction: Go saturates it only for
  instants more than 292 years apart. A recording method holds one shard's lock, so it is
  one step; \<open>State.Len\<close> is read after the unlock.
\<close>

unbundle bit_operations_syntax

section \<open>Addresses and prefixes\<close>

datatype Addr = InvalidAddr | Addr4 "32 word" | Addr6 "128 word" string

fun Addr_IsValid :: "Addr \<Rightarrow> bool" where
  "Addr_IsValid InvalidAddr \<longleftrightarrow> False"
| "Addr_IsValid a \<longleftrightarrow> True"

fun Is4In6 :: "Addr \<Rightarrow> bool" where
  "Is4In6 (Addr6 w zone) \<longleftrightarrow> drop_bit 32 w = 0xFFFF"
| "Is4In6 a \<longleftrightarrow> False"

fun Unmap :: "Addr \<Rightarrow> Addr" where
  "Unmap (Addr6 w zone) = (if drop_bit 32 w = 0xFFFF then Addr4 (ucast w) else Addr6 w zone)"
| "Unmap a = a"

definition word_bytes :: "nat \<Rightarrow> 'a::len word \<Rightarrow> 8 word list" where
  "word_bytes n w = map (\<lambda>i. ucast (drop_bit (8 * (n - 1 - i)) w)) [0..<n]"

fun As16 :: "Addr \<Rightarrow> 8 word list" where
  "As16 InvalidAddr = replicate 16 0"
| "As16 (Addr4 w) = replicate 10 0 @ [0xFF, 0xFF] @ word_bytes 4 w"
| "As16 (Addr6 w zone) = word_bytes 16 w"

fun BitLen :: "Addr \<Rightarrow> nat" where
  "BitLen InvalidAddr = 0"
| "BitLen (Addr4 w) = 32"
| "BitLen (Addr6 w zone) = 128"

record Prefix =
  pfxAddr :: Addr
  pfxBits :: int

definition Prefix_IsValid :: "Prefix \<Rightarrow> bool" where
  "Prefix_IsValid p \<longleftrightarrow> 0 \<le> pfxBits p \<and> pfxBits p \<le> int (BitLen (pfxAddr p)) \<and> Addr_IsValid (pfxAddr p)"

definition keep_high :: "nat \<Rightarrow> nat \<Rightarrow> 'a::len word \<Rightarrow> 'a word" where
  "keep_high n k w = push_bit (n - k) (drop_bit (n - k) w)"

fun Masked_addr :: "nat \<Rightarrow> Addr \<Rightarrow> Addr" where
  "Masked_addr k (Addr4 w) = Addr4 (keep_high 32 k w)"
| "Masked_addr k (Addr6 w zone) = Addr6 (keep_high 128 k w) []"
| "Masked_addr k InvalidAddr = InvalidAddr"

definition Masked :: "Prefix \<Rightarrow> Prefix" where
  "Masked p = p\<lparr>pfxAddr := Masked_addr (nat (pfxBits p)) (pfxAddr p)\<rparr>"

definition Prefix_Contains :: "Prefix \<Rightarrow> Addr \<Rightarrow> bool" where
  "Prefix_Contains p ip \<longleftrightarrow> Prefix_IsValid p \<and>
     (case (pfxAddr p, ip) of
        (Addr4 v, Addr4 w) \<Rightarrow> drop_bit (32 - nat (pfxBits p)) (v XOR w) = 0
      | (Addr6 v z, Addr6 w zone) \<Rightarrow> zone = [] \<and> drop_bit (128 - nat (pfxBits p)) (v XOR w) = 0
      | _ \<Rightarrow> False)"

section \<open>Policy\<close>

datatype Reason =
  NoReason | ReasonImpossiblePath | ReasonAuthFailureThreshold | ReasonActiveQuarantine | ReasonClientIPError

definition AllReasons :: "Reason list" where
  "AllReasons = [ReasonImpossiblePath, ReasonAuthFailureThreshold, ReasonActiveQuarantine, ReasonClientIPError]"

record Policy =
  Enabled :: bool
  AuthFailures :: int
  FailureWindow :: duration
  InitialQuarantine :: duration
  MaxQuarantine :: duration
  AdaptiveExemptCIDRs :: "Prefix list"

datatype ingress_error =
  ErrAuthFailures | ErrFailureWindow | ErrInitialQuarantine | ErrMaxQuarantine | ErrQuarantineOrder
| ErrPrefixInvalid nat | ErrPrefixMapped nat | ErrPrefixUnmasked nat
| ErrMaxEntries | ErrStateTTL

fun validate_prefixes :: "nat \<Rightarrow> Prefix list \<Rightarrow> ingress_error option" where
  "validate_prefixes i [] = None"
| "validate_prefixes i (p # ps) =
     (if \<not> Prefix_IsValid p then Some (ErrPrefixInvalid i)
      else if Is4In6 (pfxAddr p) then Some (ErrPrefixMapped i)
      else if p \<noteq> Masked p then Some (ErrPrefixUnmasked i)
      else validate_prefixes (Suc i) ps)"

definition Policy_Validate :: "Policy \<Rightarrow> ingress_error option" where
  "Policy_Validate p =
     (if AuthFailures p < 1 then Some ErrAuthFailures
      else if FailureWindow p \<le> 0 then Some ErrFailureWindow
      else if InitialQuarantine p \<le> 0 then Some ErrInitialQuarantine
      else if MaxQuarantine p \<le> 0 then Some ErrMaxQuarantine
      else if MaxQuarantine p < InitialQuarantine p then Some ErrQuarantineOrder
      else validate_prefixes 0 (AdaptiveExemptCIDRs p))"

definition AdaptiveExempt :: "Policy \<Rightarrow> Addr \<Rightarrow> bool" where
  "AdaptiveExempt p addr =
     (if \<not> Addr_IsValid addr then False
      else list_ex (\<lambda>pre. Prefix_Contains pre (Unmap addr)) (AdaptiveExemptCIDRs p))"

record StateLimits =
  MaxEntries :: int
  StateTTL :: duration

definition StateLimits_Validate :: "StateLimits \<Rightarrow> ingress_error option" where
  "StateLimits_Validate l =
     (if MaxEntries l < 1 then Some ErrMaxEntries
      else if StateTTL l \<le> 0 then Some ErrStateTTL
      else None)"

record Transition =
  QuarantineStarted :: bool
  QuarantineUntil :: gotime
  trReason :: Reason
  EntryCount :: int

section \<open>State\<close>

definition stateShardCount :: nat where
  "stateShardCount = 32"

definition maxOffenseLevel :: int where
  "maxOffenseLevel = 64"

record entry =
  windowStartedAt :: gotime
  failures :: int
  offenseLevel :: int
  quarantineUntil :: gotime
  lastHostileAt :: gotime
  admission :: "64 word"

record admissionSlot =
  slotAddr :: Addr
  slotAdmission :: "64 word"

record shard =
  entries :: "(Addr, entry) gomap"
  order :: "admissionSlot list"
  cursor :: nat
  shCap :: nat
  shCount :: int
  nextAdmission :: "64 word"

record DefenseState =
  limits :: StateLimits
  shards :: "shard list"

definition new_shard :: "nat \<Rightarrow> shard" where
  "new_shard c = \<lparr>entries = [], order = [], cursor = 0, shCap = c, shCount = 0, nextAdmission = 0\<rparr>"

definition NewState :: "StateLimits \<Rightarrow> ingress_error + DefenseState" where
  "NewState l =
     (case StateLimits_Validate l of
        Some e \<Rightarrow> Inl e
      | None \<Rightarrow>
          let n = min stateShardCount (nat (MaxEntries l));
              base = nat (MaxEntries l) div n; extra = nat (MaxEntries l) mod n
          in Inr \<lparr>limits = l,
               shards = map (\<lambda>i. new_shard (if i < extra then base + 1 else base)) [0..<n]\<rparr>)"

definition Len :: "DefenseState \<Rightarrow> int" where
  "Len s = sum_list (map shCount (shards s))"

definition stateKey :: "Addr \<Rightarrow> Addr option" where
  "stateKey addr = (if \<not> Addr_IsValid addr then None else Some (Unmap addr))"

definition fnv1a :: "8 word list \<Rightarrow> 32 word" where
  "fnv1a bytes = fold (\<lambda>b h. (h XOR ucast b) * 16777619) bytes 2166136261"

definition shardIndex :: "DefenseState \<Rightarrow> Addr \<Rightarrow> nat" where
  "shardIndex s key = unat (fnv1a (As16 key) mod of_nat (length (shards s)))"

definition nextOffenseLevel :: "int \<Rightarrow> int" where
  "nextOffenseLevel level = (if level \<ge> maxOffenseLevel then maxOffenseLevel else level + 1)"

fun double_loop :: "nat \<Rightarrow> duration \<Rightarrow> duration \<Rightarrow> duration" where
  "double_loop 0 limit duration = (if duration > limit then limit else duration)"
| "double_loop (Suc n) limit duration =
     (if duration \<ge> limit \<or> duration > MaxInt64 div 2 then limit
      else double_loop n limit (wrap64 (duration * 2)))"

definition quarantineDuration :: "int \<Rightarrow> duration \<Rightarrow> duration \<Rightarrow> duration" where
  "quarantineDuration level initial limit =
     (if initial \<le> 0 then limit else double_loop (nat (wrap64 (level - 1))) limit initial)"

definition penalize :: "gotime \<Rightarrow> Policy \<Rightarrow> entry \<Rightarrow> entry" where
  "penalize now p found =
     (let lvl = nextOffenseLevel (offenseLevel found);
          til = now + quarantineDuration lvl (InitialQuarantine p) (MaxQuarantine p);
          til = (if til < quarantineUntil found then quarantineUntil found else til)
      in found\<lparr>offenseLevel := lvl, quarantineUntil := til\<rparr>)"

definition issueAdmission :: "64 word \<Rightarrow> 64 word" where
  "issueAdmission n = (if n + 1 = 0 then n + 1 + 1 else n + 1)"

definition drop_entry :: "Addr \<Rightarrow> shard \<Rightarrow> shard" where
  "drop_entry key sh = sh\<lparr>entries := AList.delete key (entries sh), shCount := shCount sh - 1\<rparr>"

definition reserve :: "Addr \<Rightarrow> 64 word \<Rightarrow> shard \<Rightarrow> shard" where
  "reserve key adm sh =
     (let slot = \<lparr>slotAddr = key, slotAdmission = adm\<rparr> in
      if length (order sh) < shCap sh then sh\<lparr>order := order sh @ [slot]\<rparr>
      else
        let victim = order sh ! cursor sh;
            sh1 = sh\<lparr>order := (order sh)[cursor sh := slot], cursor := (cursor sh + 1) mod shCap sh\<rparr>
        in case map_of (entries sh) (slotAddr victim) of
             Some live \<Rightarrow> if admission live = slotAdmission victim then drop_entry (slotAddr victim) sh1 else sh1
           | None \<Rightarrow> sh1)"

definition shard_lookup :: "Addr \<Rightarrow> gotime \<Rightarrow> duration \<Rightarrow> shard \<Rightarrow> entry option \<times> shard" where
  "shard_lookup key now ttl sh =
     (case map_of (entries sh) key of
        None \<Rightarrow> (None, sh)
      | Some found \<Rightarrow>
          if now - lastHostileAt found < ttl then (Some found, sh) else (None, drop_entry key sh))"

definition fresh_entry :: "gotime \<Rightarrow> 64 word \<Rightarrow> entry" where
  "fresh_entry now adm = \<lparr>windowStartedAt = 0, failures = 0, offenseLevel = 0, quarantineUntil = 0,
     lastHostileAt = now, admission = adm\<rparr>"

definition put_entry :: "Addr \<Rightarrow> entry \<Rightarrow> shard \<Rightarrow> shard" where
  "put_entry key e sh = sh\<lparr>entries := AList.update key e (entries sh)\<rparr>"

text \<open>The pointer that \<open>shard_touch\<close> returns is the entry now stored under the key.\<close>

definition shard_touch :: "Addr \<Rightarrow> gotime \<Rightarrow> duration \<Rightarrow> shard \<Rightarrow> entry \<times> bool \<times> shard" where
  "shard_touch key now ttl sh =
     (case map_of (entries sh) key of
        Some found \<Rightarrow>
          if now - lastHostileAt found < ttl
          then let e = found\<lparr>lastHostileAt := now\<rparr> in (e, True, put_entry key e sh)
          else let sh1 = drop_entry key sh; adm = issueAdmission (nextAdmission sh1); e = fresh_entry now adm;
                   sh2 = put_entry key e (reserve key adm (sh1\<lparr>nextAdmission := adm\<rparr>))
               in (e, False, sh2\<lparr>shCount := shCount sh2 + 1\<rparr>)
      | None \<Rightarrow>
          let adm = issueAdmission (nextAdmission sh); e = fresh_entry now adm;
              sh2 = put_entry key e (reserve key adm (sh\<lparr>nextAdmission := adm\<rparr>))
          in (e, False, sh2\<lparr>shCount := shCount sh2 + 1\<rparr>))"

definition with_shard :: "Addr \<Rightarrow> (shard \<Rightarrow> 'a \<times> shard) \<Rightarrow> DefenseState \<Rightarrow> 'a \<times> DefenseState" where
  "with_shard key f s =
     (case f (shards s ! shardIndex s key) of
        (r, sh) \<Rightarrow> (r, s\<lparr>shards := (shards s)[shardIndex s key := sh]\<rparr>))"

definition IsQuarantined :: "Addr \<Rightarrow> gotime \<Rightarrow> DefenseState \<Rightarrow> bool \<times> DefenseState" where
  "IsQuarantined addr now s =
     (case stateKey addr of
        None \<Rightarrow> (False, s)
      | Some key \<Rightarrow>
          with_shard key (\<lambda>sh.
            case shard_lookup key now (StateTTL (limits s)) sh of
              (Some found, sh1) \<Rightarrow> (now < quarantineUntil found, sh1)
            | (None, sh1) \<Rightarrow> (False, sh1)) s)"

definition quiet :: "DefenseState \<Rightarrow> Transition" where
  "quiet s = \<lparr>QuarantineStarted = False, QuarantineUntil = 0, trReason = NoReason, EntryCount = Len s\<rparr>"

definition started :: "gotime \<Rightarrow> Reason \<Rightarrow> DefenseState \<Rightarrow> Transition" where
  "started til r s = \<lparr>QuarantineStarted = True, QuarantineUntil = til, trReason = r, EntryCount = Len s\<rparr>"

definition count_failure :: "gotime \<Rightarrow> Policy \<Rightarrow> bool \<Rightarrow> entry \<Rightarrow> entry" where
  "count_failure now p live found =
     (if \<not> live \<or> now - windowStartedAt found \<ge> FailureWindow p
      then found\<lparr>windowStartedAt := now, failures := 1\<rparr>
      else found\<lparr>failures := wrap64 (failures found + 1)\<rparr>)"

definition auth_failure_locked ::
  "Addr \<Rightarrow> gotime \<Rightarrow> duration \<Rightarrow> Policy \<Rightarrow> shard \<Rightarrow> gotime option \<times> shard" where
  "auth_failure_locked key now ttl p sh =
     (case shard_touch key now ttl sh of
        (found, live, sh1) \<Rightarrow>
          let e = count_failure now p live found in
          if failures e < max (AuthFailures p) 1 then (None, put_entry key e sh1)
          else let e2 = penalize now p (e\<lparr>failures := 0, windowStartedAt := 0\<rparr>)
               in (Some (quarantineUntil e2), put_entry key e2 sh1))"

definition RecordAuthFailure :: "Addr \<Rightarrow> gotime \<Rightarrow> Policy \<Rightarrow> DefenseState \<Rightarrow> Transition \<times> DefenseState" where
  "RecordAuthFailure addr now p s =
     (if \<not> Enabled p then (quiet s, s)
      else case stateKey addr of
        None \<Rightarrow> (quiet s, s)
      | Some key \<Rightarrow>
          (case with_shard key (auth_failure_locked key now (StateTTL (limits s)) p) s of
             (None, s1) \<Rightarrow> (quiet s1, s1)
           | (Some til, s1) \<Rightarrow> (started til ReasonAuthFailureThreshold s1, s1)))"

definition probe_locked :: "Addr \<Rightarrow> gotime \<Rightarrow> duration \<Rightarrow> Policy \<Rightarrow> shard \<Rightarrow> gotime \<times> shard" where
  "probe_locked key now ttl p sh =
     (case shard_touch key now ttl sh of
        (found, live, sh1) \<Rightarrow>
          let e = penalize now p found in (quarantineUntil e, put_entry key e sh1))"

definition RecordProbe :: "Addr \<Rightarrow> gotime \<Rightarrow> Policy \<Rightarrow> DefenseState \<Rightarrow> Transition \<times> DefenseState" where
  "RecordProbe addr now p s =
     (if \<not> Enabled p then (quiet s, s)
      else case stateKey addr of
        None \<Rightarrow> (quiet s, s)
      | Some key \<Rightarrow>
          (case with_shard key (probe_locked key now (StateTTL (limits s)) p) s of
             (til, s1) \<Rightarrow> (started til ReasonImpossiblePath s1, s1)))"

definition clear_locked :: "Addr \<Rightarrow> shard \<Rightarrow> unit \<times> shard" where
  "clear_locked key sh = ((), if map_of (entries sh) key \<noteq> None then drop_entry key sh else sh)"

definition State_Clear :: "Addr \<Rightarrow> DefenseState \<Rightarrow> int \<times> DefenseState" where
  "State_Clear addr s =
     (case stateKey addr of
        None \<Rightarrow> (Len s, s)
      | Some key \<Rightarrow> (case with_shard key (clear_locked key) s of (_, s1) \<Rightarrow> (Len s1, s1)))"

section \<open>The shard invariant\<close>

text \<open>
  Every live entry owns a slot of the ring, and the ring is never longer than the shard's
  capacity. This bounds the entries whatever the admission identities are, also after the
  64-bit counter has wrapped.
\<close>

definition owns :: "admissionSlot list \<Rightarrow> Addr \<Rightarrow> entry \<Rightarrow> bool" where
  "owns ring k e \<longleftrightarrow> \<lparr>slotAddr = k, slotAdmission = admission e\<rparr> \<in> set ring"

definition shard_inv :: "shard \<Rightarrow> bool" where
  "shard_inv sh \<longleftrightarrow> wf_gomap (entries sh) \<and> shCount sh = int (length (entries sh))
     \<and> 0 < shCap sh \<and> cursor sh < shCap sh \<and> length (order sh) \<le> shCap sh
     \<and> (\<forall>k e. map_of (entries sh) k = Some e \<longrightarrow> owns (order sh) k e)"

lemma shard_inv_bound:
  assumes "shard_inv sh"
  shows "length (entries sh) \<le> shCap sh"
proof -
  have sub: "fst ` set (entries sh) \<subseteq> slotAddr ` set (order sh)"
  proof
    fix k assume "k \<in> fst ` set (entries sh)"
    then obtain e where "map_of (entries sh) k = Some e" by (metis map_of_None_keys not_None_eq)
    with assms have "owns (order sh) k e" by (simp add: shard_inv_def)
    then show "k \<in> slotAddr ` set (order sh)" by (force simp: owns_def)
  qed
  have "length (entries sh) = card (fst ` set (entries sh))"
    using assms by (intro length_wf_card) (simp add: shard_inv_def)
  also have "\<dots> \<le> card (slotAddr ` set (order sh))" by (rule card_mono [OF _ sub]) simp
  also have "\<dots> \<le> card (set (order sh))" by (rule card_image_le) simp
  also have "\<dots> \<le> length (order sh)" by (rule card_length)
  also have "\<dots> \<le> shCap sh" using assms by (simp add: shard_inv_def)
  finally show ?thesis .
qed

lemma drop_entry_frame [simp]:
  "shCap (drop_entry k sh) = shCap sh" "order (drop_entry k sh) = order sh" "cursor (drop_entry k sh) = cursor sh"
  "entries (drop_entry k sh) = AList.delete k (entries sh)" "shCount (drop_entry k sh) = shCount sh - 1"
  "nextAdmission (drop_entry k sh) = nextAdmission sh"
  by (simp_all add: drop_entry_def)

lemma put_entry_frame [simp]:
  "shCap (put_entry k e sh) = shCap sh" "order (put_entry k e sh) = order sh" "cursor (put_entry k e sh) = cursor sh"
  "entries (put_entry k e sh) = AList.update k e (entries sh)" "shCount (put_entry k e sh) = shCount sh"
  by (simp_all add: put_entry_def)

lemma drop_entry_inv: "shard_inv sh \<Longrightarrow> map_of (entries sh) k \<noteq> None \<Longrightarrow> shard_inv (drop_entry k sh)"
  using length_delete_present [of "entries sh" k] by (auto simp: shard_inv_def)

lemma put_entry_inv:
  "shard_inv sh \<Longrightarrow> map_of (entries sh) k = Some old \<Longrightarrow> admission e = admission old \<Longrightarrow> shard_inv (put_entry k e sh)"
  using length_update_old [of "entries sh" k e] by (auto simp: shard_inv_def owns_def)

lemma owns_append: "owns ring k e \<Longrightarrow> owns (ring @ xs) k e"
  by (simp add: owns_def)

lemma owns_replace:
  assumes "owns ring k e" "i < length ring" "ring ! i \<noteq> \<lparr>slotAddr = k, slotAdmission = admission e\<rparr>"
  shows "owns (ring[i := slot]) k e"
proof -
  from assms(1) obtain j where "j < length ring" "ring ! j = \<lparr>slotAddr = k, slotAdmission = admission e\<rparr>"
    by (auto simp: owns_def in_set_conv_nth)
  with assms(2,3) have "j < length (ring[i := slot])" "ring[i := slot] ! j = \<lparr>slotAddr = k, slotAdmission = admission e\<rparr>"
    by (auto simp: nth_upd)
  then show ?thesis unfolding owns_def in_set_conv_nth by blast
qed

text \<open>Room is made for one more entry: the ring owns the new slot and every entry kept.\<close>

lemma reserve_spec:
  assumes inv: "shard_inv sh" and new: "map_of (entries sh) key = None" and r: "sh' = reserve key adm sh"
  shows "shard_inv sh'" "\<lparr>slotAddr = key, slotAdmission = adm\<rparr> \<in> set (order sh')"
    "map_of (entries sh') \<subseteq>\<^sub>m map_of (entries sh)" "shCap sh' = shCap sh"
proof -
  let ?slot = "\<lparr>slotAddr = key, slotAdmission = adm\<rparr>"
  have "shard_inv sh' \<and> ?slot \<in> set (order sh') \<and> map_of (entries sh') \<subseteq>\<^sub>m map_of (entries sh) \<and> shCap sh' = shCap sh"
  proof (cases "length (order sh) < shCap sh")
    case True
    with inv r show ?thesis by (auto simp: reserve_def Let_def shard_inv_def owns_append map_le_def)
  next
    case False
    let ?v = "order sh ! cursor sh"
    let ?sh1 = "sh\<lparr>order := (order sh)[cursor sh := ?slot], cursor := (cursor sh + 1) mod shCap sh\<rparr>"
    have full: "length (order sh) = shCap sh" and cur: "cursor sh < length (order sh)"
      using False inv by (auto simp: shard_inv_def)
    have kept: "owns ((order sh)[cursor sh := ?slot]) k e"
      if "map_of (entries sh) k = Some e" "k \<noteq> slotAddr ?v \<or> admission e \<noteq> slotAdmission ?v" for k e
      using inv that cur by (intro owns_replace) (auto simp: shard_inv_def)
    have slot: "?slot \<in> set ((order sh)[cursor sh := ?slot])" using cur by (simp add: set_update_memI)
    show ?thesis
    proof (cases "\<exists>live. map_of (entries sh) (slotAddr ?v) = Some live \<and> admission live = slotAdmission ?v")
      case True
      then have sh': "sh' = drop_entry (slotAddr ?v) ?sh1" and pres: "map_of (entries sh) (slotAddr ?v) \<noteq> None"
        using r False by (auto simp: reserve_def Let_def)
      have "shard_inv sh'"
        using inv full kept length_delete_present [OF _ pres] by (auto simp: sh' shard_inv_def)
      with slot show ?thesis by (simp add: sh' gomap_delete_le)
    next
      case False
      then have sh': "sh' = ?sh1"
        using r \<open>\<not> length (order sh) < shCap sh\<close> by (auto simp: reserve_def Let_def split: option.splits)
      have "shard_inv sh'" using inv full kept False by (auto simp: sh' shard_inv_def)
      with slot show ?thesis by (simp add: sh')
    qed
  qed
  then show "shard_inv sh'" "?slot \<in> set (order sh')" "map_of (entries sh') \<subseteq>\<^sub>m map_of (entries sh)"
    "shCap sh' = shCap sh" by auto
qed

text \<open>Admission of an address that the shard does not track.\<close>

definition admit :: "Addr \<Rightarrow> gotime \<Rightarrow> shard \<Rightarrow> entry \<times> bool \<times> shard" where
  "admit key now sh =
     (let adm = issueAdmission (nextAdmission sh); e = fresh_entry now adm;
          sh2 = put_entry key e (reserve key adm (sh\<lparr>nextAdmission := adm\<rparr>))
      in (e, False, sh2\<lparr>shCount := shCount sh2 + 1\<rparr>))"

lemma touch_cases:
  "shard_touch key now ttl sh =
     (case map_of (entries sh) key of
        Some found \<Rightarrow>
          if now - lastHostileAt found < ttl
          then (found\<lparr>lastHostileAt := now\<rparr>, True, put_entry key (found\<lparr>lastHostileAt := now\<rparr>) sh)
          else admit key now (drop_entry key sh)
      | None \<Rightarrow> admit key now sh)"
  by (simp add: shard_touch_def admit_def Let_def split: option.splits)

definition sub_keys :: "Addr \<Rightarrow> shard \<Rightarrow> shard \<Rightarrow> bool" where
  "sub_keys key sh sh' \<longleftrightarrow> dom (map_of (entries sh')) \<subseteq> insert key (dom (map_of (entries sh)))"

lemma admit_spec:
  assumes inv: "shard_inv sh" and new: "map_of (entries sh) key = None" and a: "admit key now sh = (e, live, sh')"
  shows "shard_inv sh'" "map_of (entries sh') key = Some e" "\<not> live" "\<exists>adm. e = fresh_entry now adm"
    "sub_keys key sh sh'" "shCap sh' = shCap sh"
proof -
  define adm where "adm = issueAdmission (nextAdmission sh)"
  define R where "R = reserve key adm (sh\<lparr>nextAdmission := adm\<rparr>)"
  have inv1: "shard_inv (sh\<lparr>nextAdmission := adm\<rparr>)" using inv by (simp add: shard_inv_def)
  have new1: "map_of (entries (sh\<lparr>nextAdmission := adm\<rparr>)) key = None" using new by simp
  note r = reserve_spec [OF inv1 new1 R_def]
  have a': "(fresh_entry now adm, False, put_entry key (fresh_entry now adm) R
      \<lparr>shCount := shCount (put_entry key (fresh_entry now adm) R) + 1\<rparr>) = (e, live, sh')"
    using a unfolding admit_def Let_def adm_def R_def .
  have e: "e = fresh_entry now adm" "\<not> live" using a' by simp_all
  have sh': "sh' = put_entry key e R\<lparr>shCount := shCount R + 1\<rparr>" using a' by auto
  have sub: "map_of (entries R) \<subseteq>\<^sub>m map_of (entries sh)" using r(3) by simp
  have none: "map_of (entries R) key = None"
    using sub new unfolding map_le_def by (metis domIff)
  have own: "owns (order R) key e" using r(2) by (simp add: owns_def e fresh_entry_def)
  show "shard_inv sh'"
    using r(1) own length_update_fresh [OF none, of e] unfolding shard_inv_def sh' by simp
  show "map_of (entries sh') key = Some e" by (simp add: sh')
  show "\<not> live" "\<exists>adm. e = fresh_entry now adm" using e by auto
  show "sub_keys key sh sh'" using map_le_implies_dom_le [OF sub] by (auto simp: sub_keys_def sh' update_conv')
  show "shCap sh' = shCap sh" using r(4) by (simp add: sh')
qed

lemma touch_spec:
  assumes inv: "shard_inv sh" and t: "shard_touch key now ttl sh = (e, live, sh')"
  shows "shard_inv sh' \<and> map_of (entries sh') key = Some e \<and> sub_keys key sh sh' \<and> shCap sh' = shCap sh
    \<and> (case map_of (entries sh) key of
         Some f \<Rightarrow> if now - lastHostileAt f < ttl then live \<and> e = f\<lparr>lastHostileAt := now\<rparr>
                   else \<not> live \<and> (\<exists>adm. e = fresh_entry now adm)
       | None \<Rightarrow> \<not> live \<and> (\<exists>adm. e = fresh_entry now adm))"
proof (cases "map_of (entries sh) key")
  case None
  then have "admit key now sh = (e, live, sh')" using t by (simp add: touch_cases)
  from admit_spec [OF inv None this] None show ?thesis by auto
next
  case (Some f)
  show ?thesis
  proof (cases "now - lastHostileAt f < ttl")
    case True
    with Some t have "e = f\<lparr>lastHostileAt := now\<rparr>" "live" "sh' = put_entry key (f\<lparr>lastHostileAt := now\<rparr>) sh"
      by (auto simp: touch_cases)
    with put_entry_inv [OF inv Some] Some True show ?thesis by (auto simp: sub_keys_def split: if_splits)
  next
    case False
    with Some t have a: "admit key now (drop_entry key sh) = (e, live, sh')" by (simp add: touch_cases)
    have "shard_inv (drop_entry key sh)" using drop_entry_inv [OF inv] Some by simp
    from admit_spec [OF this _ a] Some False show ?thesis by (auto simp: sub_keys_def split: if_splits)
  qed
qed

text \<open>What every locked operation on one address keeps.\<close>

definition shard_op :: "Addr \<Rightarrow> (shard \<Rightarrow> 'a \<times> shard) \<Rightarrow> bool" where
  "shard_op key f \<longleftrightarrow> (\<forall>sh. shard_inv sh \<longrightarrow>
     shard_inv (snd (f sh)) \<and> sub_keys key sh (snd (f sh)) \<and> shCap (snd (f sh)) = shCap sh)"

lemma sub_keys_put: "sub_keys key sh sh' \<Longrightarrow> sub_keys key sh (put_entry key e sh')"
  by (simp add: sub_keys_def update_conv')

lemma touch_then:
  assumes inv: "shard_inv sh" and t: "shard_touch key now ttl sh = (e, live, sh')" and "admission e' = admission e"
  shows "shard_inv (put_entry key e' sh') \<and> sub_keys key sh (put_entry key e' sh') \<and> shCap (put_entry key e' sh') = shCap sh"
  using touch_spec [OF inv t] put_entry_inv [of sh' key e e'] assms(3) by (simp add: sub_keys_put)

lemma admission_penalize [simp]: "admission (penalize now p e) = admission e"
  by (simp add: penalize_def Let_def)

lemma admission_count [simp]: "admission (count_failure now p live e) = admission e"
  by (simp add: count_failure_def)

lemma shard_op_auth: "shard_op key (auth_failure_locked key now ttl p)"
proof -
  have "shard_inv (snd (auth_failure_locked key now ttl p sh))
      \<and> sub_keys key sh (snd (auth_failure_locked key now ttl p sh))
      \<and> shCap (snd (auth_failure_locked key now ttl p sh)) = shCap sh" if inv: "shard_inv sh" for sh
  proof -
    obtain e live sh' where t: "shard_touch key now ttl sh = (e, live, sh')" by (metis prod.exhaust)
    show ?thesis
      using touch_then [OF inv t, of "count_failure now p live e"]
        touch_then [OF inv t, of "penalize now p (count_failure now p live e\<lparr>failures := 0, windowStartedAt := 0\<rparr>)"]
      by (simp add: auth_failure_locked_def t Let_def)
  qed
  then show ?thesis by (simp add: shard_op_def)
qed

lemma shard_op_probe: "shard_op key (probe_locked key now ttl p)"
proof -
  have "shard_inv (snd (probe_locked key now ttl p sh)) \<and> sub_keys key sh (snd (probe_locked key now ttl p sh))
      \<and> shCap (snd (probe_locked key now ttl p sh)) = shCap sh" if inv: "shard_inv sh" for sh
  proof -
    obtain e live sh' where t: "shard_touch key now ttl sh = (e, live, sh')" by (metis prod.exhaust)
    show ?thesis using touch_then [OF inv t, of "penalize now p e"] by (simp add: probe_locked_def t Let_def)
  qed
  then show ?thesis by (simp add: shard_op_def)
qed

lemma shard_op_clear: "shard_op key (clear_locked key)"
  by (auto simp: shard_op_def clear_locked_def sub_keys_def drop_entry_inv split: if_splits)

lemma shard_op_lookup:
  "shard_op key (\<lambda>sh. case shard_lookup key now ttl sh of
      (Some found, sh1) \<Rightarrow> (now < quarantineUntil found, sh1) | (None, sh1) \<Rightarrow> (False, sh1))"
  by (auto simp: shard_op_def shard_lookup_def sub_keys_def drop_entry_inv split: if_splits option.splits)

section \<open>The state as a machine\<close>

definition state_inv :: "StateLimits \<Rightarrow> DefenseState \<Rightarrow> bool" where
  "state_inv l s \<longleftrightarrow> limits s = l \<and> StateLimits_Validate l = None
     \<and> 0 < length (shards s) \<and> length (shards s) \<le> stateShardCount
     \<and> (\<forall>sh \<in> set (shards s). shard_inv sh)
     \<and> sum_list (map shCap (shards s)) = nat (MaxEntries l)
     \<and> (\<forall>i < length (shards s). \<forall>k \<in> dom (map_of (entries (shards s ! i))). shardIndex s k = i)"

inductive ingress_step :: "DefenseState \<Rightarrow> DefenseState \<Rightarrow> bool" where
  is_auth: "ingress_step s (snd (RecordAuthFailure addr now p s))"
| is_probe: "ingress_step s (snd (RecordProbe addr now p s))"
| is_read: "ingress_step s (snd (IsQuarantined addr now s))"
| is_clear: "ingress_step s (snd (State_Clear addr s))"

lemma shardIndex_bound:
  assumes "0 < length (shards s)" "length (shards s) \<le> stateShardCount"
  shows "shardIndex s key < length (shards s)"
proof -
  have n: "unat (of_nat (length (shards s)) :: 32 word) = length (shards s)"
    using assms by (simp add: unat_of_nat stateShardCount_def take_bit_nat_eq_self)
  show ?thesis using assms(1) by (simp add: shardIndex_def unat_mod n)
qed

lemma with_shard_fields:
  "snd (with_shard key f s) = s\<lparr>shards := (shards s)[shardIndex s key := snd (f (shards s ! shardIndex s key))]\<rparr>"
  "fst (with_shard key f s) = fst (f (shards s ! shardIndex s key))"
  by (simp_all add: with_shard_def split: prod.splits)

lemma sum_list_update_same:
  "i < length xs \<Longrightarrow> g v = g (xs ! i) \<Longrightarrow> map g (xs[i := v]) = map g xs"
  by (metis list_update_id map_update)

lemma with_shard_inv:
  assumes inv: "state_inv l s" and op: "shard_op key f"
  shows "state_inv l (snd (with_shard key f s))"
proof -
  let ?i = "shardIndex s key"
  let ?sh = "snd (f (shards s ! ?i))"
  let ?s = "s\<lparr>shards := (shards s)[?i := ?sh]\<rparr>"
  have i: "?i < length (shards s)" using inv by (intro shardIndex_bound) (auto simp: state_inv_def)
  with inv op have sh: "shard_inv ?sh" "sub_keys key (shards s ! ?i) ?sh" "shCap ?sh = shCap (shards s ! ?i)"
    by (auto simp: state_inv_def shard_op_def)
  have idx: "shardIndex ?s k = shardIndex s k" for k by (simp add: shardIndex_def)
  have "\<forall>x \<in> set (shards ?s). shard_inv x"
    using inv sh(1) by (auto simp: state_inv_def dest!: set_update_subset_insert [THEN subsetD])
  moreover have "map shCap (shards ?s) = map shCap (shards s)"
    using sum_list_update_same [of ?i "shards s" shCap ?sh] i sh(3) by simp
  moreover have "shardIndex ?s k = j" if "j < length (shards ?s)" "k \<in> dom (map_of (entries (shards ?s ! j)))" for j k
  proof (cases "j = ?i")
    case True
    then have "k \<in> insert key (dom (map_of (entries (shards s ! ?i))))"
      using that sh(2) i by (auto simp: sub_keys_def)
    then show ?thesis using inv i True unfolding idx by (auto simp: state_inv_def)
  next
    case False
    then show ?thesis using that inv unfolding idx by (auto simp: state_inv_def)
  qed
  ultimately show ?thesis using inv by (simp add: with_shard_fields state_inv_def)
qed

lemma ingress_step_inv: "ingress_step s s' \<Longrightarrow> state_inv l s \<Longrightarrow> state_inv l s'"
proof (induction rule: ingress_step.induct)
  case (is_auth s addr now p)
  then show ?case using with_shard_inv [OF _ shard_op_auth]
    by (simp add: RecordAuthFailure_def split: option.splits prod.splits) (metis snd_conv)
next
  case (is_probe s addr now p)
  then show ?case using with_shard_inv [OF _ shard_op_probe]
    by (simp add: RecordProbe_def split: option.splits prod.splits) (metis snd_conv)
next
  case (is_read s addr now)
  then show ?case using with_shard_inv [OF _ shard_op_lookup]
    by (simp add: IsQuarantined_def split: option.splits)
next
  case (is_clear s addr)
  then show ?case using with_shard_inv [OF _ shard_op_clear]
    by (simp add: State_Clear_def split: option.splits prod.splits) (metis snd_conv)
qed

lemma sum_caps:
  "0 < n \<Longrightarrow> sum_list (map (\<lambda>i. if i < m mod n then m div n + 1 else m div n) [0..<n]) = (m::nat)"
proof -
  assume n: "0 < n"
  have split: "[0..<n] = [0..<m mod n] @ [m mod n..<n]"
    using n by (metis le_add1 less_imp_le_nat mod_less_divisor upt_add_eq_append le_add_diff_inverse zero_le)
  have parts: "map (\<lambda>i. if i < m mod n then m div n + 1 else m div n) [0..<m mod n] = map (\<lambda>i. m div n + 1) [0..<m mod n]"
    "map (\<lambda>i. if i < m mod n then m div n + 1 else m div n) [m mod n..<n] = map (\<lambda>i. m div n) [m mod n..<n]"
    by (simp_all cong: map_cong)
  have "sum_list (map (\<lambda>i. if i < m mod n then m div n + 1 else m div n) [0..<n])
      = (m mod n) * (m div n + 1) + (n - m mod n) * (m div n)"
    unfolding split map_append sum_list_append parts by (simp add: sum_list_triv)
  also have "\<dots> = m mod n + (m mod n + (n - m mod n)) * (m div n)" by (simp add: algebra_simps)
  also have "\<dots> = m" using n by (simp add: less_imp_le_nat)
  finally show ?thesis .
qed

lemma NewState_inv:
  assumes "NewState l = Inr s"
  shows "state_inv l s"
proof -
  let ?m = "nat (MaxEntries l)"
  let ?n = "min stateShardCount ?m"
  have v: "StateLimits_Validate l = None" and s: "s = \<lparr>limits = l,
      shards = map (\<lambda>i. new_shard (if i < ?m mod ?n then ?m div ?n + 1 else ?m div ?n)) [0..<?n]\<rparr>"
    using assms by (auto simp: NewState_def Let_def split: option.splits)
  have m: "0 < ?m" using v by (simp add: StateLimits_Validate_def split: if_splits)
  then have n: "0 < ?n" by (simp add: stateShardCount_def)
  then have "0 < ?m div ?n" by (simp add: div_greater_zero_iff)
  then have "\<forall>sh \<in> set (shards s). shard_inv sh" by (auto simp: s new_shard_def shard_inv_def)
  moreover have "sum_list (map shCap (shards s)) = ?m"
    using sum_caps [OF n, of ?m] by (simp add: s o_def new_shard_def cong: if_cong)
  moreover have "\<forall>i < length (shards s). entries (shards s ! i) = []" by (simp add: s new_shard_def)
  moreover have "limits s = l" "length (shards s) = ?n" by (simp_all add: s)
  ultimately show ?thesis using v n by (simp add: state_inv_def)
qed

interpretation ingress: step_invariant "\<lambda>s. NewState l = Inr s" ingress_step "state_inv l" for l
  by unfold_locales (auto intro: NewState_inv ingress_step_inv)

section \<open>One address over time\<close>

definition tracked :: "DefenseState \<Rightarrow> Addr \<Rightarrow> entry option" where
  "tracked s key = map_of (entries (shards s ! shardIndex s key)) key"

lemma tracked_with_shard:
  assumes "state_inv l s"
  shows "tracked (snd (with_shard key f s)) key = map_of (entries (snd (f (shards s ! shardIndex s key)))) key"
proof -
  have "shardIndex s key < length (shards s)" using assms by (intro shardIndex_bound) (auto simp: state_inv_def)
  then show ?thesis by (simp add: tracked_def with_shard_fields) (simp add: shardIndex_def)
qed

lemma state_shard:
  assumes "state_inv l s"
  shows "shard_inv (shards s ! shardIndex s key)"
proof -
  have "shardIndex s key < length (shards s)" using assms by (intro shardIndex_bound) (auto simp: state_inv_def)
  with assms show ?thesis by (auto simp: state_inv_def)
qed

text \<open>The entry an event works on: the live one refreshed, or a fresh one.\<close>

definition touched :: "gotime \<Rightarrow> duration \<Rightarrow> entry option \<Rightarrow> entry \<Rightarrow> bool \<Rightarrow> bool" where
  "touched now ttl old e live \<longleftrightarrow>
     (case old of
        Some f \<Rightarrow> if now - lastHostileAt f < ttl then live \<and> e = f\<lparr>lastHostileAt := now\<rparr>
                  else \<not> live \<and> (\<exists>adm. e = fresh_entry now adm)
      | None \<Rightarrow> \<not> live \<and> (\<exists>adm. e = fresh_entry now adm))"

lemma auth_tracked:
  assumes inv: "state_inv l s" and k: "stateKey addr = Some key" and en: "Enabled p"
    and r: "RecordAuthFailure addr now p s = (tr, s')"
  obtains e live where "touched now (StateTTL l) (tracked s key) e live"
    and "failures (count_failure now p live e) < max (AuthFailures p) 1 \<Longrightarrow>
      \<not> QuarantineStarted tr \<and> tracked s' key = Some (count_failure now p live e)"
    and "\<not> failures (count_failure now p live e) < max (AuthFailures p) 1 \<Longrightarrow>
      QuarantineStarted tr \<and> trReason tr = ReasonAuthFailureThreshold
      \<and> tracked s' key = Some (penalize now p (count_failure now p live e\<lparr>failures := 0, windowStartedAt := 0\<rparr>))
      \<and> QuarantineUntil tr = quarantineUntil (penalize now p (count_failure now p live e\<lparr>failures := 0, windowStartedAt := 0\<rparr>))"
    and "state_inv l s'"
proof -
  let ?sh = "shards s ! shardIndex s key"
  obtain e live sh' where t: "shard_touch key now (StateTTL l) ?sh = (e, live, sh')" by (metis prod.exhaust)
  have lim: "limits s = l" using inv by (simp add: state_inv_def)
  let ?w = "with_shard key (auth_failure_locked key now (StateTTL l) p) s"
  have rw: "(tr, s') = (case ?w of (None, s1) \<Rightarrow> (quiet s1, s1)
      | (Some til, s1) \<Rightarrow> (started til ReasonAuthFailureThreshold s1, s1))"
    using r k en by (simp add: RecordAuthFailure_def lim)
  then have s': "s' = snd ?w" by (auto split: prod.splits option.splits)
  have fstw: "fst ?w = fst (auth_failure_locked key now (StateTTL l) p ?sh)" by (simp add: with_shard_fields)
  have tr: "tr = (case fst ?w of None \<Rightarrow> quiet s' | Some til \<Rightarrow> started til ReasonAuthFailureThreshold s')"
    using rw by (auto split: prod.splits option.splits)
  have tk: "tracked s' key = map_of (entries (snd (auth_failure_locked key now (StateTTL l) p ?sh))) key"
    unfolding s' by (rule tracked_with_shard [OF inv])
  show ?thesis
  proof (rule that)
    show "touched now (StateTTL l) (tracked s key) e live"
      using touch_spec [OF state_shard [OF inv] t] by (simp add: touched_def tracked_def)
    show "state_inv l s'" unfolding s' by (rule with_shard_inv [OF inv shard_op_auth])
  qed (use tr tk in \<open>simp_all add: fstw auth_failure_locked_def t Let_def quiet_def started_def\<close>)
qed

fun failure_run :: "Addr \<Rightarrow> Policy \<Rightarrow> gotime list \<Rightarrow> DefenseState \<Rightarrow> Transition list \<times> DefenseState" where
  "failure_run addr p [] s = ([], s)"
| "failure_run addr p (t # ts) s =
     (case RecordAuthFailure addr t p s of (tr, s1) \<Rightarrow>
      (case failure_run addr p ts s1 of (trs, s2) \<Rightarrow> (tr # trs, s2)))"

text \<open>\<open>steady ttl t ts\<close>: from \<open>t\<close> on the times in \<open>ts\<close> never leave a gap of \<open>ttl\<close>.\<close>

fun steady :: "duration \<Rightarrow> gotime \<Rightarrow> gotime list \<Rightarrow> bool" where
  "steady ttl t [] \<longleftrightarrow> True"
| "steady ttl t (u # us) \<longleftrightarrow> u - t < ttl \<and> steady ttl u us"

definition counting :: "gotime \<Rightarrow> int \<Rightarrow> gotime \<Rightarrow> entry \<Rightarrow> bool" where
  "counting t0 n t e \<longleftrightarrow> windowStartedAt e = t0 \<and> failures e = n \<and> offenseLevel e = 0
     \<and> quarantineUntil e = 0 \<and> lastHostileAt e = t"

definition punished :: "Policy \<Rightarrow> gotime \<Rightarrow> Transition \<Rightarrow> entry \<Rightarrow> bool" where
  "punished p t tr e \<longleftrightarrow> QuarantineStarted tr \<and> trReason tr = ReasonAuthFailureThreshold
     \<and> QuarantineUntil tr = t + min (InitialQuarantine p) (MaxQuarantine p)
     \<and> quarantineUntil e = QuarantineUntil tr \<and> lastHostileAt e = t \<and> offenseLevel e = 1 \<and> failures e = 0"

lemma first_offense:
  assumes "counting t0 n t e" "Policy_Validate p = None" "0 \<le> t"
  shows "quarantineUntil (penalize t p (e\<lparr>failures := 0, windowStartedAt := 0\<rparr>)) = t + min (InitialQuarantine p) (MaxQuarantine p)
    \<and> lastHostileAt (penalize t p (e\<lparr>failures := 0, windowStartedAt := 0\<rparr>)) = t
    \<and> offenseLevel (penalize t p (e\<lparr>failures := 0, windowStartedAt := 0\<rparr>)) = 1
    \<and> failures (penalize t p (e\<lparr>failures := 0, windowStartedAt := 0\<rparr>)) = 0"
  using assms by (auto simp: counting_def penalize_def Let_def nextOffenseLevel_def maxOffenseLevel_def
      quarantineDuration_def wrap64_def Policy_Validate_def split: if_splits)

lemma failure_progress:
  assumes "state_inv l s" "stateKey addr = Some key" "Enabled p" "Policy_Validate p = None"
    and "tracked s key = Some e" "counting t0 n t e" "1 \<le> n" "ts \<noteq> []"
    and "n + int (length ts) = AuthFailures p" "AuthFailures p \<le> MaxInt64" "steady (StateTTL l) t ts"
    and "\<forall>u \<in> set ts. u - t0 < FailureWindow p \<and> 0 \<le> u" "failure_run addr p ts s = (trs, s')"
  shows "\<exists>e'. tracked s' key = Some e' \<and> punished p (last ts) (last trs) e'
    \<and> (\<forall>tr \<in> set (butlast trs). \<not> QuarantineStarted tr) \<and> state_inv l s' \<and> length trs = length ts"
  using assms(1,5-9,11-13)
proof (induction ts arbitrary: s e n t trs)
  case (Cons u us)
  obtain tr s1 where ra: "RecordAuthFailure addr u p s = (tr, s1)" by fastforce
  obtain trs1 where run: "failure_run addr p us s1 = (trs1, s')" "trs = tr # trs1"
    using Cons.prems(9) by (auto simp: ra split: prod.splits)
  from auth_tracked [OF Cons.prems(1) assms(2,3) ra] obtain e1 live where
    t: "touched u (StateTTL l) (tracked s key) e1 live"
    and low: "failures (count_failure u p live e1) < max (AuthFailures p) 1 \<Longrightarrow>
      \<not> QuarantineStarted tr \<and> tracked s1 key = Some (count_failure u p live e1)"
    and high: "\<not> failures (count_failure u p live e1) < max (AuthFailures p) 1 \<Longrightarrow>
      QuarantineStarted tr \<and> trReason tr = ReasonAuthFailureThreshold
      \<and> tracked s1 key = Some (penalize u p (count_failure u p live e1\<lparr>failures := 0, windowStartedAt := 0\<rparr>))
      \<and> QuarantineUntil tr = quarantineUntil (penalize u p (count_failure u p live e1\<lparr>failures := 0, windowStartedAt := 0\<rparr>))"
    and inv1: "state_inv l s1" by blast
  have e1: "live" "e1 = e\<lparr>lastHostileAt := u\<rparr>"
    using t Cons.prems(2,3,7) by (auto simp: touched_def counting_def)
  have w: "wrap64 (n + 1) = n + 1" using Cons.prems(4,6) assms(10) by (intro wrap64_id) auto
  have c: "counting t0 (n + 1) u (count_failure u p live e1)"
    using Cons.prems(3,8) e1 w by (auto simp: counting_def count_failure_def)
  then have f: "failures (count_failure u p live e1) = n + 1" by (simp add: counting_def)
  show ?case
  proof (cases "us = []")
    case True
    with Cons.prems(4,6) f have "\<not> failures (count_failure u p live e1) < max (AuthFailures p) 1" by auto
    from high [OF this] first_offense [OF c assms(4)] Cons.prems(8) True run inv1
    show ?thesis by (auto simp: punished_def)
  next
    case False
    with Cons.prems(4,6) f have "failures (count_failure u p live e1) < max (AuthFailures p) 1"
      by (cases us) auto
    note l = low [OF this]
    from Cons.IH [OF inv1 _ c _ False _ _ _ run(1)] l Cons.prems(4,6,7,8)
    obtain e' where "tracked s' key = Some e' \<and> punished p (last us) (last trs1) e'
        \<and> (\<forall>tr \<in> set (butlast trs1). \<not> QuarantineStarted tr) \<and> state_inv l s' \<and> length trs1 = length us" by auto
    with l False run(2) show ?thesis by (cases trs1) auto
  qed
qed simp

lemma IsQuarantined_tracked:
  assumes "state_inv l s" "stateKey addr = Some key"
  shows "fst (IsQuarantined addr now s) \<longleftrightarrow>
    (case tracked s key of None \<Rightarrow> False | Some e \<Rightarrow> now - lastHostileAt e < StateTTL l \<and> now < quarantineUntil e)"
proof -
  have "limits s = l" using assms(1) by (simp add: state_inv_def)
  with assms(2) show ?thesis
    by (auto simp: IsQuarantined_def with_shard_fields shard_lookup_def tracked_def split: option.splits)
qed

section \<open>Properties\<close>

text \<open>
  C33: The store is bounded. Starting from any valid limits and under any sequence of
  recorded failures, probes, reads and clears, the entry gauge is exact and never exceeds
  \<open>MaxEntries\<close>, and every tracked address is in the one shard its hash selects.
\<close>

theorem ingress_bounded:
  assumes "NewState l = Inr s0" "ingress_step\<^sup>*\<^sup>* s0 s"
  shows "Len s = int (sum_list (map (\<lambda>sh. length (entries sh)) (shards s)))
    \<and> Len s \<le> MaxEntries l
    \<and> (\<forall>i < length (shards s). \<forall>k \<in> dom (map_of (entries (shards s ! i))). shardIndex s k = i)"
proof -
  have inv: "state_inv l s" using ingress.inv_rtranclp [OF assms(2)] NewState_inv [OF assms(1)] .
  have sh: "shCount x = int (length (entries x)) \<and> length (entries x) \<le> shCap x" if "x \<in> set (shards s)" for x
    using inv that shard_inv_bound [of x] by (auto simp: state_inv_def shard_inv_def)
  have cnt: "map shCount (shards s) = map (\<lambda>x. int (length (entries x))) (shards s)" using sh by simp
  have len: "Len s = int (sum_list (map (\<lambda>x. length (entries x)) (shards s)))"
    unfolding Len_def cnt by (rule int_sum_list)
  have "sum_list (map (\<lambda>x. length (entries x)) (shards s)) \<le> sum_list (map shCap (shards s))"
    using sh by (intro sum_list_mono) auto
  then have "Len s \<le> MaxEntries l"
    using inv len by (auto simp: state_inv_def StateLimits_Validate_def split: if_splits)
  with len inv show ?thesis by (simp add: state_inv_def)
qed

definition sample_limits :: StateLimits where
  "sample_limits = \<lparr>MaxEntries = 2, StateTTL = 1000\<rparr>"

definition sample_policy :: Policy where
  "sample_policy = \<lparr>Enabled = True, AuthFailures = 2, FailureWindow = 60, InitialQuarantine = 30,
     MaxQuarantine = 100, AdaptiveExemptCIDRs = []\<rparr>"

definition sample_state :: DefenseState where
  "sample_state = \<lparr>limits = sample_limits, shards = [new_shard 1, new_shard 1]\<rparr>"

lemma sample_state_new: "NewState sample_limits = Inr sample_state"
  by code_simp

theorem ingress_bounded_witness:
  "Len (snd (RecordProbe (Addr4 1) 5 sample_policy sample_state)) \<le> 2
   \<and> Len (snd (RecordProbe (Addr4 1) 5 sample_policy sample_state)) = 1"
proof
  have "ingress_step\<^sup>*\<^sup>* sample_state (snd (RecordProbe (Addr4 1) 5 sample_policy sample_state))"
    by (rule r_into_rtranclp) (rule is_probe)
  from ingress_bounded [OF sample_state_new this]
  show "Len (snd (RecordProbe (Addr4 1) 5 sample_policy sample_state)) \<le> 2" by (simp add: sample_limits_def)
  show "Len (snd (RecordProbe (Addr4 1) 5 sample_policy sample_state)) = 1" by code_simp
qed

lemma double_loop_exact:
  "0 < d \<Longrightarrow> limit \<le> MaxInt64 \<Longrightarrow> double_loop n limit d = min (d * 2 ^ n) limit"
proof (induction n arbitrary: d)
  case (Suc n)
  show ?case
  proof (cases "d \<ge> limit \<or> d > MaxInt64 div 2")
    case True
    have "limit \<le> d * 2 ^ Suc n"
    proof (cases "d \<ge> limit")
      case True
      have "d * 1 \<le> d * 2 ^ Suc n" using Suc.prems(1) by (intro mult_left_mono one_le_power) auto
      with True show ?thesis by simp
    next
      case False
      with True have "d * 2 \<ge> limit" using Suc.prems(2) by simp
      moreover have "d * 2 * 1 \<le> d * 2 * 2 ^ n" using Suc.prems(1) by (intro mult_left_mono one_le_power) auto
      ultimately show ?thesis by (simp add: mult.assoc)
    qed
    with True show ?thesis by simp
  next
    case False
    then have "wrap64 (d * 2) = d * 2" using Suc.prems(1) by (intro wrap64_id) auto
    with False Suc show ?thesis by (simp add: mult.assoc)
  qed
qed simp

text \<open>
  The backoff is exact. For every offense level from 1 on, the quarantine is
  \<open>min (initial * 2 ^ (level - 1)) limit\<close>, with no doubling leaving the 64-bit range, and
  a higher level never gives a shorter one.
\<close>

lemma quarantine_duration_exact:
  assumes "0 < initial" "limit \<le> MaxInt64" "1 \<le> level" "level \<le> level'" "level' \<le> MaxInt64"
  shows "quarantineDuration level initial limit = min (initial * 2 ^ nat (level - 1)) limit
    \<and> quarantineDuration level initial limit \<le> quarantineDuration level' initial limit"
proof -
  have q: "quarantineDuration x initial limit = min (initial * 2 ^ nat (x - 1)) limit" if "1 \<le> x" "x \<le> MaxInt64" for x
    using assms(1) double_loop_exact [OF assms(1,2)] wrap64_id [of "x - 1"] that by (simp add: quarantineDuration_def)
  have "initial * 2 ^ nat (level - 1) \<le> initial * 2 ^ nat (level' - 1)"
    using assms by (intro mult_left_mono power_increasing) auto
  with q [of level] q [of level'] assms(3-5) show ?thesis by simp
qed

text \<open>
  C34: Thresholded quarantine. Take a source that is not tracked and that then fails
  authentication \<open>AuthFailures\<close> times inside one window, with no other event of the store in
  between (another source could evict the entry) and with every gap between two failures below
  \<open>StateTTL\<close> (a longer gap forgets the entry). It is left alone before the last failure; that
  failure quarantines it for the first-offense duration, and reads then report the quarantine
  exactly until its deadline, or until \<open>StateTTL\<close> of inactivity if that comes first.
\<close>

theorem threshold_quarantine:
  assumes "NewState l = Inr s0" "ingress_step\<^sup>*\<^sup>* s0 s" "stateKey addr = Some key" "tracked s key = None"
    and "Enabled p" "Policy_Validate p = None" "AuthFailures p \<le> MaxInt64" "int (length ts) = AuthFailures p"
    and "steady (StateTTL l) (hd ts) (tl ts)" "\<forall>u \<in> set ts. u - hd ts < FailureWindow p \<and> 0 \<le> u"
    and "failure_run addr p ts s = (trs, s')"
  shows "(\<forall>tr \<in> set (butlast trs). \<not> QuarantineStarted tr)
    \<and> QuarantineStarted (last trs) \<and> trReason (last trs) = ReasonAuthFailureThreshold
    \<and> QuarantineUntil (last trs) = last ts + InitialQuarantine p
    \<and> (fst (IsQuarantined addr now s') \<longleftrightarrow> now < last ts + min (InitialQuarantine p) (StateTTL l))"
proof -
  have inv: "state_inv l s" using ingress.inv_rtranclp [OF assms(2)] NewState_inv [OF assms(1)] .
  have q: "1 \<le> AuthFailures p" "min (InitialQuarantine p) (MaxQuarantine p) = InitialQuarantine p"
    using assms(6) by (auto simp: Policy_Validate_def split: if_splits)
  then obtain t us where ts: "ts = t # us" using assms(8) by (cases ts) auto
  obtain tr s1 where ra: "RecordAuthFailure addr t p s = (tr, s1)" by fastforce
  obtain trs1 where run: "failure_run addr p us s1 = (trs1, s')" "trs = tr # trs1"
    using assms(11) by (auto simp: ts ra split: prod.splits)
  from auth_tracked [OF inv assms(3,5) ra] obtain e live where
    t: "touched t (StateTTL l) (tracked s key) e live"
    and low: "failures (count_failure t p live e) < max (AuthFailures p) 1 \<Longrightarrow>
      \<not> QuarantineStarted tr \<and> tracked s1 key = Some (count_failure t p live e)"
    and high: "\<not> failures (count_failure t p live e) < max (AuthFailures p) 1 \<Longrightarrow>
      QuarantineStarted tr \<and> trReason tr = ReasonAuthFailureThreshold
      \<and> tracked s1 key = Some (penalize t p (count_failure t p live e\<lparr>failures := 0, windowStartedAt := 0\<rparr>))
      \<and> QuarantineUntil tr = quarantineUntil (penalize t p (count_failure t p live e\<lparr>failures := 0, windowStartedAt := 0\<rparr>))"
    and inv1: "state_inv l s1" by blast
  have c: "counting t 1 t (count_failure t p live e)"
    using t assms(4) by (auto simp: touched_def counting_def count_failure_def fresh_entry_def)
  then have f: "failures (count_failure t p live e) = 1" by (simp add: counting_def)
  have "\<exists>e'. tracked s' key = Some e' \<and> punished p (last ts) (last trs) e'
    \<and> (\<forall>tr \<in> set (butlast trs). \<not> QuarantineStarted tr) \<and> state_inv l s'"
  proof (cases "us = []")
    case True
    with q(1) assms(8) f ts have "\<not> failures (count_failure t p live e) < max (AuthFailures p) 1" by auto
    from high [OF this] first_offense [OF c assms(6)] assms(10) True run inv1 ts
    show ?thesis by (auto simp: punished_def)
  next
    case False
    with assms(8) f ts have "failures (count_failure t p live e) < max (AuthFailures p) 1" by (cases us) auto
    note l = low [OF this]
    have "\<exists>e'. tracked s' key = Some e' \<and> punished p (last us) (last trs1) e'
        \<and> (\<forall>tr \<in> set (butlast trs1). \<not> QuarantineStarted tr) \<and> state_inv l s' \<and> length trs1 = length us"
      using failure_progress [OF inv1 assms(3,5,6) _ c _ False _ assms(7) _ _ run(1)] l assms(8-10) ts by auto
    with l False run(2) ts show ?thesis by (cases trs1) auto
  qed
  then obtain e' where e': "tracked s' key = Some e'" "punished p (last ts) (last trs) e'"
    "\<forall>tr \<in> set (butlast trs). \<not> QuarantineStarted tr" "state_inv l s'" by blast
  have "fst (IsQuarantined addr now s') \<longleftrightarrow> now < last ts + min (InitialQuarantine p) (StateTTL l)"
    using e'(1,2) q(2) IsQuarantined_tracked [OF e'(4) assms(3), of now] by (auto simp: punished_def)
  with e' q(2) show ?thesis by (simp add: punished_def)
qed

theorem threshold_quarantine_witness:
  "\<exists>trs s'. failure_run (Addr4 1) sample_policy [100, 150] sample_state = (trs, s')
     \<and> QuarantineUntil (last trs) = 180 \<and> fst (IsQuarantined (Addr4 1) 179 s') \<and> \<not> fst (IsQuarantined (Addr4 1) 180 s')"
proof -
  obtain trs s' where r: "failure_run (Addr4 1) sample_policy [100, 150] sample_state = (trs, s')" by fastforce
  have k: "stateKey (Addr4 1) = Some (Addr4 1)" by (simp add: stateKey_def)
  have t: "tracked sample_state (Addr4 1) = None" by code_simp
  have p: "Policy_Validate sample_policy = None" "Enabled sample_policy" "AuthFailures sample_policy = 2"
    "FailureWindow sample_policy = 60" "InitialQuarantine sample_policy = 30"
    by (simp_all add: sample_policy_def Policy_Validate_def)
  from threshold_quarantine [OF sample_state_new rtranclp.rtrancl_refl k t p(2,1) _ _ _ _ r, of 179]
    threshold_quarantine [OF sample_state_new rtranclp.rtrancl_refl k t p(2,1) _ _ _ _ r, of 180]
  have "QuarantineUntil (last trs) = 180" "fst (IsQuarantined (Addr4 1) 179 s')" "\<not> fst (IsQuarantined (Addr4 1) 180 s')"
    by (simp_all add: p sample_limits_def)
  with r show ?thesis by blast
qed

end
