(* ===== verification/Concurrency_Lease.thy ===== *)
theory Concurrency_Lease
  imports Go_Strings
begin

text \<open>
  Concurrency leases: the domain of \<open>internal/core/concurrencyauthority/domain\<close>
  (\<open>lease.go\<close>, \<open>renew.go\<close>, \<open>lease_set.go\<close>, the timing part of \<open>rule.go\<close>) and the
  in-memory lease store of \<open>internal/infra/concurrencyauthority/leasestore\<close>
  (\<open>memory.go\<close>, \<open>memory_set.go\<close>).

  The attribution dimensions of a lease are a type parameter \<open>'d\<close>; the store looks at them
  only through \<open>Dimensions.Key\<close>, here an argument \<open>dkey\<close>, so the theorems hold for every
  encoding. \<open>ctx.Err()\<close> is an argument of each call. A \<open>range\<close> over the lease map whose
  order matters takes the order as an argument.
\<close>

section \<open>Leases\<close>

datatype LeaseState =
  LeaseStateActive | LeaseStateExpiring | LeaseStateExpired | LeaseStateReleased | LeaseStateOther string

datatype LeaseSetState =
  LeaseSetStateActive | LeaseSetStateUncertain | LeaseSetStateExpiring | LeaseSetStateReleased
| LeaseSetStateFailed | LeaseSetStateOther string

datatype lease_error =
  ErrGenerationMismatch | ErrLeaseNotActive | ErrLeaseReleased | ErrLeaseExpired
| ErrInvalidTiming string | ErrIncompleteSet | ErrNotFound | ErrInvalidCommand string | ErrContext string

fun LeaseState_IsKnown :: "LeaseState \<Rightarrow> bool" where
  "LeaseState_IsKnown (LeaseStateOther s) \<longleftrightarrow> False"
| "LeaseState_IsKnown s \<longleftrightarrow> True"

fun LeaseSetState_IsKnown :: "LeaseSetState \<Rightarrow> bool" where
  "LeaseSetState_IsKnown (LeaseSetStateOther s) \<longleftrightarrow> False"
| "LeaseSetState_IsKnown s \<longleftrightarrow> True"

record 'd Lease =
  LeaseID :: string
  RuleID :: string
  RuleVersion :: string
  lNamespace :: string
  lDimensions :: 'd
  LogicalID :: string
  HolderID :: string
  AcquiredAt :: gotime
  RenewedAt :: gotime
  ExpiresAt :: gotime
  ReleasedAt :: gotime
  Generation :: int
  lState :: LeaseState
  IdentityVersion :: int
  lSetID :: string
  SetGeneration :: int
  SetState :: LeaseSetState

record 'd NewLeaseParams =
  npLeaseID :: string
  npRuleID :: string
  npRuleVersion :: string
  npLogicalID :: string
  npHolderID :: string
  npNamespace :: string
  npDimensions :: 'd
  npNow :: gotime
  npTTL :: duration

definition NewLease :: "'d NewLeaseParams \<Rightarrow> 'd Lease" where
  "NewLease p =
     (let ttl = (if npTTL p \<le> 0 then Minute else npTTL p) in
      \<lparr>LeaseID = npLeaseID p, RuleID = npRuleID p, RuleVersion = npRuleVersion p, lNamespace = npNamespace p,
       lDimensions = npDimensions p, LogicalID = npLogicalID p, HolderID = npHolderID p,
       AcquiredAt = npNow p, RenewedAt = npNow p, ExpiresAt = npNow p + ttl, ReleasedAt = 0, Generation = 1,
       lState = LeaseStateActive, IdentityVersion = 0, lSetID = [], SetGeneration = 0,
       SetState = LeaseSetStateOther []\<rparr>)"

definition wall_expired :: "gotime \<Rightarrow> gotime \<Rightarrow> bool" where
  "wall_expired now ex \<longleftrightarrow> ex \<noteq> 0 \<and> \<not> now < ex"

definition IsLive :: "gotime \<Rightarrow> 'd Lease \<Rightarrow> bool" where
  "IsLive now l =
     (if lState l = LeaseStateReleased \<or> lState l = LeaseStateExpired then False
      else if SetState l = LeaseSetStateUncertain then True
      else if wall_expired now (ExpiresAt l) then False
      else lState l = LeaseStateActive \<or> lState l = LeaseStateExpiring \<or> lState l = LeaseStateOther [])"

definition EffectiveState :: "gotime \<Rightarrow> 'd Lease \<Rightarrow> LeaseState" where
  "EffectiveState now l =
     (if lState l = LeaseStateReleased then LeaseStateReleased
      else if lState l = LeaseStateExpired then LeaseStateExpired
      else if wall_expired now (ExpiresAt l) then LeaseStateExpired
      else if lState l = LeaseStateOther [] then LeaseStateActive
      else lState l)"

definition Lease_Release :: "gotime \<Rightarrow> 'd Lease \<Rightarrow> 'd Lease" where
  "Lease_Release now l =
     (if lState l = LeaseStateReleased then l else l\<lparr>lState := LeaseStateReleased, ReleasedAt := now\<rparr>)"

definition Lease_Expire :: "gotime \<Rightarrow> 'd Lease \<Rightarrow> 'd Lease" where
  "Lease_Expire now l =
     (if lState l = LeaseStateReleased \<or> lState l = LeaseStateExpired then l
      else l\<lparr>lState := LeaseStateExpired,
             ExpiresAt := (if ExpiresAt l = 0 \<or> ExpiresAt l > now then now else ExpiresAt l)\<rparr>)"

definition Lease_Renew :: "gotime \<Rightarrow> int \<Rightarrow> duration \<Rightarrow> 'd Lease \<Rightarrow> lease_error + 'd Lease" where
  "Lease_Renew now expectedGen ttl0 l =
     (if lState l = LeaseStateReleased then Inl ErrLeaseReleased
      else if lState l = LeaseStateExpired then Inl ErrLeaseExpired
      else if wall_expired now (ExpiresAt l) then Inl ErrLeaseExpired
      else if lState l \<noteq> LeaseStateActive \<and> lState l \<noteq> LeaseStateExpiring \<and> lState l \<noteq> LeaseStateOther []
      then Inl ErrLeaseNotActive
      else if Generation l \<noteq> expectedGen then Inl ErrGenerationMismatch
      else let ttl = (if ttl0 \<le> 0 then Minute else ttl0) in
        Inr (l\<lparr>RenewedAt := now, ExpiresAt := now + ttl, Generation := wrap64 (Generation l + 1),
               lState := LeaseStateActive\<rparr>))"

fun IsCASError :: "lease_error \<Rightarrow> bool" where
  "IsCASError e \<longleftrightarrow> e \<in> {ErrGenerationMismatch, ErrLeaseReleased, ErrLeaseExpired, ErrLeaseNotActive}"

section \<open>Lease sets and timing\<close>

record 'd LeaseSet =
  lsSetID :: string
  lsRequestID :: string
  lsGeneration :: int
  lsState :: LeaseSetState
  lsMembers :: "'d Lease list"
  lsAcquiredAt :: gotime
  lsRenewedAt :: gotime
  lsExpiresAt :: gotime
  lsReleasedAt :: gotime
  lsRenewBefore :: duration
  lsTTL :: duration

definition OccupiesCapacity :: "gotime \<Rightarrow> 'd LeaseSet \<Rightarrow> bool" where
  "OccupiesCapacity now s =
     (case lsState s of
        LeaseSetStateReleased \<Rightarrow> False
      | LeaseSetStateFailed \<Rightarrow> False
      | LeaseSetStateUncertain \<Rightarrow> True
      | st \<Rightarrow>
          if wall_expired now (lsExpiresAt s) \<and> st \<noteq> LeaseSetStateUncertain then False
          else st = LeaseSetStateActive \<or> st = LeaseSetStateExpiring \<or> st = LeaseSetStateOther [])"

definition SortedRuleIDs :: "string list \<Rightarrow> string list" where
  "SortedRuleIDs ids = sort ids"

definition MemberRuleIDs :: "'d LeaseSet \<Rightarrow> string list" where
  "MemberRuleIDs s = sort (remdups (filter (\<lambda>i. i \<noteq> []) (map (\<lambda>m. TrimSpace (RuleID m)) (lsMembers s))))"

definition ValidateTiming :: "duration \<Rightarrow> duration \<Rightarrow> lease_error option" where
  "ValidateTiming leaseTTL renewBefore =
     (if leaseTTL \<le> 0 then Some (ErrInvalidTiming ''lease_ttl must be > 0'')
      else if renewBefore \<le> 0 then Some (ErrInvalidTiming ''renew_before must be > 0'')
      else if renewBefore \<ge> leaseTTL then Some (ErrInvalidTiming ''renew_before must be < lease_ttl'')
      else if leaseTTL > 24 * 60 * Minute then Some (ErrInvalidTiming ''lease_ttl exceeds'')
      else if renewBefore > 12 * 60 * Minute then Some (ErrInvalidTiming ''renew_before exceeds'')
      else None)"

definition ValidateSetDecisionShape ::
  "string \<Rightarrow> int \<Rightarrow> gotime \<Rightarrow> duration \<Rightarrow> duration \<Rightarrow> int \<Rightarrow> lease_error option" where
  "ValidateSetDecisionShape setID generation expiresAt ttl renewBefore memberCount =
     (if TrimSpace setID = [] then Some (ErrInvalidCommand ''set_id required'')
      else if generation \<le> 0 then Some (ErrInvalidCommand ''set generation required'')
      else if expiresAt = 0 then Some (ErrInvalidCommand ''set expires_at required'')
      else if memberCount \<le> 0 then Some ErrIncompleteSet
      else ValidateTiming ttl renewBefore)"

definition MarkUncertain :: "gotime \<Rightarrow> 'd LeaseSet \<Rightarrow> lease_error + 'd LeaseSet" where
  "MarkUncertain now s =
     (if lsState s = LeaseSetStateReleased \<or> lsState s = LeaseSetStateFailed then Inl ErrLeaseReleased
      else Inr (s\<lparr>lsState := LeaseSetStateUncertain, lsRenewedAt := now,
                  lsMembers := map (\<lambda>m. m\<lparr>lState := LeaseStateExpiring\<rparr>) (lsMembers s)\<rparr>))"

section \<open>The memory store\<close>

datatype RuleMode = RuleModeStrict | RuleModeAdvisory | RuleModeOther string

record 'd AcquireCommand =
  acLease :: "'d Lease"
  acRuleID :: string
  acDimensions :: 'd
  acLimit :: int
  acNow :: gotime

record 'd AcquireResult =
  arLease :: "'d Lease option"
  arReplayed :: bool
  arRemainingSlots :: int
  arCapacityExceeded :: bool

record 'd AcquireSetMember =
  amLease :: "'d Lease"
  amRuleID :: string
  amDimensions :: 'd
  amLimit :: int
  amMode :: RuleMode

record 'd AcquireSetCommand =
  asSetID :: string
  asRequestID :: string
  asMembers :: "'d AcquireSetMember list"
  asTTL :: duration
  asRenewBefore :: duration
  asNow :: gotime

record 'd AcquireSetResult =
  srSet :: "'d LeaseSet option"
  srReplayed :: bool
  srRemainingSlots :: int
  srCapacityExceeded :: bool
  srLockOrder :: "string list"
  srDenyingRuleID :: string

record RenewSetCommand =
  rsSetID :: string
  rsExpectedGeneration :: int
  rsTTL :: duration
  rsRenewBefore :: duration
  rsNow :: gotime

type_synonym 'd leases = "(string, 'd Lease) gomap"

definition store_key :: "string \<Rightarrow> string \<Rightarrow> string" where
  "store_key storeID leaseID = storeID @ [CHR 0x00] @ leaseID"

definition store_prefix :: "string \<Rightarrow> string" where
  "store_prefix storeID = storeID @ [CHR 0x00]"

definition of_rule :: "('d \<Rightarrow> string) \<Rightarrow> string \<Rightarrow> string \<Rightarrow> string \<Rightarrow> string \<times> 'd Lease \<Rightarrow> bool" where
  "of_rule dkey sid rule dim e \<longleftrightarrow>
     HasPrefix (fst e) (store_prefix sid) \<and> RuleID (snd e) = rule \<and> dkey (lDimensions (snd e)) = dim"

definition reclaim_lease :: "gotime \<Rightarrow> 'd Lease \<Rightarrow> 'd Lease" where
  "reclaim_lease now l =
     (if lState l = LeaseStateReleased \<or> lState l = LeaseStateExpired then l
      else if SetState l = LeaseSetStateUncertain then l
      else if wall_expired now (ExpiresAt l) then Lease_Expire now l
      else l)"

definition reclaimLocked ::
  "('d \<Rightarrow> string) \<Rightarrow> string \<Rightarrow> string \<Rightarrow> string \<Rightarrow> gotime \<Rightarrow> 'd leases \<Rightarrow> 'd leases" where
  "reclaimLocked dkey sid rule dim now m =
     map (\<lambda>e. (fst e, if of_rule dkey sid rule dim e then reclaim_lease now (snd e) else snd e)) m"

definition countLiveExcludingLocked ::
  "('d \<Rightarrow> string) \<Rightarrow> string \<Rightarrow> string \<Rightarrow> string \<Rightarrow> gotime \<Rightarrow> string set \<Rightarrow> 'd leases \<Rightarrow> int" where
  "countLiveExcludingLocked dkey sid rule dim now excl m =
     int (length (filter (\<lambda>e. of_rule dkey sid rule dim e \<and> TrimSpace (LeaseID (snd e)) \<notin> excl \<and> IsLive now (snd e)) m))"

definition countLiveLocked ::
  "('d \<Rightarrow> string) \<Rightarrow> string \<Rightarrow> string \<Rightarrow> string \<Rightarrow> gotime \<Rightarrow> 'd leases \<Rightarrow> int" where
  "countLiveLocked dkey sid rule dim now m = countLiveExcludingLocked dkey sid rule dim now {} m"

definition remainingLocked ::
  "('d \<Rightarrow> string) \<Rightarrow> string \<Rightarrow> string \<Rightarrow> string \<Rightarrow> int \<Rightarrow> gotime \<Rightarrow> 'd leases \<Rightarrow> int" where
  "remainingLocked dkey sid rule dim limit now m =
     (let left = limit - countLiveLocked dkey sid rule dim now m in if left < 0 then 0 else left)"

definition Acquire ::
  "('d \<Rightarrow> string) \<Rightarrow> string \<Rightarrow> lease_error option \<Rightarrow> 'd AcquireCommand \<Rightarrow> 'd leases
     \<Rightarrow> (lease_error + 'd AcquireResult) \<times> 'd leases" where
  "Acquire dkey sid ctxErr cmd m =
     (case ctxErr of
        Some e \<Rightarrow> (Inl e, m)
      | None \<Rightarrow>
          if TrimSpace (LeaseID (acLease cmd)) = [] \<or> acLimit cmd \<le> 0
          then (Inl (ErrInvalidCommand ''invalid acquire command''), m)
          else
            let dim = (if dkey (acDimensions cmd) = [] then dkey (lDimensions (acLease cmd)) else dkey (acDimensions cmd));
                m1 = reclaimLocked dkey sid (acRuleID cmd) dim (acNow cmd) m;
                k = store_key sid (LeaseID (acLease cmd));
                live = countLiveLocked dkey sid (acRuleID cmd) dim (acNow cmd) m1;
                fresh =
                  (if live \<ge> acLimit cmd
                   then (Inr \<lparr>arLease = None, arReplayed = False, arRemainingSlots = 0, arCapacityExceeded = True\<rparr>, m1)
                   else
                     let lease = (if lState (acLease cmd) = LeaseStateOther []
                                  then (acLease cmd)\<lparr>lState := LeaseStateActive\<rparr> else acLease cmd)
                     in (Inr \<lparr>arLease = Some lease, arReplayed = False,
                              arRemainingSlots = acLimit cmd - live - 1, arCapacityExceeded = False\<rparr>,
                         AList.update k lease m1))
            in case map_of m1 k of
                 Some existing \<Rightarrow>
                   if IsLive (acNow cmd) existing
                   then (Inr \<lparr>arLease = Some existing, arReplayed = True,
                              arRemainingSlots = remainingLocked dkey sid (acRuleID cmd) dim (acLimit cmd) (acNow cmd) m1,
                              arCapacityExceeded = False\<rparr>, m1)
                   else fresh
               | None \<Rightarrow> fresh)"

definition Store_Renew ::
  "string \<Rightarrow> lease_error option \<Rightarrow> string \<Rightarrow> int \<Rightarrow> duration \<Rightarrow> gotime \<Rightarrow> 'd leases \<Rightarrow> (lease_error + 'd Lease) \<times> 'd leases" where
  "Store_Renew sid ctxErr leaseID expectedGen ttl now m =
     (case ctxErr of
        Some e \<Rightarrow> (Inl e, m)
      | None \<Rightarrow>
          (case map_of m (store_key sid leaseID) of
             None \<Rightarrow> (Inl ErrNotFound, m)
           | Some lease \<Rightarrow>
               (case Lease_Renew now expectedGen ttl lease of
                  Inl e \<Rightarrow> (Inl e, m)
                | Inr l \<Rightarrow> (Inr l, AList.update (store_key sid leaseID) l m))))"

definition Store_Release ::
  "string \<Rightarrow> lease_error option \<Rightarrow> string \<Rightarrow> gotime \<Rightarrow> 'd leases \<Rightarrow> (lease_error + 'd Lease option) \<times> 'd leases" where
  "Store_Release sid ctxErr leaseID now m =
     (case ctxErr of
        Some e \<Rightarrow> (Inl e, m)
      | None \<Rightarrow>
          (case map_of m (store_key sid leaseID) of
             None \<Rightarrow> (Inr None, m)
           | Some lease \<Rightarrow>
               let l = Lease_Release now lease in (Inr (Some l), AList.update (store_key sid leaseID) l m)))"

section \<open>Lease sets in the store\<close>

definition trimmed_rule :: "'d AcquireSetMember \<Rightarrow> string" where
  "trimmed_rule am = TrimSpace (amRuleID am)"

definition lock_order :: "'d AcquireSetMember list \<Rightarrow> string list" where
  "lock_order ms = SortedRuleIDs (map trimmed_rule ms)"

text \<open>The member a rule of the lock order stands for: the first one with that rule.\<close>

definition ordered_members :: "'d AcquireSetMember list \<Rightarrow> 'd AcquireSetMember list" where
  "ordered_members ms = List.map_filter (\<lambda>r. find (\<lambda>am. trimmed_rule am = r) ms) (lock_order ms)"

fun capacity_loop ::
  "('d \<Rightarrow> string) \<Rightarrow> string \<Rightarrow> gotime \<Rightarrow> string set \<Rightarrow> 'd AcquireSetMember list \<Rightarrow> 'd leases
     \<Rightarrow> string option \<times> 'd leases" where
  "capacity_loop dkey sid now self [] m = (None, m)"
| "capacity_loop dkey sid now self (am # ams) m =
     (let dim = dkey (amDimensions am);
          m1 = reclaimLocked dkey sid (amRuleID am) dim now m;
          live = countLiveExcludingLocked dkey sid (amRuleID am) dim now self m1
      in if live \<ge> amLimit am \<and> amMode am \<noteq> RuleModeAdvisory then (Some (trimmed_rule am), m1)
         else capacity_loop dkey sid now self ams m1)"

definition set_member_lease :: "'d AcquireSetCommand \<Rightarrow> 'd AcquireSetMember \<Rightarrow> 'd Lease" where
  "set_member_lease cmd am =
     (let l = (amLease am)\<lparr>IdentityVersion := 2, lSetID := asSetID cmd, SetGeneration := 1,
                SetState := LeaseSetStateActive, lState := LeaseStateActive, AcquiredAt := asNow cmd,
                RenewedAt := asNow cmd, ExpiresAt := asNow cmd + asTTL cmd, Generation := 1,
                LogicalID := asRequestID cmd\<rparr>
      in if RuleID l = [] then l\<lparr>RuleID := amRuleID am\<rparr> else l)"

fun insert_loop ::
  "string \<Rightarrow> 'd AcquireSetCommand \<Rightarrow> 'd AcquireSetMember list \<Rightarrow> 'd leases
     \<Rightarrow> lease_error option \<times> 'd Lease list \<times> 'd leases" where
  "insert_loop sid cmd [] m = (None, [], m)"
| "insert_loop sid cmd (am # ams) m =
     (if LeaseID (amLease am) = [] then (Some (ErrInvalidCommand ''empty member lease id''), [], m)
      else let l = set_member_lease cmd am in
        (case insert_loop sid cmd ams (AList.update (store_key sid (LeaseID l)) l m) of
           (e, ls, m') \<Rightarrow> (e, l # ls, m')))"

definition min_remain ::
  "('d \<Rightarrow> string) \<Rightarrow> string \<Rightarrow> 'd AcquireSetCommand \<Rightarrow> 'd leases \<Rightarrow> int" where
  "min_remain dkey sid cmd m =
     (let r = foldl (\<lambda>acc am.
            let rem = remainingLocked dkey sid (amRuleID am) (dkey (amDimensions am)) (amLimit am) (asNow cmd) m
            in if acc < 0 \<or> rem < acc then rem else acc) (- 1) (asMembers cmd)
      in if r < 0 then 0 else r)"

type_synonym 'd lease_range = "'d leases \<Rightarrow> 'd leases"

definition set_of_lease :: "'d Lease \<Rightarrow> 'd LeaseSet" where
  "set_of_lease l =
     \<lparr>lsSetID = lSetID l, lsRequestID = LogicalID l, lsGeneration = SetGeneration l, lsState = SetState l,
      lsMembers = [], lsAcquiredAt = AcquiredAt l, lsRenewedAt = RenewedAt l, lsExpiresAt = ExpiresAt l,
      lsReleasedAt = 0, lsRenewBefore = 0, lsTTL = 0\<rparr>"

definition loadSetLocked :: "'d lease_range \<Rightarrow> string \<Rightarrow> string \<Rightarrow> 'd leases \<Rightarrow> 'd LeaseSet option" where
  "loadSetLocked it sid setID m =
     (case map snd (filter (\<lambda>e. HasPrefix (fst e) (store_prefix sid) \<and> lSetID (snd e) = setID) (it m)) of
        [] \<Rightarrow> None
      | l # ls \<Rightarrow> Some ((set_of_lease l)\<lparr>lsMembers := sort_key RuleID (l # ls)\<rparr>))"

definition AcquireSet ::
  "'d lease_range \<Rightarrow> ('d \<Rightarrow> string) \<Rightarrow> string \<Rightarrow> lease_error option \<Rightarrow> 'd AcquireSetCommand \<Rightarrow> 'd leases
     \<Rightarrow> (lease_error + 'd AcquireSetResult) \<times> 'd leases" where
  "AcquireSet it dkey sid ctxErr cmd m =
     (case ctxErr of
        Some e \<Rightarrow> (Inl e, m)
      | None \<Rightarrow>
          if TrimSpace (asSetID cmd) = [] \<or> TrimSpace (asRequestID cmd) = [] \<or> asMembers cmd = []
          then (Inl (ErrInvalidCommand ''invalid acquire set command''), m)
          else (case ValidateTiming (asTTL cmd) (asRenewBefore cmd) of
             Some e \<Rightarrow> (Inl e, m)
           | None \<Rightarrow>
               let lockOrder = lock_order (asMembers cmd);
                   existing = loadSetLocked it sid (asSetID cmd) m
               in if (case existing of None \<Rightarrow> False | Some s \<Rightarrow> OccupiesCapacity (asNow cmd) s)
                  then (Inr \<lparr>srSet = existing, srReplayed = True, srRemainingSlots = min_remain dkey sid cmd m,
                             srCapacityExceeded = False, srLockOrder = lockOrder, srDenyingRuleID = []\<rparr>, m)
                  else
                    let self = set (map (\<lambda>am. TrimSpace (LeaseID (amLease am))) (asMembers cmd)) in
                    (case capacity_loop dkey sid (asNow cmd) self (ordered_members (asMembers cmd)) m of
                       (Some rule, m1) \<Rightarrow>
                         (Inr \<lparr>srSet = None, srReplayed = False, srRemainingSlots = 0, srCapacityExceeded = True,
                               srLockOrder = lockOrder, srDenyingRuleID = rule\<rparr>, m1)
                     | (None, m1) \<Rightarrow>
                         (case insert_loop sid cmd (ordered_members (asMembers cmd)) m1 of
                            (Some e, _, m2) \<Rightarrow> (Inl e, m2)
                          | (None, ls, m2) \<Rightarrow>
                              (Inr \<lparr>srSet = Some \<lparr>lsSetID = asSetID cmd, lsRequestID = asRequestID cmd,
                                       lsGeneration = 1, lsState = LeaseSetStateActive, lsMembers = ls,
                                       lsAcquiredAt = asNow cmd, lsRenewedAt = asNow cmd,
                                       lsExpiresAt = asNow cmd + asTTL cmd, lsReleasedAt = 0,
                                       lsRenewBefore = asRenewBefore cmd, lsTTL = asTTL cmd\<rparr>,
                                    srReplayed = False, srRemainingSlots = min_remain dkey sid cmd m2,
                                    srCapacityExceeded = False, srLockOrder = lockOrder, srDenyingRuleID = []\<rparr>, m2)))))"

definition put_leases :: "string \<Rightarrow> 'd Lease list \<Rightarrow> 'd leases \<Rightarrow> 'd leases" where
  "put_leases sid ls m = fold (\<lambda>l m. AList.update (store_key sid (LeaseID l)) l m) ls m"

definition RenewSet ::
  "'d lease_range \<Rightarrow> string \<Rightarrow> lease_error option \<Rightarrow> RenewSetCommand \<Rightarrow> 'd leases
     \<Rightarrow> (lease_error + 'd LeaseSet) \<times> 'd leases" where
  "RenewSet it sid ctxErr cmd m =
     (case ctxErr of
        Some e \<Rightarrow> (Inl e, m)
      | None \<Rightarrow>
          if TrimSpace (rsSetID cmd) = [] then (Inl (ErrInvalidCommand ''empty set id''), m)
          else (case ValidateTiming (rsTTL cmd) (rsRenewBefore cmd) of
             Some e \<Rightarrow> (Inl e, m)
           | None \<Rightarrow>
               (case loadSetLocked it sid (rsSetID cmd) m of
                  None \<Rightarrow> (Inl ErrNotFound, m)
                | Some s \<Rightarrow>
                    if lsState s = LeaseSetStateReleased \<or> lsState s = LeaseSetStateFailed then (Inl ErrLeaseReleased, m)
                    else if lsGeneration s \<noteq> rsExpectedGeneration cmd then (Inl ErrGenerationMismatch, m)
                    else
                      let ex = rsNow cmd + rsTTL cmd;
                          nextGen = wrap64 (lsGeneration s + 1);
                          ls = map (\<lambda>l. l\<lparr>RenewedAt := rsNow cmd, ExpiresAt := ex,
                                 Generation := wrap64 (Generation l + 1), SetGeneration := nextGen,
                                 SetState := LeaseSetStateActive, lState := LeaseStateActive\<rparr>) (lsMembers s)
                      in (Inr (s\<lparr>lsMembers := ls, lsGeneration := nextGen, lsRenewedAt := rsNow cmd, lsExpiresAt := ex,
                                 lsState := LeaseSetStateActive, lsTTL := rsTTL cmd, lsRenewBefore := rsRenewBefore cmd\<rparr>),
                          put_leases sid ls m))))"

definition ReleaseSet ::
  "'d lease_range \<Rightarrow> string \<Rightarrow> lease_error option \<Rightarrow> string \<Rightarrow> gotime \<Rightarrow> 'd leases
     \<Rightarrow> (lease_error + bool \<times> 'd LeaseSet option) \<times> 'd leases" where
  "ReleaseSet it sid ctxErr setID now m =
     (case ctxErr of
        Some e \<Rightarrow> (Inl e, m)
      | None \<Rightarrow>
          (case loadSetLocked it sid setID m of
             None \<Rightarrow> (Inr (False, None), m)
           | Some s \<Rightarrow>
               if lsState s = LeaseSetStateReleased then (Inr (False, Some s), m)
               else
                 let ls = map (\<lambda>l. (Lease_Release now l)\<lparr>SetState := LeaseSetStateReleased\<rparr>) (lsMembers s)
                 in (Inr (True, Some (s\<lparr>lsMembers := ls, lsState := LeaseSetStateReleased, lsReleasedAt := now\<rparr>)),
                     put_leases sid ls m)))"

definition MarkSetUncertain ::
  "'d lease_range \<Rightarrow> string \<Rightarrow> lease_error option \<Rightarrow> string \<Rightarrow> gotime \<Rightarrow> 'd leases \<Rightarrow> lease_error option \<times> 'd leases" where
  "MarkSetUncertain it sid ctxErr setID now m =
     (case ctxErr of
        Some e \<Rightarrow> (Some e, m)
      | None \<Rightarrow>
          (case loadSetLocked it sid setID m of
             None \<Rightarrow> (Some ErrNotFound, m)
           | Some s \<Rightarrow>
               (case MarkUncertain now s of
                  Inl e \<Rightarrow> (Some e, m)
                | Inr s1 \<Rightarrow>
                    (None, put_leases sid
                       (map (\<lambda>l. l\<lparr>SetState := LeaseSetStateUncertain, lState := LeaseStateExpiring\<rparr>) (lsMembers s1)) m))))"

section \<open>Live leases\<close>

definition live_keys ::
  "('d \<Rightarrow> string) \<Rightarrow> string \<Rightarrow> string \<Rightarrow> string \<Rightarrow> gotime \<Rightarrow> string set \<Rightarrow> 'd leases \<Rightarrow> string set" where
  "live_keys dkey sid rule dim t self m =
     {k. \<exists>l. map_of m k = Some l \<and> of_rule dkey sid rule dim (k, l) \<and> TrimSpace (LeaseID l) \<notin> self \<and> IsLive t l}"

lemma live_keys_finite [simp, intro]: "finite (live_keys dkey sid rule dim t self m)"
  by (rule finite_subset [of _ "dom (map_of m)"]) (auto simp: live_keys_def finite_dom_map_of)

lemma count_live_keys:
  assumes "wf_gomap m"
  shows "countLiveExcludingLocked dkey sid rule dim t self m = int (card (live_keys dkey sid rule dim t self m))"
proof -
  let ?P = "\<lambda>e. of_rule dkey sid rule dim e \<and> TrimSpace (LeaseID (snd e)) \<notin> self \<and> IsLive t (snd e)"
  have "wf_gomap (filter ?P m)" using assms by (simp add: wf_gomap_def distinct_map_filter)
  then have "length (filter ?P m) = card (fst ` set (filter ?P m))" by (rule length_wf_card)
  moreover have "fst ` set (filter ?P m) = live_keys dkey sid rule dim t self m"
    using assms by (force simp: live_keys_def wf_map_of_iff)
  ultimately show ?thesis by (simp add: countLiveExcludingLocked_def)
qed

lemma IsLive_antitone: "t \<le> t' \<Longrightarrow> IsLive t' l \<Longrightarrow> IsLive t l"
  by (auto simp: IsLive_def wall_expired_def split: if_splits)

lemma live_keys_antitone: "t \<le> t' \<Longrightarrow> live_keys dkey sid rule dim t' self m \<subseteq> live_keys dkey sid rule dim t self m"
  by (auto simp: live_keys_def intro: IsLive_antitone)

definition leases_inv :: "string \<Rightarrow> 'd leases \<Rightarrow> bool" where
  "leases_inv sid m \<longleftrightarrow> wf_gomap m
     \<and> (\<forall>k l. map_of m k = Some l \<longrightarrow> k = store_key sid (LeaseID l) \<and> TrimSpace (LeaseID l) = LeaseID l)"

lemma store_key_prefix [simp]: "HasPrefix (store_key sid i) (store_prefix sid)"
  by (simp add: store_key_def store_prefix_def HasPrefix_def)

lemma store_key_inj [simp]: "store_key sid i = store_key sid j \<longleftrightarrow> i = j"
  by (simp add: store_key_def)

text \<open>Reclaiming changes no lease that is live now, and no identity.\<close>

lemma reclaim_lease_same [simp]:
  "LeaseID (reclaim_lease now l) = LeaseID l" "RuleID (reclaim_lease now l) = RuleID l"
  "lDimensions (reclaim_lease now l) = lDimensions l"
  by (simp_all add: reclaim_lease_def Lease_Expire_def)

lemma reclaim_lease_live [simp]: "IsLive now (reclaim_lease now l) = IsLive now l"
  by (auto simp: reclaim_lease_def Lease_Expire_def IsLive_def)

lemma map_of_reclaim:
  "map_of (reclaimLocked dkey sid rule dim now m) k =
     map_option (\<lambda>l. if of_rule dkey sid rule dim (k, l) then reclaim_lease now l else l) (map_of m k)"
  by (induction m) (auto simp: reclaimLocked_def)

lemma reclaim_inv: "leases_inv sid m \<Longrightarrow> leases_inv sid (reclaimLocked dkey sid rule dim now m)"
proof -
  assume inv: "leases_inv sid m"
  have "map fst (reclaimLocked dkey sid rule dim now m) = map fst m" by (simp add: reclaimLocked_def)
  with inv show ?thesis
    by (auto simp: leases_inv_def wf_gomap_def map_of_reclaim split: if_splits)
qed

lemma reclaim_live_keys:
  "live_keys dkey sid r d now self (reclaimLocked dkey sid rule dim now m) = live_keys dkey sid r d now self m"
proof -
  let ?f = "\<lambda>k l. if of_rule dkey sid rule dim (k, l) then reclaim_lease now l else l"
  have "of_rule dkey sid r d (k, ?f k l) = of_rule dkey sid r d (k, l)" "LeaseID (?f k l) = LeaseID l"
    "IsLive now (?f k l) = IsLive now l" for k l
    by (simp_all add: of_rule_def)
  then have "k \<in> live_keys dkey sid r d now self (reclaimLocked dkey sid rule dim now m)
      \<longleftrightarrow> k \<in> live_keys dkey sid r d now self m" for k
    by (cases "map_of m k") (simp_all add: live_keys_def map_of_reclaim)
  then show ?thesis by blast
qed

section \<open>Writing leases\<close>

lemma map_of_put_leases:
  "map_of (put_leases sid ls m) k =
     (case find (\<lambda>l. store_key sid (LeaseID l) = k) (rev ls) of Some l \<Rightarrow> Some l | None \<Rightarrow> map_of m k)"
  by (induction ls arbitrary: m rule: rev_induct) (auto simp: put_leases_def split: option.splits)

lemma put_leases_Some:
  assumes "map_of (put_leases sid ls m) k = Some l"
  shows "(l \<in> set ls \<and> k = store_key sid (LeaseID l))
    \<or> (map_of m k = Some l \<and> (\<forall>x \<in> set ls. store_key sid (LeaseID x) \<noteq> k))"
  using assms by (auto simp: map_of_put_leases find_None_set split: option.splits dest: find_Some_set)

lemma put_leases_wf: "wf_gomap m \<Longrightarrow> wf_gomap (put_leases sid ls m)"
  by (induction ls arbitrary: m) (auto simp: put_leases_def)

lemma put_leases_inv:
  assumes "leases_inv sid m" "\<forall>l \<in> set ls. TrimSpace (LeaseID l) = LeaseID l"
  shows "leases_inv sid (put_leases sid ls m)"
  using assms put_leases_Some put_leases_wf unfolding leases_inv_def by fast

lemma update_put: "AList.update (store_key sid (LeaseID l)) l m = put_leases sid [l] m"
  by (simp add: put_leases_def)

text \<open>The bound per rule and dimension, and what is enough to keep it.\<close>

definition within :: "(string \<Rightarrow> string \<Rightarrow> int) \<Rightarrow> ('d \<Rightarrow> string) \<Rightarrow> string \<Rightarrow> gotime \<Rightarrow> 'd leases \<Rightarrow> bool" where
  "within L dkey sid now m \<longleftrightarrow> leases_inv sid m
     \<and> (\<forall>r d. int (card (live_keys dkey sid r d now {} m)) \<le> L r d)"

lemma within_sub:
  assumes "within L dkey sid now m" "leases_inv sid m'"
    and "\<And>r d. live_keys dkey sid r d now {} m' \<subseteq> live_keys dkey sid r d now {} m"
  shows "within L dkey sid now m'"
proof -
  have "int (card (live_keys dkey sid r d now {} m')) \<le> L r d" for r d
  proof -
    have "card (live_keys dkey sid r d now {} m') \<le> card (live_keys dkey sid r d now {} m)"
      by (rule card_mono [OF _ assms(3)]) simp
    moreover have "int (card (live_keys dkey sid r d now {} m)) \<le> L r d" using assms(1) by (simp add: within_def)
    ultimately show ?thesis by linarith
  qed
  with assms(2) show ?thesis by (simp add: within_def)
qed

lemma within_later: "within L dkey sid now m \<Longrightarrow> now \<le> t \<Longrightarrow> within L dkey sid t m"
proof -
  assume w: "within L dkey sid now m" and t: "now \<le> t"
  have "int (card (live_keys dkey sid r d t {} m)) \<le> L r d" for r d
  proof -
    have "card (live_keys dkey sid r d t {} m) \<le> card (live_keys dkey sid r d now {} m)"
      by (rule card_mono [OF _ live_keys_antitone [OF t]]) simp
    moreover have "int (card (live_keys dkey sid r d now {} m)) \<le> L r d" using w by (simp add: within_def)
    ultimately show ?thesis by linarith
  qed
  with w show ?thesis by (simp add: within_def)
qed

lemma within_reclaim: "within L dkey sid now m \<Longrightarrow> within L dkey sid now (reclaimLocked dkey sid rule dim now m)"
  by (simp add: within_def reclaim_inv reclaim_live_keys)

section \<open>Operations keep the bound\<close>

definition acquire_ok :: "(string \<Rightarrow> string \<Rightarrow> int) \<Rightarrow> ('d \<Rightarrow> string) \<Rightarrow> 'd AcquireCommand \<Rightarrow> bool" where
  "acquire_ok L dkey cmd \<longleftrightarrow>
     TrimSpace (LeaseID (acLease cmd)) = LeaseID (acLease cmd) \<and> RuleID (acLease cmd) = acRuleID cmd
     \<and> dkey (lDimensions (acLease cmd)) = dkey (acDimensions cmd)
     \<and> acLimit cmd = L (acRuleID cmd) (dkey (acDimensions cmd))"

lemma put_one_live:
  "live_keys dkey sid r d t {} (put_leases sid [l] m) \<subseteq>
     live_keys dkey sid r d t {} m
     \<union> (if RuleID l = r \<and> dkey (lDimensions l) = d \<and> IsLive t l then {store_key sid (LeaseID l)} else {})"
proof
  fix k assume "k \<in> live_keys dkey sid r d t {} (put_leases sid [l] m)"
  then obtain x where x: "map_of (put_leases sid [l] m) k = Some x" "of_rule dkey sid r d (k, x)" "IsLive t x"
    by (auto simp: live_keys_def)
  from put_leases_Some [OF x(1)] x(2,3) show "k \<in> live_keys dkey sid r d t {} m
     \<union> (if RuleID l = r \<and> dkey (lDimensions l) = d \<and> IsLive t l then {store_key sid (LeaseID l)} else {})"
    by (auto simp: live_keys_def of_rule_def)
qed

lemma within_put_one:
  assumes "within L dkey sid now m" "TrimSpace (LeaseID l) = LeaseID l"
    and "countLiveLocked dkey sid (RuleID l) (dkey (lDimensions l)) now m < L (RuleID l) (dkey (lDimensions l))"
  shows "within L dkey sid now (put_leases sid [l] m)"
proof -
  have inv: "leases_inv sid m" using assms(1) by (simp add: within_def)
  have lt: "int (card (live_keys dkey sid (RuleID l) (dkey (lDimensions l)) now {} m)) < L (RuleID l) (dkey (lDimensions l))"
    using assms(3) inv by (simp add: countLiveLocked_def count_live_keys leases_inv_def)
  have "int (card (live_keys dkey sid r d now {} (put_leases sid [l] m))) \<le> L r d" for r d
  proof (cases "RuleID l = r \<and> dkey (lDimensions l) = d")
    case True
    have "live_keys dkey sid r d now {} (put_leases sid [l] m) \<subseteq> insert (store_key sid (LeaseID l)) (live_keys dkey sid r d now {} m)"
      using put_one_live [of dkey sid r d now l m] by (auto split: if_splits)
    then have "card (live_keys dkey sid r d now {} (put_leases sid [l] m)) \<le> Suc (card (live_keys dkey sid r d now {} m))"
      by (rule card_le_Suc_insert) simp
    with lt True show ?thesis by auto
  next
    case False
    have sub: "live_keys dkey sid r d now {} (put_leases sid [l] m) \<subseteq> live_keys dkey sid r d now {} m"
      using put_one_live [of dkey sid r d now l m] False by auto
    have "card (live_keys dkey sid r d now {} (put_leases sid [l] m)) \<le> card (live_keys dkey sid r d now {} m)"
      by (rule card_mono [OF _ sub]) simp
    moreover have "int (card (live_keys dkey sid r d now {} m)) \<le> L r d" using assms(1) by (simp add: within_def)
    ultimately show ?thesis by linarith
  qed
  with put_leases_inv [OF inv] assms(2) show ?thesis by (simp add: within_def)
qed

lemma within_Acquire:
  assumes "within L dkey sid (acNow cmd) m" "acquire_ok L dkey cmd"
  shows "within L dkey sid (acNow cmd) (snd (Acquire dkey sid ctxErr cmd m))"
proof -
  let ?dim = "dkey (acDimensions cmd)"
  let ?m1 = "reclaimLocked dkey sid (acRuleID cmd) ?dim (acNow cmd) m"
  let ?l = "if lState (acLease cmd) = LeaseStateOther [] then (acLease cmd)\<lparr>lState := LeaseStateActive\<rparr> else acLease cmd"
  have w1: "within L dkey sid (acNow cmd) ?m1" by (rule within_reclaim [OF assms(1)])
  have l: "LeaseID ?l = LeaseID (acLease cmd)" "RuleID ?l = acRuleID cmd" "dkey (lDimensions ?l) = ?dim"
    "TrimSpace (LeaseID ?l) = LeaseID ?l"
    using assms(2) by (auto simp: acquire_ok_def)
  have dim: "(if ?dim = [] then dkey (lDimensions (acLease cmd)) else ?dim) = ?dim"
    using assms(2) by (simp add: acquire_ok_def)
  have fresh: "within L dkey sid (acNow cmd) (AList.update (store_key sid (LeaseID (acLease cmd))) ?l ?m1)"
    if "\<not> countLiveLocked dkey sid (acRuleID cmd) ?dim (acNow cmd) ?m1 \<ge> acLimit cmd"
    using within_put_one [OF w1 l(4)] that assms(2) l update_put [of sid ?l ?m1] by (simp add: acquire_ok_def)
  have "snd (Acquire dkey sid ctxErr cmd m) \<in> {m, ?m1} \<or>
     snd (Acquire dkey sid ctxErr cmd m) = AList.update (store_key sid (LeaseID (acLease cmd))) ?l ?m1
       \<and> \<not> countLiveLocked dkey sid (acRuleID cmd) ?dim (acNow cmd) ?m1 \<ge> acLimit cmd"
    unfolding Acquire_def dim Let_def by (auto split: option.splits)
  with assms(1) w1 fresh show ?thesis by (metis empty_iff insert_iff)
qed

lemma Lease_Renew_live:
  assumes "Lease_Renew now g ttl l = Inr l'"
  shows "IsLive now l \<and> LeaseID l' = LeaseID l \<and> RuleID l' = RuleID l \<and> lDimensions l' = lDimensions l
    \<and> Generation l = g \<and> Generation l' = wrap64 (g + 1)"
  using assms by (auto simp: Lease_Renew_def Let_def IsLive_def split: if_splits)

lemma within_replace:
  assumes w: "within L dkey sid now m" and old: "map_of m (store_key sid (LeaseID l)) = Some l"
    and new: "LeaseID l' = LeaseID l" "RuleID l' = RuleID l" "lDimensions l' = lDimensions l" "IsLive now l' \<Longrightarrow> IsLive now l"
  shows "within L dkey sid now (put_leases sid [l'] m)"
proof (rule within_sub [OF w])
  have inv: "leases_inv sid m" using w by (simp add: within_def)
  with old have "TrimSpace (LeaseID l) = LeaseID l" by (auto simp: leases_inv_def)
  with new(1) show "leases_inv sid (put_leases sid [l'] m)" by (intro put_leases_inv [OF inv]) simp
  show "live_keys dkey sid r d now {} (put_leases sid [l'] m) \<subseteq> live_keys dkey sid r d now {} m" for r d
    using put_one_live [of dkey sid r d now l' m] old new by (auto simp: live_keys_def of_rule_def split: if_splits)
qed

lemma inv_key: "leases_inv sid m \<Longrightarrow> map_of m (store_key sid i) = Some l \<Longrightarrow> LeaseID l = i"
  unfolding leases_inv_def by (metis store_key_inj)

lemma within_Renew:
  assumes w: "within L dkey sid now m"
  shows "within L dkey sid now (snd (Store_Renew sid ctxErr i g ttl now m))"
proof -
  have inv: "leases_inv sid m" using w by (simp add: within_def)
  have "within L dkey sid now (AList.update (store_key sid i) l' m)"
    if "map_of m (store_key sid i) = Some l" "Lease_Renew now g ttl l = Inr l'" for l l'
    using within_replace [OF w, of l l'] Lease_Renew_live [OF that(2)] inv_key [OF inv that(1)] that(1)
      update_put [of sid l' m] by simp
  then show ?thesis using w by (auto simp: Store_Renew_def split: option.splits sum.splits)
qed

lemma Lease_Release_same [simp]:
  "LeaseID (Lease_Release now l) = LeaseID l" "RuleID (Lease_Release now l) = RuleID l"
  "lDimensions (Lease_Release now l) = lDimensions l" "lState (Lease_Release now l) = LeaseStateReleased"
  by (simp_all add: Lease_Release_def)

lemma Lease_Release_dead [simp]: "\<not> IsLive t (Lease_Release now l)"
  by (simp add: IsLive_def)

lemma within_Release:
  assumes w: "within L dkey sid now m"
  shows "within L dkey sid now (snd (Store_Release sid ctxErr i now m))"
proof -
  have inv: "leases_inv sid m" using w by (simp add: within_def)
  have "within L dkey sid now (AList.update (store_key sid i) (Lease_Release now l) m)"
    if "map_of m (store_key sid i) = Some l" for l
    using within_replace [OF w, of l "Lease_Release now l"] inv_key [OF inv that] that
      update_put [of sid "Lease_Release now l" m] by simp
  then show ?thesis using w by (auto simp: Store_Release_def Let_def split: option.splits)
qed

lemma loadSet_members:
  assumes "range_order it" "wf_gomap m" "loadSetLocked it sid setID m = Some s" "l \<in> set (lsMembers s)"
  shows "\<exists>k. map_of m k = Some l \<and> lSetID l = setID"
proof -
  let ?xs = "filter (\<lambda>e. HasPrefix (fst e) (store_prefix sid) \<and> lSetID (snd e) = setID) (it m)"
  obtain y ys where ys: "map snd ?xs = y # ys"
    using assms(3) by (cases "map snd ?xs") (simp_all add: loadSetLocked_def)
  with assms(3) have "lsMembers s = sort_key RuleID (map snd ?xs)" by (auto simp: loadSetLocked_def)
  then have "set (lsMembers s) = snd ` set ?xs" by simp
  with assms(4) obtain e where e: "e \<in> set ?xs" "l = snd e" by auto
  then have "(fst e, l) \<in> set m" using range_order_set [OF assms(1)] by auto
  then have "map_of m (fst e) = Some l" using assms(2) by (simp add: wf_map_of_iff)
  with e show ?thesis by auto
qed

lemma within_ReleaseSet:
  assumes it: "range_order it" and w: "within L dkey sid now m"
  shows "within L dkey sid now (snd (ReleaseSet it sid ctxErr setID now m))"
proof -
  have inv: "leases_inv sid m" and wf: "wf_gomap m" using w by (auto simp: within_def leases_inv_def)
  have "within L dkey sid now (put_leases sid (map (\<lambda>l. (Lease_Release now l)\<lparr>SetState := LeaseSetStateReleased\<rparr>) (lsMembers s)) m)"
    (is "within L dkey sid now ?m") if s: "loadSetLocked it sid setID m = Some s" for s
  proof (rule within_sub [OF w])
    have "TrimSpace (LeaseID l) = LeaseID l" if "l \<in> set (lsMembers s)" for l
      using loadSet_members [OF it wf s that] inv by (auto simp: leases_inv_def)
    then show "leases_inv sid ?m" by (intro put_leases_inv [OF inv]) auto
    show "live_keys dkey sid r d now {} ?m \<subseteq> live_keys dkey sid r d now {} m" for r d
    proof
      fix k assume "k \<in> live_keys dkey sid r d now {} ?m"
      then obtain l where l: "map_of ?m k = Some l" "of_rule dkey sid r d (k, l)" "IsLive now l"
        by (auto simp: live_keys_def)
      from put_leases_Some [OF l(1)] l(3) have "map_of m k = Some l" by (auto simp: IsLive_def)
      with l show "k \<in> live_keys dkey sid r d now {} m" by (auto simp: live_keys_def)
    qed
  qed
  then show ?thesis using w by (auto simp: ReleaseSet_def Let_def split: option.splits)
qed

subsection \<open>Acquiring a set\<close>

definition member_ok :: "(string \<Rightarrow> string \<Rightarrow> int) \<Rightarrow> ('d \<Rightarrow> string) \<Rightarrow> 'd AcquireSetMember \<Rightarrow> bool" where
  "member_ok L dkey am \<longleftrightarrow>
     TrimSpace (LeaseID (amLease am)) = LeaseID (amLease am) \<and> LeaseID (amLease am) \<noteq> []
     \<and> TrimSpace (amRuleID am) = amRuleID am \<and> RuleID (amLease am) = amRuleID am
     \<and> dkey (lDimensions (amLease am)) = dkey (amDimensions am)
     \<and> amLimit am = L (amRuleID am) (dkey (amDimensions am)) \<and> amMode am \<noteq> RuleModeAdvisory"

definition set_ok :: "(string \<Rightarrow> string \<Rightarrow> int) \<Rightarrow> ('d \<Rightarrow> string) \<Rightarrow> 'd AcquireSetCommand \<Rightarrow> bool" where
  "set_ok L dkey cmd \<longleftrightarrow>
     distinct (map amRuleID (asMembers cmd)) \<and> (\<forall>am \<in> set (asMembers cmd). member_ok L dkey am)"

lemma ordered_members_set:
  assumes "set_ok L dkey cmd"
  shows "set (ordered_members (asMembers cmd)) = set (asMembers cmd)"
proof -
  let ?ms = "asMembers cmd"
  have tr: "trimmed_rule am = amRuleID am" if "am \<in> set ?ms" for am
    using assms that by (auto simp: set_ok_def member_ok_def trimmed_rule_def)
  have uniq: "am = bm" if "am \<in> set ?ms" "bm \<in> set ?ms" "amRuleID am = amRuleID bm" for am bm
    using assms that by (auto simp: set_ok_def distinct_map inj_on_def)
  have f: "find (\<lambda>x. trimmed_rule x = trimmed_rule am) ?ms = Some am" if am: "am \<in> set ?ms" for am
  proof (cases "find (\<lambda>x. trimmed_rule x = trimmed_rule am) ?ms")
    case None
    with am show ?thesis by (auto simp: find_None_set)
  next
    case (Some x)
    with find_Some_set [OF Some] am tr uniq show ?thesis by metis
  qed
  have "set (ordered_members ?ms) = {x. \<exists>r \<in> trimmed_rule ` set ?ms. find (\<lambda>am. trimmed_rule am = r) ?ms = Some x}"
    by (auto simp: ordered_members_def List.map_filter_def lock_order_def SortedRuleIDs_def image_iff) force
  then show ?thesis using f by auto
qed

lemma set_member_same [simp]:
  "LeaseID (set_member_lease cmd am) = LeaseID (amLease am)"
  "lDimensions (set_member_lease cmd am) = lDimensions (amLease am)"
  by (simp_all add: set_member_lease_def Let_def)

lemma set_member_rule: "RuleID (amLease am) = amRuleID am \<Longrightarrow> RuleID (set_member_lease cmd am) = amRuleID am"
  by (simp add: set_member_lease_def Let_def)

lemma insert_loop_eq:
  "\<forall>am \<in> set ams. LeaseID (amLease am) \<noteq> [] \<Longrightarrow>
   insert_loop sid cmd ams m = (None, map (set_member_lease cmd) ams, put_leases sid (map (set_member_lease cmd) ams) m)"
  by (induction ams arbitrary: m) (auto simp: put_leases_def Let_def)

lemma capacity_loop_spec:
  assumes "within L dkey sid now m" "capacity_loop dkey sid now self ams m = (r, m1)"
  shows "within L dkey sid now m1
    \<and> (\<forall>r d x. live_keys dkey sid r d now x m1 = live_keys dkey sid r d now x m)
    \<and> (r = None \<longrightarrow> (\<forall>am \<in> set ams. amMode am \<noteq> RuleModeAdvisory \<longrightarrow>
         int (card (live_keys dkey sid (amRuleID am) (dkey (amDimensions am)) now self m)) < amLimit am))"
  using assms
proof (induction ams arbitrary: m)
  case (Cons am ams)
  let ?m1 = "reclaimLocked dkey sid (amRuleID am) (dkey (amDimensions am)) now m"
  have w: "within L dkey sid now ?m1" by (rule within_reclaim [OF Cons.prems(1)])
  then have "wf_gomap ?m1" by (simp add: within_def leases_inv_def)
  note c = count_live_keys [OF this]
  show ?case
  proof (cases "amLimit am \<le> countLiveExcludingLocked dkey sid (amRuleID am) (dkey (amDimensions am)) now self ?m1
      \<and> amMode am \<noteq> RuleModeAdvisory")
    case True
    with Cons.prems(2) have "r \<noteq> None" "m1 = ?m1" by (auto simp: Let_def)
    with w show ?thesis by (auto simp: reclaim_live_keys)
  next
    case False
    with Cons.prems(2) have "capacity_loop dkey sid now self ams ?m1 = (r, m1)" by (auto simp: Let_def)
    from Cons.IH [OF w this] False show ?thesis by (auto simp: c reclaim_live_keys)
  qed
qed simp

lemma within_insert_members:
  assumes w: "within L dkey sid now m" and ok: "set_ok L dkey cmd"
    and ams: "set ams = set (asMembers cmd)"
    and room: "\<forall>am \<in> set ams. int (card (live_keys dkey sid (amRuleID am) (dkey (amDimensions am)) now
        (set (map (\<lambda>am. TrimSpace (LeaseID (amLease am))) (asMembers cmd))) m)) < amLimit am"
  shows "within L dkey sid now (put_leases sid (map (set_member_lease cmd) ams) m)" (is "within L dkey sid now ?m")
proof -
  let ?self = "set (map (\<lambda>am. TrimSpace (LeaseID (amLease am))) (asMembers cmd))"
  have inv: "leases_inv sid m" using w by (simp add: within_def)
  have mo: "member_ok L dkey am" if "am \<in> set ams" for am using ok ams that by (auto simp: set_ok_def)
  have inv': "leases_inv sid ?m" using mo by (intro put_leases_inv [OF inv]) (auto simp: member_ok_def)
  have kept: "k \<in> live_keys dkey sid r d now ?self m" if "k \<in> live_keys dkey sid r d now {} ?m"
    and off: "\<forall>am \<in> set ams. k \<noteq> store_key sid (LeaseID (amLease am))" for k r d
  proof -
    from that(1) obtain l where l: "map_of ?m k = Some l" "of_rule dkey sid r d (k, l)" "IsLive now l"
      by (auto simp: live_keys_def)
    from put_leases_Some [OF l(1)] off have old: "map_of m k = Some l" by auto
    with inv have k: "k = store_key sid (LeaseID l)" "TrimSpace (LeaseID l) = LeaseID l" by (auto simp: leases_inv_def)
    have "LeaseID l \<noteq> LeaseID (amLease am)" if "am \<in> set ams" for am using k(1) off that by auto
    then have "TrimSpace (LeaseID l) \<notin> ?self" using k(2) ams mo by (auto simp: member_ok_def)
    with old l show ?thesis by (auto simp: live_keys_def)
  qed
  have mem: "\<exists>am \<in> set ams. k = store_key sid (LeaseID (amLease am)) \<and> amRuleID am = r \<and> dkey (amDimensions am) = d"
    if "k \<in> live_keys dkey sid r d now {} ?m" "k \<notin> live_keys dkey sid r d now ?self m" for k r d
  proof -
    from kept [OF that(1)] that(2) obtain am where am: "am \<in> set ams" "k = store_key sid (LeaseID (amLease am))" by auto
    from that(1) obtain l where l: "map_of ?m k = Some l" "of_rule dkey sid r d (k, l)" by (auto simp: live_keys_def)
    from put_leases_Some [OF l(1)] am obtain bm where "bm \<in> set ams" "l = set_member_lease cmd bm" "k = store_key sid (LeaseID l)"
      by auto
    with l(2) mo [of bm] set_member_rule [of bm cmd] show ?thesis by (auto simp: of_rule_def member_ok_def)
  qed
  have "int (card (live_keys dkey sid r d now {} ?m)) \<le> L r d" for r d
  proof (cases "\<exists>am \<in> set ams. amRuleID am = r \<and> dkey (amDimensions am) = d")
    case True
    then obtain am where am: "am \<in> set ams" "amRuleID am = r" "dkey (amDimensions am) = d" by blast
    have "am = bm" if "bm \<in> set ams" "amRuleID bm = r" for bm
      using ok am that ams by (auto simp: set_ok_def distinct_map inj_on_def)
    with mem [of _ r d] have "live_keys dkey sid r d now {} ?m
        \<subseteq> insert (store_key sid (LeaseID (amLease am))) (live_keys dkey sid r d now ?self m)" by blast
    then have "card (live_keys dkey sid r d now {} ?m) \<le> Suc (card (live_keys dkey sid r d now ?self m))"
      by (rule card_le_Suc_insert) simp
    with room am mo [OF am(1)] show ?thesis by (auto simp: member_ok_def)
  next
    case False
    with mem [of _ r d] have "live_keys dkey sid r d now {} ?m \<subseteq> live_keys dkey sid r d now ?self m" by blast
    also have "\<dots> \<subseteq> live_keys dkey sid r d now {} m" by (auto simp: live_keys_def)
    finally have "card (live_keys dkey sid r d now {} ?m) \<le> card (live_keys dkey sid r d now {} m)"
      by (intro card_mono) auto
    moreover have "int (card (live_keys dkey sid r d now {} m)) \<le> L r d" using w by (simp add: within_def)
    ultimately show ?thesis by linarith
  qed
  with inv' show ?thesis by (simp add: within_def)
qed

lemma within_AcquireSet:
  assumes w: "within L dkey sid (asNow cmd) m" and ok: "set_ok L dkey cmd"
  shows "within L dkey sid (asNow cmd) (snd (AcquireSet it dkey sid ctxErr cmd m))"
proof -
  let ?self = "set (map (\<lambda>am. TrimSpace (LeaseID (amLease am))) (asMembers cmd))"
  let ?ams = "ordered_members (asMembers cmd)"
  obtain r m1 where c: "capacity_loop dkey sid (asNow cmd) ?self ?ams m = (r, m1)" by fastforce
  note cs = capacity_loop_spec [OF w c]
  have ams: "set ?ams = set (asMembers cmd)" by (rule ordered_members_set [OF ok])
  have ne: "\<forall>am \<in> set ?ams. LeaseID (amLease am) \<noteq> []" using ok ams by (auto simp: set_ok_def member_ok_def)
  have strict: "\<forall>am \<in> set ?ams. amMode am \<noteq> RuleModeAdvisory" using ok ams by (auto simp: set_ok_def member_ok_def)
  have ins: "within L dkey sid (asNow cmd) (put_leases sid (map (set_member_lease cmd) ?ams) m1)" if "r = None"
    using cs strict that by (intro within_insert_members [OF _ ok ams]) auto
  have "snd (AcquireSet it dkey sid ctxErr cmd m) \<in> {m, m1} \<or>
      r = None \<and> snd (AcquireSet it dkey sid ctxErr cmd m) = put_leases sid (map (set_member_lease cmd) ?ams) m1"
    unfolding AcquireSet_def Let_def c insert_loop_eq [OF ne] by (auto split: option.splits)
  with w cs ins show ?thesis by (metis empty_iff insert_iff)
qed

section \<open>The store over time\<close>

text \<open>
  Calls on one store handle with a clock that does not run backwards. Commands are of the
  form the service builds: trimmed lease ids, leases that carry their rule and dimensions,
  and one limit per rule and dimension. Set renewal and the uncertain mark are left out
  here: they can revive expired leases, see \<open>renew_set_revives\<close>.
\<close>

inductive lease_step ::
  "(string \<Rightarrow> string \<Rightarrow> int) \<Rightarrow> ('d \<Rightarrow> string) \<Rightarrow> string \<Rightarrow> gotime \<times> 'd leases \<Rightarrow> gotime \<times> 'd leases \<Rightarrow> bool"
  for L :: "string \<Rightarrow> string \<Rightarrow> int" and dkey :: "'d \<Rightarrow> string" and sid :: string where
  lst_acquire: "t \<le> acNow cmd \<Longrightarrow> acquire_ok L dkey cmd \<Longrightarrow>
    lease_step L dkey sid (t, m) (acNow cmd, snd (Acquire dkey sid ctxErr cmd m))"
| lst_renew: "t \<le> now \<Longrightarrow> lease_step L dkey sid (t, m) (now, snd (Store_Renew sid ctxErr i g ttl now m))"
| lst_release: "t \<le> now \<Longrightarrow> lease_step L dkey sid (t, m) (now, snd (Store_Release sid ctxErr i now m))"
| lst_acquire_set: "t \<le> asNow cmd \<Longrightarrow> set_ok L dkey cmd \<Longrightarrow>
    lease_step L dkey sid (t, m) (asNow cmd, snd (AcquireSet it dkey sid ctxErr cmd m))"
| lst_release_set: "t \<le> now \<Longrightarrow> range_order it \<Longrightarrow>
    lease_step L dkey sid (t, m) (now, snd (ReleaseSet it sid ctxErr setID now m))"

definition lease_within :: "(string \<Rightarrow> string \<Rightarrow> int) \<Rightarrow> ('d \<Rightarrow> string) \<Rightarrow> string \<Rightarrow> gotime \<times> 'd leases \<Rightarrow> bool" where
  "lease_within L dkey sid s \<longleftrightarrow> within L dkey sid (fst s) (snd s)"

lemma lease_step_within: "lease_step L dkey sid s s' \<Longrightarrow> lease_within L dkey sid s \<Longrightarrow> lease_within L dkey sid s'"
  by (induction rule: lease_step.induct)
    (auto simp: lease_within_def intro: within_Acquire within_Renew within_Release within_AcquireSet
      within_ReleaseSet dest: within_later)

lemma within_empty: "(\<And>r d. 0 \<le> L r d) \<Longrightarrow> within L dkey sid t []"
  by (simp add: within_def leases_inv_def live_keys_def)

interpretation lease_store: step_invariant
  "\<lambda>s. snd s = [] \<and> (\<forall>r d. 0 \<le> L r d)" "lease_step L dkey sid" "lease_within L dkey sid" for L dkey sid
proof
  fix s :: "gotime \<times> 'a leases" assume "snd s = [] \<and> (\<forall>r d. 0 \<le> L r d)"
  then show "lease_within L dkey sid s" by (simp add: lease_within_def within_empty)
qed (rule lease_step_within)

section \<open>Properties\<close>

text \<open>
  C35: Capacity. Whatever acquires, strict set acquires, single-lease renewals, releases and
  set releases run on an initially empty store under a clock that does not run backwards, at
  every later time the number of live leases of a rule and dimension is at most its limit.
  (A set renewal does not keep the bound: \<open>RenewSet\<close> revives expired sets.)
\<close>

theorem lease_capacity:
  assumes "\<forall>r d. 0 \<le> L r d" "(lease_step L dkey sid)\<^sup>*\<^sup>* (t0, []) (t, m)" "t \<le> t'"
  shows "countLiveLocked dkey sid rule dim t' m \<le> L rule dim"
proof -
  have "lease_within L dkey sid (t0, [])" using assms(1) by (simp add: lease_within_def within_empty)
  from lease_store.inv_rtranclp [OF assms(2) this] assms(3) have "within L dkey sid t' m"
    by (auto simp: lease_within_def intro: within_later)
  then show ?thesis
    by (simp add: countLiveLocked_def within_def leases_inv_def count_live_keys)
qed

definition sample_lease :: "string \<Rightarrow> string Lease" where
  "sample_lease i = NewLease \<lparr>npLeaseID = i, npRuleID = ''r'', npRuleVersion = ''v'', npLogicalID = ''q'',
     npHolderID = [], npNamespace = [], npDimensions = ''alice'', npNow = 1, npTTL = 60\<rparr>"

definition sample_set_cmd :: "string \<Rightarrow> string \<Rightarrow> gotime \<Rightarrow> string AcquireSetCommand" where
  "sample_set_cmd setID i now = \<lparr>asSetID = setID, asRequestID = ''q'',
     asMembers = [\<lparr>amLease = sample_lease i, amRuleID = ''r'', amDimensions = ''alice'', amLimit = 1, amMode = RuleModeStrict\<rparr>],
     asTTL = 60, asRenewBefore = 15, asNow = now\<rparr>"

definition one_slot :: "string \<Rightarrow> string \<Rightarrow> int" where
  "one_slot r d = 1"

definition sample_leases :: "string leases" where
  "sample_leases = snd (AcquireSet (\<lambda>m. m) (\<lambda>d. d) ''st'' None (sample_set_cmd ''A'' ''a'' 1) [])"

lemma sample_set_ok:
  "set_ok one_slot (\<lambda>d. d) (sample_set_cmd setID ''a'' now)" "set_ok one_slot (\<lambda>d. d) (sample_set_cmd setID ''b'' now)"
proof -
  have t: "TrimSpace ''a'' = ''a''" "TrimSpace ''b'' = ''b''" "TrimSpace ''r'' = ''r''" by code_simp+
  show "set_ok one_slot (\<lambda>d. d) (sample_set_cmd setID ''a'' now)" "set_ok one_slot (\<lambda>d. d) (sample_set_cmd setID ''b'' now)"
    by (simp_all add: set_ok_def member_ok_def sample_set_cmd_def sample_lease_def NewLease_def Let_def one_slot_def t)
qed

theorem lease_capacity_witness:
  "countLiveLocked (\<lambda>d. d) ''st'' ''r'' ''alice'' 5
     (snd (AcquireSet (\<lambda>m. m) (\<lambda>d. d) ''st'' None (sample_set_cmd ''B'' ''b'' 2) sample_leases)) \<le> 1
   \<and> countLiveLocked (\<lambda>d. d) ''st'' ''r'' ''alice'' 5 sample_leases = 1"
proof
  let ?m = "snd (AcquireSet (\<lambda>m. m) (\<lambda>d. d) ''st'' None (sample_set_cmd ''B'' ''b'' 2) sample_leases)"
  have s1: "lease_step one_slot (\<lambda>d. d) ''st'' (0, []) (1, sample_leases)"
    using lst_acquire_set [of 0 "sample_set_cmd ''A'' ''a'' 1"] sample_set_ok
    by (simp add: sample_set_cmd_def sample_leases_def)
  have s2: "lease_step one_slot (\<lambda>d. d) ''st'' (1, sample_leases) (2, ?m)"
    using lst_acquire_set [of 1 "sample_set_cmd ''B'' ''b'' 2"] sample_set_ok by (simp add: sample_set_cmd_def)
  have "(lease_step one_slot (\<lambda>d. d) ''st'')\<^sup>*\<^sup>* (0, []) (2, ?m)" using s1 s2 by (meson r_into_rtranclp rtranclp.rtrancl_into_rtrancl)
  from lease_capacity [OF _ this, of 5 "''r''" "''alice''"]
  show "countLiveLocked (\<lambda>d. d) ''st'' ''r'' ''alice'' 5 ?m \<le> 1" by (simp add: one_slot_def)
  show "countLiveLocked (\<lambda>d. d) ''st'' ''r'' ''alice'' 5 sample_leases = 1" by code_simp
qed

datatype lease_op = OpRenew gotime int duration | OpRelease gotime | OpExpire gotime

fun op_time :: "lease_op \<Rightarrow> gotime" where
  "op_time (OpRenew now g ttl) = now"
| "op_time (OpRelease now) = now"
| "op_time (OpExpire now) = now"

fun lease_apply :: "lease_op \<Rightarrow> 'd Lease \<Rightarrow> 'd Lease" where
  "lease_apply (OpRenew now g ttl) l = (case Lease_Renew now g ttl l of Inl e \<Rightarrow> l | Inr l' \<Rightarrow> l')"
| "lease_apply (OpRelease now) l = Lease_Release now l"
| "lease_apply (OpExpire now) l = Lease_Expire now l"

lemma wrap64_succ_neq: "wrap64 (g + 1) \<noteq> g"
proof
  assume "wrap64 (g + 1) = g"
  then have eq: "(g + 1 + 2 ^ 63) mod 2 ^ 64 = g + 2 ^ 63" by (simp add: wrap64_def)
  then have "(g + 1 + 2 ^ 63 - (g + 2 ^ 63)) mod 2 ^ 64 = (0::int)" by (metis mod_0_imp_dvd mod_eq_dvd_iff mod_mod_trivial dvd_imp_mod_0)
  then show False by simp
qed

lemma dead_apply:
  assumes "\<not> IsLive t l" "t \<le> op_time op"
  shows "\<not> IsLive t (lease_apply op l) \<and> Generation (lease_apply op l) = Generation l"
proof (cases op)
  case (OpRenew now g ttl)
  with assms have "\<not> IsLive now l" using IsLive_antitone by auto
  with OpRenew assms show ?thesis using Lease_Renew_live [of now g ttl l] by (auto split: sum.splits)
qed (use assms in \<open>auto simp: Lease_Release_def Lease_Expire_def IsLive_def split: if_splits\<close>)

text \<open>
  No resurrection of a single lease. A lease that has stopped occupying capacity never
  occupies it again, whatever renewals, releases and expirations follow, and its generation
  stays as it is; and of two renewals that expect the same generation only the first succeeds.
\<close>

theorem lease_no_resurrection:
  assumes "\<not> IsLive t l" "\<forall>op \<in> set ops. t \<le> op_time op" "t \<le> t'"
  shows "\<not> IsLive t' (fold lease_apply ops l) \<and> Generation (fold lease_apply ops l) = Generation l
    \<and> (\<forall>x y now now2 ttl ttl2. Lease_Renew now g ttl x = Inr y \<longrightarrow> (\<nexists>z. Lease_Renew now2 g ttl2 (y::'e Lease) = Inr z))"
proof -
  have "\<not> IsLive t (fold lease_apply ops l) \<and> Generation (fold lease_apply ops l) = Generation l"
    using assms(1,2) dead_apply by (induction ops arbitrary: l) auto
  moreover have "\<nexists>z. Lease_Renew now2 g ttl2 y = Inr z" if "Lease_Renew now g ttl x = Inr y"
    for x y :: "'e Lease" and now now2 ttl ttl2
    using Lease_Renew_live [OF that] Lease_Renew_live [of now2 g ttl2 y] wrap64_succ_neq [of g] by force
  ultimately show ?thesis using IsLive_antitone [OF assms(3)] by blast
qed

theorem lease_no_resurrection_witness:
  "\<not> IsLive 500 (fold lease_apply [OpRenew 70 1 60, OpRelease 80, OpRenew 90 1 60] (sample_lease ''a''))
   \<and> IsLive 60 (sample_lease ''a'')"
proof
  have "\<not> IsLive 61 (sample_lease ''a'')" by code_simp
  from lease_no_resurrection [OF this, of "[OpRenew 70 1 60, OpRelease 80, OpRenew 90 1 60]" 500]
  show "\<not> IsLive 500 (fold lease_apply [OpRenew 70 1 60, OpRelease 80, OpRenew 90 1 60] (sample_lease ''a''))" by auto
  show "IsLive 60 (sample_lease ''a'')" by code_simp
qed

text \<open>
  C36: Renewing a set revives it. Unlike the renewal of a single lease, \<open>RenewSet\<close> does not
  look at expiry: for any set that is not released or failed, a renewal with the set's
  generation makes all members live again, however long they have been expired and even if
  their slots have been given to other requests in between.
\<close>

theorem renew_set_revives:
  assumes "range_order it" "leases_inv sid m" "loadSetLocked it sid (rsSetID cmd) m = Some s"
    and "lsState s \<noteq> LeaseSetStateReleased" "lsState s \<noteq> LeaseSetStateFailed"
    and "lsGeneration s = rsExpectedGeneration cmd" "TrimSpace (rsSetID cmd) \<noteq> []"
    and "ValidateTiming (rsTTL cmd) (rsRenewBefore cmd) = None" "0 \<le> rsNow cmd" "l \<in> set (lsMembers s)"
  shows "\<exists>l'. map_of (snd (RenewSet it sid None cmd m)) (store_key sid (LeaseID l)) = Some l'
    \<and> LeaseID l' = LeaseID l \<and> IsLive (rsNow cmd) l'"
proof -
  let ?f = "\<lambda>l. l\<lparr>RenewedAt := rsNow cmd, ExpiresAt := rsNow cmd + rsTTL cmd,
      Generation := wrap64 (Generation l + 1), SetGeneration := wrap64 (lsGeneration s + 1),
      SetState := LeaseSetStateActive, lState := LeaseStateActive\<rparr>"
  have r: "snd (RenewSet it sid None cmd m) = put_leases sid (map ?f (lsMembers s)) m"
    using assms by (simp add: RenewSet_def Let_def)
  have ttl: "0 < rsTTL cmd" using assms(8) by (auto simp: ValidateTiming_def split: if_splits)
  have "find (\<lambda>x. store_key sid (LeaseID x) = store_key sid (LeaseID l)) (rev (map ?f (lsMembers s))) \<noteq> None"
    using assms(10) by (auto simp: find_None_set)
  then obtain x where x: "find (\<lambda>x. store_key sid (LeaseID x) = store_key sid (LeaseID l)) (rev (map ?f (lsMembers s))) = Some x"
    by blast
  from find_Some_set [OF x] obtain y where "x = ?f y" "LeaseID x = LeaseID l" by auto
  with ttl x assms(9) show ?thesis
    by (auto simp: r map_of_put_leases IsLive_def wall_expired_def)
qed

definition reused_slot :: "string leases" where
  "reused_slot = snd (AcquireSet (\<lambda>m. m) (\<lambda>d. d) ''st'' None (sample_set_cmd ''B'' ''b'' 100) sample_leases)"

definition late_renewal :: RenewSetCommand where
  "late_renewal = \<lparr>rsSetID = ''A'', rsExpectedGeneration = 1, rsTTL = 60, rsRenewBefore = 15, rsNow = 101\<rparr>"

theorem renew_set_revives_witness:
  "(\<exists>l'. map_of (snd (RenewSet (\<lambda>m. m) ''st'' None late_renewal reused_slot)) (store_key ''st'' ''a'') = Some l'
      \<and> LeaseID l' = ''a'' \<and> IsLive 101 l')
   \<and> countLiveLocked (\<lambda>d. d) ''st'' ''r'' ''alice'' 101 reused_slot = 1
   \<and> countLiveLocked (\<lambda>d. d) ''st'' ''r'' ''alice'' 101 (snd (RenewSet (\<lambda>m. m) ''st'' None late_renewal reused_slot)) = 2"
proof (intro conjI)
  have w: "within one_slot (\<lambda>d. d) ''st'' 100 reused_slot"
    using within_AcquireSet [OF _ sample_set_ok(2), of "''st''" "''B''" 100 sample_leases "\<lambda>m. m" None]
      within_AcquireSet [OF _ sample_set_ok(1), of "''st''" "''A''" 1 "[]" "\<lambda>m. m" None]
      within_empty [of one_slot "\<lambda>d. d" "''st''" 1] within_later [of one_slot "\<lambda>d. d" "''st''" 1 sample_leases 100]
    by (simp add: reused_slot_def sample_leases_def sample_set_cmd_def one_slot_def)
  have "case loadSetLocked (\<lambda>m. m) ''st'' (rsSetID late_renewal) reused_slot of None \<Rightarrow> False
    | Some s \<Rightarrow> lsState s = LeaseSetStateActive \<and> lsGeneration s = rsExpectedGeneration late_renewal
        \<and> map LeaseID (lsMembers s) = [''a'']" by code_simp
  then obtain s where s: "loadSetLocked (\<lambda>m. m) ''st'' (rsSetID late_renewal) reused_slot = Some s"
    "lsState s = LeaseSetStateActive" "lsGeneration s = rsExpectedGeneration late_renewal" "map LeaseID (lsMembers s) = [''a'']"
    by (auto split: option.splits)
  then obtain l where l: "lsMembers s = [l]" "LeaseID l = ''a''" by (cases "lsMembers s") auto
  have v: "TrimSpace (rsSetID late_renewal) \<noteq> []" "ValidateTiming (rsTTL late_renewal) (rsRenewBefore late_renewal) = None"
    by code_simp+
  show "\<exists>l'. map_of (snd (RenewSet (\<lambda>m. m) ''st'' None late_renewal reused_slot)) (store_key ''st'' ''a'') = Some l'
      \<and> LeaseID l' = ''a'' \<and> IsLive 101 l'"
    using renew_set_revives [OF range_order_id _ s(1) _ _ s(3) v, of l] w s(2) l
    by (simp add: within_def late_renewal_def)
  show "countLiveLocked (\<lambda>d. d) ''st'' ''r'' ''alice'' 101 reused_slot = 1" by code_simp
  show "countLiveLocked (\<lambda>d. d) ''st'' ''r'' ''alice'' 101 (snd (RenewSet (\<lambda>m. m) ''st'' None late_renewal reused_slot)) = 2"
    by code_simp
qed

end
