(* ===== verification/Attempt_Failures.thy ===== *)
theory Attempt_Failures
  imports Routing_Planner Aip_Api
begin

text \<open>
  What the executor remembers of failed candidates and which error ends a route:
  \<open>internal/core/runtime/executor_route_plan.go\<close> (the failure history),
  \<open>transform_exclude_agg.go\<close>, \<open>executor_clock_rng.go\<close> (the attempt budget),
  \<open>ttft_budget.go\<close>, \<open>attempt_open_failure.go\<close>, the rejections of
  \<open>executor_open_attempt.go\<close> and the failure deltas of \<open>parallel_race.go\<close>, over the error
  values of \<open>pkg/aipapi\<close>.

  An error value is the tree that \<open>errors.Is\<close> and \<open>errors.As\<close> walk. The error texts of wrapped
  errors are shortened; the text a failure is recorded with (\<open>attemptReasonDetail\<close>, which
  truncates the message) is an argument.
\<close>

section \<open>Error values\<close>

datatype OutputPhase = PhasePreOutput | PhasePostOutput | PhaseOther string

datatype go_error =
  Sentinel string
| UpstreamFailureError OutputPhase bool string string
| RecoverablePreOutputError go_error
| RejectError "string list"
| TransportRejectError string string
| RequirementsRejectError "string list" "string list" "string list"
| Wrapped string go_error
| Joined "go_error list"

definition ErrRecoverablePreOutput :: string where
  "ErrRecoverablePreOutput = ''aipapi: recoverable pre-output upstream failure''"

definition ErrCapabilityReject :: string where
  "ErrCapabilityReject = ''aipapi: capability reject''"

definition ErrTransportReject :: string where
  "ErrTransportReject = ''aipapi: transport reject''"

definition ErrMaxRouteAttempts :: string where
  "ErrMaxRouteAttempts = ''aipapi: routing max_attempts exhausted''"

definition ErrTTFTTimeout :: string where
  "ErrTTFTTimeout = ''aipapi: time to first token timeout''"

definition ErrALegCanceled :: string where
  "ErrALegCanceled = ''leglifecycle: a-leg canceled''"

definition context_Canceled :: string where
  "context_Canceled = ''context canceled''"

definition context_DeadlineExceeded :: string where
  "context_DeadlineExceeded = ''context deadline exceeded''"

text \<open>\<open>errors.Is\<close> against a sentinel.\<close>

fun error_Is :: "go_error \<Rightarrow> string \<Rightarrow> bool" where
  "error_Is (Sentinel n) t \<longleftrightarrow> n = t"
| "error_Is (UpstreamFailureError ph rec reason key) t \<longleftrightarrow>
     rec \<and> ph = PhasePreOutput \<and> t = ErrRecoverablePreOutput"
| "error_Is (RecoverablePreOutputError e) t \<longleftrightarrow> t = ErrRecoverablePreOutput \<or> error_Is e t"
| "error_Is (RejectError ms) t \<longleftrightarrow> t = ErrCapabilityReject"
| "error_Is (TransportRejectError op md) t \<longleftrightarrow> t = ErrTransportReject"
| "error_Is (RequirementsRejectError cs ds es) t \<longleftrightarrow> t = ErrCapabilityReject"
| "error_Is (Wrapped s e) t \<longleftrightarrow> error_Is e t"
| "error_Is (Joined es) t \<longleftrightarrow> list_ex (\<lambda>e. error_Is e t) es"

text \<open>\<open>errors.As\<close> for \<open>*UpstreamFailureError\<close>: the first one in preorder.\<close>

fun error_AsUpstream :: "go_error \<Rightarrow> (OutputPhase \<times> bool \<times> string \<times> string) option" where
  "error_AsUpstream (UpstreamFailureError ph rec reason key) = Some (ph, rec, reason, key)"
| "error_AsUpstream (RecoverablePreOutputError e) = error_AsUpstream e"
| "error_AsUpstream (Wrapped s e) = error_AsUpstream e"
| "error_AsUpstream (Joined es) =
     foldr (\<lambda>e rest. case error_AsUpstream e of Some u \<Rightarrow> Some u | None \<Rightarrow> rest) es None"
| "error_AsUpstream e = None"

definition IsRecoverablePreOutput :: "go_error \<Rightarrow> bool" where
  "IsRecoverablePreOutput err =
     (if error_Is err ErrRecoverablePreOutput then True
      else case error_AsUpstream err of
        None \<Rightarrow> False
      | Some (ph, rec, reason, key) \<Rightarrow> rec \<and> ph = PhasePreOutput)"

text \<open>\<open>errors.Join\<close>: nil errors are dropped, and nothing left is nil.\<close>

definition error_Join :: "go_error option list \<Rightarrow> go_error option" where
  "error_Join es = (case List.map_filter (\<lambda>e. e) es of [] \<Rightarrow> None | xs \<Rightarrow> Some (Joined xs))"

lemma foldr_first_Some:
  "foldr (\<lambda>e rest. case f e of Some u \<Rightarrow> Some u | None \<Rightarrow> rest) es None = Some u \<Longrightarrow> \<exists>e \<in> set es. f e = Some u"
  by (induction es) (auto split: option.splits)

lemma AsUpstream_Is:
  "error_AsUpstream e = Some (PhasePreOutput, True, reason, key) \<Longrightarrow> error_Is e ErrRecoverablePreOutput"
proof (induction e)
  case (Joined es)
  then show ?case using foldr_first_Some [of error_AsUpstream es] by (fastforce simp: list_ex_iff)
qed auto

text \<open>The second test of \<open>IsRecoverablePreOutput\<close> never adds anything to the first.\<close>

lemma IsRecoverablePreOutput_Is: "IsRecoverablePreOutput e = error_Is e ErrRecoverablePreOutput"
  by (auto simp: IsRecoverablePreOutput_def split: option.splits dest: AsUpstream_Is)

section \<open>Negotiation results\<close>

datatype NegotiationKind =
  NegotiationLossless | NegotiationDowngrade | NegotiationReject | NegotiationOther string

record NegotiationResult =
  nrKind :: NegotiationKind
  Missing :: "string list"

record TransportNegotiationResult =
  trKind :: NegotiationKind
  trOperation :: string
  trMode :: string

record RequirementsMatchResult =
  rqKind :: NegotiationKind
  MissingCaps :: "string list"
  MissingDialects :: "string list"
  MissingExtensions :: "string list"

record CandidateAdmissionResult =
  adKind :: NegotiationKind
  Capability :: NegotiationResult
  Transport :: TransportNegotiationResult
  Requirements :: RequirementsMatchResult
  ProjectionError :: "go_error option"

definition NegotiationResult_Err :: "NegotiationResult \<Rightarrow> go_error option" where
  "NegotiationResult_Err r = (if nrKind r \<noteq> NegotiationReject then None else Some (RejectError (Missing r)))"

definition TransportNegotiationResult_Err :: "TransportNegotiationResult \<Rightarrow> go_error option" where
  "TransportNegotiationResult_Err r =
     (if trKind r \<noteq> NegotiationReject then None else Some (TransportRejectError (trOperation r) (trMode r)))"

definition RequirementsMatchResult_Err :: "RequirementsMatchResult \<Rightarrow> go_error option" where
  "RequirementsMatchResult_Err r =
     (if rqKind r \<noteq> NegotiationReject then None
      else Some (RequirementsRejectError (MissingCaps r) (MissingDialects r) (MissingExtensions r)))"

definition no_negotiation :: NegotiationResult where
  "no_negotiation = \<lparr>nrKind = NegotiationOther [], Missing = []\<rparr>"

definition no_transport :: TransportNegotiationResult where
  "no_transport = \<lparr>trKind = NegotiationOther [], trOperation = [], trMode = []\<rparr>"

section \<open>The failure history\<close>

record transformExcludeTracker =
  teCount :: int
  teUnrepresentable :: int
  nonTransform :: bool

definition noteTransform :: "string \<Rightarrow> transformExcludeTracker option \<Rightarrow> transformExcludeTracker option" where
  "noteTransform reason t = map_option (\<lambda>t. t\<lparr>teCount := teCount t + 1,
     teUnrepresentable := (if reason = ''unrepresentable_replay'' then teUnrepresentable t + 1 else teUnrepresentable t)\<rparr>) t"

definition noteOther :: "transformExcludeTracker option \<Rightarrow> transformExcludeTracker option" where
  "noteOther t = map_option (\<lambda>t. t\<lparr>nonTransform := True\<rparr>) t"

definition ErrAllCandidatesUnrepresentableReplay :: go_error where
  "ErrAllCandidatesUnrepresentableReplay = Sentinel ''aipapi: all route candidates excluded: unrepresentable_replay''"

definition ErrAllCandidatesExcluded :: go_error where
  "ErrAllCandidatesExcluded = Sentinel ''aipapi: all route candidates excluded: candidate_excluded''"

definition ErrAllCandidatesContextLimitExceeded :: go_error where
  "ErrAllCandidatesContextLimitExceeded = Sentinel ''aipapi: all route candidates excluded by context limit''"

definition allExcludedError :: "transformExcludeTracker option \<Rightarrow> go_error option" where
  "allExcludedError t = (case t of
       None \<Rightarrow> None
     | Some t \<Rightarrow>
         if teCount t = 0 \<or> nonTransform t then None
         else if teUnrepresentable t = teCount t then Some ErrAllCandidatesUnrepresentableReplay
         else Some ErrAllCandidatesExcluded)"

record candidateFailureHistory =
  CapabilityReject :: NegotiationResult
  TransportReject :: TransportNegotiationResult
  AdmissionErr :: "go_error option"
  SwallowedCapabilityReject :: "go_error option"
  SwallowedUpstreamFailure :: "go_error option"
  ContextLimit :: bool
  TransformExcludes :: "transformExcludeTracker option"
  ParallelFailure :: "go_error option"
  AffinityReset :: string

definition new_tracker :: transformExcludeTracker where
  "new_tracker = \<lparr>teCount = 0, teUnrepresentable = 0, nonTransform = False\<rparr>"

definition new_failures :: candidateFailureHistory where
  "new_failures = \<lparr>CapabilityReject = no_negotiation, TransportReject = no_transport, AdmissionErr = None,
     SwallowedCapabilityReject = None, SwallowedUpstreamFailure = None, ContextLimit = False,
     TransformExcludes = Some new_tracker, ParallelFailure = None, AffinityReset = []\<rparr>"

definition FinalError :: "candidateFailureHistory \<Rightarrow> go_error \<Rightarrow> go_error" where
  "FinalError h base =
     (case TransportNegotiationResult_Err (TransportReject h) of Some e \<Rightarrow> e
      | None \<Rightarrow> (case AdmissionErr h of Some e \<Rightarrow> e
      | None \<Rightarrow> (case NegotiationResult_Err (CapabilityReject h) of Some e \<Rightarrow> e
      | None \<Rightarrow> (case SwallowedCapabilityReject h of Some e \<Rightarrow> e
      | None \<Rightarrow> if ContextLimit h then ErrAllCandidatesContextLimitExceeded
         else (case allExcludedError (TransformExcludes h) of Some e \<Rightarrow> e
      | None \<Rightarrow> (case SwallowedUpstreamFailure h of Some e \<Rightarrow> e
      | None \<Rightarrow> (case ParallelFailure h of Some e \<Rightarrow> e
      | None \<Rightarrow> base)))))))"

definition resolveTerminalOpenError :: "candidateFailureHistory \<Rightarrow> go_error \<Rightarrow> go_error" where
  "resolveTerminalOpenError h err =
     (if \<not> error_Is err ErrMaxRouteAttempts then err
      else case SwallowedUpstreamFailure h of
        None \<Rightarrow> err
      | Some upstream \<Rightarrow> if FinalError h err = upstream then upstream else err)"

section \<open>Rejections\<close>

datatype rejectionKind = rejectNone | rejectExclude | rejectAdmission | rejectContextLimit | rejectParallel

text \<open>The dynamic type of \<open>detail any\<close>.\<close>

datatype rejection_detail =
  NoDetail | DetailReason string | DetailAdmission CandidateAdmissionResult | DetailError go_error

record candidateRejection =
  rjKind :: rejectionKind
  rjDetail :: rejection_detail

definition applyRejection :: "candidateRejection \<Rightarrow> candidateFailureHistory \<Rightarrow> candidateFailureHistory" where
  "applyRejection r h =
     (case rjKind r of
        rejectExclude \<Rightarrow>
          (case rjDetail r of
             DetailReason reason \<Rightarrow>
               if reason \<noteq> [] \<and> reason \<noteq> ''panic''
               then h\<lparr>TransformExcludes := noteTransform reason (TransformExcludes h)\<rparr>
               else h\<lparr>TransformExcludes := noteOther (TransformExcludes h)\<rparr>
           | _ \<Rightarrow> h\<lparr>TransformExcludes := noteOther (TransformExcludes h)\<rparr>)
      | rejectAdmission \<Rightarrow>
          (case rjDetail r of
             DetailAdmission ad \<Rightarrow>
               let h1 = (if adKind ad = NegotiationReject then h\<lparr>CapabilityReject := Capability ad\<rparr> else h)
               in if trKind (Transport ad) = NegotiationReject then h1\<lparr>TransportReject := Transport ad\<rparr> else h1
           | _ \<Rightarrow> h)
      | rejectContextLimit \<Rightarrow> h\<lparr>ContextLimit := True, TransformExcludes := noteOther (TransformExcludes h)\<rparr>
      | rejectParallel \<Rightarrow> (case rjDetail r of DetailError e \<Rightarrow> h\<lparr>ParallelFailure := Some e\<rparr> | _ \<Rightarrow> h)
      | rejectNone \<Rightarrow> h)"

text \<open>The bookkeeping of \<open>noteCandidateAdmissionReject\<close>: the reason and the history.\<close>

definition note_admission :: "CandidateAdmissionResult \<Rightarrow> candidateFailureHistory \<Rightarrow> string \<times> candidateFailureHistory" where
  "note_admission ad h =
     (let (reason, h1) =
        (if trKind (Transport ad) = NegotiationReject
         then (''transport_reject'', h\<lparr>TransportReject := Transport ad\<rparr>)
         else if nrKind (Capability ad) = NegotiationReject
         then (''capability_reject'', h\<lparr>CapabilityReject := Capability ad\<rparr>)
         else if rqKind (Requirements ad) = NegotiationReject
         then (''requirements_reject'', h\<lparr>AdmissionErr := RequirementsMatchResult_Err (Requirements ad)\<rparr>)
         else if ProjectionError ad \<noteq> None
         then (''projection_reject'', h\<lparr>AdmissionErr := ProjectionError ad\<rparr>)
         else (''admission_reject'', h))
      in (reason, h1\<lparr>TransformExcludes := noteOther (TransformExcludes h1)\<rparr>))"

section \<open>Failure deltas of parallel arms\<close>

record parallelFailureDelta =
  dTransformCount :: int
  dUnrepresentable :: int
  dNonTransform :: bool
  dCapabilityReject :: NegotiationResult
  dTransportReject :: TransportNegotiationResult
  dAdmissionErr :: "go_error option"
  dContextLimit :: bool
  dParallelFailure :: "go_error option"
  dAffinityReset :: string
  dSwallowedUpstreamFailure :: "go_error option"

definition parallelFailureDeltaFromHistory :: "candidateFailureHistory \<Rightarrow> parallelFailureDelta" where
  "parallelFailureDeltaFromHistory h =
     (let t = (case TransformExcludes h of Some t \<Rightarrow> t | None \<Rightarrow> new_tracker) in
      \<lparr>dTransformCount = teCount t, dUnrepresentable = teUnrepresentable t, dNonTransform = nonTransform t,
       dCapabilityReject = CapabilityReject h, dTransportReject = TransportReject h,
       dAdmissionErr = AdmissionErr h, dContextLimit = ContextLimit h, dParallelFailure = ParallelFailure h,
       dAffinityReset = AffinityReset h, dSwallowedUpstreamFailure = SwallowedUpstreamFailure h\<rparr>)"

definition or_else :: "'a option \<Rightarrow> 'a option \<Rightarrow> 'a option" where
  "or_else a b = (if a \<noteq> None then a else b)"

definition applyToShared :: "parallelFailureDelta \<Rightarrow> candidateFailureHistory \<Rightarrow> candidateFailureHistory" where
  "applyToShared d h =
     (let t = (case TransformExcludes h of Some t \<Rightarrow> t | None \<Rightarrow> new_tracker) in
      h\<lparr>TransformExcludes := Some \<lparr>teCount = teCount t + dTransformCount d,
            teUnrepresentable = teUnrepresentable t + dUnrepresentable d,
            nonTransform = (if dNonTransform d then True else nonTransform t)\<rparr>,
        CapabilityReject := (if nrKind (dCapabilityReject d) \<noteq> NegotiationOther [] then dCapabilityReject d
            else CapabilityReject h),
        TransportReject := (if trKind (dTransportReject d) \<noteq> NegotiationOther [] then dTransportReject d
            else TransportReject h),
        AdmissionErr := or_else (dAdmissionErr d) (AdmissionErr h),
        ContextLimit := (if dContextLimit d then True else ContextLimit h),
        ParallelFailure := or_else (dParallelFailure d) (ParallelFailure h),
        SwallowedUpstreamFailure := or_else (dSwallowedUpstreamFailure d) (SwallowedUpstreamFailure h),
        AffinityReset := (if dAffinityReset d \<noteq> [] then dAffinityReset d else AffinityReset h)\<rparr>)"

section \<open>The attempt budget\<close>

record attemptBudget =
  bMax :: int
  bUsed :: int

text \<open>A nil budget is unlimited.\<close>

definition tryAcquire :: "attemptBudget option \<Rightarrow> bool \<times> attemptBudget option" where
  "tryAcquire b = (case b of
       None \<Rightarrow> (True, None)
     | Some x \<Rightarrow> if bUsed x \<ge> bMax x then (False, b) else (True, Some (x\<lparr>bUsed := bUsed x + 1\<rparr>)))"

definition budget_release :: "attemptBudget option \<Rightarrow> attemptBudget option" where
  "budget_release b = map_option (\<lambda>x. if bUsed x > 0 then x\<lparr>bUsed := bUsed x - 1\<rparr> else x) b"

definition usedNow :: "attemptBudget option \<Rightarrow> int" where
  "usedNow b = (case b of None \<Rightarrow> 0 | Some x \<Rightarrow> bUsed x)"

definition exhausted :: "attemptBudget option \<Rightarrow> bool" where
  "exhausted b = (case b of None \<Rightarrow> False | Some x \<Rightarrow> bUsed x \<ge> bMax x)"

definition effectiveMaxAttempts :: "int option \<Rightarrow> int" where
  "effectiveMaxAttempts m = (case m of None \<Rightarrow> 3 | Some n \<Rightarrow> if n \<le> 0 then 3 else n)"

lemma tryAcquire_exhausted: "fst (tryAcquire b) = (\<not> exhausted b)"
  by (simp add: tryAcquire_def exhausted_def split: option.splits)

section \<open>The time-to-first-token budget\<close>

datatype ttftTimeoutScope = ttftTimeoutNone | ttftTimeoutGlobal | ttftTimeoutLeaf

record ttftBudget =
  ttStart :: gotime
  ttGlobal :: duration
  ttDone :: bool
  leafDeadlines :: "(string, gotime) gomap"

definition newTTFTBudget :: "gotime \<Rightarrow> Selector option \<Rightarrow> ttftBudget" where
  "newTTFTBudget start sel =
     \<lparr>ttStart = start,
      ttGlobal = (case sel of None \<Rightarrow> 0 | Some s \<Rightarrow> (case GlobalTTFTTimeout s of None \<Rightarrow> 0 | Some d \<Rightarrow> d)),
      ttDone = False, leafDeadlines = []\<rparr>"

definition markCommitted :: "ttftBudget \<Rightarrow> ttftBudget" where
  "markCommitted b = b\<lparr>ttDone := True\<rparr>"

definition ttft_deadline ::
  "gotime \<Rightarrow> string \<Rightarrow> duration option \<Rightarrow> ttftBudget \<Rightarrow> (gotime \<times> ttftTimeoutScope \<times> bool) \<times> ttftBudget" where
  "ttft_deadline now key leaf b =
     (if ttDone b then ((0, ttftTimeoutNone, False), b)
      else
        let (dl, sc) = (if ttGlobal b > 0 then (ttStart b + ttGlobal b, ttftTimeoutGlobal) else (0, ttftTimeoutNone))
        in (case leaf of
              Some d \<Rightarrow>
                if d > 0 then
                  let (leafDL, b') = (case map_of (leafDeadlines b) key of
                        Some t \<Rightarrow> (t, b)
                      | None \<Rightarrow> (now + d, b\<lparr>leafDeadlines := AList.update key (now + d) (leafDeadlines b)\<rparr>));
                      (dl', sc') = (if sc = ttftTimeoutNone \<or> leafDL < dl then (leafDL, ttftTimeoutLeaf) else (dl, sc))
                  in ((dl', sc', sc' \<noteq> ttftTimeoutNone), b')
                else ((dl, sc, sc \<noteq> ttftTimeoutNone), b)
            | None \<Rightarrow> ((dl, sc, sc \<noteq> ttftTimeoutNone), b)))"

definition ttftAttemptReason :: "ttftTimeoutScope \<Rightarrow> string" where
  "ttftAttemptReason sc = (case sc of
       ttftTimeoutLeaf \<Rightarrow> ''leaf ttft timeout''
     | ttftTimeoutGlobal \<Rightarrow> ''global ttft timeout''
     | ttftTimeoutNone \<Rightarrow> ''ttft timeout'')"

definition ttftFailure :: "ttftTimeoutScope \<Rightarrow> string \<Rightarrow> go_error" where
  "ttftFailure sc key = UpstreamFailureError PhasePreOutput (sc = ttftTimeoutLeaf) (ttftAttemptReason sc) key"

text \<open>The test of \<open>ttftContextDeadline.expired\<close>; \<open>parentErr\<close> is the error of the parent context.\<close>

definition ttft_expired :: "ttftTimeoutScope \<Rightarrow> go_error option \<Rightarrow> go_error \<Rightarrow> bool" where
  "ttft_expired sc parentErr err =
     (if sc = ttftTimeoutNone \<or> parentErr \<noteq> None then False else error_Is err context_DeadlineExceeded)"

section \<open>Failed opens\<close>

datatype ReleaseKind = ReleaseKindSwallowed | ReleaseKindLosing | ReleaseKindAdmissionFailure

datatype LegOutcome =
  LegOutcomeWinner | LegOutcomeLoser | LegOutcomeFailed | LegOutcomeCanceled | LegOutcomeSwallowed
| LegOutcomeRejected | LegOutcomeNeverStarted | LegOutcomeUnknown

definition nilStreamOpenReason :: string where
  "nilStreamOpenReason = ''backend open returned no stream''"

definition nilStreamOpenFailure :: "string \<Rightarrow> go_error" where
  "nilStreamOpenFailure key = UpstreamFailureError PhasePreOutput True nilStreamOpenReason key"

definition IsNilStreamOpenError :: "go_error option \<Rightarrow> bool" where
  "IsNilStreamOpenError err = (case err of
       None \<Rightarrow> False
     | Some e \<Rightarrow> (case error_AsUpstream e of
         None \<Rightarrow> False
       | Some (ph, rec, reason, key) \<Rightarrow> reason = nilStreamOpenReason \<and> ph = PhasePreOutput \<and> rec))"

definition classifyNilStreamOpen :: "go_error option \<Rightarrow> go_error \<Rightarrow> go_error" where
  "classifyNilStreamOpen openCtxErr upstream = (case openCtxErr of Some e \<Rightarrow> e | None \<Rightarrow> upstream)"

record openFailure =
  ofErr :: go_error
  ttftExpired :: bool
  ttftScope :: ttftTimeoutScope
  openErr :: "go_error option"
  wire :: bool
  postOpen :: bool
  bindFailed :: bool
  nilStreamErr :: "go_error option"

record openFailureVerdict =
  recordOutcome :: AttemptOutcome
  recordReason :: string
  releaseKind :: ReleaseKind
  legOutcome :: LegOutcome
  raceLoser :: bool

text \<open>
  \<open>classify\<close> of a plan that is \<open>parallel\<close> or not; \<open>parentErr\<close> is the error of the plan's
  parent context, none also when it has no parent.
\<close>

definition classify :: "bool \<Rightarrow> go_error option \<Rightarrow> string \<Rightarrow> openFailure \<Rightarrow> openFailureVerdict" where
  "classify parallel parentErr detail f =
     (let v0 = \<lparr>recordOutcome = AttemptSurfacedFailure, recordReason = detail, releaseKind = ReleaseKindLosing,
                legOutcome = (if postOpen f then LegOutcomeFailed else LegOutcomeNeverStarted), raceLoser = False\<rparr>;
          canceled = error_Is (ofErr f) context_Canceled;
          callerCanceled = openErr f \<noteq> None;
          v = (if callerCanceled then v0\<lparr>recordOutcome := AttemptCancelled\<rparr> else v0)
      in if canceled \<and> \<not> callerCanceled then v\<lparr>releaseKind := ReleaseKindAdmissionFailure\<rparr>
         else
           let raceCanceled = canceled \<or>
                 \<not> wire f \<and> (case openErr f of None \<Rightarrow> False | Some e \<Rightarrow> error_Is e context_Canceled)
           in if parallel \<and> raceCanceled then
                (if parentErr = None
                 then v\<lparr>recordOutcome := AttemptCancelled, recordReason := ''parallel race loser'',
                        releaseKind := ReleaseKindAdmissionFailure, raceLoser := True,
                        legOutcome := (if wire f then LegOutcomeCanceled else legOutcome v)\<rparr>
                 else v)
              else if parallel \<and> wire f then v\<lparr>legOutcome := LegOutcomeFailed\<rparr>
              else v)"

text \<open>A failed open that the caller caused is never held against the backend.\<close>

lemma classify_caller_canceled:
  "openErr f \<noteq> None \<Longrightarrow> recordOutcome (classify par pe d f) = AttemptCancelled"
  by (auto simp: classify_def Let_def)

text \<open>An open the backend answered is never reported as never started.\<close>

lemma classify_post_open:
  "postOpen f \<Longrightarrow> legOutcome (classify par pe d f) \<noteq> LegOutcomeNeverStarted"
  by (auto simp: classify_def Let_def)


section \<open>What a parallel arm tells the route\<close>

lemma NegotiationResult_Err_other: "nrKind r = NegotiationOther s \<Longrightarrow> NegotiationResult_Err r = None"
  by (simp add: NegotiationResult_Err_def)

lemma TransportNegotiationResult_Err_other: "trKind r = NegotiationOther s \<Longrightarrow> TransportNegotiationResult_Err r = None"
  by (simp add: TransportNegotiationResult_Err_def)

text \<open>
  The verdict of an arm reaches the route except for a swallowed capability reject: the delta
  has no field for it, so a route that fails only because a parallel arm refused the request
  ends with another error.
\<close>

lemma delta_drops_capability_reject:
  "FinalError (applyToShared (parallelFailureDeltaFromHistory h) new_failures) base
     = FinalError (h\<lparr>SwallowedCapabilityReject := None\<rparr>) base"
proof -
  let ?g = "applyToShared (parallelFailureDeltaFromHistory h) new_failures"
  note defs = applyToShared_def parallelFailureDeltaFromHistory_def new_failures_def new_tracker_def
    no_negotiation_def no_transport_def or_else_def Let_def
  have "TransportNegotiationResult_Err (TransportReject ?g) = TransportNegotiationResult_Err (TransportReject h)"
    by (simp add: defs TransportNegotiationResult_Err_other)
  moreover have "NegotiationResult_Err (CapabilityReject ?g) = NegotiationResult_Err (CapabilityReject h)"
    by (simp add: defs NegotiationResult_Err_other)
  moreover have "allExcludedError (TransformExcludes ?g) = allExcludedError (TransformExcludes h)"
    by (cases "TransformExcludes h") (simp_all add: defs allExcludedError_def)
  moreover have "AdmissionErr ?g = AdmissionErr h" "SwallowedCapabilityReject ?g = None" "ContextLimit ?g = ContextLimit h"
    "SwallowedUpstreamFailure ?g = SwallowedUpstreamFailure h" "ParallelFailure ?g = ParallelFailure h"
    by (simp_all add: defs)
  ultimately show ?thesis unfolding FinalError_def by (simp cong: option.case_cong)
qed

end
