(* ===== verification/Session_Affinity.thy ===== *)
theory Session_Affinity
  imports Routing_Planner
begin

text \<open>
  Session affinity: \<open>internal/core/affinity\<close> (identity keys, bindings and the in-memory
  store) and its use by the executor (\<open>runtime/executor_affinity.go\<close>, the lookup and
  clearing of \<open>runtime/executor_open_attempt.go\<close>, the commit of
  \<open>runtime/recovery_controller.go\<close>). The error of the context is an argument, and of the
  session and principal views only the ids that are read are kept.
\<close>

section \<open>Keys and bindings\<close>

datatype MissingIdentityPolicy = MissingIdentityIgnore | MissingIdentityFailClosed | MissingIdentityOther string

datatype Scope = ScopeSession | ScopeClient | ScopeOther string

datatype affinity_error = ErrIdentityRequired | ErrCtx string

record Key =
  kScope :: Scope
  kID :: string

definition Key_Valid :: "Key \<Rightarrow> bool" where
  "Key_Valid k \<longleftrightarrow> kScope k \<noteq> ScopeOther [] \<and> TrimSpace (kID k) \<noteq> []"

record Binding =
  bKey :: Key
  bBackendID :: string
  bCandidateKey :: string
  bModel :: string
  bUpdatedAt :: gotime
  bReason :: string

record SessionView =
  AuthoritativeSessionID :: string
  ClientSessionHint :: string

record IdentityInput =
  inMode :: AffinityMode
  inSession :: SessionView
  inPrincipalID :: string
  inMissingIdentityPolicy :: MissingIdentityPolicy

definition zero_Key :: Key where
  "zero_Key = \<lparr>kScope = ScopeOther [], kID = []\<rparr>"

definition missingIdentity :: "MissingIdentityPolicy \<Rightarrow> affinity_error + Key \<times> bool" where
  "missingIdentity policy =
     (if policy = MissingIdentityFailClosed then Inl ErrIdentityRequired else Inr (zero_Key, False))"

definition ResolveKey :: "IdentityInput \<Rightarrow> affinity_error + Key \<times> bool" where
  "ResolveKey i =
     (case inMode i of
        AffinityNone \<Rightarrow> Inr (zero_Key, False)
      | AffinitySession \<Rightarrow>
          let id0 = TrimSpace (AuthoritativeSessionID (inSession i));
              ident = (if id0 = [] then TrimSpace (ClientSessionHint (inSession i)) else id0)
          in if ident = [] then missingIdentity (inMissingIdentityPolicy i)
             else Inr (\<lparr>kScope = ScopeSession, kID = ident\<rparr>, True)
      | AffinityClient \<Rightarrow>
          let ident = TrimSpace (inPrincipalID i)
          in if ident = [] then missingIdentity (inMissingIdentityPolicy i)
             else Inr (\<lparr>kScope = ScopeClient, kID = ident\<rparr>, True)
      | AffinityOther s \<Rightarrow> Inr (zero_Key, False))"

definition BindingFromCandidate :: "Key \<Rightarrow> AttemptCandidate \<Rightarrow> gotime \<Rightarrow> string \<Rightarrow> Binding" where
  "BindingFromCandidate key cand now reason =
     \<lparr>bKey = key, bBackendID = TrimSpace (Backend (acPrimary cand)), bCandidateKey = TrimSpace (acKey cand),
      bModel = TrimSpace (Model (acPrimary cand)), bUpdatedAt = now, bReason = TrimSpace reason\<rparr>"

definition PartitionKey :: "SessionView \<Rightarrow> string" where
  "PartitionKey v =
     (let s = TrimSpace (AuthoritativeSessionID v) in if s \<noteq> [] then s else TrimSpace (ClientSessionHint v))"

section \<open>The memory store\<close>

type_synonym bindings = "(Key, Binding) gomap"

text \<open>A nil store answers like an empty one and drops every write; it is \<open>None\<close>.\<close>

definition store_Get :: "string option \<Rightarrow> Key \<Rightarrow> bindings option \<Rightarrow> affinity_error + Binding option" where
  "store_Get ctxErr key s =
     (case ctxErr of
        Some e \<Rightarrow> Inl (ErrCtx e)
      | None \<Rightarrow> (case s of
          None \<Rightarrow> Inr None
        | Some m \<Rightarrow> if \<not> Key_Valid key then Inr None else Inr (map_of m key)))"

definition store_Set :: "string option \<Rightarrow> Binding \<Rightarrow> bindings option \<Rightarrow> affinity_error option \<times> bindings option" where
  "store_Set ctxErr b s =
     (case ctxErr of
        Some e \<Rightarrow> (Some (ErrCtx e), s)
      | None \<Rightarrow> (case s of
          None \<Rightarrow> (None, None)
        | Some m \<Rightarrow> if \<not> Key_Valid (bKey b) then (None, s) else (None, Some (AList.update (bKey b) b m))))"

definition store_Delete :: "string option \<Rightarrow> Key \<Rightarrow> bindings option \<Rightarrow> affinity_error option \<times> bindings option" where
  "store_Delete ctxErr key s =
     (case ctxErr of
        Some e \<Rightarrow> (Some (ErrCtx e), s)
      | None \<Rightarrow> (case s of
          None \<Rightarrow> (None, None)
        | Some m \<Rightarrow> if \<not> Key_Valid key then (None, s) else (None, Some (AList.delete key m))))"

section \<open>Use by the executor\<close>

definition resolveAffinityKey ::
  "MissingIdentityPolicy \<Rightarrow> Selector option \<Rightarrow> SessionView \<Rightarrow> string \<Rightarrow> bool \<Rightarrow> affinity_error + Key \<times> bool" where
  "resolveAffinityKey policy sel session principalID viewsOK =
     (let none = \<lparr>AuthoritativeSessionID = [], ClientSessionHint = []\<rparr> in
      case sel of
        None \<Rightarrow> Inr (zero_Key, False)
      | Some s \<Rightarrow>
          if Affinity s = AffinityNone then Inr (zero_Key, False)
          else if \<not> viewsOK
          then ResolveKey \<lparr>inMode = Affinity s, inSession = none, inPrincipalID = [], inMissingIdentityPolicy = policy\<rparr>
          else
            let session1 = (if Affinity s = AffinitySession \<and> TrimSpace (AuthoritativeSessionID session) = []
                            then session\<lparr>ClientSessionHint := []\<rparr> else session)
            in if Affinity s = AffinitySession \<and> TrimSpace (AuthoritativeSessionID session1) = []
                  \<and> TrimSpace (ClientSessionHint session1) = []
               then ResolveKey \<lparr>inMode = Affinity s, inSession = none, inPrincipalID = [], inMissingIdentityPolicy = policy\<rparr>
               else ResolveKey \<lparr>inMode = Affinity s, inSession = session1, inPrincipalID = principalID,
                                inMissingIdentityPolicy = policy\<rparr>)"

definition lookupAffinityBinding ::
  "string option \<Rightarrow> Selector option \<Rightarrow> Key \<Rightarrow> bool \<Rightarrow> bindings option \<Rightarrow> affinity_error + string \<times> bool" where
  "lookupAffinityBinding ctxErr sel key keyOK s =
     (if s = None \<or> (case sel of None \<Rightarrow> True | Some x \<Rightarrow> Affinity x = AffinityNone) \<or> \<not> keyOK then Inr ([], False)
      else (case store_Get ctxErr key s of
        Inl e \<Rightarrow> Inl e
      | Inr None \<Rightarrow> Inr ([], False)
      | Inr (Some b) \<Rightarrow>
          let backend = TrimSpace (bBackendID b) in
          if backend = [] then Inr ([], False) else Inr (backend, True)))"

definition clearAffinityBinding :: "string option \<Rightarrow> Key \<Rightarrow> bool \<Rightarrow> bindings option \<Rightarrow> bindings option" where
  "clearAffinityBinding ctxErr key keyOK s = (if \<not> keyOK then s else snd (store_Delete ctxErr key s))"

text \<open>
  \<open>commitAffinity\<close>: \<open>once\<close> tells whether \<open>affinityCommitOnce\<close> has run, and the write runs under a context
  that is never canceled.
\<close>

definition commitAffinity ::
  "Key \<Rightarrow> bool \<Rightarrow> AttemptCandidate option \<Rightarrow> gotime \<Rightarrow> string \<Rightarrow> bool \<Rightarrow> bindings option \<Rightarrow> bool \<times> bindings option" where
  "commitAffinity key keyOK attempt now reason once s =
     (case attempt of
        None \<Rightarrow> (once, s)
      | Some cand \<Rightarrow>
          if \<not> keyOK \<or> \<not> Key_Valid key \<or> s = None then (once, s)
          else if once then (once, s)
          else let b = BindingFromCandidate key cand now reason in
            if TrimSpace (bBackendID b) = [] then (True, s)
            else (True, snd (store_Set None b s)))"

end
