(* ===== verification/Parallel_Race.thy ===== *)
theory Parallel_Race
  imports Attempt_Failures Session_Affinity
begin

text \<open>
  The parallel race of \<open>internal/core/runtime/parallel_race.go\<close>: how the arms of a group
  are ordered and limited by the attempt budget, the coordinator that accepts the outcomes
  the arms hand off, and the reducer that picks the winner, merges failures and releases
  everything else.

  \<^item> An arm is a number; what it did is its outcome. \<open>poReady\<close> says that the outcome carries a
    ready attempt that won (\<open>o.ready\<close>), \<open>poHeld\<close> that the arm holds an opened attempt
    (\<open>o.armLeg\<close>, whose \<open>ready\<close> and \<open>stream\<close> are then set). The provider streams, the billing and
    the clean-up of a released attempt are not modelled, only which attempts are released.
  \<^item> The coordinator is a step relation: arms hand off in any order, an arm that panics hands
    off nothing, and the parent context may end at any moment.
\<close>

section \<open>Arms\<close>

record legEntry =
  leCand :: AttemptCandidate
  leDelay :: duration

definition leg_entries :: "AttemptCandidate list \<Rightarrow> legEntry list" where
  "leg_entries cands =
     (let maxHandicap = foldl max 0 (map Handicap cands) in
      sort_key leDelay (map (\<lambda>c. \<lparr>leCand = c, leDelay = maxHandicap - Handicap c\<rparr>) cands))"

fun limit_loop :: "attemptBudget option \<Rightarrow> legEntry list \<Rightarrow> legEntry list \<times> attemptBudget option" where
  "limit_loop b [] = ([], b)"
| "limit_loop b (e # es) =
     (case tryAcquire b of
        (False, b1) \<Rightarrow> ([], b1)
      | (True, b1) \<Rightarrow> (case limit_loop b1 es of (ls, b2) \<Rightarrow> (e # ls, b2)))"

definition limit_entries :: "attemptBudget option \<Rightarrow> legEntry list \<Rightarrow> go_error + legEntry list \<times> attemptBudget option" where
  "limit_entries b es =
     (if b = None then Inr (es, b)
      else (case limit_loop b es of (ls, b1) \<Rightarrow>
        if ls = [] then Inl (Wrapped ''executor'' (Sentinel ErrMaxRouteAttempts)) else Inr (ls, b1)))"

record parallelArmOutcome =
  poArm :: nat
  poCand :: AttemptCandidate
  poReady :: bool
  poFailErr :: "go_error option"
  poRejected :: bool
  poRejection :: candidateRejection
  poCompleted :: bool
  poDelta :: parallelFailureDelta
  poArrival :: nat
  poHeld :: bool

section \<open>The coordinator\<close>

definition isRoundAbortingFatalErr :: "go_error option \<Rightarrow> bool" where
  "isRoundAbortingFatalErr e = (case e of None \<Rightarrow> False | Some e \<Rightarrow> error_Is e ErrALegCanceled)"

definition isParallelFatalErr :: "go_error option \<Rightarrow> bool" where
  "isParallelFatalErr e = (case e of None \<Rightarrow> False
     | Some e \<Rightarrow> error_Is e ErrMaxRouteAttempts \<or> error_Is e ErrTTFTTimeout \<or> error_Is e ErrALegCanceled)"

record parallelDecisionSnapshot =
  outcomes :: "parallelArmOutcome list"
  snFatal :: "go_error option"
  canceled :: bool

record coordinator =
  arrivalSeq :: nat
  accepting :: bool
  published :: bool
  acceptedOutcomes :: "parallelArmOutcome list"
  cFatal :: "go_error option"
  decision :: "parallelDecisionSnapshot option"
  acks :: "(nat \<times> bool) list"
  raceCanceled :: bool
  fastForward :: bool

definition new_coordinator :: coordinator where
  "new_coordinator = \<lparr>arrivalSeq = 0, accepting = True, published = False, acceptedOutcomes = [], cFatal = None,
     decision = None, acks = [], raceCanceled = False, fastForward = False\<rparr>"

definition publishDecision :: "bool \<Rightarrow> coordinator \<Rightarrow> coordinator" where
  "publishDecision cncl c =
     (if published c then c
      else c\<lparr>published := True, accepting := False, raceCanceled := True,
             decision := Some \<lparr>outcomes = acceptedOutcomes c, snFatal = cFatal c, canceled = cncl\<rparr>\<rparr>)"

definition accept :: "parallelArmOutcome \<Rightarrow> coordinator \<Rightarrow> coordinator" where
  "accept oc c = c\<lparr>acks := acks c @ [(poArm oc, True)], acceptedOutcomes := acceptedOutcomes c @ [oc]\<rparr>"

definition join_fatal :: "go_error option \<Rightarrow> coordinator \<Rightarrow> coordinator" where
  "join_fatal e c = c\<lparr>cFatal := error_Join [cFatal c, e]\<rparr>"

text \<open>The branch \<open>case handoff := <-outcomeCh\<close>; \<open>ctxDone\<close> is \<open>ctx.Err() != nil\<close>.\<close>

definition handoff :: "bool \<Rightarrow> parallelArmOutcome \<Rightarrow> coordinator \<Rightarrow> coordinator" where
  "handoff ctxDone o0 c0 =
     (let oc = o0\<lparr>poArrival := Suc (arrivalSeq c0)\<rparr>;
          c = c0\<lparr>arrivalSeq := Suc (arrivalSeq c0)\<rparr>
      in if accepting c then
           let c1 = (if (poRejected oc \<or> poFailErr oc \<noteq> None \<or> poCompleted oc) \<and> Handicap (poCand oc) > 0
                     then c\<lparr>fastForward := True\<rparr> else c)
           in if isRoundAbortingFatalErr (poFailErr oc)
              then publishDecision False (accept oc (join_fatal (poFailErr oc) c1))
              else
                let c2 = (if isParallelFatalErr (poFailErr oc) then join_fatal (poFailErr oc) c1 else c1)
                in if poReady oc \<and> \<not> ctxDone then publishDecision False (accept oc c2)
                   else accept oc c2
         else c\<lparr>acks := acks c @ [(poArm oc, False)]\<rparr>)"

text \<open>The handoffs drained after every worker has finished.\<close>

definition drain_handoff :: "bool \<Rightarrow> parallelArmOutcome \<Rightarrow> coordinator \<Rightarrow> coordinator" where
  "drain_handoff ctxDone o0 c0 =
     (let oc = o0\<lparr>poArrival := Suc (arrivalSeq c0)\<rparr>;
          c = c0\<lparr>arrivalSeq := Suc (arrivalSeq c0)\<rparr>
      in if accepting c then
           let c2 = (if isParallelFatalErr (poFailErr oc) then join_fatal (poFailErr oc) c else c)
           in if poReady oc \<and> \<not> ctxDone then publishDecision False (accept oc c2)
              else accept oc c2
         else c\<lparr>acks := acks c @ [(poArm oc, False)]\<rparr>)"

record race =
  waiting :: "nat set"
  ctxDone :: bool
  coord :: coordinator

text \<open>
  What a worker hands off: a failure or a verdict without an attempt, a failure of the
  attempt it holds, or the attempt that produced the first output.
\<close>

definition arm_outcome :: "legEntry list \<Rightarrow> parallelArmOutcome \<Rightarrow> bool" where
  "arm_outcome entries oc \<longleftrightarrow>
     poArm oc < length entries \<and> poCand oc = leCand (entries ! poArm oc)
     \<and> (poReady oc \<longrightarrow> poHeld oc \<and> poFailErr oc = None \<and> \<not> poRejected oc \<and> \<not> poCompleted oc)
     \<and> (poHeld oc \<and> \<not> poReady oc \<longrightarrow> poFailErr oc \<noteq> None)"

inductive race_step :: "legEntry list \<Rightarrow> race \<Rightarrow> race \<Rightarrow> bool" for entries :: "legEntry list" where
  rs_handoff: "arm_outcome entries oc \<Longrightarrow> poArm oc \<in> waiting r \<Longrightarrow>
    race_step entries r (r\<lparr>waiting := waiting r - {poArm oc}, coord := handoff (ctxDone r) oc (coord r)\<rparr>)"
| rs_drain: "arm_outcome entries oc \<Longrightarrow> poArm oc \<in> waiting r \<Longrightarrow>
    race_step entries r (r\<lparr>waiting := waiting r - {poArm oc}, coord := drain_handoff (ctxDone r) oc (coord r)\<rparr>)"
| rs_panic: "a \<in> waiting r \<Longrightarrow> race_step entries r (r\<lparr>waiting := waiting r - {a}\<rparr>)"
| rs_cancel: "race_step entries r (r\<lparr>ctxDone := True\<rparr>)"
| rs_ctx: "ctxDone r \<Longrightarrow> race_step entries r (r\<lparr>coord := publishDecision True (coord r)\<rparr>)"
| rs_all_done: "waiting r = {} \<Longrightarrow> race_step entries r (r\<lparr>coord := publishDecision (ctxDone r) (coord r)\<rparr>)"

definition race_init :: "nat \<Rightarrow> race" where
  "race_init n = \<lparr>waiting = {..<n}, ctxDone = False, coord = new_coordinator\<rparr>"

section \<open>The reducer\<close>

definition better :: "parallelArmOutcome \<Rightarrow> parallelArmOutcome option \<Rightarrow> parallelArmOutcome option" where
  "better oc w =
     (if poReady oc \<and> poFailErr oc = None
      then (case w of None \<Rightarrow> Some oc | Some x \<Rightarrow> if poArrival oc < poArrival x then Some oc else w)
      else w)"

definition select_winner :: "parallelArmOutcome list \<Rightarrow> parallelArmOutcome option" where
  "select_winner os = fold better os None"

definition outcome_of :: "parallelArmOutcome list \<Rightarrow> legEntry \<Rightarrow> parallelArmOutcome option" where
  "outcome_of os e = find (\<lambda>oc. acKey (poCand oc) = acKey (leCand e)) os"

text \<open>The attempt a leg of the reducer holds: the arm of the first outcome with the leg's key.\<close>

definition leg_attempt :: "parallelArmOutcome list \<Rightarrow> legEntry \<Rightarrow> nat option" where
  "leg_attempt os e = (case outcome_of os e of
       None \<Rightarrow> None
     | Some oc \<Rightarrow> if poHeld oc then Some (poArm oc) else None)"

definition held_legs :: "parallelArmOutcome list \<Rightarrow> legEntry list \<Rightarrow> nat list" where
  "held_legs os es = List.map_filter (leg_attempt os) es"

definition winner_index :: "parallelArmOutcome \<Rightarrow> legEntry list \<Rightarrow> nat option" where
  "winner_index w es = find (\<lambda>i. acKey (leCand (es ! i)) = acKey (poCand w)) [0..<length es]"

definition other_legs :: "nat option \<Rightarrow> legEntry list \<Rightarrow> legEntry list" where
  "other_legs wi es = map (\<lambda>i. es ! i) (filter (\<lambda>i. Some i \<noteq> wi) [0..<length es])"

record merge_state =
  msExcluded :: "string set"
  msFailures :: candidateFailureHistory

definition merge_entry :: "parallelArmOutcome list \<Rightarrow> legEntry \<Rightarrow> merge_state \<Rightarrow> merge_state" where
  "merge_entry os e s =
     (case outcome_of os e of
        None \<Rightarrow> s
      | Some oc \<Rightarrow>
          let s1 = (if poRejected oc
                    then s\<lparr>msFailures := applyRejection (poRejection oc) (msFailures s),
                           msExcluded := insert (acKey (poCand oc)) (msExcluded s)\<rparr>
                    else if poCompleted oc then s\<lparr>msExcluded := insert (acKey (poCand oc)) (msExcluded s)\<rparr>
                    else s)
          in s1\<lparr>msFailures := applyToShared (poDelta oc) (msFailures s1)\<rparr>)"

definition leg_failure :: "parallelArmOutcome list \<Rightarrow> legEntry \<Rightarrow> go_error" where
  "leg_failure os e =
     (if leg_attempt os e = None then Sentinel ''candidate did not open a stream''
      else (case outcome_of os e of
        Some oc \<Rightarrow> (case poFailErr oc of
            Some f \<Rightarrow> Wrapped ''candidate failed before winner'' f
          | None \<Rightarrow> Wrapped ''candidate failed before winner'' (Sentinel ''parallel leg ended before winner''))
      | None \<Rightarrow> Sentinel ''candidate did not open a stream''))"

text \<open>The errors of the calls that commit a winner, in their order, and of the clean-up of losers.\<close>

record commit_errors =
  advanceErr :: "go_error option"
  setFirstErr :: "go_error option"
  commitTurnErr :: "go_error option"
  installErr :: "go_error option"
  cleanupErr :: "go_error option"

definition commit_error :: "parallelArmOutcome \<Rightarrow> commit_errors \<Rightarrow> go_error option" where
  "commit_error w ce =
     (if advanceErr ce \<noteq> None then advanceErr ce
      else if MarkedFirst (poCand w) \<and> setFirstErr ce \<noteq> None then setFirstErr ce
      else if commitTurnErr ce \<noteq> None then commitTurnErr ce
      else installErr ce)"

text \<open>A failure after the clean-up of the losers was started releases them again.\<close>

definition late_error :: "parallelArmOutcome \<Rightarrow> commit_errors \<Rightarrow> bool" where
  "late_error w ce \<longleftrightarrow> advanceErr ce = None \<and> \<not> (MarkedFirst (poCand w) \<and> setFirstErr ce \<noteq> None)"

datatype reduce_result = ReduceErr go_error | ReduceWinner parallelArmOutcome | ReduceNone

record reduce_out =
  roResult :: reduce_result
  roReleased :: "nat list"
  roExcluded :: "string set"
  roFailures :: candidateFailureHistory
  roResets :: "string list"

definition Reduce ::
  "go_error option \<Rightarrow> commit_errors \<Rightarrow> legEntry list \<Rightarrow> AttemptCandidate list \<Rightarrow> parallelArmOutcome list
     \<Rightarrow> string set \<Rightarrow> candidateFailureHistory \<Rightarrow> reduce_out" where
  "Reduce ctxErr ce entries candidates os ex h =
     (let w = select_winner os;
          fatal = foldl (\<lambda>acc e. error_Join [acc, e]) None
                    (map poFailErr (filter (\<lambda>oc. isParallelFatalErr (poFailErr oc)) os));
          losers = map poArm (filter (\<lambda>oc. poReady oc \<and> (case w of None \<Rightarrow> True | Some x \<Rightarrow> poArm x \<noteq> poArm oc)) os);
          stop = (\<lambda>res rel. \<lparr>roResult = res, roReleased = losers @ rel, roExcluded = ex, roFailures = h, roResets = []\<rparr>)
      in case ctxErr of
           Some e \<Rightarrow>
             stop (ReduceErr e) ((case w of None \<Rightarrow> [] | Some x \<Rightarrow> [poArm x]) @ held_legs os entries)
         | None \<Rightarrow>
             (case (fatal, w) of
                (Some f, None) \<Rightarrow>
                  stop (ReduceErr (Wrapped ''executor: parallel race aborted'' f)) (held_legs os entries)
              | _ \<Rightarrow>
                  let s = fold (merge_entry os) entries \<lparr>msExcluded = ex, msFailures = h\<rparr> in
                  (case w of
                     Some x \<Rightarrow>
                       let rest = held_legs os (other_legs (winner_index x entries) entries) in
                       (case commit_error x ce of
                          Some e \<Rightarrow>
                            \<lparr>roResult = (case error_Join [Some e, cleanupErr ce] of Some j \<Rightarrow> ReduceErr j | None \<Rightarrow> ReduceErr e),
                             roReleased = losers @ poArm x # (if late_error x ce then rest @ rest else rest),
                             roExcluded = msExcluded s, roFailures = msFailures s, roResets = []\<rparr>
                        | None \<Rightarrow>
                            \<lparr>roResult = ReduceWinner x, roReleased = losers @ rest,
                             roExcluded = msExcluded s, roFailures = msFailures s, roResets = []\<rparr>)
                   | None \<Rightarrow>
                       let fails = map (\<lambda>e. Some (leg_failure os e)) entries @ [cleanupErr ce]
                             @ (if length candidates > length entries
                                then [Some (Sentinel ''parallel race skipped legs due max-attempt budget'')] else []);
                           pf = (case foldl (\<lambda>acc e. error_Join [acc, e]) None fails of
                                   Some j \<Rightarrow> j | None \<Rightarrow> Sentinel ''parallel race failed without winner'');
                           resets = List.map_filter (\<lambda>e. case outcome_of os e of
                               None \<Rightarrow> None
                             | Some oc \<Rightarrow> if dAffinityReset (poDelta oc) \<noteq> [] then Some (dAffinityReset (poDelta oc)) else None) entries
                       in \<lparr>roResult = ReduceNone, roReleased = losers @ held_legs os entries,
                           roExcluded = msExcluded s \<union> acKey ` set candidates,
                           roFailures = (msFailures s)\<lparr>ParallelFailure :=
                               Some (Wrapped ''executor: parallel race arm failed'' pf)\<rparr>,
                           roResets = resets\<rparr>)))"

section \<open>What a handoff does\<close>

definition handoff_spec :: "bool \<Rightarrow> parallelArmOutcome \<Rightarrow> coordinator \<Rightarrow> coordinator \<Rightarrow> bool" where
  "handoff_spec dn oc c c' \<longleftrightarrow>
     (if accepting c
      then acceptedOutcomes c' = acceptedOutcomes c @ [oc\<lparr>poArrival := Suc (arrivalSeq c)\<rparr>]
         \<and> acks c' = acks c @ [(poArm oc, True)]
         \<and> (poReady oc \<and> \<not> dn \<longrightarrow> published c')
         \<and> published c' = (\<not> accepting c')
         \<and> (if published c' then \<exists>d. decision c' = Some d \<and> outcomes d = acceptedOutcomes c'
            else decision c' = decision c)
      else acceptedOutcomes c' = acceptedOutcomes c \<and> acks c' = acks c @ [(poArm oc, False)]
         \<and> published c' = published c \<and> accepting c' = accepting c \<and> decision c' = decision c)
     \<and> arrivalSeq c' = Suc (arrivalSeq c)"

lemmas coord_defs = publishDecision_def accept_def join_fatal_def

lemma handoff_meets_spec: "accepting c = (\<not> published c) \<Longrightarrow> handoff_spec dn oc c (handoff dn oc c)"
  by (simp add: handoff_spec_def handoff_def Let_def coord_defs)

lemma drain_meets_spec: "accepting c = (\<not> published c) \<Longrightarrow> handoff_spec dn oc c (drain_handoff dn oc c)"
  by (simp add: handoff_spec_def drain_handoff_def Let_def coord_defs)

definition race_inv :: "legEntry list \<Rightarrow> race \<Rightarrow> bool" where
  "race_inv entries r \<longleftrightarrow>
     (let c = coord r in
      accepting c = (\<not> published c)
      \<and> (published c \<longrightarrow> (\<exists>d. decision c = Some d \<and> outcomes d = acceptedOutcomes c))
      \<and> (\<not> published c \<longrightarrow> decision c = None)
      \<and> distinct (map fst (acks c)) \<and> fst ` set (acks c) \<inter> waiting r = {}
      \<and> map poArm (acceptedOutcomes c) = map fst (filter snd (acks c))
      \<and> (\<forall>oc \<in> set (acceptedOutcomes c). arm_outcome entries oc)
      \<and> (list_ex poReady (acceptedOutcomes c) \<longrightarrow> published c \<or> ctxDone r)
      \<and> (length (filter poReady (acceptedOutcomes c)) \<le> 1 \<or> ctxDone r))"

lemma arm_outcome_arrival [simp]: "arm_outcome entries (oc\<lparr>poArrival := n\<rparr>) = arm_outcome entries oc"
  by (simp add: arm_outcome_def)

lemma race_inv_handoff:
  assumes "race_inv entries r" "arm_outcome entries oc" "poArm oc \<in> waiting r" "handoff_spec (ctxDone r) oc (coord r) c'"
  shows "race_inv entries (r\<lparr>waiting := waiting r - {poArm oc}, coord := c'\<rparr>)"
proof (cases "accepting (coord r)")
  case True
  then have np: "\<not> published (coord r)" using assms(1) by (simp add: race_inv_def Let_def)
  have rd: "\<not> list_ex poReady (acceptedOutcomes (coord r)) \<or> ctxDone r"
    using assms(1) np by (simp add: race_inv_def Let_def)
  have len: "length (filter poReady (acceptedOutcomes c')) \<le> 1 \<or> ctxDone r"
    using rd assms(4) True by (auto simp: handoff_spec_def list_ex_iff filter_empty_conv[symmetric])
  from True assms np rd len show ?thesis
    unfolding race_inv_def Let_def handoff_spec_def by (auto split: if_splits)
next
  case False
  with assms show ?thesis unfolding race_inv_def Let_def handoff_spec_def by (auto split: if_splits)
qed

lemma race_inv_publish: "race_inv entries r \<Longrightarrow> race_inv entries (r\<lparr>coord := publishDecision b (coord r)\<rparr>)"
  by (simp add: race_inv_def Let_def publishDecision_def)

lemma race_step_inv: "race_step entries r r' \<Longrightarrow> race_inv entries r \<Longrightarrow> race_inv entries r'"
proof (induction rule: race_step.induct)
  case (rs_handoff oc r)
  then show ?case by (intro race_inv_handoff handoff_meets_spec) (auto simp: race_inv_def Let_def)
next
  case (rs_drain oc r)
  then show ?case by (intro race_inv_handoff drain_meets_spec) (auto simp: race_inv_def Let_def)
qed (simp_all add: race_inv_publish, auto simp: race_inv_def Let_def)

interpretation race: step_invariant "\<lambda>r. r = race_init (length entries)" "race_step entries" "race_inv entries" for entries
proof
  show "r = race_init (length entries) \<Longrightarrow> race_inv entries r" for r
    by (simp add: race_inv_def race_init_def new_coordinator_def)
qed (rule race_step_inv)


section \<open>What the reducer does\<close>

definition wins :: "parallelArmOutcome \<Rightarrow> bool" where
  "wins oc \<longleftrightarrow> poReady oc \<and> poFailErr oc = None"

lemma fold_better:
  "fold better os w = Some x \<Longrightarrow>
     (x \<in> set os \<and> wins x \<or> w = Some x)
     \<and> (\<forall>oc \<in> set os. wins oc \<longrightarrow> poArrival x \<le> poArrival oc) \<and> (\<forall>y. w = Some y \<longrightarrow> poArrival x \<le> poArrival y)"
proof (induction os arbitrary: w)
  case (Cons oc os)
  have "fold better os (better oc w) = Some x" using Cons.prems by simp
  from Cons.IH [OF this] show ?case by (auto simp: better_def wins_def split: if_splits option.splits)
qed simp

lemma fold_better_None: "fold better os w = None \<longleftrightarrow> w = None \<and> (\<forall>oc \<in> set os. \<not> wins oc)"
proof (induction os arbitrary: w)
  case (Cons oc os)
  then show ?case by (auto simp: better_def wins_def split: option.splits if_splits)
qed simp

lemma select_winner_Some:
  assumes "select_winner os = Some w"
  shows "w \<in> set os \<and> wins w \<and> (\<forall>oc \<in> set os. wins oc \<longrightarrow> poArrival w \<le> poArrival oc)"
  using fold_better [of os None w] assms by (auto simp: select_winner_def)

lemma select_winner_None: "select_winner os = None \<longleftrightarrow> (\<forall>oc \<in> set os. \<not> wins oc)"
  by (simp add: select_winner_def fold_better_None)

text \<open>With distinct keys, a leg of the reducer is the arm of its entry.\<close>

lemma outcome_of_entry:
  assumes "distinct (map (\<lambda>e. acKey (leCand e)) entries)" "\<forall>oc \<in> set os. arm_outcome entries oc"
    and "distinct (map poArm os)" "oc \<in> set os"
  shows "outcome_of os (entries ! poArm oc) = Some oc"
proof (cases "outcome_of os (entries ! poArm oc)")
  case None
  with assms show ?thesis by (auto simp: outcome_of_def find_None_set arm_outcome_def)
next
  case (Some oc')
  then have "oc' \<in> set os" "acKey (poCand oc') = acKey (leCand (entries ! poArm oc))"
    using find_Some_set by (auto simp: outcome_of_def dest: find_Some_set)
  moreover have "poArm oc' = poArm oc"
    using assms(1,2,4) calculation by (auto simp: arm_outcome_def distinct_conv_nth)
  ultimately have "oc' = oc" using assms(3,4) by (auto simp: distinct_map inj_on_def)
  with Some show ?thesis by simp
qed

lemma held_legs_all:
  assumes "distinct (map (\<lambda>e. acKey (leCand e)) entries)" "\<forall>oc \<in> set os. arm_outcome entries oc"
    and "distinct (map poArm os)" "oc \<in> set os" "poHeld oc" "entries ! poArm oc \<in> set es"
  shows "poArm oc \<in> set (held_legs os es)"
  using assms(5,6) outcome_of_entry [OF assms(1-4)]
  by (force simp: held_legs_def List.map_filter_def leg_attempt_def)

lemma held_legs_only:
  assumes "a \<in> set (held_legs os es)"
  shows "\<exists>e \<in> set es. \<exists>oc \<in> set os. poHeld oc \<and> poArm oc = a \<and> acKey (poCand oc) = acKey (leCand e)"
proof -
  from assms obtain e where e: "e \<in> set es" "leg_attempt os e = Some a"
    by (auto simp: held_legs_def List.map_filter_def)
  then show ?thesis
    by (force simp: leg_attempt_def outcome_of_def split: option.splits if_splits dest: find_Some_set)
qed

lemma winner_index_entry:
  assumes "distinct (map (\<lambda>e. acKey (leCand e)) entries)" "arm_outcome entries w"
  shows "winner_index w entries = Some (poArm w)"
proof (cases "winner_index w entries")
  case None
  with assms show ?thesis by (auto simp: winner_index_def find_None_set arm_outcome_def)
next
  case (Some i)
  then have "i < length entries" "acKey (leCand (entries ! i)) = acKey (poCand w)"
    using find_Some_set [of _ "[0..<length entries]" i] by (auto simp: winner_index_def)
  with assms have "i = poArm w" by (auto simp: arm_outcome_def distinct_conv_nth)
  with Some show ?thesis by simp
qed

lemma other_legs_set: "set (other_legs wi es) = {es ! i | i. i < length es \<and> Some i \<noteq> wi}"
  by (auto simp: other_legs_def)

lemma Reduce_released:
  assumes "distinct (map (\<lambda>e. acKey (leCand e)) entries)" "\<forall>oc \<in> set os. arm_outcome entries oc"
    and "distinct (map poArm os)" "oc \<in> set os" "poHeld oc"
    and "Reduce ctxErr ce entries cands os ex h = ro" "roResult ro \<noteq> ReduceWinner oc"
  shows "poArm oc \<in> set (roReleased ro)"
proof -
  have len: "poArm oc < length entries" using assms(2,4) by (simp add: arm_outcome_def)
  have all: "poArm oc \<in> set (held_legs os entries)"
    using held_legs_all [OF assms(1-5)] len by simp
  show ?thesis
  proof (cases "select_winner os")
    case None
    with all assms(6) show ?thesis by (auto simp: Reduce_def Let_def split: option.splits)
  next
    case (Some w)
    have w: "w \<in> set os" "wins w" using select_winner_Some [OF Some] by auto
    show ?thesis
    proof (cases "poArm oc = poArm w")
      case True
      then have "oc = w" using w assms(3,4) by (auto simp: distinct_map inj_on_def)
      with Some assms(6,7) all show ?thesis by (auto simp: Reduce_def Let_def split: option.splits)
    next
      case False
      have wi: "winner_index w entries = Some (poArm w)" using winner_index_entry [OF assms(1)] assms(2) w by auto
      have "poArm oc \<in> set (held_legs os (other_legs (winner_index w entries) entries))"
        by (rule held_legs_all [OF assms(1-5)]) (use False wi len in \<open>auto simp: other_legs_set\<close>)
      with Some assms(6) all show ?thesis by (auto simp: Reduce_def Let_def split: option.splits)
    qed
  qed
qed

lemma Reduce_winner:
  assumes "distinct (map (\<lambda>e. acKey (leCand e)) entries)" "\<forall>oc \<in> set os. arm_outcome entries oc"
    and "distinct (map poArm os)" "Reduce ctxErr ce entries cands os ex h = ro" "roResult ro = ReduceWinner w"
  shows "select_winner os = Some w \<and> ctxErr = None \<and> poArm w \<notin> set (roReleased ro)"
proof -
  from assms(4,5) have sw: "select_winner os = Some w" and cx: "ctxErr = None"
    by (auto simp: Reduce_def Let_def split: option.splits)
  have w: "w \<in> set os" using select_winner_Some [OF sw] by simp
  have wi: "winner_index w entries = Some (poArm w)" using winner_index_entry [OF assms(1)] assms(2) w by auto
  have rel: "roReleased ro = map poArm (filter (\<lambda>oc. poReady oc \<and> poArm w \<noteq> poArm oc) os)
      @ held_legs os (other_legs (Some (poArm w)) entries)"
    using assms(4,5) sw cx wi by (auto simp: Reduce_def Let_def split: option.splits)
  have "poArm w \<notin> set (held_legs os (other_legs (Some (poArm w)) entries))"
  proof
    assume "poArm w \<in> set (held_legs os (other_legs (Some (poArm w)) entries))"
    from held_legs_only [OF this] obtain i oc where i: "i < length entries" "i \<noteq> poArm w" "oc \<in> set os"
      "poArm oc = poArm w" "acKey (poCand oc) = acKey (leCand (entries ! i))" by (auto simp: other_legs_set)
    with assms(2) have "acKey (leCand (entries ! poArm w)) = acKey (leCand (entries ! i))" "poArm w < length entries"
      by (auto simp: arm_outcome_def)
    with i(1,2) assms(1) show False by (auto simp: distinct_conv_nth)
  qed
  with rel sw cx show ?thesis by auto
qed


lemma find_upt_le:
  assumes "P m" "m < n"
  shows "\<exists>l \<le> m. find P [0..<n] = Some l"
proof (cases "find P [0..<n]")
  case None
  with assms show ?thesis by (auto simp: find_None_set)
next
  case (Some l)
  then obtain i where i: "i < n" "l = i" "\<forall>j < i. \<not> P j" by (auto simp: find_Some_iff)
  then have "l \<le> m" using assms(1) leI by blast
  with Some show ?thesis by blast
qed

section \<open>Properties\<close>

definition reported :: "race \<Rightarrow> nat set" where
  "reported r = fst ` set (acks (coord r))"

lemma race_reachable_inv: "(race_step entries)\<^sup>*\<^sup>* (race_init (length entries)) r \<Longrightarrow> race_inv entries r"
  by (rule race.inv_rtranclp) (auto intro: race.reach_inv reach.intros simp: race_inv_def race_init_def new_coordinator_def)

lemma acks_split:
  assumes "map poArm os = map fst (filter snd as)" "distinct (map fst as)" "(a, b) \<in> set as"
  shows "b \<longleftrightarrow> a \<in> poArm ` set os"
proof -
  have "poArm ` set os = fst ` set (filter snd as)" using arg_cong [OF assms(1), of set] by simp
  moreover have "b" if "(a, True) \<in> set as" using eq_key_imp_eq_value [OF assms(2,3) that] by simp
  ultimately show ?thesis using assms(3) by (force simp: image_iff)
qed

text \<open>
  C9: The race has one winner and leaks nothing. In every run of the coordinator over arms
  with distinct keys, once the decision is published and reduced (the parent context still
  being alive if the reducer sees it alive): a winner is the only ready outcome of the
  decision and is not released; every other attempt held by an accepted arm is released;
  and an arm that reported is accepted by the decision or told to clean up after itself,
  never both.
\<close>

theorem race_single_winner:
  assumes "distinct (map (\<lambda>e. acKey (leCand e)) entries)" "(race_step entries)\<^sup>*\<^sup>* (race_init (length entries)) r"
    and "decision (coord r) = Some d" "Reduce ctxErr ce entries cands (outcomes d) ex h = ro" "ctxErr = None \<longrightarrow> \<not> ctxDone r"
  shows "(\<forall>w. roResult ro = ReduceWinner w \<longrightarrow> poArm w \<notin> set (roReleased ro) \<and> filter poReady (outcomes d) = [w])
    \<and> (\<forall>oc \<in> set (outcomes d). poHeld oc \<longrightarrow> roResult ro = ReduceWinner oc \<or> poArm oc \<in> set (roReleased ro))
    \<and> (\<forall>a \<in> reported r. (a, True) \<in> set (acks (coord r)) \<longleftrightarrow> a \<in> poArm ` set (outcomes d))
    \<and> distinct (map fst (acks (coord r)))"
proof -
  have inv: "race_inv entries r" by (rule race_reachable_inv [OF assms(2)])
  have os: "outcomes d = acceptedOutcomes (coord r)" using inv assms(3) by (auto simp: race_inv_def Let_def)
  have arms: "\<forall>oc \<in> set (outcomes d). arm_outcome entries oc"
    and ack: "map poArm (outcomes d) = map fst (filter snd (acks (coord r)))" "distinct (map fst (acks (coord r)))"
    and one: "length (filter poReady (outcomes d)) \<le> 1 \<or> ctxDone r"
    using inv os by (simp_all add: race_inv_def Let_def)
  have dist: "distinct (map poArm (outcomes d))" using ack by (simp add: distinct_map_filter)
  have win: "poArm w \<notin> set (roReleased ro) \<and> filter poReady (outcomes d) = [w]" if "roResult ro = ReduceWinner w" for w
  proof -
    from Reduce_winner [OF assms(1) arms dist assms(4) that] have w: "select_winner (outcomes d) = Some w" "ctxErr = None"
      "poArm w \<notin> set (roReleased ro)" by auto
    have "w \<in> set (filter poReady (outcomes d))" using select_winner_Some [OF w(1)] by (simp add: wins_def)
    moreover have "length (filter poReady (outcomes d)) \<le> 1" using one w(2) assms(5) by blast
    ultimately show ?thesis using w(3) by (cases "filter poReady (outcomes d)") auto
  qed
  have rel: "roResult ro = ReduceWinner oc \<or> poArm oc \<in> set (roReleased ro)" if "oc \<in> set (outcomes d)" "poHeld oc" for oc
    using Reduce_released [OF assms(1) arms dist that assms(4)] by blast
  have "(a, True) \<in> set (acks (coord r)) \<longleftrightarrow> a \<in> poArm ` set (outcomes d)" if "a \<in> reported r" for a
    using that acks_split [OF ack] by (force simp: reported_def)
  with win rel ack(2) show ?thesis by blast
qed

definition arm_entry :: "string \<Rightarrow> legEntry" where
  "arm_entry b = \<lparr>leCand = (plain_candidate (mk_primary b ''m''))\<lparr>IsParallel := True\<rparr>, leDelay = 0\<rparr>"

definition idle_outcome :: "legEntry list \<Rightarrow> nat \<Rightarrow> parallelArmOutcome" where
  "idle_outcome es i = \<lparr>poArm = i, poCand = leCand (es ! i), poReady = False, poFailErr = None, poRejected = False,
     poRejection = \<lparr>rjKind = rejectNone, rjDetail = NoDetail\<rparr>, poCompleted = False,
     poDelta = parallelFailureDeltaFromHistory new_failures, poArrival = 0, poHeld = False\<rparr>"

definition ready_outcome :: "legEntry list \<Rightarrow> nat \<Rightarrow> parallelArmOutcome" where
  "ready_outcome es i = (idle_outcome es i)\<lparr>poReady := True, poHeld := True\<rparr>"

definition no_commit_errors :: commit_errors where
  "no_commit_errors = \<lparr>advanceErr = None, setFirstErr = None, commitTurnErr = None, installErr = None, cleanupErr = None\<rparr>"

definition late_fail :: "legEntry list \<Rightarrow> nat \<Rightarrow> parallelArmOutcome" where
  "late_fail es i = (idle_outcome es i)\<lparr>poHeld := True, poFailErr := Some (Sentinel context_Canceled)\<rparr>"

definition sample_race :: race where
  "sample_race = (let es = [arm_entry ''a'', arm_entry ''b'', arm_entry ''c''] in
     \<lparr>waiting = {}, ctxDone = False,
      coord = handoff False (late_fail es 0) (handoff False (ready_outcome es 2) (handoff False (late_fail es 1) new_coordinator))\<rparr>)"

theorem race_single_winner_witness:
  "\<exists>d. decision (coord sample_race) = Some d
     \<and> roResult (Reduce None no_commit_errors [arm_entry ''a'', arm_entry ''b'', arm_entry ''c''] [] (outcomes d) {} new_failures)
         = ReduceWinner ((ready_outcome [arm_entry ''a'', arm_entry ''b'', arm_entry ''c''] 2)\<lparr>poArrival := 2\<rparr>)
     \<and> 1 \<in> set (roReleased (Reduce None no_commit_errors [arm_entry ''a'', arm_entry ''b'', arm_entry ''c''] [] (outcomes d) {} new_failures))
     \<and> acks (coord sample_race) = [(1, True), (2, True), (0, False)]"
proof -
  let ?es = "[arm_entry ''a'', arm_entry ''b'', arm_entry ''c'']"
  have dk: "distinct (map (\<lambda>e. acKey (leCand e)) ?es)" by code_simp
  have ok: "arm_outcome ?es (late_fail ?es 0)" "arm_outcome ?es (late_fail ?es 1)" "arm_outcome ?es (ready_outcome ?es 2)"
    by (simp_all add: arm_outcome_def late_fail_def ready_outcome_def idle_outcome_def)
  define r0 where "r0 = race_init (length ?es)"
  define r1 where "r1 = r0\<lparr>waiting := waiting r0 - {1}, coord := handoff False (late_fail ?es 1) (coord r0)\<rparr>"
  define r2 where "r2 = r1\<lparr>waiting := waiting r1 - {2}, coord := handoff False (ready_outcome ?es 2) (coord r1)\<rparr>"
  define r3 where "r3 = r2\<lparr>waiting := waiting r2 - {0}, coord := handoff False (late_fail ?es 0) (coord r2)\<rparr>"
  have arm: "poArm (late_fail ?es i) = i" "poArm (ready_outcome ?es i) = i" for i
    by (simp_all add: late_fail_def ready_outcome_def idle_outcome_def)
  have w: "waiting r0 = {..<3}" "ctxDone r0 = False" by (simp_all add: r0_def race_init_def)
  have "race_step ?es r0 r1" unfolding r1_def using rs_handoff [OF ok(2), of r0] w arm by simp
  moreover have "race_step ?es r1 r2" unfolding r2_def using rs_handoff [OF ok(3), of r1] w arm by (simp add: r1_def)
  moreover have "race_step ?es r2 r3" unfolding r3_def using rs_handoff [OF ok(1), of r2] w arm by (simp add: r1_def r2_def)
  ultimately have run: "(race_step ?es)\<^sup>*\<^sup>* r0 r3" by (meson converse_rtranclp_into_rtranclp rtranclp.rtrancl_refl)
  have "waiting r3 = {}" by (auto simp: r3_def r2_def r1_def w)
  then have "r3 = sample_race"
    by (simp add: sample_race_def r3_def r2_def r1_def r0_def race_init_def Let_def)
  with run have run: "(race_step ?es)\<^sup>*\<^sup>* (race_init (length ?es)) sample_race" by (simp add: r0_def)
  have dec: "decision (coord sample_race) = Some \<lparr>outcomes = [(late_fail ?es 1)\<lparr>poArrival := 1\<rparr>, (ready_outcome ?es 2)\<lparr>poArrival := 2\<rparr>],
      snFatal = None, canceled = False\<rparr>" and ak: "acks (coord sample_race) = [(1, True), (2, True), (0, False)]"
    by code_simp+
  let ?os = "[(late_fail ?es 1)\<lparr>poArrival := 1\<rparr>, (ready_outcome ?es 2)\<lparr>poArrival := 2\<rparr>]"
  let ?ro = "Reduce None no_commit_errors ?es [] ?os {} new_failures"
  have res: "roResult ?ro = ReduceWinner ((ready_outcome ?es 2)\<lparr>poArrival := 2\<rparr>)" by code_simp
  have "\<not> ctxDone sample_race" by (simp add: sample_race_def Let_def)
  with race_single_winner [OF dk run dec refl, of None no_commit_errors "[]" "{}" new_failures] res
  have "1 \<in> set (roReleased ?ro)" by (auto simp: late_fail_def ready_outcome_def idle_outcome_def)
  with dec ak res show ?thesis by auto
qed

text \<open>
  Racing the same candidate twice disposes the winner. When two arms of a race have the
  same key and the decision holds just the ready outcome of one of them, the reducer matches
  both legs with that outcome by key: the race is reported as won, and the winner's own
  attempt is released as a loser.
\<close>

lemma duplicate_arm_releases_winner:
  assumes "i < j" "j < length entries" "acKey (leCand (entries ! i)) = acKey (leCand (entries ! j))"
    and "arm_outcome entries w" "poArm w \<in> {i, j}" "poReady w"
    and "Reduce None no_commit_errors entries cands [w] ex h = ro"
  shows "roResult ro = ReduceWinner w \<and> poArm w \<in> set (roReleased ro)"
proof -
  have w: "poHeld w" "poFailErr w = None" "acKey (poCand w) = acKey (leCand (entries ! i))"
    using assms(3-6) by (auto simp: arm_outcome_def)
  have sw: "select_winner [w] = Some w" using assms(6) w by (simp add: select_winner_def better_def)
  obtain k where k: "winner_index w entries = Some k" "k \<le> i"
    using find_upt_le [of "\<lambda>n. acKey (leCand (entries ! n)) = acKey (poCand w)" i "length entries"] w(3) assms(1,2)
    by (auto simp: winner_index_def)
  have "leg_attempt [w] (entries ! j) = Some (poArm w)"
    using assms(3) w by (simp add: leg_attempt_def outcome_of_def)
  moreover have "entries ! j \<in> set (other_legs (winner_index w entries) entries)"
    using k assms(1,2) by (auto simp: other_legs_set)
  ultimately have "poArm w \<in> set (held_legs [w] (other_legs (winner_index w entries) entries))"
    by (force simp: held_legs_def List.map_filter_def)
  with assms(7) sw w show ?thesis
    by (auto simp: Reduce_def Let_def commit_error_def no_commit_errors_def isParallelFatalErr_def)
qed


lemma duplicate_arm_example:
  "roResult (Reduce None no_commit_errors [arm_entry ''a'', arm_entry ''a''] [] [ready_outcome [arm_entry ''a'', arm_entry ''a''] 0]
      {} new_failures) = ReduceWinner (ready_outcome [arm_entry ''a'', arm_entry ''a''] 0)
   \<and> 0 \<in> set (roReleased (Reduce None no_commit_errors [arm_entry ''a'', arm_entry ''a''] []
      [ready_outcome [arm_entry ''a'', arm_entry ''a''] 0] {} new_failures))"
  using duplicate_arm_releases_winner [of 0 1 "[arm_entry ''a'', arm_entry ''a'']" "ready_outcome [arm_entry ''a'', arm_entry ''a''] 0"
      "[]" "{}" new_failures]
  by (simp add: arm_outcome_def ready_outcome_def idle_outcome_def)


end
