(* ===== verification/Route_Opening.thy ===== *)
theory Route_Opening
  imports Parallel_Race
begin

text \<open>
  Opening an upstream attempt for a request: the loop of
  \<open>internal/core/runtime/executor_open_loop.go\<close> with \<open>openNext\<close>, \<open>evaluateAndOpenCandidate\<close>,
  \<open>openAttemptTx\<close> (\<open>executor_open_attempt.go\<close>), \<open>failOpen\<close> (\<open>attempt_open_failure.go\<close>), the
  rejections of \<open>executor_admission.go\<close> and \<open>executor_attempt_transform.go\<close> and
  \<open>tryOpenParallelGroup\<close> (\<open>parallel_race.go\<close>). It composes the planner, the affinity store,
  the failure history, the attempt budget and the race reducer.

  \<^item> \<open>route_env\<close> holds what this part of the executor calls: contexts, candidate health,
    candidate admission, the continuity store, the attempt transaction up to the backend's
    answer, launch permits and the arms of a race. They read and change a world \<open>'w\<close>. Every
    theorem holds for all such parameters.
  \<^item> \<open>progress\<close> is the request's mutable routing state (\<open>recoveryController\<close>). \<open>prLaunched\<close>
    records the keys of the candidates whose backend was called or whose arm was started.
  \<^item> When planning fails, the session flag and the rolls stay as they were; the request ends
    with an error in that case.
\<close>

section \<open>State and environment\<close>

text \<open>How the post-hook re-derivation excludes a candidate.\<close>

datatype post_hook = PostPanic | PostAdmission CandidateAdmissionResult | PostIneligible string bool

text \<open>
  How \<open>openAttemptTx\<close> leaves after it has acquired its slot: another error, a candidate
  excluded after the request hooks, a denial that ends the attempt (a clamp the backend
  cannot enforce, a leg canceled before launch), a failed open, or an open stream. The flags
  tell whether the backend was called.
\<close>

datatype tx_exit =
  TxError go_error bool | TxExcluded post_hook | TxDenied | TxOpenFailed openFailure bool | TxOpened

record 'w route_env =
  ctxErr :: "'w \<Rightarrow> string option"
  scopeErr :: "'w \<Rightarrow> go_error option"
  health :: "'w \<Rightarrow> string set \<times> 'w"
  evaluateCandidate :: "AttemptCandidate \<Rightarrow> Interleaved \<Rightarrow> 'w \<Rightarrow> (go_error + candidateRejection option) \<times> 'w"
  startAttemptTx :: "AttemptCandidate \<Rightarrow> 'w \<Rightarrow> go_error option \<times> 'w"
  runAttempt :: "AttemptCandidate \<Rightarrow> 'w \<Rightarrow> tx_exit \<times> 'w"
  commitLaunchOrRegister :: "AttemptCandidate \<Rightarrow> 'w \<Rightarrow> go_error option \<times> 'w"
  commitTurn :: "AttemptCandidate \<Rightarrow> 'w \<Rightarrow> go_error option \<times> 'w"
  persistInterleavedState :: "Interleaved \<Rightarrow> 'w \<Rightarrow> go_error option \<times> 'w"
  raceArms :: "legEntry list \<Rightarrow> Interleaved \<Rightarrow> 'w \<Rightarrow> (parallelArmOutcome list \<times> go_error option \<times> commit_errors) \<times> 'w"

record route_facts =
  rfSel :: "Selector option"
  rfRequestSize :: RequestSizeEstimate
  rfAffinityKey :: Key
  rfAffinitySet :: bool
  rfRand :: "(nat \<Rightarrow> int \<Rightarrow> int) option"
  rfSeeded :: "int \<Rightarrow> int"
  rfRoutePrefs :: "string list"
  rfSuppressThinker :: bool
  rfRetry :: bool

record 'w progress =
  prExcluded :: "string set"
  prPlan :: plan_state
  prBudget :: "attemptBudget option"
  prFailures :: candidateFailureHistory
  prInterleaved :: Interleaved
  prBindings :: "bindings option"
  prLaunched :: "string list"
  prWorld :: 'w

record candidatePlan =
  cpCand :: AttemptCandidate
  cpNextCycle :: "CycleState option"
  cpStickyBackendID :: string
  cpStickyBinding :: bool

type_synonym 'w opened = "(go_error + AttemptCandidate option \<times> Interleaved) \<times> 'w progress"

section \<open>Rejections and failed opens\<close>

definition clear_binding :: "'w route_env \<Rightarrow> route_facts \<Rightarrow> 'w progress \<Rightarrow> 'w progress" where
  "clear_binding env f p =
     p\<lparr>prBindings := clearAffinityBinding (ctxErr env (prWorld p)) (rfAffinityKey f) (rfAffinitySet f) (prBindings p)\<rparr>"

definition clear_if_sticky :: "'w route_env \<Rightarrow> route_facts \<Rightarrow> candidatePlan \<Rightarrow> 'w progress \<Rightarrow> 'w progress" where
  "clear_if_sticky env f cp p =
     (if cpStickyBinding cp \<and> Backend (acPrimary (cpCand cp)) = cpStickyBackendID cp then clear_binding env f p else p)"

definition noteCandidateAdmissionReject ::
  "'w route_env \<Rightarrow> route_facts \<Rightarrow> candidatePlan \<Rightarrow> CandidateAdmissionResult \<Rightarrow> 'w progress \<Rightarrow> 'w progress" where
  "noteCandidateAdmissionReject env f cp ad p =
     clear_if_sticky env f cp (p\<lparr>prFailures := snd (note_admission ad (prFailures p))\<rparr>)"

definition note_other :: "'w progress \<Rightarrow> 'w progress" where
  "note_other p = p\<lparr>prFailures := (prFailures p)\<lparr>TransformExcludes := noteOther (TransformExcludes (prFailures p))\<rparr>\<rparr>"

definition rederiveAfterRequestHooks ::
  "'w route_env \<Rightarrow> route_facts \<Rightarrow> candidatePlan \<Rightarrow> post_hook \<Rightarrow> 'w progress \<Rightarrow> 'w progress" where
  "rederiveAfterRequestHooks env f cp ph p =
     (case ph of
        PostPanic \<Rightarrow> note_other p
      | PostAdmission ad \<Rightarrow> noteCandidateAdmissionReject env f cp ad p
      | PostIneligible reason limit \<Rightarrow>
          let p1 = clear_if_sticky env f cp p
          in note_other (if limit then p1\<lparr>prFailures := (prFailures p1)\<lparr>ContextLimit := True\<rparr>\<rparr> else p1))"

text \<open>The same on the local history of a parallel arm, which clears no binding itself.\<close>

definition rederive_arm :: "bool \<Rightarrow> post_hook \<Rightarrow> candidateFailureHistory \<Rightarrow> candidateFailureHistory" where
  "rederive_arm sticky ph h =
     (case ph of
        PostPanic \<Rightarrow> h\<lparr>TransformExcludes := noteOther (TransformExcludes h)\<rparr>
      | PostAdmission ad \<Rightarrow>
          (case note_admission ad h of (reason, h1) \<Rightarrow> if sticky then h1\<lparr>AffinityReset := reason\<rparr> else h1)
      | PostIneligible reason limit \<Rightarrow>
          let h1 = (if sticky then h\<lparr>AffinityReset := reason\<rparr> else h);
              h2 = (if limit then h1\<lparr>ContextLimit := True\<rparr> else h1)
          in h2\<lparr>TransformExcludes := noteOther (TransformExcludes h2)\<rparr>)"

definition failOpen ::
  "'w route_env \<Rightarrow> route_facts \<Rightarrow> candidatePlan \<Rightarrow> openFailure \<Rightarrow> 'w progress \<Rightarrow> go_error option \<times> 'w progress" where
  "failOpen env f cp fl p =
     (let p1 = (if nilStreamErr fl \<noteq> None
                then note_other (p\<lparr>prFailures := (prFailures p)\<lparr>SwallowedUpstreamFailure := nilStreamErr fl\<rparr>\<rparr>) else p)
      in if ttftExpired fl then
           (if ttftScope fl = ttftTimeoutLeaf then (None, p1)
            else (Some (Wrapped ''executor: backend open'' (Sentinel ErrTTFTTimeout)), p1))
         else if IsRecoverablePreOutput (ofErr fl) then
           let p2 = clear_if_sticky env f cp p1
           in (None, if error_Is (ofErr fl) ErrCapabilityReject
                     then p2\<lparr>prFailures := (prFailures p2)\<lparr>SwallowedCapabilityReject := Some (ofErr fl)\<rparr>\<rparr> else p2)
         else (Some (Wrapped ''executor: backend open'' (ofErr fl)), p1))"

section \<open>One candidate\<close>

datatype tx_result = TxFailed go_error | TxCompleted | TxReady

text \<open>The deferred or explicit rollback returns the slot unless the backend was called.\<close>

definition settle_slot :: "bool \<Rightarrow> AttemptCandidate \<Rightarrow> 'w progress \<Rightarrow> 'w progress" where
  "settle_slot attempted c p =
     (if attempted then p\<lparr>prLaunched := prLaunched p @ [acKey c]\<rparr> else p\<lparr>prBudget := budget_release (prBudget p)\<rparr>)"

definition openAttemptTx ::
  "'w route_env \<Rightarrow> route_facts \<Rightarrow> candidatePlan \<Rightarrow> 'w progress \<Rightarrow> tx_result \<times> 'w progress" where
  "openAttemptTx env f cp p =
     (case tryAcquire (prBudget p) of
        (False, b) \<Rightarrow> (TxFailed (Wrapped ''executor'' (Sentinel ErrMaxRouteAttempts)), p)
      | (True, b) \<Rightarrow>
          (case runAttempt env (cpCand cp) (prWorld p) of (ex, w) \<Rightarrow>
             let p1 = p\<lparr>prBudget := b, prWorld := w\<rparr>; c = cpCand cp in
             (case ex of
                TxError e attempted \<Rightarrow> (TxFailed e, settle_slot attempted c p1)
              | TxExcluded ph \<Rightarrow> (TxCompleted, settle_slot False c (rederiveAfterRequestHooks env f cp ph p1))
              | TxDenied \<Rightarrow> (TxCompleted, settle_slot False c p1)
              | TxOpenFailed fl attempted \<Rightarrow>
                  (case failOpen env f cp fl p1 of
                     (None, p2) \<Rightarrow> (TxCompleted, settle_slot attempted c p2)
                   | (Some e, p2) \<Rightarrow> (TxFailed e, settle_slot attempted c p2))
              | TxOpened \<Rightarrow> (TxReady, settle_slot True c p1))))"

definition exclude :: "string \<Rightarrow> 'w progress \<Rightarrow> 'w progress" where
  "exclude k p = p\<lparr>prExcluded := insert k (prExcluded p)\<rparr>"

definition advanceInterleavedCycle ::
  "'w route_env \<Rightarrow> Interleaved \<Rightarrow> CycleState option \<Rightarrow> 'w progress \<Rightarrow> (go_error + Interleaved) \<times> 'w progress" where
  "advanceInterleavedCycle env st nxt p =
     (case nxt of
        None \<Rightarrow> (Inr st, p)
      | Some cy \<Rightarrow>
          (case persistInterleavedState env (st\<lparr>Cycle := cy\<rparr>) (prWorld p) of
             (Some e, w) \<Rightarrow> (Inl (Wrapped ''executor: persist interleaved cycle'' e), p\<lparr>prWorld := w\<rparr>)
           | (None, w) \<Rightarrow> (Inr (st\<lparr>Cycle := cy\<rparr>), p\<lparr>prWorld := w\<rparr>)))"

definition rejected_candidate ::
  "'w route_env \<Rightarrow> route_facts \<Rightarrow> candidatePlan \<Rightarrow> candidateRejection \<Rightarrow> 'w progress \<Rightarrow> 'w progress" where
  "rejected_candidate env f cp rj p =
     (let p1 = p\<lparr>prFailures := applyRejection rj (prFailures p)\<rparr>;
          p2 = (case (rjKind rj, rjDetail rj) of
                  (rejectAdmission, DetailAdmission ad) \<Rightarrow> noteCandidateAdmissionReject env f cp ad p1
                | _ \<Rightarrow> p1)
      in exclude (acKey (cpCand cp)) p2)"

definition evaluateAndOpenCandidate ::
  "'w route_env \<Rightarrow> route_facts \<Rightarrow> candidatePlan \<Rightarrow> Interleaved \<Rightarrow> 'w progress \<Rightarrow> 'w opened" where
  "evaluateAndOpenCandidate env f cp st p =
     (let c = cpCand cp in
      case evaluateCandidate env c st (prWorld p) of
        (Inl e, w) \<Rightarrow> (Inl e, p\<lparr>prWorld := w\<rparr>)
      | (Inr (Some rj), w) \<Rightarrow> (Inr (None, st), rejected_candidate env f cp rj (p\<lparr>prWorld := w\<rparr>))
      | (Inr None, w) \<Rightarrow>
          (case startAttemptTx env c w of
             (Some e, w1) \<Rightarrow> (Inl e, p\<lparr>prWorld := w1\<rparr>)
           | (None, w1) \<Rightarrow>
               (case openAttemptTx env f cp (p\<lparr>prWorld := w1\<rparr>) of
                  (TxFailed e, p1) \<Rightarrow> (Inl e, p1)
                | (TxCompleted, p1) \<Rightarrow> (Inr (None, st), exclude (acKey c) p1)
                | (TxReady, p1) \<Rightarrow>
                    (case commitLaunchOrRegister env c (prWorld p1) of
                       (Some e, w2) \<Rightarrow>
                         (Inl e, if error_Is e ErrALegCanceled then exclude (acKey c) (p1\<lparr>prWorld := w2\<rparr>) else p1\<lparr>prWorld := w2\<rparr>)
                     | (None, w2) \<Rightarrow>
                         (case commitTurn env c w2 of
                            (Some e, w3) \<Rightarrow> (Inl e, p1\<lparr>prWorld := w3\<rparr>)
                          | (None, w3) \<Rightarrow>
                              (case advanceInterleavedCycle env st (cpNextCycle cp) (p1\<lparr>prWorld := w3\<rparr>) of
                                 (Inl e, p2) \<Rightarrow> (Inl e, p2)
                               | (Inr st', p2) \<Rightarrow> (Inr (Some c, st'), p2)))))))"

section \<open>A parallel group\<close>

definition tryOpenParallelGroup ::
  "'w route_env \<Rightarrow> route_facts \<Rightarrow> AttemptCandidate list \<Rightarrow> CycleState option \<Rightarrow> Interleaved \<Rightarrow> 'w progress \<Rightarrow> 'w opened" where
  "tryOpenParallelGroup env f cands nxt st p =
     (case limit_entries (prBudget p) (leg_entries cands) of
        Inl e \<Rightarrow> (Inl e, p)
      | Inr (es, b) \<Rightarrow>
          let st1 = (case nxt of None \<Rightarrow> st | Some cy \<Rightarrow> st\<lparr>Cycle := cy\<rparr>) in
          (case raceArms env es st1 (prWorld p) of ((os, cerr, ce), w) \<Rightarrow>
             let ro = Reduce cerr ce es cands os (prExcluded p) (prFailures p);
                 p1 = p\<lparr>prBudget := b, prWorld := w, prLaunched := prLaunched p @ map (\<lambda>e. acKey (leCand e)) es,
                        prExcluded := roExcluded ro, prFailures := roFailures ro\<rparr>;
                 p2 = (if roResets ro = [] then p1 else clear_binding env f p1)
             in (case roResult ro of
                   ReduceErr e \<Rightarrow> (Inl e, p2)
                 | ReduceWinner x \<Rightarrow> (Inr (Some (poCand x), st1), p2)
                 | ReduceNone \<Rightarrow> (Inr (None, st1), p2))))"

section \<open>Planning and opening the next attempt\<close>

definition plan_options :: "route_facts \<Rightarrow> string set \<Rightarrow> string set \<Rightarrow> string \<Rightarrow> CycleState \<Rightarrow> PlanOptions" where
  "plan_options f ex uh sticky cy =
     \<lparr>Excluded = ex, Unhealthy = uh, RequestSize = rfRequestSize f, PreferredCandidateKeys = rfRoutePrefs f,
      StickyBackendID = sticky, Rand = rfRand f, SeededRoll = rfSeeded f, IsRetryPath = rfRetry f,
      ThinkerCycle = cy, SuppressThinker = rfSuppressThinker f\<rparr>"

definition plan_go_error :: "plan_error \<Rightarrow> go_error" where
  "plan_go_error e = (case e of
       ErrNoEligibleCandidate \<Rightarrow> Sentinel ''routing: no eligible candidate''
     | ErrWeightedTotalTooLarge \<Rightarrow> Sentinel ''routing: weighted total too large''
     | ErrMultipleFirst \<Rightarrow> Sentinel ''routing: multiple first branches''
     | ErrInvalidAlternative \<Rightarrow> Sentinel ''routing: invalid alternative''
     | ErrNilSelector \<Rightarrow> Sentinel ''routing: nil selector'')"

definition affinity_go_error :: "affinity_error \<Rightarrow> go_error" where
  "affinity_go_error e = (case e of
       ErrIdentityRequired \<Rightarrow> Sentinel ''affinity: identity required'' | ErrCtx s \<Rightarrow> Sentinel s)"

definition first_backend :: "AttemptGroup list \<Rightarrow> string option" where
  "first_backend gs = (case gs of
       [] \<Rightarrow> None
     | g # _ \<Rightarrow> (case Candidates g of [] \<Rightarrow> None | c # _ \<Rightarrow> Some (Backend (acPrimary c))))"

text \<open>
  The planning part of \<open>openNext\<close>: the groups with the sticky backend still in force, or the
  error that ends the request.
\<close>

definition plan_next ::
  "'w route_env \<Rightarrow> route_facts \<Rightarrow> Interleaved \<Rightarrow> 'w progress
     \<Rightarrow> (go_error + AttemptGroup list \<times> string \<times> bool) \<times> 'w progress" where
  "plan_next env f st p =
     (case lookupAffinityBinding (ctxErr env (prWorld p)) (rfSel f) (rfAffinityKey f) (rfAffinitySet f) (prBindings p) of
        Inl e \<Rightarrow> (Inl (Wrapped ''executor: affinity lookup'' (affinity_go_error e)), p)
      | Inr (sticky, bound) \<Rightarrow>
          (case health env (prWorld p) of (uh, w) \<Rightarrow>
             let p0 = p\<lparr>prWorld := w\<rparr>;
                 opt = plan_options f (prExcluded p) uh sticky (Cycle st);
                 r = ExpandFailoverGroups (rfSel f) opt (prPlan p);
                 ps = (case r of Inl _ \<Rightarrow> prPlan p | Inr (_, ps) \<Rightarrow> ps);
                 lost = bound \<and> sticky \<noteq> [] \<and> (case r of Inl _ \<Rightarrow> True | Inr (gs, _) \<Rightarrow> first_backend gs \<noteq> Some sticky);
                 p1 = (if lost then clear_binding env f (p0\<lparr>prPlan := ps\<rparr>) else p0\<lparr>prPlan := ps\<rparr>);
                 r1 = (if lost then ExpandFailoverGroups (rfSel f) (opt\<lparr>StickyBackendID := []\<rparr>) ps else r);
                 sticky1 = (if lost then [] else sticky);
                 bound1 = (if lost then False else bound)
             in (case r1 of
                   Inr (gs, ps1) \<Rightarrow> (Inr (gs, sticky1, bound1), p1\<lparr>prPlan := ps1\<rparr>)
                 | Inl e \<Rightarrow>
                     let base = plan_go_error e; fin = FinalError (prFailures p1) base
                     in (Inl (if e = ErrNoEligibleCandidate \<and> fin \<noteq> base then fin
                              else Wrapped ''executor: expand failover'' base), p1))))"

definition drop_parallel_failure :: "'w progress \<Rightarrow> 'w progress" where
  "drop_parallel_failure p = p\<lparr>prFailures := (prFailures p)\<lparr>ParallelFailure := None\<rparr>\<rparr>"

fun try_groups ::
  "'w route_env \<Rightarrow> route_facts \<Rightarrow> string \<Rightarrow> bool \<Rightarrow> Interleaved \<Rightarrow> AttemptGroup list \<Rightarrow> Interleaved \<Rightarrow> 'w progress \<Rightarrow> 'w opened" where
  "try_groups env f sticky bound st [] noopen p = (Inr (None, noopen), p)"
| "try_groups env f sticky bound st (g # gs) noopen p =
     (case Candidates g of
        [] \<Rightarrow> try_groups env f sticky bound st gs noopen p
      | c # cs \<Rightarrow>
          if IsParallel c then
            (case tryOpenParallelGroup env f (c # cs) (NextThinkerCycle g) st p of
               (Inl e, p1) \<Rightarrow> (Inl (resolveTerminalOpenError (prFailures p1) e), p1)
             | (Inr (Some a, st'), p1) \<Rightarrow> (Inr (Some a, st'), drop_parallel_failure (p1\<lparr>prInterleaved := st'\<rparr>))
             | (Inr (None, st'), p1) \<Rightarrow> try_groups env f sticky bound st gs st' (p1\<lparr>prInterleaved := st'\<rparr>))
          else
            (case evaluateAndOpenCandidate env f \<lparr>cpCand = c, cpNextCycle = NextThinkerCycle g, cpStickyBackendID = sticky,
                     cpStickyBinding = bound\<rparr> st p of
               (Inl e, p1) \<Rightarrow> (Inl (resolveTerminalOpenError (prFailures p1) e), p1)
             | (Inr (Some a, st'), p1) \<Rightarrow> (Inr (Some a, st'), drop_parallel_failure p1)
             | (Inr (None, st'), p1) \<Rightarrow> (Inr (None, st'), p1)))"

definition openNext :: "'w route_env \<Rightarrow> route_facts \<Rightarrow> Interleaved \<Rightarrow> 'w progress \<Rightarrow> 'w opened" where
  "openNext env f st p =
     (case plan_next env f st (p\<lparr>prInterleaved := st\<rparr>) of
        (Inl e, p1) \<Rightarrow> (Inl e, p1)
      | (Inr (groups, sticky, bound), p1) \<Rightarrow> try_groups env f sticky bound st groups st p1)"

partial_function (option) openInitial ::
  "'w route_env \<Rightarrow> route_facts \<Rightarrow> 'w progress \<Rightarrow> ((go_error + AttemptCandidate \<times> Interleaved) \<times> 'w progress) option" where
  "openInitial env f p =
     (case ctxErr env (prWorld p) of
        Some e \<Rightarrow> Some (Inl (Sentinel e), p)
      | None \<Rightarrow>
          (case scopeErr env (prWorld p) of
             Some e \<Rightarrow> Some (Inl e, p)
           | None \<Rightarrow>
               (case openNext env f (prInterleaved p) p of
                  (Inl e, p1) \<Rightarrow> Some (Inl e, p1)
                | (Inr (None, st), p1) \<Rightarrow> openInitial env f (p1\<lparr>prInterleaved := st\<rparr>)
                | (Inr (Some c, st), p1) \<Rightarrow> Some (Inr (c, st), p1))))"

declare openInitial.simps [code]

section \<open>What every step keeps\<close>

definition budget_ok :: "'w progress \<Rightarrow> bool" where
  "budget_ok p = (case prBudget p of None \<Rightarrow> True | Some b \<Rightarrow> 0 \<le> bUsed b \<and> bUsed b \<le> bMax b)"

text \<open>The limit, and the slots that are in use without a launch.\<close>

definition slots :: "'w progress \<Rightarrow> (int \<times> int) option" where
  "slots p = map_option (\<lambda>b. (bMax b, bUsed b - int (length (prLaunched p)))) (prBudget p)"

definition advances :: "'w progress \<Rightarrow> 'w progress \<Rightarrow> bool" where
  "advances p q \<longleftrightarrow> prExcluded p \<subseteq> prExcluded q \<and> (budget_ok p \<longrightarrow> budget_ok q \<and> slots q = slots p)"

lemma advances_refl [simp]: "advances p p"
  by (simp add: advances_def)

lemma advances_trans: "advances p q \<Longrightarrow> advances q r \<Longrightarrow> advances p r"
  by (auto simp: advances_def)

lemma advances_same:
  "prExcluded p \<subseteq> prExcluded q \<Longrightarrow> prBudget q = prBudget p \<Longrightarrow> prLaunched q = prLaunched p \<Longrightarrow> advances p q"
  by (simp add: advances_def budget_ok_def slots_def)

lemma clear_binding_same [simp]:
  "prExcluded (clear_binding env f p) = prExcluded p" "prBudget (clear_binding env f p) = prBudget p"
  "prLaunched (clear_binding env f p) = prLaunched p" "prPlan (clear_binding env f p) = prPlan p"
  by (simp_all add: clear_binding_def)

lemma clear_if_sticky_same [simp]:
  "prExcluded (clear_if_sticky env f cp p) = prExcluded p" "prBudget (clear_if_sticky env f cp p) = prBudget p"
  "prLaunched (clear_if_sticky env f cp p) = prLaunched p"
  by (simp_all add: clear_if_sticky_def)

lemma note_reject_same [simp]:
  "prExcluded (noteCandidateAdmissionReject env f cp ad p) = prExcluded p"
  "prBudget (noteCandidateAdmissionReject env f cp ad p) = prBudget p"
  "prLaunched (noteCandidateAdmissionReject env f cp ad p) = prLaunched p"
  by (simp_all add: noteCandidateAdmissionReject_def)

lemma note_other_same [simp]:
  "prExcluded (note_other p) = prExcluded p" "prBudget (note_other p) = prBudget p" "prLaunched (note_other p) = prLaunched p"
  by (simp_all add: note_other_def)

lemma rederive_same [simp]:
  "prExcluded (rederiveAfterRequestHooks env f cp ph p) = prExcluded p"
  "prBudget (rederiveAfterRequestHooks env f cp ph p) = prBudget p"
  "prLaunched (rederiveAfterRequestHooks env f cp ph p) = prLaunched p"
  by (simp_all add: rederiveAfterRequestHooks_def Let_def split: post_hook.splits)

lemma failOpen_same:
  assumes "failOpen env f cp fl p = (r, q)"
  shows "prExcluded q = prExcluded p \<and> prBudget q = prBudget p \<and> prLaunched q = prLaunched p"
  using assms by (auto simp: failOpen_def Let_def split: if_splits)

lemma exclude_fields [simp]:
  "prExcluded (exclude k p) = insert k (prExcluded p)" "prBudget (exclude k p) = prBudget p" "prLaunched (exclude k p) = prLaunched p"
  by (simp_all add: exclude_def)

lemma rejected_fields [simp]:
  "prExcluded (rejected_candidate env f cp rj p) = insert (acKey (cpCand cp)) (prExcluded p)"
  "prBudget (rejected_candidate env f cp rj p) = prBudget p" "prLaunched (rejected_candidate env f cp rj p) = prLaunched p"
  by (simp_all add: rejected_candidate_def Let_def split: rejectionKind.splits rejection_detail.splits)

text \<open>A slot that was acquired is either spent on a launch or given back.\<close>

lemma settle_slot_advances:
  assumes "tryAcquire (prBudget p) = (True, b)" "prBudget q = b" "prLaunched q = prLaunched p" "prExcluded q = prExcluded p"
  shows "advances p (settle_slot attempted c q)"
proof (cases "prBudget p")
  case None
  with assms show ?thesis
    by (simp add: advances_def settle_slot_def budget_ok_def slots_def tryAcquire_def budget_release_def)
next
  case (Some x)
  with assms have "prBudget q = Some (x\<lparr>bUsed := bUsed x + 1\<rparr>)" "bUsed x < bMax x"
    by (auto simp: tryAcquire_def split: if_splits)
  with assms(3,4) Some show ?thesis
    by (simp add: advances_def settle_slot_def budget_ok_def slots_def budget_release_def)
qed

lemma openAttemptTx_advances:
  assumes "openAttemptTx env f cp p = (r, q)"
  shows "advances p q"
proof -
  obtain ok b where t: "tryAcquire (prBudget p) = (ok, b)" by fastforce
  obtain ex w where x: "runAttempt env (cpCand cp) (prWorld p) = (ex, w)" by fastforce
  show ?thesis
  proof (cases ok)
    case False
    with t assms show ?thesis by (simp add: openAttemptTx_def)
  next
    case True
    let ?p1 = "p\<lparr>prBudget := b, prWorld := w\<rparr>"
    have "\<exists>q0 att. q = settle_slot att (cpCand cp) q0 \<and> prBudget q0 = b \<and> prLaunched q0 = prLaunched p \<and> prExcluded q0 = prExcluded p"
      using assms t x True failOpen_same [of env f cp _ ?p1]
      by (cases ex) (fastforce simp: openAttemptTx_def Let_def split: option.splits prod.splits)+
    with settle_slot_advances t True show ?thesis by fastforce
  qed
qed

lemma advances_world [simp]: "advances (p\<lparr>prWorld := w\<rparr>) q = advances p q" "advances p (q\<lparr>prWorld := w\<rparr>) = advances p q"
  by (simp_all add: advances_def budget_ok_def slots_def)

lemma advances_interleaved [simp]:
  "advances (p\<lparr>prInterleaved := st\<rparr>) q = advances p q" "advances p (q\<lparr>prInterleaved := st\<rparr>) = advances p q"
  by (simp_all add: advances_def budget_ok_def slots_def)

lemma advances_failures [simp]: "advances p (q\<lparr>prFailures := h\<rparr>) = advances p q"
  by (simp add: advances_def budget_ok_def slots_def)

lemma advances_exclude: "advances p q \<Longrightarrow> advances p (exclude k q)"
  by (auto simp: advances_def budget_ok_def slots_def)

lemma advanceCycle_advances: "advanceInterleavedCycle env st nxt p = (r, q) \<Longrightarrow> advances p q"
  by (auto simp: advanceInterleavedCycle_def split: option.splits prod.splits)

lemma evaluateAndOpen_advances:
  assumes "evaluateAndOpenCandidate env f cp st p = (r, q)"
  shows "advances p q \<and> (\<forall>st'. r = Inr (None, st') \<longrightarrow> acKey (cpCand cp) \<in> prExcluded q)"
proof -
  obtain ev w where e: "evaluateCandidate env (cpCand cp) st (prWorld p) = (ev, w)" by fastforce
  obtain se w1 where s: "startAttemptTx env (cpCand cp) w = (se, w1)" by fastforce
  obtain tr p1 where t: "openAttemptTx env f cp (p\<lparr>prWorld := w1\<rparr>) = (tr, p1)" by fastforce
  have p1: "advances p p1" using openAttemptTx_advances [OF t] by simp
  show ?thesis
  proof (cases "\<exists>rj. ev = Inr (Some rj)")
    case True
    with assms e show ?thesis by (auto simp: evaluateAndOpenCandidate_def Let_def intro!: advances_same)
  next
    case False
    show ?thesis
    proof (cases "ev = Inr None \<and> se = None \<and> tr = TxReady")
      case True
      obtain ce w2 where c: "commitLaunchOrRegister env (cpCand cp) (prWorld p1) = (ce, w2)" by fastforce
      obtain te w3 where te: "commitTurn env (cpCand cp) w2 = (te, w3)" by fastforce
      obtain ar p2 where a: "advanceInterleavedCycle env st (cpNextCycle cp) (p1\<lparr>prWorld := w3\<rparr>) = (ar, p2)" by fastforce
      have p2: "advances p p2" using advances_trans [OF p1] advanceCycle_advances [OF a] by simp
      show ?thesis
        using assms e s t c te a True p1 p2
        by (auto simp: evaluateAndOpenCandidate_def Let_def advances_exclude split: option.splits sum.splits)
    next
      case f2: False
      with False assms e s t p1 show ?thesis
        by (auto simp: evaluateAndOpenCandidate_def Let_def advances_exclude split: sum.splits option.splits tx_result.splits)
    qed
  qed
qed


lemma limit_loop_slots:
  "limit_loop b es = (ls, b') \<Longrightarrow>
     (case b of
        None \<Rightarrow> b' = None
      | Some x \<Rightarrow> \<exists>y. b' = Some y \<and> bMax y = bMax x \<and> bUsed y = bUsed x + int (length ls)
                \<and> (bUsed x \<le> bMax x \<longrightarrow> bUsed y \<le> bMax x))"
proof (induction es arbitrary: b ls b')
  case (Cons e es)
  show ?case
  proof (cases b)
    case None
    with Cons.prems obtain ls1 where "limit_loop None es = (ls1, b')" by (auto simp: tryAcquire_def split: prod.splits)
    from Cons.IH [OF this] None show ?thesis by simp
  next
    case (Some x)
    show ?thesis
    proof (cases "bUsed x \<ge> bMax x")
      case True
      with Cons.prems Some show ?thesis by (auto simp: tryAcquire_def)
    next
      case False
      obtain ls1 b1 where l: "limit_loop (Some (x\<lparr>bUsed := bUsed x + 1\<rparr>)) es = (ls1, b1)" by fastforce
      with Cons.prems Some False have "ls = e # ls1" "b' = b1" by (auto simp: tryAcquire_def)
      with Cons.IH [OF l] False Some show ?thesis by auto
    qed
  qed
qed (simp split: option.splits)

lemma merge_entry_excluded: "msExcluded s \<subseteq> msExcluded (merge_entry os e s)"
  by (auto simp: merge_entry_def Let_def split: option.splits)

lemma merge_fold_excluded: "msExcluded s \<subseteq> msExcluded (fold (merge_entry os) es s)"
  using merge_entry_excluded by (induction es arbitrary: s) (auto, blast)

lemma Reduce_excluded:
  assumes "Reduce cerr ce es cands os ex h = ro"
  shows "ex \<subseteq> roExcluded ro \<and> (roResult ro = ReduceNone \<longrightarrow> acKey ` set cands \<subseteq> roExcluded ro)"
  using assms merge_fold_excluded [of "\<lparr>msExcluded = ex, msFailures = h\<rparr>" os es]
  by (auto simp: Reduce_def Let_def split: option.splits)

lemma parallel_advances:
  assumes "tryOpenParallelGroup env f cands nxt st p = (r, q)"
  shows "advances p q \<and> (\<forall>st'. r = Inr (None, st') \<longrightarrow> acKey ` set cands \<subseteq> prExcluded q)"
proof (cases "limit_entries (prBudget p) (leg_entries cands)")
  case (Inl e)
  with assms show ?thesis by (auto simp: tryOpenParallelGroup_def)
next
  case (Inr eb)
  obtain es b where eb: "limit_entries (prBudget p) (leg_entries cands) = Inr (es, b)" using Inr by (cases eb) auto
  define st1 where "st1 = (case nxt of None \<Rightarrow> st | Some cy \<Rightarrow> st\<lparr>Cycle := cy\<rparr>)"
  obtain os cerr ce w where ra: "raceArms env es st1 (prWorld p) = ((os, cerr, ce), w)" by (metis prod.exhaust)
  define ro where "ro = Reduce cerr ce es cands os (prExcluded p) (prFailures p)"
  have ro: "prExcluded p \<subseteq> roExcluded ro" "roResult ro = ReduceNone \<Longrightarrow> acKey ` set cands \<subseteq> roExcluded ro"
    using Reduce_excluded [OF ro_def [symmetric]] by auto
  define p2 where "p2 = (let p1 = p\<lparr>prBudget := b, prWorld := w, prLaunched := prLaunched p @ map (\<lambda>e. acKey (leCand e)) es,
      prExcluded := roExcluded ro, prFailures := roFailures ro\<rparr> in if roResets ro = [] then p1 else clear_binding env f p1)"
  have rq: "(case roResult ro of ReduceErr e \<Rightarrow> (Inl e, p2) | ReduceWinner x \<Rightarrow> (Inr (Some (poCand x), st1), p2)
      | ReduceNone \<Rightarrow> (Inr (None, st1), p2)) = (r, q)"
    using assms eb ra unfolding tryOpenParallelGroup_def st1_def ro_def p2_def Let_def by simp
  have "prExcluded p2 = roExcluded ro" "prBudget p2 = b" "prLaunched p2 = prLaunched p @ map (\<lambda>e. acKey (leCand e)) es"
    by (simp_all add: p2_def Let_def)
  with rq have q: "prExcluded q = roExcluded ro" "prBudget q = b" "prLaunched q = prLaunched p @ map (\<lambda>e. acKey (leCand e)) es"
    and r: "\<And>st'. r = Inr (None, st') \<Longrightarrow> roResult ro = ReduceNone"
    by (auto split: reduce_result.splits)
  have "budget_ok p \<longrightarrow> budget_ok q \<and> slots q = slots p"
  proof (cases "prBudget p")
    case None
    with eb q show ?thesis by (simp add: limit_entries_def budget_ok_def slots_def)
  next
    case (Some x)
    with eb have "limit_loop (Some x) (leg_entries cands) = (es, b)"
      by (auto simp: limit_entries_def split: prod.splits if_splits)
    from limit_loop_slots [OF this] Some q show ?thesis by (auto simp: budget_ok_def slots_def)
  qed
  with q ro r show ?thesis by (auto simp: advances_def)
qed

lemma drop_parallel_failure_advances [simp]: "advances p (drop_parallel_failure q) = advances p q"
  by (simp add: drop_parallel_failure_def)

lemma drop_parallel_failure_excluded [simp]: "prExcluded (drop_parallel_failure q) = prExcluded q"
  by (simp add: drop_parallel_failure_def)

lemma try_groups_advances:
  "try_groups env f sticky bound st groups noopen p = (r, q) \<Longrightarrow> (\<forall>g \<in> set groups. Candidates g \<noteq> []) \<Longrightarrow>
     advances p q \<and> (\<forall>st'. r = Inr (None, st') \<longrightarrow> groups \<noteq> [] \<longrightarrow> acKey (hd (Candidates (hd groups))) \<in> prExcluded q)"
proof (induction groups arbitrary: noopen p)
  case (Cons g gs)
  then obtain c cs where c: "Candidates g = c # cs" by (cases "Candidates g") auto
  show ?case
  proof (cases "IsParallel c")
    case True
    obtain r1 p1 where t: "tryOpenParallelGroup env f (c # cs) (NextThinkerCycle g) st p = (r1, p1)" by fastforce
    note adv = parallel_advances [OF t]
    show ?thesis
    proof (cases "\<exists>st'. r1 = Inr (None, st')")
      case True
      then obtain st' where r1: "r1 = Inr (None, st')" by blast
      have rest: "try_groups env f sticky bound st gs st' (p1\<lparr>prInterleaved := st'\<rparr>) = (r, q)"
        using Cons.prems(1) c \<open>IsParallel c\<close> t r1 by simp
      have q: "advances p1 q" using Cons.IH [OF rest] Cons.prems(2) by simp
      moreover have "acKey c \<in> prExcluded p1" using adv r1 by auto
      ultimately show ?thesis using advances_trans [of p p1 q] adv c by (auto simp: advances_def)
    next
      case False
      with Cons.prems(1) c \<open>IsParallel c\<close> t adv show ?thesis
        by (auto split: sum.splits prod.splits option.splits)
    qed
  next
    case False
    obtain r1 p1 where t: "evaluateAndOpenCandidate env f \<lparr>cpCand = c, cpNextCycle = NextThinkerCycle g,
        cpStickyBackendID = sticky, cpStickyBinding = bound\<rparr> st p = (r1, p1)" by fastforce
    from evaluateAndOpen_advances [OF t] Cons.prems(1) c False t show ?thesis
      by (auto split: sum.splits prod.splits option.splits)
  qed
qed simp

section \<open>The loop\<close>

definition rand_ok :: "route_facts \<Rightarrow> bool" where
  "rand_ok f \<longleftrightarrow> (\<forall>n > 0. 0 \<le> rfSeeded f n \<and> rfSeeded f n < n)
     \<and> (\<forall>r. rfRand f = Some r \<longrightarrow> (\<forall>i. \<forall>n > 0. 0 \<le> r i n \<and> r i n < n))"

lemma plan_options_rng [simp]: "rand_ok f \<Longrightarrow> rng_ok (plan_options f ex uh sticky cy)"
  by (simp add: rand_ok_def rng_ok_def plan_options_def)

definition leaf_keys :: "Selector \<Rightarrow> string set" where
  "leaf_keys sel = Primary_String ` set (selector_leaves sel)"

lemma plan_options_simps [simp]:
  "Excluded (plan_options f ex uh sticky cy) = ex" "Unhealthy (plan_options f ex uh sticky cy) = uh"
  "StickyBackendID (plan_options f ex uh sticky cy) = sticky"
  "(plan_options f ex uh sticky cy)\<lparr>StickyBackendID := b\<rparr> = plan_options f ex uh b cy"
  by (simp_all add: plan_options_def)

lemma plan_next_plan:
  assumes "plan_next env f st p = (Inr (groups, sticky, bound), q)"
  shows "\<exists>uh b ps ps'. ExpandFailoverGroups (rfSel f) (plan_options f (prExcluded p) uh b (Cycle st)) ps = Inr (groups, ps')"
proof -
  from assms obtain b bd where l: "lookupAffinityBinding (ctxErr env (prWorld p)) (rfSel f) (rfAffinityKey f) (rfAffinitySet f)
      (prBindings p) = Inr (b, bd)" by (auto simp: plan_next_def split: sum.splits prod.splits)
  obtain uh w where h: "health env (prWorld p) = (uh, w)" by fastforce
  obtain r where r: "ExpandFailoverGroups (rfSel f) (plan_options f (prExcluded p) uh b (Cycle st)) (prPlan p) = r" by simp
  from assms l h r show ?thesis
    by (cases r) (fastforce simp: plan_next_def Let_def split: sum.splits prod.splits if_splits)+
qed

lemma plan_next_good:
  assumes "wf_selector sel" "rfSel f = Some sel" "rand_ok f" "plan_next env f st p = (Inr (groups, sticky, bound), q)"
  shows "groups \<noteq> [] \<and> (\<forall>g \<in> set groups. Candidates g \<noteq> [] \<and> (\<forall>c \<in> set (Candidates g).
      acPrimary c \<in> set (selector_leaves sel) \<and> acKey c = Primary_String (acPrimary c) \<and> acKey c \<notin> prExcluded p))"
proof -
  from plan_next_plan [OF assms(4)] assms(2) obtain uh b ps ps' where
    e: "ExpandFailoverGroups (Some sel) (plan_options f (prExcluded p) uh b (Cycle st)) ps = Inr (groups, ps')" by auto
  note good = ExpandFailoverGroups_good [OF assms(1) plan_options_rng [OF assms(3)] e]
  have "Candidates g \<noteq> [] \<and> (\<forall>c \<in> set (Candidates g).
      acPrimary c \<in> set (selector_leaves sel) \<and> acKey c = Primary_String (acPrimary c) \<and> acKey c \<notin> prExcluded p)"
    if "g \<in> set groups" for g
    using good(2) [OF that] by (auto simp: good_group_def good_candidate_def candidateEligible_iff)
  with good(1) show ?thesis by blast
qed

lemma plan_next_advances: "plan_next env f st p = (r, q) \<Longrightarrow> advances p q"
  by (auto simp: plan_next_def Let_def intro!: advances_same split: sum.splits prod.splits if_splits)

lemma openNext_advances:
  assumes "wf_selector sel" "rfSel f = Some sel" "rand_ok f" "openNext env f st p = (r, q)"
  shows "advances p q \<and> (\<forall>st'. r = Inr (None, st') \<longrightarrow> (\<exists>k \<in> leaf_keys sel. k \<notin> prExcluded p \<and> k \<in> prExcluded q))"
proof -
  obtain r1 p1 where pl: "plan_next env f st (p\<lparr>prInterleaved := st\<rparr>) = (r1, p1)" by fastforce
  have p1: "advances p p1" using plan_next_advances [OF pl] by simp
  show ?thesis
  proof (cases r1)
    case (Inl e)
    with assms(4) pl p1 show ?thesis by (auto simp: openNext_def)
  next
    case (Inr x)
    then obtain groups sticky bound where x: "r1 = Inr (groups, sticky, bound)" by (cases x) auto
    have same: "prExcluded (p\<lparr>prInterleaved := st\<rparr>) = prExcluded p" by simp
    have good: "groups \<noteq> [] \<and> (\<forall>g \<in> set groups. Candidates g \<noteq> [] \<and> (\<forall>c \<in> set (Candidates g).
      acPrimary c \<in> set (selector_leaves sel) \<and> acKey c = Primary_String (acPrimary c) \<and> acKey c \<notin> prExcluded p))"
      using plan_next_good [OF assms(1-3) pl [unfolded x]] unfolding same .
    have t: "try_groups env f sticky bound st groups st p1 = (r, q)" using assms(4) pl x by (simp add: openNext_def)
    have adv: "advances p1 q \<and> (\<forall>st'. r = Inr (None, st') \<longrightarrow> acKey (hd (Candidates (hd groups))) \<in> prExcluded q)"
      using try_groups_advances [OF t] good by auto
    let ?c = "hd (Candidates (hd groups))"
    have "hd groups \<in> set groups" using good by simp
    with good have "?c \<in> set (Candidates (hd groups))" by (metis hd_in_set)
    moreover have "\<forall>c \<in> set (Candidates (hd groups)). acPrimary c \<in> set (selector_leaves sel)
        \<and> acKey c = Primary_String (acPrimary c) \<and> acKey c \<notin> prExcluded p"
      using good \<open>hd groups \<in> set groups\<close> by blast
    ultimately have "acPrimary ?c \<in> set (selector_leaves sel) \<and> acKey ?c = Primary_String (acPrimary ?c) \<and> acKey ?c \<notin> prExcluded p"
      by blast
    then have "acKey ?c \<in> leaf_keys sel \<and> acKey ?c \<notin> prExcluded p" by (metis imageI leaf_keys_def)
    with adv advances_trans [OF p1] show ?thesis by blast
  qed
qed


lemma leaf_keys_finite [simp, intro]: "finite (leaf_keys sel)"
  by (simp add: leaf_keys_def)

lemma openInitial_returns:
  assumes "wf_selector sel" "rfSel f = Some sel" "rand_ok f"
  shows "\<exists>r q. openInitial env f p = Some (r, q) \<and> advances p q"
proof (induction "card (leaf_keys sel - prExcluded p)" arbitrary: p rule: less_induct)
  case less
  obtain r q where o: "openNext env f (prInterleaved p) p = (r, q)" by fastforce
  note adv = openNext_advances [OF assms o]
  show ?case
  proof (cases "\<exists>st. ctxErr env (prWorld p) = None \<and> scopeErr env (prWorld p) = None \<and> r = Inr (None, st)")
    case True
    then obtain st where st: "ctxErr env (prWorld p) = None" "scopeErr env (prWorld p) = None" "r = Inr (None, st)" by blast
    let ?q = "q\<lparr>prInterleaved := st\<rparr>"
    have "leaf_keys sel - prExcluded ?q \<subset> leaf_keys sel - prExcluded p"
      using adv st(3) by (auto simp: advances_def)
    then have "card (leaf_keys sel - prExcluded ?q) < card (leaf_keys sel - prExcluded p)"
      by (rule psubset_card_mono [rotated]) auto
    from less [OF this] obtain r' q' where q': "openInitial env f ?q = Some (r', q')" "advances ?q q'" by blast
    moreover have "openInitial env f p = openInitial env f ?q"
      using st o by (subst openInitial.simps) simp
    moreover have "advances p q'" using advances_trans [of p q q'] adv q'(2) by simp
    ultimately show ?thesis by simp
  next
    case False
    with o adv show ?thesis
      by (subst openInitial.simps) (auto split: option.splits sum.splits prod.splits)
  qed
qed

section \<open>Properties\<close>

text \<open>
  C7: The open loop ends. For every well-formed selector and whatever admission, backends,
  stores, races and cancellations answer, the attempt-open loop returns an opened attempt or
  an error; it never runs forever, and candidates excluded before stay excluded.
\<close>

theorem open_loop_terminates:
  assumes "wf_selector sel" "rfSel f = Some sel" "rand_ok f"
  shows "\<exists>r q. openInitial env f p = Some (r, q) \<and> prExcluded p \<subseteq> prExcluded q"
  using openInitial_returns [OF assms, of env p] by (auto simp: advances_def)

definition calm_env :: "(AttemptCandidate \<Rightarrow> nat \<Rightarrow> tx_exit) \<Rightarrow> nat route_env" where
  "calm_env run = \<lparr>ctxErr = (\<lambda>_. None), scopeErr = (\<lambda>_. None), health = (\<lambda>w. ({}, w)),
     evaluateCandidate = (\<lambda>c st w. (Inr None, w)), startAttemptTx = (\<lambda>c w. (None, w)),
     runAttempt = (\<lambda>c w. (run c w, Suc w)), commitLaunchOrRegister = (\<lambda>c w. (None, w)), commitTurn = (\<lambda>c w. (None, w)),
     persistInterleavedState = (\<lambda>st w. (None, w)),
     raceArms = (\<lambda>es st w. (([], None, no_commit_errors), w))\<rparr>"

definition failing_open :: openFailure where
  "failing_open = \<lparr>ofErr = UpstreamFailureError PhasePreOutput True ''down'' [], ttftExpired = False, ttftScope = ttftTimeoutNone,
     openErr = None, wire = False, postOpen = False, bindFailed = False, nilStreamErr = None\<rparr>"

definition sample_facts :: route_facts where
  "sample_facts = \<lparr>rfSel = Some sample_selector, rfRequestSize = RequestSize default_options, rfAffinityKey = zero_Key,
     rfAffinitySet = False, rfRand = None, rfSeeded = (\<lambda>n. 0), rfRoutePrefs = [], rfSuppressThinker = False, rfRetry = False\<rparr>"

definition fresh_progress :: "int \<Rightarrow> nat progress" where
  "fresh_progress n = \<lparr>prExcluded = {}, prPlan = \<lparr>psSession = Some False, psRolls = 0\<rparr>,
     prBudget = Some \<lparr>bMax = n, bUsed = 0\<rparr>, prFailures = new_failures,
     prInterleaved = \<lparr>Cycle = \<lparr>SelectorKey = [], Sequence = [], NextIndex = 0\<rparr>\<rparr>, prBindings = Some [],
     prLaunched = [], prWorld = 0\<rparr>"

lemma sample_facts_ok: "rfSel sample_facts = Some sample_selector" "rand_ok sample_facts"
  by (simp_all add: sample_facts_def rand_ok_def)

theorem open_loop_terminates_witness:
  "\<exists>r q. openInitial (calm_env (\<lambda>c w. TxOpenFailed failing_open True)) sample_facts (fresh_progress 10) = Some (r, q)"
  using open_loop_terminates [OF sample_wf sample_facts_ok] by blast

text \<open>
  C8: The attempt budget is exact. Whatever the loop meets, when it returns the slots in use
  are exactly the backends that were called and the race arms that were started, refused or
  excluded candidates having given theirs back, and there are at most \<open>MaxAttempts\<close> of them.
\<close>

theorem open_budget_exact:
  assumes "wf_selector sel" "rfSel f = Some sel" "rand_ok f"
    and "prBudget p = Some \<lparr>bMax = m, bUsed = 0\<rparr>" "prLaunched p = []" "0 \<le> m"
    and "openInitial env f p = Some (r, q)"
  shows "\<exists>b. prBudget q = Some b \<and> bUsed b = int (length (prLaunched q)) \<and> length (prLaunched q) \<le> nat m"
proof -
  have "advances p q" using openInitial_returns [OF assms(1-3), of env p] assms(7) by auto
  moreover have "budget_ok p" using assms(4,6) by (simp add: budget_ok_def)
  ultimately have "budget_ok q" "slots q = Some (m, 0)" using assms(4,5) by (auto simp: advances_def slots_def)
  then show ?thesis by (auto simp: slots_def budget_ok_def nat_le_iff le_nat_iff)
qed


theorem open_budget_exact_witness:
  "\<exists>r q b. openInitial (calm_env (\<lambda>c w. if w = 0 then TxDenied else TxOpenFailed failing_open True)) sample_facts (fresh_progress 5)
        = Some (r, q)
     \<and> prLaunched q = [''b:n'', ''c:o''] \<and> prBudget q = Some b \<and> bUsed b = 2"
proof -
  let ?e = "calm_env (\<lambda>c w. if w = 0 then TxDenied else TxOpenFailed failing_open True)"
  have "map_option (\<lambda>(r, q). prLaunched q) (openInitial ?e sample_facts (fresh_progress 5)) = Some [''b:n'', ''c:o'']"
    by code_simp
  then obtain r q where q: "openInitial ?e sample_facts (fresh_progress 5) = Some (r, q)" "prLaunched q = [''b:n'', ''c:o'']"
    by auto
  from open_budget_exact [OF sample_wf sample_facts_ok _ _ _ q(1), of 5] q show ?thesis
    by (auto simp: fresh_progress_def)
qed

section \<open>Affinity and planning\<close>









definition sticky_selector :: Selector where
  "sticky_selector = sample_selector\<lparr>Affinity := AffinitySession\<rparr>"

definition session_key :: Key where
  "session_key = \<lparr>kScope = ScopeSession, kID = ''s1''\<rparr>"

definition sticky_facts :: route_facts where
  "sticky_facts = sample_facts\<lparr>rfSel := Some sticky_selector, rfAffinityKey := session_key, rfAffinitySet := True\<rparr>"

definition bound_to :: "string \<Rightarrow> nat progress" where
  "bound_to b = (fresh_progress 3)\<lparr>prBindings := snd (commitAffinity session_key True
     (Some (plain_candidate (mk_primary b ''o''))) 5 ''ok'' False (Some []))\<rparr>"


text \<open>
  A stale binding spends the first request. The plan that is thrown away because the bound
  backend is gone has already consumed \<open>[first]\<close>: the request that should go to the first
  branch is rolled instead.
\<close>

definition first_selector :: Selector where
  "first_selector = sticky_selector\<lparr>Alternatives := [alt_of_weighted
     \<lparr>wBranches = [mk_branch 1 True False (mk_primary ''a'' ''m''), mk_branch 1 False False (mk_primary ''b'' ''n'')]\<rparr>]\<rparr>"

definition first_facts :: route_facts where
  "first_facts = sticky_facts\<lparr>rfSel := Some first_selector, rfSeeded := (\<lambda>n. n - 1)\<rparr>"

definition planned_keys :: "(go_error + AttemptGroup list \<times> string \<times> bool) \<times> 'w progress \<Rightarrow> string list" where
  "planned_keys r = (case fst r of Inl _ \<Rightarrow> [] | Inr (gs, _) \<Rightarrow> concat (map (\<lambda>g. map acKey (Candidates g)) gs))"

lemma stale_binding_spends_first:
  "planned_keys (plan_next (calm_env (\<lambda>c w. TxOpened)) first_facts (prInterleaved (fresh_progress 3)) (fresh_progress 3)) = [''a:m'']"
  "planned_keys (plan_next (calm_env (\<lambda>c w. TxOpened)) first_facts (prInterleaved (bound_to ''z'')) (bound_to ''z'')) = [''b:n'']"
  by code_simp+

text \<open>
  A candidate excluded by a lost race is opened again when a later group of the same plan
  repeats it.
\<close>

definition repeat_selector :: Selector where
  "repeat_selector = sample_selector\<lparr>Alternatives := [\<lparr>altPrimary = None, altWeighted = None, altParallel = Some \<lparr>pBranches =
     [\<lparr>pbTarget = mk_primary ''a'' ''m'', pbHandicap = 0\<rparr>, \<lparr>pbTarget = mk_primary ''b'' ''n'', pbHandicap = 0\<rparr>]\<rparr>\<rparr>,
     alt_of_primary (mk_primary ''a'' ''m'')]\<rparr>"

lemma lost_race_candidate_reopened:
  "case openNext (calm_env (\<lambda>c w. TxOpened)) (sample_facts\<lparr>rfSel := Some repeat_selector\<rparr>) (prInterleaved (fresh_progress 5)) (fresh_progress 5) of
     (r, q) \<Rightarrow> prLaunched q = [''a:m'', ''b:n'', ''a:m''] \<and> ''a:m'' \<in> prExcluded q"
  by code_simp


end
