(* ===== verification/Route_Compile.thy ===== *)
theory Route_Compile
  imports Routing_Planner
begin

text \<open>
  How a route selector becomes the selector that is planned: alias rewriting
  (\<open>aliases.go\<close>), compilation (\<open>compile.go\<close>, \<open>model_only.go\<close>), the execution composition
  policy (\<open>execution_composition.go\<close>), native model binding (\<open>bound_models.go\<close>,
  \<open>default_route_binding.go\<close>), the candidates a compiled selector can give
  (\<open>initial_candidates.go\<close>), the selector validator of a generation
  (\<open>generation_validator.go\<close>) and the default route (\<open>default_route.go\<close> and
  \<open>config/effective_default_route.go\<close>).

  The engine of \<open>regexp\<close> is a parameter: a record with its three operations that the source
  calls. The registry views behind \<open>BackendExecutionResolver\<close> and \<open>NativeModelResolver\<close> are
  functions; a nil interface is \<open>None\<close>. Functions that write into the selector return the
  written selector, also when they fail.
\<close>

section \<open>Errors\<close>

datatype compile_error =
  ErrNoRouteSelector
| SelectorError sel_error
| ErrUnresolvedModelOnlySelector
| UnsafeExecutionCompositionError string string string string
| ErrExecutionResolverUnavailable
| WrongBackendCanonicalError string string
| ErrUnknownBackend string
| ErrValidatorNotConfigured
| AliasEmptyPattern nat
| AliasEmptyReplacement nat
| AliasPattern nat
| AliasReplacement nat sel_error
| ModelAliasesError compile_error
| EmptyAliasExpansion string
| PlaceholderModel string
| DefaultRouteError sel_error
| DefaultRouteModelOnly
| DefaultRouteWeightedBackend
| DefaultRouteParallelBackend
| DefaultRouteNoPrimary

section \<open>Aliases\<close>

record 're regexp =
  Compile :: "string \<Rightarrow> 're option"
  MatchString :: "'re \<Rightarrow> string \<Rightarrow> bool"
  ReplaceAllString :: "'re \<Rightarrow> string \<Rightarrow> string \<Rightarrow> string"

record ModelAliasRule =
  Pattern :: string
  Replacement :: string

record 're aliasRule =
  alRe :: 're
  alReplacement :: string

type_synonym 're AliasResolver = "'re aliasRule list option"

fun compile_alias_loop :: "'re regexp \<Rightarrow> nat \<Rightarrow> ModelAliasRule list \<Rightarrow> compile_error + 're aliasRule list" where
  "compile_alias_loop R i [] = Inr []"
| "compile_alias_loop R i (r # rs) =
     (let pat = TrimSpace (Pattern r); repl = TrimSpace (Replacement r) in
      if pat = [] then Inl (AliasEmptyPattern i)
      else if repl = [] then Inl (AliasEmptyReplacement i)
      else case Compile R pat of
          None \<Rightarrow> Inl (AliasPattern i)
        | Some re \<Rightarrow>
            (case Parse repl of
               Inl e \<Rightarrow> Inl (AliasReplacement i e)
             | Inr _ \<Rightarrow>
                 (case compile_alias_loop R (Suc i) rs of
                    Inl e \<Rightarrow> Inl e
                  | Inr out \<Rightarrow> Inr (\<lparr>alRe = re, alReplacement = repl\<rparr> # out))))"

definition compileAliasRules :: "'re regexp \<Rightarrow> ModelAliasRule list \<Rightarrow> compile_error + 're AliasResolver" where
  "compileAliasRules R rules =
     (case compile_alias_loop R 0 rules of Inl e \<Rightarrow> Inl e | Inr out \<Rightarrow> Inr (Some out))"

definition NewAliasResolver :: "'re regexp \<Rightarrow> ModelAliasRule list \<Rightarrow> compile_error + 're AliasResolver" where
  "NewAliasResolver R rules = compileAliasRules R rules"

definition ValidateModelAliases :: "'re regexp \<Rightarrow> ModelAliasRule list \<Rightarrow> compile_error option" where
  "ValidateModelAliases R rules = (case compileAliasRules R rules of Inl e \<Rightarrow> Some e | Inr _ \<Rightarrow> None)"

fun resolve_loop :: "'re regexp \<Rightarrow> 're aliasRule list \<Rightarrow> string \<Rightarrow> string" where
  "resolve_loop R [] s = s"
| "resolve_loop R (r # rs) s =
     (if MatchString R (alRe r) s then ReplaceAllString R (alRe r) s (alReplacement r) else resolve_loop R rs s)"

definition Resolve :: "'re regexp \<Rightarrow> 're AliasResolver \<Rightarrow> string \<Rightarrow> string" where
  "Resolve R r s0 =
     (let s = TrimSpace s0 in
      case r of
        None \<Rightarrow> s
      | Some rules \<Rightarrow> if s = [] \<or> rules = [] then s else resolve_loop R rules s)"

section \<open>Model-only leaves\<close>

definition blank :: "string \<Rightarrow> bool" where
  "blank s \<longleftrightarrow> TrimSpace s = []"

definition fill_backend :: "string \<Rightarrow> Primary \<Rightarrow> Primary" where
  "fill_backend backend p = (if blank (Backend p) then p\<lparr>Backend := backend\<rparr> else p)"

definition on_target :: "(Primary \<Rightarrow> Primary) \<Rightarrow> ParallelBranch \<Rightarrow> ParallelBranch" where
  "on_target f b = b\<lparr>pbTarget := f (pbTarget b)\<rparr>"

definition on_parallel :: "(Primary \<Rightarrow> Primary) \<Rightarrow> Parallel \<Rightarrow> Parallel" where
  "on_parallel f g = g\<lparr>pBranches := map (on_target f) (pBranches g)\<rparr>"

definition applyModelOnlyToWeightedBranch :: "string \<Rightarrow> WeightedBranch \<Rightarrow> WeightedBranch" where
  "applyModelOnlyToWeightedBranch backend b =
     (case wbParallel b of
        Some g \<Rightarrow> b\<lparr>wbParallel := Some (on_parallel (fill_backend backend) g)\<rparr>
      | None \<Rightarrow> b\<lparr>wbTarget := fill_backend backend (wbTarget b)\<rparr>)"

definition applyModelOnlyToAlt :: "string \<Rightarrow> FailoverAlt \<Rightarrow> FailoverAlt" where
  "applyModelOnlyToAlt backend a =
     (if (case altPrimary a of Some p \<Rightarrow> blank (Backend p) | None \<Rightarrow> False)
      then a\<lparr>altPrimary := map_option (\<lambda>p. p\<lparr>Backend := backend\<rparr>) (altPrimary a)\<rparr>
      else case altWeighted a of
          Some w \<Rightarrow> a\<lparr>altWeighted := Some (w\<lparr>wBranches := map (applyModelOnlyToWeightedBranch backend) (wBranches w)\<rparr>)\<rparr>
        | None \<Rightarrow> a\<lparr>altParallel := map_option (on_parallel (fill_backend backend)) (altParallel a)\<rparr>)"

definition ApplyModelOnlyBackends :: "Selector \<Rightarrow> string \<Rightarrow> Selector" where
  "ApplyModelOnlyBackends sel defaultBackend =
     (let backend = TrimSpace defaultBackend in
      if backend = [] then sel
      else sel\<lparr>Alternatives := map (applyModelOnlyToAlt backend) (Alternatives sel)\<rparr>)"

definition weightedBranchHasEmptyBackend :: "WeightedBranch \<Rightarrow> bool" where
  "weightedBranchHasEmptyBackend b =
     (case wbParallel b of
        Some g \<Rightarrow> list_ex (\<lambda>leg. blank (Backend (pbTarget leg))) (pBranches g)
      | None \<Rightarrow> blank (Backend (wbTarget b)))"

definition SelectorHasEmptyBackend :: "Selector \<Rightarrow> bool" where
  "SelectorHasEmptyBackend sel =
     list_ex (\<lambda>alt.
       (case altPrimary alt of Some p \<Rightarrow> blank (Backend p) | None \<Rightarrow> False)
       \<or> (case altWeighted alt of Some w \<Rightarrow> list_ex weightedBranchHasEmptyBackend (wBranches w) | None \<Rightarrow> False)
       \<or> (case altParallel alt of
            Some g \<Rightarrow> list_ex (\<lambda>b. blank (Backend (pbTarget b))) (pBranches g) | None \<Rightarrow> False))
     (Alternatives sel)"

definition routeLeaves :: "Selector option \<Rightarrow> Primary list" where
  "routeLeaves sel = (case sel of None \<Rightarrow> [] | Some s \<Rightarrow> selector_leaves s)"

definition BackendIDsReferenced :: "Selector option \<Rightarrow> string list" where
  "BackendIDsReferenced sel = filter (\<lambda>b. b \<noteq> []) (map (\<lambda>p. TrimSpace (Backend p)) (routeLeaves sel))"

definition backend_or :: "compile_error \<Rightarrow> Primary \<Rightarrow> compile_error + string" where
  "backend_or e p = (let b = TrimSpace (Backend p) in if b = [] then Inl e else Inr b)"

definition defaultBackendFromWeightedBranch :: "WeightedBranch \<Rightarrow> compile_error + string" where
  "defaultBackendFromWeightedBranch b =
     (case wbParallel b of
        Some g \<Rightarrow> (case pBranches g of
            [] \<Rightarrow> Inl DefaultRouteParallelBackend
          | leg # _ \<Rightarrow> backend_or DefaultRouteParallelBackend (pbTarget leg))
      | None \<Rightarrow> backend_or DefaultRouteWeightedBackend (wbTarget b))"

fun default_backend_loop :: "FailoverAlt list \<Rightarrow> compile_error + string" where
  "default_backend_loop [] = Inl DefaultRouteNoPrimary"
| "default_backend_loop (alt # alts) =
     (case altPrimary alt of
        Some p \<Rightarrow> backend_or DefaultRouteModelOnly p
      | None \<Rightarrow>
          (case map_option wBranches (altWeighted alt) of
             Some (b # _) \<Rightarrow> defaultBackendFromWeightedBranch b
           | _ \<Rightarrow>
               (case map_option pBranches (altParallel alt) of
                  Some (b # _) \<Rightarrow> backend_or DefaultRouteParallelBackend (pbTarget b)
                | _ \<Rightarrow> default_backend_loop alts)))"

definition DefaultBackendFromRouteSelector :: "string \<Rightarrow> compile_error + string" where
  "DefaultBackendFromRouteSelector defaultRoute =
     (let s = TrimSpace defaultRoute in
      if s = [] then Inr []
      else case Parse s of Inl e \<Rightarrow> Inl (DefaultRouteError e) | Inr sel \<Rightarrow> default_backend_loop (Alternatives sel))"

section \<open>Compilation\<close>

definition CompileSelector :: "'re regexp \<Rightarrow> string \<Rightarrow> 're AliasResolver \<Rightarrow> string \<Rightarrow> compile_error + Selector" where
  "CompileSelector R raw aliases defaultBackend =
     (let s = TrimSpace raw in
      if s = [] then Inl ErrNoRouteSelector
      else
        let s1 = (if aliases \<noteq> None then Resolve R aliases s else s) in
        if s1 = [] then Inl ErrNoRouteSelector
        else case Parse s1 of
            Inl e \<Rightarrow> Inl (SelectorError e)
          | Inr sel \<Rightarrow>
              let sel1 = ApplyModelOnlyBackends sel defaultBackend in
              if SelectorHasEmptyBackend sel1 then Inl ErrUnresolvedModelOnlySelector else Inr sel1)"

definition RejectUnknownBackends :: "Selector option \<Rightarrow> string set option \<Rightarrow> compile_error option" where
  "RejectUnknownBackends sel known =
     (case known of
        None \<Rightarrow> None
      | Some ks \<Rightarrow> map_option ErrUnknownBackend (find (\<lambda>i. i \<notin> ks) (BackendIDsReferenced sel)))"

section \<open>Execution composition\<close>

definition ExecutionCompositionSafe :: string where
  "ExecutionCompositionSafe = ''safe''"

definition ExecutionCompositionUnrestricted :: string where
  "ExecutionCompositionUnrestricted = ''unrestricted''"

definition BackendExecutionInference :: string where
  "BackendExecutionInference = ''inference''"

text \<open>\<open>ResolveBackendExecution\<close>: \<open>None\<close> for a backend the generation does not configure.\<close>

type_synonym BackendExecutionResolver = "string \<Rightarrow> string option"

definition IsDirectPrimary :: "Selector option \<Rightarrow> bool" where
  "IsDirectPrimary sel =
     (case sel of
        None \<Rightarrow> False
      | Some s \<Rightarrow> (case Alternatives s of [alt] \<Rightarrow> altPrimary alt \<noteq> None | _ \<Rightarrow> False))"

definition checkPrimaryClass ::
  "BackendExecutionResolver \<Rightarrow> string \<Rightarrow> string \<Rightarrow> Primary \<Rightarrow> compile_error option" where
  "checkPrimaryClass classes policy compName p =
     (let backendID = TrimSpace (Backend p) in
      if backendID = [] then None
      else case classes backendID of
          None \<Rightarrow> None
        | Some c \<Rightarrow>
            if c \<noteq> BackendExecutionInference
            then Some (UnsafeExecutionCompositionError compName backendID c policy) else None)"

fun first_error :: "('a \<Rightarrow> 'e option) \<Rightarrow> 'a list \<Rightarrow> 'e option" where
  "first_error f [] = None"
| "first_error f (x # xs) = (case f x of Some e \<Rightarrow> Some e | None \<Rightarrow> first_error f xs)"

definition validateAltExecutionComposition ::
  "BackendExecutionResolver \<Rightarrow> string \<Rightarrow> bool \<Rightarrow> FailoverAlt \<Rightarrow> compile_error option" where
  "validateAltExecutionComposition classes policy inFailover alt =
     (case altPrimary alt of
        Some p \<Rightarrow> if inFailover then checkPrimaryClass classes policy ''failover selector'' p else None
      | None \<Rightarrow>
          (case altWeighted alt of
             Some w \<Rightarrow>
               let compName = (if list_ex IsThinker (wBranches w) then ''thinker hybrid selector'' else ''weighted selector'') in
               first_error (\<lambda>b.
                 case wbParallel b of
                   Some g \<Rightarrow> first_error (\<lambda>leg. checkPrimaryClass classes policy compName (pbTarget leg)) (pBranches g)
                 | None \<Rightarrow> checkPrimaryClass classes policy compName (wbTarget b)) (wBranches w)
           | None \<Rightarrow>
               (case altParallel alt of
                  Some g \<Rightarrow>
                    let compName = (if inFailover then ''failover parallel selector'' else ''parallel selector'') in
                    first_error (\<lambda>b. checkPrimaryClass classes policy compName (pbTarget b)) (pBranches g)
                | None \<Rightarrow> None)))"

definition ValidateExecutionComposition ::
  "Selector option \<Rightarrow> BackendExecutionResolver option \<Rightarrow> string \<Rightarrow> compile_error option" where
  "ValidateExecutionComposition sel classes policy =
     (case sel of
        None \<Rightarrow> None
      | Some s \<Rightarrow>
          let effectivePolicy = (if policy = [] then ExecutionCompositionSafe else policy) in
          if effectivePolicy = ExecutionCompositionUnrestricted then None
          else if IsDirectPrimary sel then None
          else case classes of
              None \<Rightarrow> Some ErrExecutionResolverUnavailable
            | Some cl \<Rightarrow>
                first_error (validateAltExecutionComposition cl effectivePolicy (length (Alternatives s) > 1))
                  (Alternatives s))"

section \<open>Native model binding\<close>

datatype ModelBindingKind =
  ModelBindingUnspecified | ModelBindingExactCanonical | ModelBindingKnownNative | ModelBindingUnknown
| ModelBindingWrongBackend

record ModelBinding =
  mbKind :: ModelBindingKind
  mbNative :: string

type_synonym NativeModelResolver = "string \<Rightarrow> string \<Rightarrow> ModelBinding"

definition bindNativeToPrimary :: "NativeModelResolver \<Rightarrow> Primary \<Rightarrow> Primary \<times> compile_error option" where
  "bindNativeToPrimary resolver p =
     (let backend = TrimSpace (Backend p); model = TrimSpace (Model p) in
      if backend = [] \<or> model = [] then (p, None)
      else let b = resolver backend model in
        case mbKind b of
          ModelBindingExactCanonical \<Rightarrow>
            (let native = TrimSpace (mbNative b) in if native = [] then p else p\<lparr>NativeModel := native\<rparr>, None)
        | ModelBindingKnownNative \<Rightarrow>
            (let native = TrimSpace (mbNative b) in if native = [] then p else p\<lparr>NativeModel := native\<rparr>, None)
        | ModelBindingWrongBackend \<Rightarrow> (p, Some (WrongBackendCanonicalError backend model))
        | _ \<Rightarrow> (p, None))"

text \<open>A loop that writes each element in turn and stops at the first error.\<close>

fun write_each :: "('a \<Rightarrow> 'a \<times> 'e option) \<Rightarrow> 'a list \<Rightarrow> 'a list \<times> 'e option" where
  "write_each f [] = ([], None)"
| "write_each f (x # xs) =
     (case f x of
        (x', Some e) \<Rightarrow> (x' # xs, Some e)
      | (x', None) \<Rightarrow> (case write_each f xs of (xs', r) \<Rightarrow> (x' # xs', r)))"

definition bind_legs :: "NativeModelResolver \<Rightarrow> Parallel \<Rightarrow> Parallel \<times> compile_error option" where
  "bind_legs resolver g =
     (case write_each (\<lambda>leg. case bindNativeToPrimary resolver (pbTarget leg) of
          (p, r) \<Rightarrow> (leg\<lparr>pbTarget := p\<rparr>, r)) (pBranches g) of
        (bs, r) \<Rightarrow> (g\<lparr>pBranches := bs\<rparr>, r))"

definition bindNativeToWeightedBranch ::
  "NativeModelResolver \<Rightarrow> WeightedBranch \<Rightarrow> WeightedBranch \<times> compile_error option" where
  "bindNativeToWeightedBranch resolver b =
     (case wbParallel b of
        Some g \<Rightarrow> (case bind_legs resolver g of (g', r) \<Rightarrow> (b\<lparr>wbParallel := Some g'\<rparr>, r))
      | None \<Rightarrow> (case bindNativeToPrimary resolver (wbTarget b) of (p, r) \<Rightarrow> (b\<lparr>wbTarget := p\<rparr>, r)))"

definition bindNativeToAlt :: "NativeModelResolver \<Rightarrow> FailoverAlt \<Rightarrow> FailoverAlt \<times> compile_error option" where
  "bindNativeToAlt resolver a =
     (case altPrimary a of
        Some p \<Rightarrow> (case bindNativeToPrimary resolver p of (p', r) \<Rightarrow> (a\<lparr>altPrimary := Some p'\<rparr>, r))
      | None \<Rightarrow>
          (case altWeighted a of
             Some w \<Rightarrow>
               (case write_each (bindNativeToWeightedBranch resolver) (wBranches w) of
                  (bs, r) \<Rightarrow> (a\<lparr>altWeighted := Some (w\<lparr>wBranches := bs\<rparr>)\<rparr>, r))
           | None \<Rightarrow>
               (case altParallel a of
                  Some g \<Rightarrow> (case bind_legs resolver g of (g', r) \<Rightarrow> (a\<lparr>altParallel := Some g'\<rparr>, r))
                | None \<Rightarrow> (a, None))))"

definition BindNativeModelIDs ::
  "NativeModelResolver option \<Rightarrow> Selector option \<Rightarrow> Selector option \<times> compile_error option" where
  "BindNativeModelIDs resolver sel =
     (case (sel, resolver) of
        (Some s, Some r) \<Rightarrow>
          (case write_each (bindNativeToAlt r) (Alternatives s) of
             (alts, e) \<Rightarrow> (Some (s\<lparr>Alternatives := alts\<rparr>), e))
      | _ \<Rightarrow> (sel, None))"

definition WireModel :: "Primary \<Rightarrow> string" where
  "WireModel p = (let n = TrimSpace (NativeModel p) in if n \<noteq> [] then n else Model p)"

definition BackendFacingCandidate :: "AttemptCandidate \<Rightarrow> AttemptCandidate" where
  "BackendFacingCandidate c =
     (let n = TrimSpace (NativeModel (acPrimary c)) in
      if n \<noteq> [] then c\<lparr>acPrimary := (acPrimary c)\<lparr>Model := n\<rparr>\<rparr> else c)"

section \<open>Candidates of a selector\<close>

definition thinker_tag :: "bool \<Rightarrow> string \<Rightarrow> Role \<Rightarrow> AttemptCandidate \<Rightarrow> AttemptCandidate" where
  "thinker_tag aware selKey role c =
     (if aware then c\<lparr>InterleavedRole := role, acSelectorKey := selKey\<rparr> else c)"

definition branch_candidates :: "bool \<Rightarrow> string \<Rightarrow> WeightedBranch \<Rightarrow> AttemptCandidate list" where
  "branch_candidates aware selKey b =
     (case wbParallel b of
        Some g \<Rightarrow>
          map (\<lambda>leg. thinker_tag aware selKey RoleExecutor
                 (let c = parallel_candidate leg in if IsFirst b then c\<lparr>MarkedFirst := True\<rparr> else c)) (pBranches g)
      | None \<Rightarrow>
          [thinker_tag aware selKey (if IsThinker b then RoleThinker else RoleExecutor)
             ((plain_candidate (wbTarget b))\<lparr>MarkedFirst := IsFirst b\<rparr>)])"

definition alt_candidates :: "FailoverAlt \<Rightarrow> AttemptCandidate list" where
  "alt_candidates alt =
     (case altPrimary alt of
        Some p \<Rightarrow> [plain_candidate p]
      | None \<Rightarrow>
          (case altWeighted alt of
             Some w \<Rightarrow>
               let aware = list_ex IsThinker (wBranches w);
                   selKey = (if aware then Join ''^'' (map branchKey (wBranches w)) else [])
               in concat (map (branch_candidates aware selKey) (wBranches w))
           | None \<Rightarrow>
               (case altParallel alt of Some g \<Rightarrow> map parallel_candidate (pBranches g) | None \<Rightarrow> [])))"

definition InitialCandidates :: "Selector option \<Rightarrow> AttemptCandidate list" where
  "InitialCandidates sel = (case sel of None \<Rightarrow> [] | Some s \<Rightarrow> concat (map alt_candidates (Alternatives s)))"

definition CandidateEqual :: "AttemptCandidate \<Rightarrow> AttemptCandidate \<Rightarrow> bool" where
  "CandidateEqual a b \<longleftrightarrow>
     Backend (acPrimary a) = Backend (acPrimary b) \<and> Model (acPrimary a) = Model (acPrimary b)
     \<and> NativeModel (acPrimary a) = NativeModel (acPrimary b) \<and> acKey a = acKey b
     \<and> IsParallel a = IsParallel b \<and> Handicap a = Handicap b \<and> MarkedFirst a = MarkedFirst b
     \<and> InterleavedRole a = InterleavedRole b \<and> acSelectorKey a = acSelectorKey b"

definition CandidateSetsEqual :: "AttemptCandidate list \<Rightarrow> AttemptCandidate list \<Rightarrow> bool" where
  "CandidateSetsEqual as bs \<longleftrightarrow> list_all2 CandidateEqual as bs"

section \<open>Preparation and validation\<close>

definition PrepareSelector ::
  "'re regexp \<Rightarrow> string \<Rightarrow> 're AliasResolver \<Rightarrow> string \<Rightarrow> BackendExecutionResolver option \<Rightarrow> string
     \<Rightarrow> NativeModelResolver option \<Rightarrow> compile_error + Selector" where
  "PrepareSelector R raw aliases defaultBackend classes policy resolver =
     (case CompileSelector R raw aliases defaultBackend of
        Inl e \<Rightarrow> Inl e
      | Inr sel \<Rightarrow>
          (case ValidateExecutionComposition (Some sel) classes policy of
             Some e \<Rightarrow> Inl e
           | None \<Rightarrow>
               (case BindNativeModelIDs resolver (Some sel) of
                  (_, Some e) \<Rightarrow> Inl e
                | (None, None) \<Rightarrow> Inr sel
                | (Some bound, None) \<Rightarrow> Inr bound)))"

definition ComposeInitialCandidates ::
  "'re regexp \<Rightarrow> string \<Rightarrow> 're AliasResolver \<Rightarrow> string \<Rightarrow> BackendExecutionResolver option \<Rightarrow> string
     \<Rightarrow> NativeModelResolver option \<Rightarrow> compile_error + AttemptCandidate list \<times> Selector" where
  "ComposeInitialCandidates R raw aliases defaultBackend classes policy resolver =
     (case PrepareSelector R raw aliases defaultBackend classes policy resolver of
        Inl e \<Rightarrow> Inl e
      | Inr sel \<Rightarrow> Inr (InitialCandidates (Some sel), sel))"

record 're GenerationSelectorValidator =
  gvAliases :: "'re AliasResolver"
  gvDefaultBackend :: string
  KnownBackends :: "string set option"
  gvClasses :: "BackendExecutionResolver option"
  gvPolicy :: string

text \<open>The sequence \<open>ValidateSelector\<close> and \<open>HasRequestSizeConstraints\<close> share.\<close>

definition validated_selector ::
  "'re regexp \<Rightarrow> 're GenerationSelectorValidator option \<Rightarrow> string \<Rightarrow> compile_error + Selector" where
  "validated_selector R v raw =
     (case v of
        None \<Rightarrow> Inl ErrValidatorNotConfigured
      | Some g \<Rightarrow>
          (case CompileSelector R raw (gvAliases g) (gvDefaultBackend g) of
             Inl e \<Rightarrow> Inl e
           | Inr sel \<Rightarrow>
               (case RejectUnknownBackends (Some sel) (KnownBackends g) of
                  Some e \<Rightarrow> Inl e
                | None \<Rightarrow>
                    (case ValidateExecutionComposition (Some sel) (gvClasses g) (gvPolicy g) of
                       Some e \<Rightarrow> Inl e
                     | None \<Rightarrow> Inr sel))))"

definition ValidateSelector ::
  "'re regexp \<Rightarrow> 're GenerationSelectorValidator option \<Rightarrow> string \<Rightarrow> compile_error option" where
  "ValidateSelector R v raw = (case validated_selector R v raw of Inl e \<Rightarrow> Some e | Inr _ \<Rightarrow> None)"

definition HasRequestSizeConstraints ::
  "'re regexp \<Rightarrow> 're GenerationSelectorValidator option \<Rightarrow> string \<Rightarrow> compile_error + bool" where
  "HasRequestSizeConstraints R v raw =
     (case validated_selector R v raw of
        Inl e \<Rightarrow> Inl e
      | Inr sel \<Rightarrow> Inr (SelectorHasRequestSizeConstraints sel))"


definition LegalCandidateBackends :: "'re GenerationSelectorValidator option \<Rightarrow> string list" where
  "LegalCandidateBackends v =
     (case v of
        None \<Rightarrow> []
      | Some g \<Rightarrow> (case KnownBackends g of None \<Rightarrow> [] | Some ks \<Rightarrow> sorted_list_of_set ks))"

section \<open>Frozen bindings of the default route\<close>

datatype RouteOrigin =
  RouteOriginUnset | RouteOriginExplicit | RouteOriginDefault | RouteOriginOverride | RouteOriginLineage

record ResolvedRoute =
  rrSelector :: string
  rrOrigin :: RouteOrigin

definition resolved_route :: "RouteOrigin \<Rightarrow> string \<Rightarrow> ResolvedRoute" where
  "resolved_route origin s0 =
     (let s = TrimSpace s0 in
      if s = [] then \<lparr>rrSelector = [], rrOrigin = RouteOriginUnset\<rparr> else \<lparr>rrSelector = s, rrOrigin = origin\<rparr>)"

definition ExplicitRoute :: "string \<Rightarrow> ResolvedRoute" where
  "ExplicitRoute s = resolved_route RouteOriginExplicit s"

definition DefaultRoute :: "string \<Rightarrow> ResolvedRoute" where
  "DefaultRoute s = resolved_route RouteOriginDefault s"

record DefaultModelBinding =
  dmBackend :: string
  dmModel :: string
  dmNative :: string

type_synonym DefaultRouteBindings = "DefaultModelBinding list"

text \<open>The values of a request context that route preparation reads; nil is \<open>None\<close>.\<close>

record route_context =
  ctxOrigin :: "RouteOrigin option"
  ctxBindings :: "DefaultRouteBindings option"

definition WithRouteOrigin :: "route_context \<Rightarrow> RouteOrigin \<Rightarrow> route_context" where
  "WithRouteOrigin ctx origin = (if origin = RouteOriginUnset then ctx else ctx\<lparr>ctxOrigin := Some origin\<rparr>)"

definition RouteOriginFromContext :: "route_context \<Rightarrow> RouteOrigin" where
  "RouteOriginFromContext ctx = (case ctxOrigin ctx of None \<Rightarrow> RouteOriginUnset | Some o' \<Rightarrow> o')"

definition WithDefaultRouteBindings :: "route_context \<Rightarrow> DefaultRouteBindings \<Rightarrow> route_context" where
  "WithDefaultRouteBindings ctx bs = (if bs = [] then ctx else ctx\<lparr>ctxBindings := Some bs\<rparr>)"

definition DefaultRouteBindingsFromContext :: "route_context \<Rightarrow> DefaultRouteBindings option" where
  "DefaultRouteBindingsFromContext ctx =
     (case ctxBindings ctx of None \<Rightarrow> None | Some bs \<Rightarrow> if bs = [] then None else Some bs)"

fun Find :: "DefaultRouteBindings \<Rightarrow> string \<Rightarrow> string \<Rightarrow> string option" where
  "Find [] backendID model = None"
| "Find (b # bs) backendID model =
     (if TrimSpace (dmBackend b) = TrimSpace backendID \<and> TrimSpace (dmModel b) = TrimSpace model
         \<and> TrimSpace (dmNative b) \<noteq> []
      then Some (TrimSpace (dmNative b)) else Find bs backendID model)"

definition frozen_ResolveModelBinding ::
  "NativeModelResolver option \<Rightarrow> DefaultRouteBindings \<Rightarrow> NativeModelResolver" where
  "frozen_ResolveModelBinding inner bs backendID model =
     (case Find bs backendID model of
        Some native \<Rightarrow> \<lparr>mbKind = ModelBindingExactCanonical, mbNative = native\<rparr>
      | None \<Rightarrow>
          (case inner of
             None \<Rightarrow> \<lparr>mbKind = ModelBindingUnknown, mbNative = []\<rparr>
           | Some r \<Rightarrow> r backendID model))"

definition NewFrozenDefaultModelResolver ::
  "NativeModelResolver option \<Rightarrow> DefaultRouteBindings \<Rightarrow> NativeModelResolver option" where
  "NewFrozenDefaultModelResolver inner bs = (if bs = [] then inner else Some (frozen_ResolveModelBinding inner bs))"

definition DefaultRouteModelResolver ::
  "route_context \<Rightarrow> NativeModelResolver option \<Rightarrow> NativeModelResolver option" where
  "DefaultRouteModelResolver ctx inner =
     (case inner of
        None \<Rightarrow> None
      | Some _ \<Rightarrow>
          if RouteOriginFromContext ctx \<noteq> RouteOriginDefault then inner
          else case DefaultRouteBindingsFromContext ctx of
              None \<Rightarrow> inner
            | Some bs \<Rightarrow> NewFrozenDefaultModelResolver inner bs)"

definition FrozenDefaultRouteModelResolver :: "DefaultRouteBindings \<Rightarrow> NativeModelResolver option" where
  "FrozenDefaultRouteModelResolver bs = (if bs = [] then None else NewFrozenDefaultModelResolver None bs)"

section \<open>The default route of a configuration\<close>

record PluginConfig =
  pcID :: string
  pcKind :: string
  pcEnabled :: bool

record Config =
  cfgDefaultRoute :: string
  cfgBackends :: "PluginConfig list"
  cfgModelAliases :: "ModelAliasRule list"

definition InstanceID :: "PluginConfig \<Rightarrow> string" where
  "InstanceID p = TrimSpace (pcID p)"

definition FactoryID :: "PluginConfig \<Rightarrow> string" where
  "FactoryID p = (let k = TrimSpace (pcKind p) in if k \<noteq> [] then k else TrimSpace (pcID p))"

datatype DefaultRouteSource =
  DefaultRouteSourceNone | DefaultRouteSourceConfigured | DefaultRouteSourceCanonicalModel
| DefaultRouteSourceDiscoveredInventory

record EffectiveDefaultRoute =
  edSelector :: string
  edSource :: DefaultRouteSource
  edInstance :: string
  edModel :: string

definition DefaultFallbackWireModel :: string where
  "DefaultFallbackWireModel = ''gpt-4o-mini''"

definition no_effective_route :: EffectiveDefaultRoute where
  "no_effective_route = \<lparr>edSelector = [], edSource = DefaultRouteSourceNone, edInstance = [], edModel = []\<rparr>"

definition derived_route :: "DefaultRouteSource \<Rightarrow> string \<Rightarrow> string \<Rightarrow> EffectiveDefaultRoute" where
  "derived_route src inst model =
     \<lparr>edSelector = inst @ '':'' @ model, edSource = src, edInstance = inst, edModel = model\<rparr>"

definition discoveredModelFor :: "(string \<Rightarrow> string) option \<Rightarrow> string \<Rightarrow> string" where
  "discoveredModelFor discovered inst = (case discovered of None \<Rightarrow> [] | Some d \<Rightarrow> TrimSpace (d inst))"

text \<open>The loop over the backend rows; \<open>None\<close> when every row is skipped.\<close>

fun backend_route :: "(string \<Rightarrow> string) option \<Rightarrow> (string \<Rightarrow> string) option \<Rightarrow> PluginConfig list
    \<Rightarrow> EffectiveDefaultRoute option" where
  "backend_route wireModel discovered [] = None"
| "backend_route wireModel discovered (p # ps) =
     (let inst = InstanceID p;
          canonical = (case wireModel of None \<Rightarrow> [] | Some f \<Rightarrow> TrimSpace (f (FactoryID p)));
          found = discoveredModelFor discovered inst
      in if \<not> pcEnabled p \<or> inst = [] then backend_route wireModel discovered ps
         else if canonical \<noteq> [] then Some (derived_route DefaultRouteSourceCanonicalModel inst canonical)
         else if found \<noteq> [] then Some (derived_route DefaultRouteSourceDiscoveredInventory inst found)
         else if wireModel = None
         then Some (derived_route DefaultRouteSourceCanonicalModel inst DefaultFallbackWireModel)
         else Some no_effective_route)"

definition fallback_route :: "(string \<Rightarrow> string) option \<Rightarrow> EffectiveDefaultRoute" where
  "fallback_route wireModel =
     (let m = (case wireModel of None \<Rightarrow> [] | Some f \<Rightarrow> TrimSpace (f ''openai-responses'')) in
      derived_route DefaultRouteSourceCanonicalModel ''openai-responses'' (if m = [] then DefaultFallbackWireModel else m))"

definition ResolveEffectiveDefaultRoute ::
  "Config option \<Rightarrow> (string \<Rightarrow> string) option \<Rightarrow> (string \<Rightarrow> string) option \<Rightarrow> EffectiveDefaultRoute" where
  "ResolveEffectiveDefaultRoute cfg wireModel discovered =
     (case cfg of
        None \<Rightarrow> fallback_route wireModel
      | Some c \<Rightarrow>
          let s = TrimSpace (cfgDefaultRoute c) in
          if s \<noteq> [] then \<lparr>edSelector = s, edSource = DefaultRouteSourceConfigured, edInstance = [], edModel = []\<rparr>
          else case backend_route wireModel discovered (cfgBackends c) of
              Some r \<Rightarrow> r
            | None \<Rightarrow> fallback_route wireModel)"

definition BackendsWithoutCanonicalDefaultModel ::
  "Config option \<Rightarrow> (string \<Rightarrow> string) option \<Rightarrow> string list" where
  "BackendsWithoutCanonicalDefaultModel cfg wireModel =
     (case cfg of
        None \<Rightarrow> []
      | Some c \<Rightarrow>
          map InstanceID (filter (\<lambda>p. pcEnabled p \<and> InstanceID p \<noteq> []
              \<and> (case wireModel of None \<Rightarrow> False | Some f \<Rightarrow> TrimSpace (f (FactoryID p)) = [])) (cfgBackends c)))"

datatype discovered_error =
  DiscoveredParse sel_error | DiscoveredManyRoutes | DiscoveredComposite | DiscoveredBackend string
| DiscoveredModel string | DiscoveredParams

text \<open>The texts of \<open>DefaultRouteGuidance\<close> and the refusal of a discovered model.\<close>

datatype route_warning =
  NoWarning | SetDefaultRoute | NoDesignatedModel string | NoModelKnownYet string | DiscoveredRefused discovered_error

definition DefaultRouteGuidance ::
  "Config option \<Rightarrow> (string \<Rightarrow> string) option \<Rightarrow> (string \<Rightarrow> string) option \<Rightarrow> route_warning" where
  "DefaultRouteGuidance cfg wireModel discovered =
     (case BackendsWithoutCanonicalDefaultModel cfg wireModel of
        [] \<Rightarrow> SetDefaultRoute
      | inst # _ \<Rightarrow> if discovered \<noteq> None then NoDesignatedModel inst else NoModelKnownYet inst)"

record DefaultRouteLeaf =
  dlBackend :: string
  dlModel :: string

record 're DefaultRouteResolution =
  drSelector :: string
  drRawSelector :: string
  drDefaultBackend :: string
  drAliases :: "'re AliasResolver"
  drWarning :: route_warning
  drSource :: DefaultRouteSource
  drModel :: string
  drLeaves :: "DefaultRouteLeaf list"

definition validateDiscoveredRoute :: "string \<Rightarrow> string \<Rightarrow> string \<Rightarrow> discovered_error option" where
  "validateDiscoveredRoute selector inst model =
     (case Parse selector of
        Inl e \<Rightarrow> Some (DiscoveredParse e)
      | Inr sel \<Rightarrow>
          (case Alternatives sel of
             [alt] \<Rightarrow>
               (case altPrimary alt of
                  None \<Rightarrow> Some DiscoveredComposite
                | Some p \<Rightarrow>
                    if TrimSpace (Backend p) \<noteq> inst then Some (DiscoveredBackend (TrimSpace (Backend p)))
                    else if TrimSpace (Model p) \<noteq> model then Some (DiscoveredModel (TrimSpace (Model p)))
                    else if Params p \<noteq> [] then Some DiscoveredParams
                    else None)
           | _ \<Rightarrow> Some DiscoveredManyRoutes))"

definition singleLeafModel :: "string \<Rightarrow> string" where
  "singleLeafModel selector =
     (case Parse selector of
        Inl _ \<Rightarrow> []
      | Inr sel \<Rightarrow>
          (case Alternatives sel of
             [alt] \<Rightarrow> (case altPrimary alt of None \<Rightarrow> [] | Some p \<Rightarrow> TrimSpace (Model p))
           | _ \<Rightarrow> []))"

definition defaultRouteLeaves :: "string \<Rightarrow> string \<Rightarrow> DefaultRouteLeaf list" where
  "defaultRouteLeaves selector defaultBackend =
     (case Parse selector of
        Inl _ \<Rightarrow> []
      | Inr sel \<Rightarrow>
          filter (\<lambda>l. dlBackend l \<noteq> [] \<and> dlModel l \<noteq> [])
            (map (\<lambda>p. \<lparr>dlBackend = TrimSpace (Backend p), dlModel = TrimSpace (Model p)\<rparr>)
               (routeLeaves (Some (ApplyModelOnlyBackends sel defaultBackend)))))"

definition PlaceholderModelToken :: string where
  "PlaceholderModelToken = ''model''"

definition RejectPlaceholderModel :: "string \<Rightarrow> compile_error option" where
  "RejectPlaceholderModel route =
     (case Parse route of
        Inl _ \<Rightarrow> None
      | Inr sel \<Rightarrow>
          if list_ex (\<lambda>leaf. TrimSpace (Model leaf) = PlaceholderModelToken) (routeLeaves (Some sel))
          then Some (PlaceholderModel route) else None)"

definition ModelAliasRulesFromConfig :: "Config option \<Rightarrow> ModelAliasRule list" where
  "ModelAliasRulesFromConfig cfg = (case cfg of None \<Rightarrow> [] | Some c \<Rightarrow> cfgModelAliases c)"

definition zero_resolution :: "'re DefaultRouteResolution" where
  "zero_resolution = \<lparr>drSelector = [], drRawSelector = [], drDefaultBackend = [], drAliases = None,
     drWarning = NoWarning, drSource = DefaultRouteSourceNone, drModel = [], drLeaves = []\<rparr>"

definition ResolveDefaultRouteWithInventory ::
  "'re regexp \<Rightarrow> Config option \<Rightarrow> (string \<Rightarrow> string) option \<Rightarrow> (string \<Rightarrow> string) option
     \<Rightarrow> 're DefaultRouteResolution \<times> compile_error option" where
  "ResolveDefaultRouteWithInventory R cfg wireModel discovered =
     (case NewAliasResolver R (ModelAliasRulesFromConfig cfg) of
        Inl e \<Rightarrow> (zero_resolution, Some (ModelAliasesError e))
      | Inr aliases \<Rightarrow>
          let res = zero_resolution\<lparr>drAliases := aliases\<rparr>;
              eff = ResolveEffectiveDefaultRoute cfg wireModel discovered;
              raw = TrimSpace (edSelector eff);
              refused = (if edSource eff = DefaultRouteSourceDiscoveredInventory
                         then validateDiscoveredRoute raw (edInstance eff) (edModel eff) else None)
          in if raw = [] then (res\<lparr>drWarning := DefaultRouteGuidance cfg wireModel discovered\<rparr>, None)
             else case refused of
                 Some e \<Rightarrow> (res\<lparr>drWarning := DiscoveredRefused e\<rparr>, None)
               | None \<Rightarrow>
                   let res1 = res\<lparr>drRawSelector := raw, drSelector := Resolve R aliases raw\<rparr> in
                   if TrimSpace (drSelector res1) = [] then (res1, Some (EmptyAliasExpansion raw))
                   else case RejectPlaceholderModel (drSelector res1) of
                       Some e \<Rightarrow> (res1, Some e)
                     | None \<Rightarrow>
                         (case DefaultBackendFromRouteSelector (drSelector res1) of
                            Inl e \<Rightarrow> (res1, Some e)
                          | Inr backend \<Rightarrow>
                              (res1\<lparr>drDefaultBackend := backend, drSource := edSource eff,
                                    drModel := singleLeafModel (drSelector res1),
                                    drLeaves := defaultRouteLeaves (drSelector res1) backend\<rparr>, None)))"

definition ResolveDefaultRoute ::
  "'re regexp \<Rightarrow> Config option \<Rightarrow> (string \<Rightarrow> string) option \<Rightarrow> 're DefaultRouteResolution \<times> compile_error option" where
  "ResolveDefaultRoute R cfg wireModel = ResolveDefaultRouteWithInventory R cfg wireModel None"

section \<open>Route prefixes and continuation pins\<close>

definition FilterRoutePrefixes :: "string list \<Rightarrow> string list" where
  "FilterRoutePrefixes prefixes =
     sort (remdups (filter (\<lambda>p. p \<noteq> [] \<and> CHR '':'' \<notin> set p \<and> CHR ''/'' \<notin> set p) (map TrimSpace prefixes)))"

record Lineage =
  ProviderBound :: bool
  liProviderID :: string
  liModel :: string
  liCandidateKey :: string

record NativeRequirement =
  nrKind :: string
  nrBackendID :: string
  nrModel :: string

record ContinuationConstraint =
  ccLineage :: Lineage
  ccNative :: "NativeRequirement list"

datatype pin_error =
  ErrContinuationCandidatePinned string string
| ErrContinuationNativeMismatch string

definition pin_check :: "string \<Rightarrow> string \<Rightarrow> string \<Rightarrow> pin_error option" where
  "pin_check what wanted actual =
     (let w = TrimSpace wanted in
      if w \<noteq> [] \<and> w \<noteq> TrimSpace actual then Some (ErrContinuationCandidatePinned what w) else None)"

definition CheckContinuationCandidate :: "ContinuationConstraint \<Rightarrow> AttemptCandidate \<Rightarrow> pin_error option" where
  "CheckContinuationCandidate k c =
     (let l = ccLineage k; p = acPrimary c in
      if \<not> ProviderBound l \<and> ccNative k = [] then None
      else case pin_check ''backend'' (liProviderID l) (Backend p) of
          Some e \<Rightarrow> Some e
        | None \<Rightarrow>
            (case pin_check ''model'' (liModel l) (Model p) of
               Some e \<Rightarrow> Some e
             | None \<Rightarrow>
                 (case pin_check ''candidate'' (liCandidateKey l) (acKey c) of
                    Some e \<Rightarrow> Some e
                  | None \<Rightarrow>
                      first_error (\<lambda>req.
                        if TrimSpace (nrBackendID req) \<noteq> TrimSpace (Backend p)
                          \<or> TrimSpace (nrModel req) \<noteq> TrimSpace (Model p)
                        then Some (ErrContinuationNativeMismatch (nrKind req)) else None) (ccNative k))))"


section \<open>Rewriting the leaves of a selector\<close>

definition map_branch :: "(Primary \<Rightarrow> Primary) \<Rightarrow> WeightedBranch \<Rightarrow> WeightedBranch" where
  "map_branch f b =
     (case wbParallel b of
        Some g \<Rightarrow> b\<lparr>wbParallel := Some (on_parallel f g)\<rparr>
      | None \<Rightarrow> b\<lparr>wbTarget := f (wbTarget b)\<rparr>)"

definition map_weighted :: "(Primary \<Rightarrow> Primary) \<Rightarrow> Weighted \<Rightarrow> Weighted" where
  "map_weighted f w = w\<lparr>wBranches := map (map_branch f) (wBranches w)\<rparr>"

definition map_alt :: "(Primary \<Rightarrow> Primary) \<Rightarrow> FailoverAlt \<Rightarrow> FailoverAlt" where
  "map_alt f a =
     (case altPrimary a of
        Some p \<Rightarrow> a\<lparr>altPrimary := Some (f p)\<rparr>
      | None \<Rightarrow>
          (case altWeighted a of
             Some w \<Rightarrow> a\<lparr>altWeighted := Some (map_weighted f w)\<rparr>
           | None \<Rightarrow> a\<lparr>altParallel := map_option (on_parallel f) (altParallel a)\<rparr>))"

definition map_selector :: "(Primary \<Rightarrow> Primary) \<Rightarrow> Selector \<Rightarrow> Selector" where
  "map_selector f s = s\<lparr>Alternatives := map (map_alt f) (Alternatives s)\<rparr>"

lemmas map_leaf_defs = on_target_def on_parallel_def map_branch_def map_weighted_def map_alt_def map_selector_def

lemma on_target_simps [simp]:
  "pbTarget (on_target f b) = f (pbTarget b)" "pbHandicap (on_target f b) = pbHandicap b"
  "pBranches (on_parallel f g) = map (on_target f) (pBranches g)"
  by (simp_all add: map_leaf_defs)

lemma map_branch_simps [simp]:
  "Weight (map_branch f b) = Weight b" "IsFirst (map_branch f b) = IsFirst b" "IsThinker (map_branch f b) = IsThinker b"
  "wbParallel (map_branch f b) = map_option (on_parallel f) (wbParallel b)"
  "wbParallel b = None \<Longrightarrow> wbTarget (map_branch f b) = f (wbTarget b)"
  "wbParallel b = Some g \<Longrightarrow> wbTarget (map_branch f b) = wbTarget b"
  "wBranches (map_weighted f w) = map (map_branch f) (wBranches w)"
  by (simp_all add: map_leaf_defs split: option.splits)

lemma map_selector_simps [simp]:
  "Alternatives (map_selector f s) = map (map_alt f) (Alternatives s)"
  "GlobalTTFTTimeout (map_selector f s) = GlobalTTFTTimeout s" "Affinity (map_selector f s) = Affinity s"
  by (simp_all add: map_selector_def)

lemma branch_leaves_map [simp]: "branch_leaves (map_branch f b) = map f (branch_leaves b)"
  by (cases "wbParallel b") (simp_all add: branch_leaves_def)

lemma alt_leaves_map [simp]: "alt_leaves (map_alt f a) = map f (alt_leaves a)"
proof (cases "altPrimary a")
  case None
  have "concat (map (\<lambda>b. map f (branch_leaves b)) bs) = map f (concat (map branch_leaves bs))" for bs
    by (simp add: map_concat comp_def)
  with None show ?thesis
    by (cases "altWeighted a"; cases "altParallel a") (simp_all add: map_alt_def alt_leaves_def comp_def)
qed (simp add: map_alt_def alt_leaves_def)

lemma selector_leaves_map [simp]: "selector_leaves (map_selector f s) = map f (selector_leaves s)"
  by (simp add: selector_leaves_def map_concat comp_def)

lemma wf_alt_map:
  assumes "wf_alt a" "\<And>p. wf_primary p \<Longrightarrow> wf_primary (f p)"
  shows "wf_alt (map_alt f a)"
proof -
  have par: "wf_parallel (on_parallel f g)" if "wf_parallel g" for g
    using that assms(2) by (auto simp: wf_parallel_def)
  have br: "wf_branch (map_branch f b)" if "wf_branch b" for b
    using that assms(2) par by (auto simp: wf_branch_def split: option.splits)
  have len: "length (filter P (map (map_branch f) bs)) = length (filter P bs)"
    if "\<And>b. P (map_branch f b) = P b" for P bs
    using that by (simp add: filter_map comp_def)
  from assms(1) show ?thesis
  proof (cases rule: wf_alt_cases)
    case (weighted w)
    then have "wf_weighted (map_weighted f w)"
      using br len [of IsFirst] len [of IsThinker] by (auto simp: wf_weighted_def list_ex_iff)
    with weighted assms(1) show ?thesis by (auto simp: wf_alt_def map_alt_def split: option.splits)
  qed (use assms par in \<open>auto simp: wf_alt_def map_alt_def split: option.splits\<close>)
qed

lemma wf_selector_map:
  "wf_selector s \<Longrightarrow> (\<And>p. wf_primary p \<Longrightarrow> wf_primary (f p)) \<Longrightarrow> wf_selector (map_selector f s)"
  by (auto simp: wf_selector_def intro: wf_alt_map)

section \<open>What compilation and binding do to the leaves\<close>

lemma applyModelOnly_map:
  assumes "wf_alt a"
  shows "applyModelOnlyToAlt backend a = map_alt (fill_backend backend) a"
proof -
  have br: "applyModelOnlyToWeightedBranch backend = map_branch (fill_backend backend)"
    by (simp add: fun_eq_iff applyModelOnlyToWeightedBranch_def map_branch_def)
  from assms show ?thesis
  proof (cases rule: wf_alt_cases)
    case (primary p)
    moreover from this assms have "altWeighted a = None" "altParallel a = None"
      by (auto simp: wf_alt_def split: option.splits)
    ultimately show ?thesis by (cases a) (simp add: applyModelOnlyToAlt_def map_alt_def fill_backend_def)
  qed (simp_all add: applyModelOnlyToAlt_def map_alt_def map_weighted_def br)
qed

lemma ApplyModelOnlyBackends_map:
  assumes "wf_selector s"
  shows "ApplyModelOnlyBackends s d = (if blank d then s else map_selector (fill_backend (TrimSpace d)) s)"
  using assms applyModelOnly_map
  by (auto simp: ApplyModelOnlyBackends_def Let_def blank_def map_selector_def wf_selector_def)

lemma SelectorHasEmptyBackend_leaves:
  assumes "wf_selector s"
  shows "SelectorHasEmptyBackend s \<longleftrightarrow> (\<exists>p \<in> set (selector_leaves s). blank (Backend p))"
proof -
  have br: "weightedBranchHasEmptyBackend b \<longleftrightarrow> (\<exists>p \<in> set (branch_leaves b). blank (Backend p))" for b
    by (auto simp: weightedBranchHasEmptyBackend_def branch_leaves_def list_ex_iff split: option.splits)
  have "(case altPrimary a of Some p \<Rightarrow> blank (Backend p) | None \<Rightarrow> False)
       \<or> (case altWeighted a of Some w \<Rightarrow> list_ex weightedBranchHasEmptyBackend (wBranches w) | None \<Rightarrow> False)
       \<or> (case altParallel a of Some g \<Rightarrow> list_ex (\<lambda>b. blank (Backend (pbTarget b))) (pBranches g) | None \<Rightarrow> False)
     \<longleftrightarrow> (\<exists>p \<in> set (alt_leaves a). blank (Backend p))" if "wf_alt a" for a
    using that by (auto simp: wf_alt_def alt_leaves_def br list_ex_iff split: option.splits)
  with assms show ?thesis
    by (simp add: SelectorHasEmptyBackend_def selector_leaves_def wf_selector_def list_ex_iff)
qed

text \<open>A writer that succeeds exactly on \<open>ok\<close> inputs and then writes \<open>g\<close> of the input.\<close>

definition writes :: "('a \<Rightarrow> 'a \<times> 'e option) \<Rightarrow> ('a \<Rightarrow> 'a) \<Rightarrow> ('a \<Rightarrow> bool) \<Rightarrow> bool" where
  "writes f g ok \<longleftrightarrow> (\<forall>x. (snd (f x) = None \<longleftrightarrow> ok x) \<and> (snd (f x) = None \<longrightarrow> fst (f x) = g x))"

lemma writes_each:
  assumes "writes f g ok"
  shows "writes (write_each f) (map g) (\<lambda>xs. \<forall>x \<in> set xs. ok x)"
proof -
  have "(snd (write_each f xs) = None \<longleftrightarrow> (\<forall>x \<in> set xs. ok x))
      \<and> (snd (write_each f xs) = None \<longrightarrow> fst (write_each f xs) = map g xs)" for xs
  proof (induction xs)
    case (Cons x xs)
    moreover have "(snd (f x) = None \<longleftrightarrow> ok x) \<and> (snd (f x) = None \<longrightarrow> fst (f x) = g x)"
      using assms by (simp add: writes_def)
    ultimately show ?case
      by (cases "f x"; cases "write_each f xs"; cases "snd (f x)") auto
  qed simp
  then show ?thesis by (simp add: writes_def)
qed

definition bound :: "NativeModelResolver \<Rightarrow> Primary \<Rightarrow> Primary" where
  "bound r p = fst (bindNativeToPrimary r p)"

definition bindable :: "NativeModelResolver \<Rightarrow> Primary \<Rightarrow> bool" where
  "bindable r p \<longleftrightarrow> blank (Backend p) \<or> blank (Model p)
     \<or> mbKind (r (TrimSpace (Backend p)) (TrimSpace (Model p))) \<noteq> ModelBindingWrongBackend"

lemma bind_primary_writes: "writes (bindNativeToPrimary r) (bound r) (bindable r)"
  by (auto simp: writes_def bound_def bindable_def blank_def bindNativeToPrimary_def Let_def
      split: ModelBindingKind.splits if_splits)

lemma bound_frame [simp]:
  "Backend (bound r p) = Backend p" "Model (bound r p) = Model p" "Params (bound r p) = Params p"
  "Size (bound r p) = Size p" "TTFTTimeout (bound r p) = TTFTTimeout p"
  "Primary_String (bound r p) = Primary_String p"
  by (auto simp: bound_def bindNativeToPrimary_def Let_def Primary_String_def split: ModelBindingKind.splits)

lemma bound_zero [simp]: "bound r zero_Primary = zero_Primary"
  by (simp add: bound_def bindNativeToPrimary_def zero_Primary_def)

lemma bind_legs_writes:
  "writes (bind_legs r) (on_parallel (bound r)) (\<lambda>g. \<forall>b \<in> set (pBranches g). bindable r (pbTarget b))"
proof -
  let ?f = "\<lambda>leg. case bindNativeToPrimary r (pbTarget leg) of (p, e) \<Rightarrow> (leg\<lparr>pbTarget := p\<rparr>, e)"
  have "writes ?f (on_target (bound r)) (\<lambda>leg. bindable r (pbTarget leg))"
    using bind_primary_writes [of r] by (simp add: writes_def on_target_def case_prod_beta)
  from writes_each [OF this] show ?thesis
    by (simp add: writes_def bind_legs_def on_parallel_def case_prod_beta)
qed

lemma bind_branch_writes:
  "writes (bindNativeToWeightedBranch r) (map_branch (bound r)) (\<lambda>b. \<forall>p \<in> set (branch_leaves b). bindable r p)"
  using bind_legs_writes [of r] bind_primary_writes [of r]
  by (simp add: writes_def bindNativeToWeightedBranch_def map_branch_def branch_leaves_def case_prod_beta
      split: option.splits)

lemma bind_alt_writes:
  "writes (bindNativeToAlt r) (map_alt (bound r)) (\<lambda>a. \<forall>p \<in> set (alt_leaves a). bindable r p)"
  using bind_legs_writes [of r] bind_primary_writes [of r] writes_each [OF bind_branch_writes [of r]]
  by (auto simp: writes_def bindNativeToAlt_def map_alt_def map_weighted_def alt_leaves_def
      case_prod_beta split: option.splits)

lemma BindNativeModelIDs_iff:
  "snd (BindNativeModelIDs (Some r) (Some s)) = None \<longleftrightarrow> (\<forall>p \<in> set (selector_leaves s). bindable r p)"
  "snd (BindNativeModelIDs (Some r) (Some s)) = None \<Longrightarrow>
     fst (BindNativeModelIDs (Some r) (Some s)) = Some (map_selector (bound r) s)"
  using writes_each [OF bind_alt_writes [of r]]
  by (simp_all add: writes_def BindNativeModelIDs_def selector_leaves_def map_selector_def case_prod_beta)

section \<open>Compiled and prepared selectors\<close>

lemma CompileSelector_parsed:
  assumes "CompileSelector R raw aliases d = Inr sel"
  obtains t parsed where "TrimSpace raw \<noteq> []" "t = (if aliases = None then TrimSpace raw else Resolve R aliases (TrimSpace raw))"
    "Parse t = Inr parsed" "sel = (if blank d then parsed else map_selector (fill_backend (TrimSpace d)) parsed)"
    "\<not> SelectorHasEmptyBackend sel"
proof -
  let ?t = "if aliases = None then TrimSpace raw else Resolve R aliases (TrimSpace raw)"
  from assms obtain parsed where p: "TrimSpace raw \<noteq> []" "Parse ?t = Inr parsed"
    "sel = ApplyModelOnlyBackends parsed d" "\<not> SelectorHasEmptyBackend sel"
    by (auto simp: CompileSelector_def Let_def split: if_splits sum.splits)
  with that [OF p(1) refl p(2)] ApplyModelOnlyBackends_map [OF Parse_wf [OF p(2)]] show thesis by auto
qed

lemma fill_backend_wf: "wf_primary p \<Longrightarrow> CHR ''|'' \<notin> set b \<Longrightarrow> wf_primary (fill_backend b p)"
  by (simp add: wf_primary_def fill_backend_def)

lemma CompileSelector_wf:
  assumes "CompileSelector R raw aliases d = Inr sel" "CHR ''|'' \<notin> set d"
  shows "wf_selector sel" "\<forall>p \<in> set (selector_leaves sel). \<not> blank (Backend p)"
proof -
  from CompileSelector_parsed [OF assms(1)] obtain t parsed where p: "Parse t = Inr parsed"
    "sel = (if blank d then parsed else map_selector (fill_backend (TrimSpace d)) parsed)"
    "\<not> SelectorHasEmptyBackend sel" by metis
  have "CHR ''|'' \<notin> set (TrimSpace d)" using assms(2) set_TrimSpace by auto
  then show wf: "wf_selector sel" using Parse_wf [OF p(1)] p(2)
    by (auto intro: wf_selector_map fill_backend_wf)
  from SelectorHasEmptyBackend_leaves [OF this] p(3)
  show "\<forall>p \<in> set (selector_leaves sel). \<not> blank (Backend p)" by simp
qed

lemma first_error_None: "first_error f xs = None \<longleftrightarrow> (\<forall>x \<in> set xs. f x = None)"
  by (induction xs) (auto split: option.splits)

text \<open>A leaf that may take part in a composition: its backend is unknown here or an inference service.\<close>

definition composable :: "BackendExecutionResolver \<Rightarrow> Primary \<Rightarrow> bool" where
  "composable cl p \<longleftrightarrow> blank (Backend p) \<or> cl (TrimSpace (Backend p)) \<in> {None, Some BackendExecutionInference}"

lemma checkPrimaryClass_None [simp]: "checkPrimaryClass cl policy cn p = None \<longleftrightarrow> composable cl p"
  by (auto simp: checkPrimaryClass_def composable_def blank_def Let_def split: option.splits)

lemma validateAlt_None:
  assumes "\<not> (altPrimary a \<noteq> None \<and> \<not> multi)"
  shows "validateAltExecutionComposition cl policy multi a = None \<longleftrightarrow> (\<forall>p \<in> set (alt_leaves a). composable cl p)"
  using assms
  by (auto simp: validateAltExecutionComposition_def alt_leaves_def branch_leaves_def first_error_None Let_def
      split: option.splits)

lemma ValidateExecutionComposition_None:
  "ValidateExecutionComposition (Some s) classes policy = None \<longleftrightarrow>
     policy = ExecutionCompositionUnrestricted \<or> IsDirectPrimary (Some s)
     \<or> (\<exists>cl. classes = Some cl \<and> (\<forall>p \<in> set (selector_leaves s). composable cl p))"
proof -
  let ?v = "\<lambda>cl. first_error (validateAltExecutionComposition cl (if policy = [] then ExecutionCompositionSafe else policy)
                (length (Alternatives s) > 1)) (Alternatives s)"
  have "?v cl = None \<longleftrightarrow> (\<forall>p \<in> set (selector_leaves s). composable cl p)" if "\<not> IsDirectPrimary (Some s)" for cl
  proof -
    have "\<not> (altPrimary a \<noteq> None \<and> \<not> length (Alternatives s) > 1)" if "a \<in> set (Alternatives s)" for a
      using that \<open>\<not> IsDirectPrimary (Some s)\<close> by (auto simp: IsDirectPrimary_def split: list.splits)
    from validateAlt_None [OF this] show ?thesis by (auto simp: first_error_None selector_leaves_def)
  qed
  then show ?thesis
    by (auto simp: ValidateExecutionComposition_def ExecutionCompositionSafe_def ExecutionCompositionUnrestricted_def Let_def
        split: option.splits if_splits)
qed


section \<open>Planning does not see what binding writes\<close>

definition on_candidate :: "(Primary \<Rightarrow> Primary) \<Rightarrow> AttemptCandidate \<Rightarrow> AttemptCandidate" where
  "on_candidate f c = c\<lparr>acPrimary := f (acPrimary c)\<rparr>"

definition on_group :: "(Primary \<Rightarrow> Primary) \<Rightarrow> AttemptGroup \<Rightarrow> AttemptGroup" where
  "on_group f g = g\<lparr>Candidates := map (on_candidate f) (Candidates g)\<rparr>"

lemma on_candidate_simps [simp]:
  "acKey (on_candidate f c) = acKey c" "acPrimary (on_candidate f c) = f (acPrimary c)"
  "MarkedFirst (on_candidate f c) = MarkedFirst c"
  "Candidates (on_group f g) = map (on_candidate f) (Candidates g)"
  "NextThinkerCycle (on_group f g) = NextThinkerCycle g"
  by (simp_all add: on_candidate_def on_group_def)

text \<open>Rewritings of leaves that planning cannot tell apart.\<close>

locale key_preserving =
  fixes f :: "Primary \<Rightarrow> Primary"
  assumes key [simp]: "Primary_String (f p) = Primary_String p"
    and size [simp]: "Size (f p) = Size p"
    and backend [simp]: "Backend (f p) = Backend p"
    and zero [simp]: "f zero_Primary = zero_Primary"
begin

lemma eligible [simp]: "candidateEligible (f p) k opt = candidateEligible p k opt"
  by (simp add: candidateEligible_iff)

lemma plain_cand: "plain_candidate (f p) = on_candidate f (plain_candidate p)"
  "parallel_candidate (on_target f b) = on_candidate f (parallel_candidate b)"
  by (simp_all add: plain_candidate_def parallel_candidate_def on_candidate_def)

lemma expandParallel_map: "expandParallel (on_parallel f g) opt = map (on_candidate f) (expandParallel g opt)"
  by (simp add: expandParallel_def filter_map comp_def plain_cand)

lemma branchKey_map [simp]: "branchKey (map_branch f b) = branchKey b"
  by (cases "wbParallel b") (simp_all add: branchKey_def comp_def)

lemma find_map: "find P (map h xs) = map_option h (find (P \<circ> h) xs)"
  by (induction xs) auto

lemma buildThinkerCycle_map [simp]: "buildThinkerCycle (map_weighted f w) = buildThinkerCycle w"
  by (cases "find IsThinker (wBranches w)")
    (simp_all add: buildThinkerCycle_def Let_def comp_def find_map cong: if_cong)

lemma cycleCandidates_map:
  "cycleCandidates (map_weighted f w) e k opt = map_option (map (on_candidate f)) (cycleCandidates w e k opt)"
proof (cases "find (\<lambda>b. branchKey b = entryKey e) (wBranches w)")
  case (Some b)
  then show ?thesis
    by (cases "wbParallel b")
      (simp_all add: cycleCandidates_def find_map comp_def expandParallel_map Let_def on_candidate_def)
qed (simp add: cycleCandidates_def find_map comp_def)

lemma cycleLoop_map:
  "cycleLoop (map_weighted f w) opt es k start is = map_option (\<lambda>(cs, n). (map (on_candidate f) cs, n)) (cycleLoop w opt es k start is)"
  by (induction "is") (auto simp: cycleCandidates_map Let_def split: option.splits)

lemma sumWeightsLoop_map: "sumWeightsLoop acc (map (map_branch f) bs) = sumWeightsLoop acc bs"
  by (induction bs arbitrary: acc) (simp_all add: Let_def)

lemma chooseByRoll_map: "chooseByRoll roll acc (map (map_branch f) bs) = map_option (map_branch f) (chooseByRoll roll acc bs)"
  by (induction bs arbitrary: acc) (simp_all add: Let_def)

lemma sumEligibleWeights_map: "sumEligibleWeights (map (map_branch f) bs) = sumEligibleWeights bs"
  by (simp add: sumEligibleWeights_def sumWeightsLoop_map)

lemma eligible_map:
  assumes "\<forall>b \<in> set bs. wbParallel b = None"
  shows "filter (\<lambda>b. candidateEligible (wbTarget b) (Primary_String (wbTarget b)) opt) (map (map_branch f) bs)
       = map (map_branch f) (filter (\<lambda>b. candidateEligible (wbTarget b) (Primary_String (wbTarget b)) opt) bs)"
  using assms by (induction bs) auto

lemma first_map: "filter IsFirst (map (map_branch f) bs) = map (map_branch f) (filter IsFirst bs)"
  by (simp add: filter_map comp_def)

lemma chosen_map:
  assumes "\<forall>b \<in> set bs. wbParallel b = None"
  shows "(case map_option (map_branch f) (chooseByRoll roll acc bs) of None \<Rightarrow> zero_branch | Some b \<Rightarrow> b)
       = map_branch f (case chooseByRoll roll acc bs of None \<Rightarrow> zero_branch | Some b \<Rightarrow> b)"
    "wbParallel (case chooseByRoll roll acc bs of None \<Rightarrow> zero_branch | Some b \<Rightarrow> b) = None"
proof -
  have "chooseByRoll roll acc bs = Some b \<Longrightarrow> b \<in> set bs" for b
    by (induction bs arbitrary: acc) (auto simp: Let_def split: if_splits)
  with assms show "wbParallel (case chooseByRoll roll acc bs of None \<Rightarrow> zero_branch | Some b \<Rightarrow> b) = None"
    by (auto simp: zero_branch_def split: option.splits)
  show "(case map_option (map_branch f) (chooseByRoll roll acc bs) of None \<Rightarrow> zero_branch | Some b \<Rightarrow> b)
       = map_branch f (case chooseByRoll roll acc bs of None \<Rightarrow> zero_branch | Some b \<Rightarrow> b)"
    by (simp add: zero_branch_def map_branch_def split: option.splits)
qed

lemma on_candidate_first: "(plain_candidate (f p))\<lparr>MarkedFirst := m\<rparr> = on_candidate f ((plain_candidate p)\<lparr>MarkedFirst := m\<rparr>)"
  by (simp add: plain_candidate_def on_candidate_def)

lemma pickWeightedLegacy_map:
  assumes "\<forall>b \<in> set (wBranches w). wbParallel b = None"
  shows "pickWeightedLegacy (map_weighted f w) opt ps
       = map_sum id (\<lambda>(c, r). (on_candidate f c, r)) (pickWeightedLegacy w opt ps)"
proof -
  define el where "el = filter (\<lambda>b. candidateEligible (wbTarget b) (Primary_String (wbTarget b)) opt) (wBranches w)"
  define firsts where "firsts = (if first_allowed opt ps then filter IsFirst el else [])"
  have par: "\<forall>b \<in> set el. wbParallel b = None" "\<forall>b \<in> set firsts. wbParallel b = None"
    using assms by (auto simp: el_def firsts_def)
  have fm: "(if first_allowed opt ps then filter IsFirst (map (map_branch f) el) else []) = map (map_branch f) firsts"
    by (simp add: firsts_def first_map)
  show ?thesis
    unfolding pickWeightedLegacy_def map_branch_simps eligible_map [OF assms] Let_def
      el_def [symmetric] fm firsts_def [symmetric] sumEligibleWeights_map
    using par chosen_map [OF par(1)]
    by (auto simp: chooseByRoll_map on_candidate_first split: list.splits sum.splits prod.splits)
qed

lemma pickThinkerCycle_map:
  assumes "\<forall>b \<in> set (wBranches w). IsFirst b \<longrightarrow> wbParallel b = None"
  shows "pickThinkerCycle (map_weighted f w) opt ps
       = map_sum id (\<lambda>(cs, r). (map (on_candidate f) cs, r)) (pickThinkerCycle w opt ps)"
proof -
  let ?P = "\<lambda>b. IsFirst b \<and> candidateEligible (wbTarget b) (Primary_String (wbTarget b)) opt"
  have "find ?P (map (map_branch f) bs) = map_option (map_branch f) (find ?P bs)"
    if "\<forall>b \<in> set bs. IsFirst b \<longrightarrow> wbParallel b = None" for bs
    using that by (induction bs) auto
  then have P: "find ?P (map (map_branch f) (wBranches w)) = map_option (map_branch f) (find ?P (wBranches w))"
    using assms by blast
  have par: "wbParallel b = None" if "find ?P (wBranches w) = Some b" for b
    using find_Some_set [OF that] assms by auto
  obtain es k where bt: "buildThinkerCycle w = (es, k)" by fastforce
  show ?thesis
    unfolding pickThinkerCycle_def buildThinkerCycle_map bt prod.case Let_def map_branch_simps P cycleLoop_map
    using par
    by (cases "find ?P (wBranches w)") (auto simp: on_candidate_def plain_candidate_def split: option.splits)
qed

lemma pickWeighted_map:
  assumes "wf_weighted w"
  shows "pickWeighted (map_weighted f w) opt ps
       = map_sum id (\<lambda>(cs, r). (map (on_candidate f) cs, r)) (pickWeighted w opt ps)"
proof (cases "list_ex IsThinker (wBranches w)")
  case True
  have "\<forall>b \<in> set (wBranches w). IsFirst b \<longrightarrow> wbParallel b = None"
    using assms by (auto simp: wf_weighted_def wf_branch_def split: option.splits)
  from pickThinkerCycle_map [OF this] True show ?thesis
    by (simp add: pickWeighted_def list_ex_iff)
next
  case False
  then have "\<forall>b \<in> set (wBranches w). wbParallel b = None"
    using assms by (auto simp: wf_weighted_def list_ex_iff)
  from pickWeightedLegacy_map [OF this] False show ?thesis
    by (simp add: pickWeighted_def list_ex_iff split: sum.splits prod.splits)
qed

lemma sticky_match_map [simp]: "sticky_match opt b (f p) = sticky_match opt b p"
  by (simp add: sticky_match_def)

definition spick :: "sticky_pick \<Rightarrow> sticky_pick" where
  "spick r = (on_candidate f (fst r), snd r)"

lemma sticky_finish_map: "sticky_finish opt ps cyc (map_branch f b) role (on_candidate f c) = spick (sticky_finish opt ps cyc b role c)"
  by (cases cyc) (auto simp: sticky_finish_def spick_def Let_def on_candidate_def)

lemma sticky_branches_map:
  "sticky_branches opt ps b cyc (map (map_branch f) bs) = map_option spick (sticky_branches opt ps b cyc bs)"
proof (induction bs)
  case (Cons x xs)
  show ?case
  proof (cases "wbParallel x")
    case (Some g)
    with Cons show ?thesis
      by (cases "find (\<lambda>leg. sticky_match opt b (pbTarget leg)) (pBranches g)")
        (simp_all add: find_map comp_def plain_cand sticky_finish_map)
  qed (use Cons in \<open>simp add: plain_cand sticky_finish_map\<close>)
qed simp

lemma sticky_alternative_map:
  "sticky_alternative opt ps b (map_alt f a) = map_option spick (sticky_alternative opt ps b a)"
proof (cases "altPrimary a")
  case None
  then show ?thesis
    by (cases "altWeighted a"; cases "altParallel a")
      (auto simp: sticky_alternative_def map_alt_def sticky_branches_map sticky_cycle_def list_ex_iff find_map comp_def
        plain_cand spick_def split: option.splits)
qed (simp add: sticky_alternative_def map_alt_def plain_cand spick_def)

lemma sticky_alternatives_map:
  "sticky_alternatives opt ps b (map (map_alt f) as) = map_option spick (sticky_alternatives opt ps b as)"
  by (induction as) (auto simp: sticky_alternative_map split: option.splits)

lemma stickyAttemptGroup_map:
  "stickyAttemptGroup (Some (map_selector f s)) opt ps = map_option (on_group f) (stickyAttemptGroup (Some s) opt ps)"
  by (auto simp: stickyAttemptGroup_def stickyCandidate_def Let_def sticky_alternatives_map spick_def on_group_def
      split: option.splits)

lemma preferred_front_map:
  "preferred_front (map (on_candidate f) cs) seen ks
     = (map (on_candidate f) (fst (preferred_front cs seen ks)), snd (preferred_front cs seen ks))"
proof (induction cs seen ks rule: preferred_front.induct)
  case (2 cs seen k ks)
  then show ?case
    by (cases "find (\<lambda>c. acKey c = k) cs") (auto simp: find_map comp_def case_prod_beta)
qed simp

lemma reorderPreferredCandidates_map:
  "reorderPreferredCandidates (map (on_candidate f) cs) ks = map (on_candidate f) (reorderPreferredCandidates cs ks)"
  by (simp add: reorderPreferredCandidates_def preferred_front_map case_prod_beta filter_map comp_def)

lemma indexByCandidate_map: "indexByCandidate (map (on_group f) gs) k = indexByCandidate gs k"
proof -
  have "list_ex (\<lambda>c. acKey c = k) (Candidates (map (on_group f) gs ! i)) = list_ex (\<lambda>c. acKey c = k) (Candidates (gs ! i))"
    if "i < length gs" for i using that by (simp add: list_ex_iff)
  then have "find (\<lambda>i. list_ex (\<lambda>c. acKey c = k) (Candidates (map (on_group f) gs ! i))) [0..<length gs]
      = find (\<lambda>i. list_ex (\<lambda>c. acKey c = k) (Candidates (gs ! i))) [0..<length gs]"
    by (intro find_cong) auto
  then show ?thesis by (simp add: indexByCandidate_def)
qed

lemma preferred_groups_map: "preferred_groups (map (on_group f) gs) seen ks = preferred_groups gs seen ks"
  by (induction gs seen ks rule: preferred_groups.induct) (auto simp: indexByCandidate_map split: option.splits)

lemma reorderPreferredGroups_map:
  "reorderPreferredGroups (map (on_group f) gs) ks = map (on_group f) (reorderPreferredGroups gs ks)"
proof -
  obtain out seen where o: "preferred_groups gs {} ks = (out, seen)" by fastforce
  have "\<forall>i \<in> set out. i < length gs"
    using preferred_groups_props [OF o] by auto
  with o show ?thesis by (auto simp: reorderPreferredGroups_def preferred_groups_map)
qed

lemma expandAlternative_map:
  assumes "wf_alt a"
  shows "expandAlternative opt ps (map_alt f a)
       = map_sum id (\<lambda>(g, r). (map_option (on_group f) g, r)) (expandAlternative opt ps a)"
  using assms
proof (cases rule: wf_alt_cases)
  case (weighted w)
  then show ?thesis
    by (cases "pickWeighted w opt ps")
      (auto simp: expandAlternative_def map_alt_def pickWeighted_map on_group_def split: plan_error.splits)
qed (auto simp: expandAlternative_def map_alt_def plain_cand on_group_def expandParallel_map
      reorderPreferredCandidates_map Let_def)

lemma expandAlternatives_map:
  assumes "\<forall>a \<in> set as. wf_alt a"
  shows "expandAlternatives opt ps (map (map_alt f) as)
       = map_sum id (\<lambda>(gs, r). (map (on_group f) gs, r)) (expandAlternatives opt ps as)"
  using assms
proof (induction as arbitrary: ps)
  case (Cons a as)
  show ?case
  proof (cases "expandAlternative opt ps a")
    case (Inr r)
    with Cons show ?thesis
      by (cases "expandAlternatives opt (snd r) as"; cases "fst r")
        (auto simp: expandAlternative_map case_prod_beta)
  qed (use Cons.prems in \<open>simp add: expandAlternative_map\<close>)
qed simp

lemma ExpandFailoverGroups_map:
  assumes "wf_selector s"
  shows "ExpandFailoverGroups (Some (map_selector f s)) opt ps
       = map_sum id (\<lambda>(gs, r). (map (on_group f) gs, r)) (ExpandFailoverGroups (Some s) opt ps)"
proof -
  have "\<forall>a \<in> set (Alternatives s). wf_alt a" using assms by (simp add: wf_selector_def)
  from expandAlternatives_map [OF this] show ?thesis
    by (cases "stickyAttemptGroup (Some s) opt ps"; cases "expandAlternatives opt ps (Alternatives s)")
      (auto simp: ExpandFailoverGroups_def stickyAttemptGroup_map reorderPreferredGroups_map)
qed

lemma branch_candidates_map:
  "wbParallel b = None \<or> \<not> IsFirst b \<Longrightarrow>
     branch_candidates aware k (map_branch f b) = map (on_candidate f) (branch_candidates aware k b)"
  by (cases "wbParallel b")
    (auto simp: branch_candidates_def plain_cand thinker_tag_def on_candidate_def Let_def)

lemma alt_candidates_map: "wf_alt a \<Longrightarrow> alt_candidates (map_alt f a) = map (on_candidate f) (alt_candidates a)"
proof (erule wf_alt_cases)
  fix w
  assume w: "altPrimary a = None" "altWeighted a = Some w" "wf_weighted w"
  then have "\<forall>b \<in> set (wBranches w). wbParallel b = None \<or> \<not> IsFirst b"
    by (auto simp: wf_weighted_def wf_branch_def split: option.splits)
  then have "concat (map (branch_candidates aware k) (map (map_branch f) (wBranches w)))
      = map (on_candidate f) (concat (map (branch_candidates aware k) (wBranches w)))" for aware k
    by (induction "wBranches w" arbitrary: w) (auto simp: branch_candidates_map map_concat comp_def cong: map_cong)
  with w show ?thesis by (simp add: alt_candidates_def map_alt_def Let_def list_ex_iff comp_def cong: if_cong)
qed (simp_all add: alt_candidates_def map_alt_def plain_cand comp_def)

lemma InitialCandidates_map:
  assumes "wf_selector s"
  shows "InitialCandidates (Some (map_selector f s)) = map (on_candidate f) (InitialCandidates (Some s))"
proof -
  have "concat (map alt_candidates (map (map_alt f) as)) = map (on_candidate f) (concat (map alt_candidates as))"
    if "\<forall>a \<in> set as. wf_alt a" for as
    using that by (induction as) (simp_all add: alt_candidates_map)
  with assms show ?thesis by (simp add: InitialCandidates_def wf_selector_def)
qed

end

interpretation binding: key_preserving "bound r" for r
  by unfold_locales simp_all

end
