(* ===== verification/Route_Candidates.thy ===== *)
theory Route_Candidates
  imports Route_Compile
begin

text \<open>
  The candidates of a compiled selector (\<open>InitialCandidates\<close>, used to assess a request
  before it is planned) against the plans of that selector, and the end-to-end properties
  of selector preparation and of the default route.
\<close>

section \<open>Planned candidates are initial candidates\<close>

text \<open>Equality up to the first mark, which planning may clear but never sets on its own.\<close>

definition initial_of :: "AttemptCandidate \<Rightarrow> AttemptCandidate \<Rightarrow> bool" where
  "initial_of i c \<longleftrightarrow> c\<lparr>MarkedFirst := MarkedFirst i\<rparr> = i \<and> (MarkedFirst c \<longrightarrow> MarkedFirst i)"

definition weighted_candidates :: "Weighted \<Rightarrow> AttemptCandidate list" where
  "weighted_candidates w =
     (let aware = list_ex IsThinker (wBranches w);
          selKey = (if aware then Join ''^'' (map branchKey (wBranches w)) else [])
      in concat (map (branch_candidates aware selKey) (wBranches w)))"

lemma alt_candidates_cases:
  "altPrimary a = Some p \<Longrightarrow> alt_candidates a = [plain_candidate p]"
  "altPrimary a = None \<Longrightarrow> altWeighted a = Some w \<Longrightarrow> alt_candidates a = weighted_candidates w"
  "altPrimary a = None \<Longrightarrow> altWeighted a = None \<Longrightarrow> altParallel a = Some g \<Longrightarrow>
     alt_candidates a = map parallel_candidate (pBranches g)"
  by (simp_all add: alt_candidates_def weighted_candidates_def)

lemma initial_of_refl [simp, intro]: "initial_of c c"
  by (simp add: initial_of_def)

lemma initial_self: "c \<in> S \<Longrightarrow> \<exists>i \<in> S. initial_of i c"
  by blast

lemma initial_by_mark:
  assumes "c\<lparr>MarkedFirst := m\<rparr> \<in> S" "MarkedFirst c \<longrightarrow> m"
  shows "\<exists>i \<in> S. initial_of i c"
  using assms by (intro bexI [of _ "c\<lparr>MarkedFirst := m\<rparr>"]) (simp_all add: initial_of_def)

lemma weighted_candidate_plain:
  assumes "b \<in> set (wBranches w)" "wbParallel b = None" "\<not> list_ex IsThinker (wBranches w)"
  shows "(plain_candidate (wbTarget b))\<lparr>MarkedFirst := IsFirst b\<rparr> \<in> set (weighted_candidates w)"
  using assms by (force simp: weighted_candidates_def branch_candidates_def thinker_tag_def)

lemma weighted_candidate_thinker:
  assumes "b \<in> set (wBranches w)" "wbParallel b = None" "list_ex IsThinker (wBranches w)"
  shows "(plain_candidate (wbTarget b))\<lparr>MarkedFirst := IsFirst b,
      InterleavedRole := (if IsThinker b then RoleThinker else RoleExecutor),
      acSelectorKey := snd (buildThinkerCycle w)\<rparr> \<in> set (weighted_candidates w)"
  using assms by (force simp: weighted_candidates_def branch_candidates_def thinker_tag_def buildThinkerCycle_def Let_def)

lemma weighted_candidate_leg:
  assumes "b \<in> set (wBranches w)" "wbParallel b = Some g" "leg \<in> set (pBranches g)" "\<not> IsFirst b"
    "list_ex IsThinker (wBranches w)"
  shows "(parallel_candidate leg)\<lparr>InterleavedRole := RoleExecutor, acSelectorKey := snd (buildThinkerCycle w)\<rparr>
      \<in> set (weighted_candidates w)"
  using assms
  by (force simp: weighted_candidates_def branch_candidates_def thinker_tag_def buildThinkerCycle_def Let_def)

lemma cycleCandidates_initial:
  assumes wf: "wf_weighted w" and thinker: "list_ex IsThinker (wBranches w)" and dist: "distinct_cycle w"
    and e: "e \<in> set (fst (buildThinkerCycle w))"
    and cs: "cycleCandidates w e (snd (buildThinkerCycle w)) opt = Some cs" and c: "c \<in> set cs"
  shows "\<exists>i \<in> set (weighted_candidates w). initial_of i c"
proof -
  from cycle_entry_in [OF e] obtain b where b: "b \<in> set (wBranches w)" "entryKey e = branchKey b"
    "entryRole e = (if IsThinker b then RoleThinker else RoleExecutor)" by blast
  have "distinct (map branchKey (wBranches w))" using dist thinker by (simp add: distinct_cycle_def)
  from find_distinct_key [OF this b(1)] b(2)
  have f: "find (\<lambda>b. branchKey b = entryKey e) (wBranches w) = Some b" by simp
  have wfb: "wf_branch b" using wf b(1) by (simp add: wf_weighted_def)
  show ?thesis
  proof (cases "wbParallel b")
    case None
    then have "entryKey e = Primary_String (wbTarget b)" using b(2) by (simp add: branchKey_def)
    with f cs c None b(3) have "c = (plain_candidate (wbTarget b))\<lparr>InterleavedRole := entryRole e,
        acSelectorKey := snd (buildThinkerCycle w)\<rparr>"
      by (auto simp: cycleCandidates_def plain_candidate_def split: if_splits)
    with weighted_candidate_thinker [OF b(1) None thinker] b(3) show ?thesis
      by (intro initial_by_mark [where m = "IsFirst b"]) (simp_all add: plain_candidate_def)
  next
    case (Some g)
    with wfb have nb: "\<not> IsThinker b" "\<not> IsFirst b" by (simp_all add: wf_branch_def)
    with f cs c Some b(3) obtain leg where leg: "leg \<in> set (pBranches g)"
      "c = (parallel_candidate leg)\<lparr>InterleavedRole := RoleExecutor, acSelectorKey := snd (buildThinkerCycle w)\<rparr>"
      by (auto simp: cycleCandidates_def Let_def expandParallel_def split: if_splits)
    with weighted_candidate_leg [OF b(1) Some leg(1) nb(2) thinker] show ?thesis
      by (intro initial_self) simp
  qed
qed

lemma pickThinkerCycle_initial:
  assumes wf: "wf_weighted w" and thinker: "list_ex IsThinker (wBranches w)" and dist: "distinct_cycle w"
    and ok: "pickThinkerCycle w opt ps = Inr (cs, r)" and c: "c \<in> set cs"
  shows "\<exists>i \<in> set (weighted_candidates w). initial_of i c"
proof -
  obtain es k where bt: "buildThinkerCycle w = (es, k)" by fastforce
  let ?P = "\<lambda>b. IsFirst b \<and> candidateEligible (wbTarget b) (Primary_String (wbTarget b)) opt"
  show ?thesis
  proof (cases "first_allowed opt ps \<and> find ?P (wBranches w) \<noteq> None")
    case True
    then obtain b where b: "find ?P (wBranches w) = Some b" by auto
    then have bin: "b \<in> set (wBranches w)" "IsFirst b" by (auto dest: find_Some_set)
    then have "wf_branch b" using wf by (simp add: wf_weighted_def)
    with bin(2) have nb: "wbParallel b = None" "\<not> IsThinker b" by (auto simp: wf_branch_def split: option.splits)
    from ok True b bt c have "c = (plain_candidate (wbTarget b))
        \<lparr>MarkedFirst := True, InterleavedRole := RoleExecutor, acSelectorKey := k\<rparr>"
      by (auto simp: pickThinkerCycle_def Let_def)
    with weighted_candidate_thinker [OF bin(1) nb(1) thinker] bin(2) nb(2) bt show ?thesis
      by (intro initial_by_mark [where m = True]) (simp_all add: plain_candidate_def)
  next
    case False
    then have fs: "(if first_allowed opt ps then find ?P (wBranches w) else None) = None" by auto
    from ok obtain start nx where loop: "cycleLoop w opt es k start [0..<length es] = Some (cs, nx)"
      unfolding pickThinkerCycle_def bt Let_def prod.case fs by (auto split: option.splits prod.splits)
    from cycleLoop_Some [OF loop] obtain i where
      i: "i < length es" "cycleCandidates w (es ! nat ((start + int i) mod int (length es))) k opt = Some cs"
      by (auto simp: Let_def)
    have "0 < int (length es)" using i(1) by linarith
    then have "nat ((start + int i) mod int (length es)) < length es"
      by (metis nat_less_iff pos_mod_bound pos_mod_sign)
    then have "es ! nat ((start + int i) mod int (length es)) \<in> set (fst (buildThinkerCycle w))" using bt by simp
    from cycleCandidates_initial [OF wf thinker dist this _ c] i(2) bt show ?thesis by simp
  qed
qed

lemma pickWeighted_initial:
  assumes wf: "wf_weighted w" and rng: "rng_ok opt" and dist: "distinct_cycle w"
    and ok: "pickWeighted w opt ps = Inr (cs, r)" and c: "c \<in> set cs"
  shows "\<exists>i \<in> set (weighted_candidates w). initial_of i c"
proof (cases "list_ex IsThinker (wBranches w)")
  case True
  with ok have "pickThinkerCycle w opt ps = Inr (cs, r)" by (simp add: pickWeighted_def split: if_splits)
  from pickThinkerCycle_initial [OF wf True dist this c] show ?thesis .
next
  case False
  with ok wf obtain d cf ps' where d: "pickWeightedLegacy w opt ps = Inr (d, cf, ps')" "cs = [d]"
    by (auto simp: pickWeighted_def wf_weighted_def split: sum.splits prod.splits if_splits)
  have "\<exists>b \<in> set (wBranches w). \<exists>m. d = (plain_candidate (wbTarget b))\<lparr>MarkedFirst := m\<rparr> \<and> (m \<longrightarrow> IsFirst b)"
    by (cases rule: pickWeightedLegacy_cases [OF wf rng, of ps, case_names none first large rolled])
      (use d in \<open>auto simp: eligible_branches_set rolled_candidate_def\<close>)
  then obtain b m where b: "b \<in> set (wBranches w)" "d = (plain_candidate (wbTarget b))\<lparr>MarkedFirst := m\<rparr>" "m \<longrightarrow> IsFirst b"
    by blast
  moreover have "wbParallel b = None" using wf_plain_branches [OF wf False b(1)] by simp
  ultimately show ?thesis using weighted_candidate_plain [OF b(1) _ False] d(2) c
    by (intro initial_by_mark [where m = "IsFirst b"]) simp_all
qed

lemma sticky_branch_initial:
  assumes "b \<in> set (wBranches w)" "wf_branch b"
    and r: "r = sticky_finish opt ps (sticky_cycle w) b role d"
    and d: "(wbParallel b = None \<and> d = plain_candidate (wbTarget b) \<and> role = (if IsThinker b then RoleThinker else RoleExecutor))
      \<or> (\<exists>g leg. wbParallel b = Some g \<and> leg \<in> set (pBranches g) \<and> d = parallel_candidate leg \<and> role = RoleExecutor
            \<and> list_ex IsThinker (wBranches w))"
  shows "\<exists>i \<in> set (weighted_candidates w). initial_of i (fst r)"
  using d
proof
  assume p: "wbParallel b = None \<and> d = plain_candidate (wbTarget b) \<and> role = (if IsThinker b then RoleThinker else RoleExecutor)"
  show ?thesis
  proof (cases "list_ex IsThinker (wBranches w)")
    case True
    with weighted_candidate_thinker [OF assms(1) _ True] p show ?thesis
      by (intro initial_by_mark [where m = "IsFirst b"])
        (simp_all add: r sticky_finish_def sticky_cycle_def Let_def case_prod_beta plain_candidate_def)
  next
    case False
    with weighted_candidate_plain [OF assms(1) _ False] p show ?thesis
      by (intro initial_by_mark [where m = "IsFirst b"])
        (simp_all add: r sticky_finish_def sticky_cycle_def Let_def)
  qed
next
  assume "\<exists>g leg. wbParallel b = Some g \<and> leg \<in> set (pBranches g) \<and> d = parallel_candidate leg \<and> role = RoleExecutor
            \<and> list_ex IsThinker (wBranches w)"
  then obtain g leg where p: "wbParallel b = Some g" "leg \<in> set (pBranches g)" "d = parallel_candidate leg"
    "role = RoleExecutor" "list_ex IsThinker (wBranches w)" by blast
  then have "\<not> IsFirst b" using assms(2) by (simp add: wf_branch_def)
  with weighted_candidate_leg [OF assms(1) p(1,2) this p(5)] p show ?thesis
    by (intro initial_by_mark [where m = False])
      (simp_all add: r sticky_finish_def sticky_cycle_def Let_def case_prod_beta parallel_candidate_def plain_candidate_def)
qed

lemma sticky_branches_initial:
  assumes wf: "wf_weighted w" and "sticky_branches opt ps bk (sticky_cycle w) bs = Some r" "set bs \<subseteq> set (wBranches w)"
  shows "\<exists>i \<in> set (weighted_candidates w). initial_of i (fst r)"
  using assms(2,3)
proof (induction bs)
  case (Cons b bs)
  have b: "b \<in> set (wBranches w)" "wf_branch b" using Cons.prems(2) wf by (auto simp: wf_weighted_def)
  have th: "wbParallel b \<noteq> None \<Longrightarrow> list_ex IsThinker (wBranches w)"
    using b(1) wf by (auto simp: wf_weighted_def list_ex_iff)
  show ?case
  proof (cases "sticky_branches opt ps bk (sticky_cycle w) bs = Some r")
    case True
    with Cons show ?thesis by simp
  next
    case False
    show ?thesis
    proof (cases "wbParallel b")
      case None
      with Cons.prems(1) False have "r = sticky_finish opt ps (sticky_cycle w) b
          (if IsThinker b then RoleThinker else RoleExecutor) (plain_candidate (wbTarget b))"
        by (auto split: if_splits)
      from sticky_branch_initial [OF b this] None show ?thesis by simp
    next
      case (Some g)
      with Cons.prems(1) False obtain leg where "leg \<in> set (pBranches g)"
        "r = sticky_finish opt ps (sticky_cycle w) b RoleExecutor (parallel_candidate leg)"
        by (auto split: if_splits option.splits dest: find_Some_set)
      with sticky_branch_initial [OF b this(2)] Some th show ?thesis by auto
    qed
  qed
qed simp

lemma sticky_alternatives_initial:
  assumes "\<forall>a \<in> set as. wf_alt a" "sticky_alternatives opt ps bk as = Some r"
  shows "\<exists>i \<in> set (concat (map alt_candidates as)). initial_of i (fst r)"
  using assms
proof (induction as)
  case (Cons a as)
  show ?case
  proof (cases "sticky_alternative opt ps bk a")
    case None
    with Cons show ?thesis by auto
  next
    case (Some r')
    with Cons.prems have r: "sticky_alternative opt ps bk a = Some r" "wf_alt a" by simp_all
    have "\<exists>i \<in> set (alt_candidates a). initial_of i (fst r)"
      using r(2)
    proof (cases rule: wf_alt_cases)
      case (weighted w)
      with r(1) sticky_branches_initial [OF weighted(3), of opt ps bk "wBranches w" r] show ?thesis
        by (simp add: sticky_alternative_def alt_candidates_cases)
    next
      case (parallel g)
      with r(1) obtain leg where "leg \<in> set (pBranches g)" "fst r = parallel_candidate leg"
        by (auto simp: sticky_alternative_def split: option.splits dest!: find_Some_set)
      with parallel show ?thesis by (intro initial_self) (simp add: alt_candidates_cases)
    qed (use r(1) in \<open>auto simp: sticky_alternative_def alt_candidates_cases split: if_splits\<close>)
    then show ?thesis by auto
  qed
qed simp

lemma expandAlternative_initial:
  assumes "wf_alt a" "rng_ok opt" "alt_distinct_cycle a" "expandAlternative opt ps a = Inr (Some g, ps')" "c \<in> set (Candidates g)"
  shows "\<exists>i \<in> set (alt_candidates a). initial_of i c"
  using assms(1)
proof (cases rule: wf_alt_cases)
  case (primary p)
  with assms(4,5) show ?thesis by (auto simp: expandAlternative_def alt_candidates_cases Let_def split: if_splits)
next
  case (weighted w)
  with assms(4) obtain cs r where p: "pickWeighted w opt ps = Inr (cs, r)" "Candidates g = cs"
    by (auto simp: expandAlternative_def split: sum.splits prod.splits plan_error.splits)
  from pickWeighted_initial [OF weighted(3) assms(2) _ p(1), of c] assms(3,5) weighted p(2) show ?thesis
    by (simp add: alt_distinct_cycle_def alt_candidates_cases)
next
  case (parallel gr)
  with assms(4,5) have "c \<in> set (expandParallel gr opt)"
    using reorderPreferredCandidates_keys(1) by (fastforce simp: expandAlternative_def Let_def split: if_splits)
  with parallel show ?thesis by (auto simp: expandParallel_def alt_candidates_cases)
qed

lemma expandAlternatives_initial:
  assumes "\<forall>a \<in> set as. wf_alt a \<and> alt_distinct_cycle a" "rng_ok opt" "expandAlternatives opt ps as = Inr (gs, ps')"
    "g \<in> set gs" "c \<in> set (Candidates g)"
  shows "\<exists>i \<in> set (concat (map alt_candidates as)). initial_of i c"
  using assms
proof (induction as arbitrary: ps gs)
  case (Cons a as)
  from Cons.prems(3) obtain r ps1 gs1 where r: "expandAlternative opt ps a = Inr (r, ps1)"
    "expandAlternatives opt ps1 as = Inr (gs1, ps')" "gs = (case r of None \<Rightarrow> gs1 | Some g \<Rightarrow> g # gs1)"
    by (auto split: sum.splits prod.splits)
  show ?case
  proof (cases "g \<in> set gs1")
    case True
    from Cons.IH [OF _ Cons.prems(2) r(2) True Cons.prems(5)] Cons.prems(1) show ?thesis by auto
  next
    case False
    with Cons.prems(4) r(3) have "r = Some g" by (auto split: option.splits)
    with expandAlternative_initial [OF _ Cons.prems(2) _ _ Cons.prems(5), of a ps ps1] Cons.prems(1) r(1)
    show ?thesis by auto
  qed
qed simp

text \<open>Thinker groups whose entries have their own keys; see \<open>distinct_cycle\<close>.\<close>

definition distinct_cycles :: "Selector \<Rightarrow> bool" where
  "distinct_cycles sel \<longleftrightarrow> (\<forall>alt \<in> set (Alternatives sel). alt_distinct_cycle alt)"

lemma planned_initial:
  assumes wf: "wf_selector sel" and rng: "rng_ok opt" and dist: "distinct_cycles sel"
    and ok: "ExpandFailoverGroups (Some sel) opt ps = Inr (groups, ps')" "g \<in> set groups" "c \<in> set (Candidates g)"
  shows "\<exists>i \<in> set (InitialCandidates (Some sel)). initial_of i c"
proof (cases "stickyAttemptGroup (Some sel) opt ps")
  case (Some gr)
  then obtain n where n: "sticky_alternatives opt ps (TrimSpace (StickyBackendID opt)) (Alternatives sel) = Some (c, n)"
    using ok by (auto simp: ExpandFailoverGroups_def stickyAttemptGroup_def stickyCandidate_def Let_def
        split: option.splits if_splits)
  from sticky_alternatives_initial [OF _ n] wf show ?thesis by (simp add: InitialCandidates_def wf_selector_def)
next
  case None
  with ok obtain gs where gs: "expandAlternatives opt ps (Alternatives sel) = Inr (gs, ps')"
    "groups = reorderPreferredGroups gs (PreferredCandidateKeys opt)"
    by (auto simp: ExpandFailoverGroups_def split: sum.splits prod.splits if_splits)
  have "set groups = set gs" unfolding gs(2) by (rule mset_eq_setD) (rule reorderPreferredGroups_perm)
  with expandAlternatives_initial [OF _ rng gs(1) _ ok(3)] ok(2) wf dist show ?thesis
    by (simp add: InitialCandidates_def wf_selector_def distinct_cycles_def)
qed


section \<open>Every initial candidate can be planned\<close>

lemma branch_candidates_keys: "map acKey (branch_candidates aware k b) = map Primary_String (branch_leaves b)"
  by (auto simp: branch_candidates_def branch_leaves_def thinker_tag_def Let_def split: option.splits)

lemma alt_candidates_keys: "wf_alt a \<Longrightarrow> map acKey (alt_candidates a) = map Primary_String (alt_leaves a)"
proof (erule wf_alt_cases)
  fix w
  have "map acKey (concat (map (branch_candidates aware k) bs)) = map Primary_String (concat (map branch_leaves bs))"
    for aware k and bs :: "WeightedBranch list"
    by (induction bs) (simp_all add: branch_candidates_keys)
  moreover assume "altPrimary a = None" "altWeighted a = Some w"
  ultimately show ?thesis by (simp add: alt_candidates_def alt_leaves_def Let_def)
qed (simp_all add: alt_candidates_cases)

lemma InitialCandidates_keys:
  assumes "wf_selector sel"
  shows "map acKey (InitialCandidates (Some sel)) = map Primary_String (selector_leaves sel)"
proof -
  have "map acKey (concat (map alt_candidates as)) = map Primary_String (concat (map alt_leaves as))"
    if "\<forall>a \<in> set as. wf_alt a" for as
    using that by (induction as) (simp_all add: alt_candidates_keys)
  with assms show ?thesis by (simp add: InitialCandidates_def selector_leaves_def wf_selector_def)
qed

text \<open>The options that leave only the candidate with key \<open>k\<close>.\<close>

definition only_key :: "Selector \<Rightarrow> string \<Rightarrow> PlanOptions" where
  "only_key sel k = default_options\<lparr>Excluded := set (map Primary_String (selector_leaves sel)) - {k}\<rparr>"

lemma only_key_rng [simp]: "rng_ok (only_key sel k)"
  by (simp add: rng_ok_def only_key_def default_options_def)

lemma only_key_eligible: "candidateEligible p j (only_key sel k) \<longleftrightarrow> j = k \<or> j \<notin> Primary_String ` set (selector_leaves sel)"
  by (auto simp: candidateEligible_iff only_key_def default_options_def requestSizeEligible_def)

lemma alt_offered_only_key: "alt_offered_leaves (only_key sel k) a = set (alt_leaves a)"
  by (auto simp: alt_offered_leaves_def offered_branches_def only_key_def default_options_def alt_leaves_def
      split: option.splits)

lemma distinct_sublist_keys:
  "distinct (map h (concat (map F as))) \<Longrightarrow> a \<in> set as \<Longrightarrow> distinct (map h (F a))"
  by (induction as) auto

lemma only_key_weight:
  assumes wf: "wf_selector sel" and dist: "distinct (map Primary_String (selector_leaves sel))"
    and a: "alt \<in> set (Alternatives sel)" "altWeighted alt = Some w" "\<not> list_ex IsThinker (wBranches w)"
  shows "weight_sum (eligible_branches w (only_key sel k)) \<le> MaxInt64"
proof -
  have wfa: "wf_alt alt" using wf a(1) by (simp add: wf_selector_def)
  with a(2) have w: "wf_weighted w" "altPrimary alt = None" by (auto simp: wf_alt_def split: option.splits)
  have par: "wbParallel b = None" if "b \<in> set (wBranches w)" for b
    using wf_plain_branches [OF w(1) a(3) that] by simp
  then have "concat (map branch_leaves bs) = map wbTarget bs" if "set bs \<subseteq> set (wBranches w)" for bs
    using that by (induction bs) (auto simp: branch_leaves_def)
  then have leaves: "alt_leaves alt = map wbTarget (wBranches w)" using w(2) a(2) by (simp add: alt_leaves_def)
  have sub: "set (alt_leaves alt) \<subseteq> set (selector_leaves sel)" using a(1) by (auto simp: selector_leaves_def)
  have "distinct (map Primary_String (alt_leaves alt))"
    using distinct_sublist_keys [OF dist [unfolded selector_leaves_def] a(1)] .
  then have d: "distinct (map (\<lambda>b. Primary_String (wbTarget b)) (wBranches w))" by (simp add: leaves comp_def)
  let ?el = "eligible_branches w (only_key sel k)"
  have same: "Primary_String (wbTarget b) = k" if "b \<in> set ?el" for b
    using that sub leaves by (auto simp: eligible_branches_set only_key_eligible)
  have "distinct (map (\<lambda>b. Primary_String (wbTarget b)) ?el)"
    using d by (simp add: eligible_branches_def distinct_map_filter)
  moreover have "set (map (\<lambda>b. Primary_String (wbTarget b)) ?el) \<subseteq> {k}" using same by auto
  ultimately have "length ?el \<le> 1"
    by (metis (no_types, lifting) card_mono distinct_card finite.emptyI finite.insertI is_singletonI
        is_singleton_altdef length_map)
  moreover have "Weight b \<le> MaxInt64" if "b \<in> set ?el" for b
    using that w(1) by (auto simp: eligible_branches_set wf_weighted_def wf_branch_def)
  ultimately show ?thesis
    by (cases ?el) (auto simp: effectiveWeight_def)
qed

lemma initial_planned:
  assumes wf: "wf_selector sel" and dist: "distinct_cycles sel" "distinct (map Primary_String (selector_leaves sel))"
    and i: "i \<in> set (InitialCandidates (Some sel))"
  shows "\<exists>groups ps'. ExpandFailoverGroups (Some sel) (only_key sel (acKey i)) ps = Inr (groups, ps')
     \<and> (\<exists>g \<in> set groups. \<exists>c \<in> set (Candidates g). initial_of i c)"
proof -
  let ?opt = "only_key sel (acKey i)"
  have keys: "acKey i \<in> Primary_String ` set (selector_leaves sel)"
    using InitialCandidates_keys [OF wf] i by (metis image_eqI list.set_map)
  show ?thesis
  proof (cases "ExpandFailoverGroups (Some sel) ?opt ps")
    case (Inl e)
    from keys obtain p where p: "p \<in> set (selector_leaves sel)" "acKey i = Primary_String p" by blast
    then obtain a where a: "a \<in> set (Alternatives sel)" "p \<in> set (alt_leaves a)" by (auto simp: selector_leaves_def)
    have "candidateEligible p (Primary_String p) ?opt" by (simp add: only_key_eligible p(2))
    moreover have "\<forall>alt \<in> set (Alternatives sel). alt_distinct_cycle alt" using dist(1) by (simp add: distinct_cycles_def)
    moreover note ExpandFailoverGroups_error [OF wf only_key_rng this Inl]
    ultimately have "\<exists>alt \<in> set (Alternatives sel). \<exists>w. altWeighted alt = Some w \<and> \<not> list_ex IsThinker (wBranches w)
        \<and> weight_sum (eligible_branches w ?opt) > MaxInt64"
      using a by (auto simp: alt_offered_only_key)
    with only_key_weight [OF wf dist(2)] have False by (meson not_le)
    then show ?thesis ..
  next
    case (Inr r)
    obtain groups ps' where r: "ExpandFailoverGroups (Some sel) ?opt ps = Inr (groups, ps')" using Inr by (cases r) auto
    from ExpandFailoverGroups_good [OF wf only_key_rng r] obtain g where g: "g \<in> set groups"
      "good_group ?opt (set (selector_leaves sel)) (Candidates g)" by (metis list.set_intros(1) neq_Nil_conv)
    then obtain c where c: "c \<in> set (Candidates g)" "good_candidate ?opt (set (selector_leaves sel)) c"
      by (cases "Candidates g") (auto simp: good_group_def)
    from planned_initial [OF wf only_key_rng dist(1) r g(1) c(1)] obtain j where
      j: "j \<in> set (InitialCandidates (Some sel))" "initial_of j c" by blast
    have "acKey c = acKey i" using c(2) by (auto simp: good_candidate_def only_key_eligible)
    moreover have "acKey c = acKey j" using j(2) by (metis initial_of_def AttemptCandidate.select_convs(2)
      AttemptCandidate.surjective AttemptCandidate.update_convs(3))
    moreover have "distinct (map acKey (InitialCandidates (Some sel)))" using InitialCandidates_keys [OF wf] dist(2) by simp
    ultimately have "j = i" using i j(1) by (metis distinct_map inj_onD)
    with r g(1) c(1) j(2) show ?thesis by blast
  qed
qed


section \<open>Prepared selectors\<close>

lemma alt_distinct_cycle_map [simp]: "alt_distinct_cycle (map_alt (bound r) a) = alt_distinct_cycle a"
  by (cases "altPrimary a"; cases "altWeighted a")
    (simp_all add: alt_distinct_cycle_def distinct_cycle_def map_alt_def list_ex_iff comp_def)

lemma PrepareSelector_bound:
  assumes "PrepareSelector R raw aliases d classes policy resolver = Inr sel"
  shows "\<exists>sel0. CompileSelector R raw aliases d = Inr sel0
    \<and> ValidateExecutionComposition (Some sel0) classes policy = None
    \<and> sel = (case resolver of None \<Rightarrow> sel0 | Some r \<Rightarrow> map_selector (bound r) sel0)"
proof -
  from assms obtain sel0 where s: "CompileSelector R raw aliases d = Inr sel0"
    "ValidateExecutionComposition (Some sel0) classes policy = None"
    and b: "snd (BindNativeModelIDs resolver (Some sel0)) = None"
      "sel = (case fst (BindNativeModelIDs resolver (Some sel0)) of None \<Rightarrow> sel0 | Some b \<Rightarrow> b)"
    by (auto simp: PrepareSelector_def split: sum.splits option.splits prod.splits)
  from b have "sel = (case resolver of None \<Rightarrow> sel0 | Some r \<Rightarrow> map_selector (bound r) sel0)"
    using BindNativeModelIDs_iff(2) [of _ sel0] by (cases resolver) (simp_all add: BindNativeModelIDs_def [of None])
  with s show ?thesis by blast
qed

lemma PrepareSelector_None:
  "PrepareSelector R raw aliases d classes policy None = Inr sel \<longleftrightarrow>
     CompileSelector R raw aliases d = Inr sel \<and> ValidateExecutionComposition (Some sel) classes policy = None"
  by (auto simp: PrepareSelector_def BindNativeModelIDs_def split: sum.splits option.splits)

text \<open>
  A selector that differs from another by a rewriting \<open>h\<close> of its leaves that planning does
  not see: everything proved of the plans of the one holds for the other.
\<close>

definition rewritten :: "(Primary \<Rightarrow> Primary) \<Rightarrow> Selector \<Rightarrow> Selector \<Rightarrow> bool" where
  "rewritten h sel0 sel \<longleftrightarrow>
     (\<forall>opt ps. ExpandFailoverGroups (Some sel) opt ps
       = map_sum id (\<lambda>(gs, p). (map (on_group h) gs, p)) (ExpandFailoverGroups (Some sel0) opt ps))
     \<and> InitialCandidates (Some sel) = map (on_candidate h) (InitialCandidates (Some sel0))
     \<and> selector_leaves sel = map h (selector_leaves sel0) \<and> distinct_cycles sel = distinct_cycles sel0
     \<and> (\<forall>p. Backend (h p) = Backend p \<and> Primary_String (h p) = Primary_String p)
     \<and> IsDirectPrimary (Some sel) = IsDirectPrimary (Some sel0)"

lemma rewritten_refl: "rewritten (\<lambda>p. p) sel sel"
proof -
  have c: "on_candidate (\<lambda>p. p) = (\<lambda>c. c)" by (simp add: fun_eq_iff on_candidate_def)
  have "on_group (\<lambda>p. p) = (\<lambda>g. g)" by (intro ext) (simp add: on_group_def c)
  then have "map_sum id (\<lambda>(gs, p). (map (on_group (\<lambda>p. p)) gs, p)) x = x"
    for x :: "plan_error + (AttemptGroup list \<times> plan_state)" by (cases x) auto
  with c show ?thesis by (simp add: rewritten_def)
qed

lemma rewritten_bound:
  assumes "wf_selector sel0"
  shows "rewritten (bound r) sel0 (map_selector (bound r) sel0)"
proof -
  have "altPrimary (map_alt (bound r) a) = None \<longleftrightarrow> altPrimary a = None" for a
    by (simp add: map_alt_def split: option.splits)
  then show ?thesis
    by (auto simp: rewritten_def binding.ExpandFailoverGroups_map [OF assms] binding.InitialCandidates_map [OF assms]
        distinct_cycles_def IsDirectPrimary_def split: list.splits)
qed

lemma prepared_rewritten:
  assumes "PrepareSelector R raw aliases d classes policy resolver = Inr sel" "CHR ''|'' \<notin> set d"
  obtains h sel0 where "CompileSelector R raw aliases d = Inr sel0" "wf_selector sel0" "rewritten h sel0 sel"
    "ValidateExecutionComposition (Some sel0) classes policy = None"
proof -
  obtain sel0 where s: "CompileSelector R raw aliases d = Inr sel0"
    "ValidateExecutionComposition (Some sel0) classes policy = None"
    "sel = (case resolver of None \<Rightarrow> sel0 | Some r \<Rightarrow> map_selector (bound r) sel0)"
    using PrepareSelector_bound [OF assms(1)] by blast
  note wf = CompileSelector_wf(1) [OF s(1) assms(2)]
  show thesis
  proof (cases resolver)
    case None
    with s that [OF s(1) wf] rewritten_refl show thesis by auto
  next
    case (Some r)
    with s that [OF s(1) wf] rewritten_bound [OF wf, of r] show thesis by auto
  qed
qed

lemma rewritten_group:
  assumes "rewritten h sel0 sel" "ExpandFailoverGroups (Some sel) opt ps = Inr (groups, ps')" "g \<in> set groups" "c \<in> set (Candidates g)"
  obtains gs0 g0 c0 where "ExpandFailoverGroups (Some sel0) opt ps = Inr (gs0, ps')" "g0 \<in> set gs0" "c0 \<in> set (Candidates g0)"
    "c = on_candidate h c0"
proof -
  from assms(1,2) obtain gs0 where "ExpandFailoverGroups (Some sel0) opt ps = Inr (gs0, ps')" "groups = map (on_group h) gs0"
    by (auto simp: rewritten_def map_sum_def split: sum.splits)
  with assms(3,4) that show thesis by auto
qed

lemma initial_of_rewritten: "initial_of i c \<Longrightarrow> initial_of (on_candidate h i) (on_candidate h c)"
  by (cases c; cases i) (simp add: initial_of_def on_candidate_def)

text \<open>The default backend of the source comes from a parsed route and is never a separator.\<close>

lemma default_backend_loop_ok:
  "\<forall>a \<in> set as. wf_alt a \<Longrightarrow> default_backend_loop as = Inr b \<Longrightarrow> CHR ''|'' \<notin> set b \<and> \<not> blank b"
proof (induction as)
  case (Cons a as)
  have ok: "CHR ''|'' \<notin> set b \<and> \<not> blank b" if "wf_primary p" "backend_or e p = Inr b" for e p
    using that set_TrimSpace [of "Backend p"]
    by (auto simp: backend_or_def Let_def wf_primary_def blank_def split: if_splits)
  have "wf_alt a" using Cons.prems(1) by simp
  then show ?case
  proof (cases rule: wf_alt_cases)
    case (primary p)
    with Cons.prems(2) ok show ?thesis by auto
  next
    case (weighted w)
    then obtain x xs where x: "wBranches w = x # xs" "wf_branch x"
      by (cases "wBranches w") (auto simp: wf_weighted_def)
    with weighted Cons.prems(2) ok show ?thesis
      by (auto simp: defaultBackendFromWeightedBranch_def wf_branch_def wf_parallel_def split: option.splits list.splits)
  next
    case (parallel g)
    then obtain x xs where x: "pBranches g = x # xs" "wf_primary (pbTarget x)"
      by (cases "pBranches g") (auto simp: wf_parallel_def)
    with parallel Cons.prems(2) ok show ?thesis by auto
  qed
qed simp

lemma Parse_trim: "Parse (TrimSpace s) = Parse s"
  by (simp add: Parse_def)

lemma DefaultBackend_ok:
  assumes "DefaultBackendFromRouteSelector s = Inr b" "\<not> blank s"
  obtains sel where "Parse s = Inr sel" "CHR ''|'' \<notin> set b" "\<not> blank b"
proof -
  from assms obtain sel where p: "Parse s = Inr sel" "default_backend_loop (Alternatives sel) = Inr b"
    by (auto simp: DefaultBackendFromRouteSelector_def blank_def Let_def Parse_trim split: sum.splits)
  from default_backend_loop_ok [OF _ p(2)] Parse_wf [OF p(1)] that [OF p(1)] show thesis
    by (simp add: wf_selector_def)
qed

section \<open>Properties\<close>

text \<open>
  C10: The candidates assessed before planning are the candidates planning can choose. For a
  selector that preparation accepts, with distinct leaf keys and distinct keys inside thinker
  groups, every candidate of every plan, whatever the options, the random source and the
  session are, is one of the initial candidates up to its first mark; and every initial
  candidate is chosen by some plan.
\<close>

theorem initial_candidates_exact:
  assumes "ComposeInitialCandidates R raw aliases d classes policy resolver = Inr (cands, sel)" "CHR ''|'' \<notin> set d"
    and "distinct_cycles sel" "distinct (map Primary_String (selector_leaves sel))"
  shows "(\<forall>opt ps groups ps'. rng_ok opt \<longrightarrow> ExpandFailoverGroups (Some sel) opt ps = Inr (groups, ps') \<longrightarrow>
           (\<forall>g \<in> set groups. \<forall>c \<in> set (Candidates g). \<exists>i \<in> set cands. initial_of i c))
       \<and> (\<forall>i \<in> set cands. \<exists>opt ps groups ps'. rng_ok opt \<and> ExpandFailoverGroups (Some sel) opt ps = Inr (groups, ps')
           \<and> (\<exists>g \<in> set groups. \<exists>c \<in> set (Candidates g). initial_of i c))"
proof -
  from assms(1) have prep: "PrepareSelector R raw aliases d classes policy resolver = Inr sel"
    and cands: "cands = InitialCandidates (Some sel)"
    by (auto simp: ComposeInitialCandidates_def split: sum.splits)
  obtain h sel0 where wf: "wf_selector sel0" and h: "rewritten h sel0 sel"
    using prepared_rewritten [OF prep assms(2)] by blast
  have dist: "distinct_cycles sel0" "distinct (map Primary_String (selector_leaves sel0))"
    using assms(3,4) h by (simp_all add: rewritten_def comp_def)
  have cands0: "cands = map (on_candidate h) (InitialCandidates (Some sel0))" using cands h by (simp add: rewritten_def)
  have "\<exists>i \<in> set cands. initial_of i c"
    if "rng_ok opt" "ExpandFailoverGroups (Some sel) opt ps = Inr (groups, ps')" "g \<in> set groups" "c \<in> set (Candidates g)"
    for opt ps groups ps' g c
  proof -
    from rewritten_group [OF h that(2-4)] obtain gs0 g0 c0 where
      "ExpandFailoverGroups (Some sel0) opt ps = Inr (gs0, ps')" "g0 \<in> set gs0" "c0 \<in> set (Candidates g0)"
      "c = on_candidate h c0" by blast
    with planned_initial [OF wf that(1) dist(1) this(1-3)] initial_of_rewritten show ?thesis by (auto simp: cands0)
  qed
  moreover have "\<exists>opt ps groups ps'. rng_ok opt \<and> ExpandFailoverGroups (Some sel) opt ps = Inr (groups, ps')
           \<and> (\<exists>g \<in> set groups. \<exists>c \<in> set (Candidates g). initial_of i c)" if "i \<in> set cands" for i
  proof -
    from that obtain i0 where i0: "i0 \<in> set (InitialCandidates (Some sel0))" "i = on_candidate h i0"
      by (auto simp: cands0)
    let ?ps = "\<lparr>psSession = None, psRolls = 0\<rparr>"
    from initial_planned [OF wf dist i0(1), of ?ps] obtain gs ps' g c where
      e: "ExpandFailoverGroups (Some sel0) (only_key sel0 (acKey i0)) ?ps = Inr (gs, ps')"
      "g \<in> set gs" "c \<in> set (Candidates g)" "initial_of i0 c" by blast
    then have "ExpandFailoverGroups (Some sel) (only_key sel0 (acKey i0)) ?ps = Inr (map (on_group h) gs, ps')"
      using h by (simp add: rewritten_def)
    moreover have "on_group h g \<in> set (map (on_group h) gs)" "on_candidate h c \<in> set (Candidates (on_group h g))"
      using e by simp_all
    moreover have "initial_of i (on_candidate h c)" using initial_of_rewritten [OF e(4)] i0(2) by simp
    ultimately show ?thesis using only_key_rng by blast
  qed
  ultimately show ?thesis by blast
qed


text \<open>A sample generation: one alias, matched literally, a default backend and two classified backends.\<close>

definition literal_regexp :: "string regexp" where
  "literal_regexp = \<lparr>Compile = Some, MatchString = (\<lambda>re s. re = s), ReplaceAllString = (\<lambda>re s t. t)\<rparr>"

definition sample_aliases :: "string AliasResolver" where
  "sample_aliases = Some [\<lparr>alRe = ''fast'', alReplacement = ''[thinker]a:m^n|b:o''\<rparr>]"

definition sample_classes :: BackendExecutionResolver where
  "sample_classes i = (if i = ''a'' \<or> i = ''b'' then Some BackendExecutionInference
     else if i = ''agent'' then Some ''agent_runtime'' else None)"

definition sample_registry :: NativeModelResolver where
  "sample_registry b m = (if b = ''b'' \<and> m = ''o''
     then \<lparr>mbKind = ModelBindingExactCanonical, mbNative = ''o-2024''\<rparr> else \<lparr>mbKind = ModelBindingUnknown, mbNative = []\<rparr>)"

theorem initial_candidates_exact_witness:
  "\<exists>cands sel. ComposeInitialCandidates literal_regexp ''fast'' sample_aliases ''b'' (Some sample_classes) [] (Some sample_registry)
       = Inr (cands, sel)
     \<and> map acKey cands = [''a:m'', ''b:n'', ''b:o'']
     \<and> (\<exists>opt ps groups ps'. ExpandFailoverGroups (Some sel) opt ps = Inr (groups, ps')
           \<and> (\<exists>g \<in> set groups. \<exists>c \<in> set (Candidates g). initial_of (hd cands) c))"
proof -
  let ?r = "ComposeInitialCandidates literal_regexp ''fast'' sample_aliases ''b'' (Some sample_classes) [] (Some sample_registry)"
  have "(case ?r of Inl _ \<Rightarrow> False
      | Inr (cands, sel) \<Rightarrow> map acKey cands = [''a:m'', ''b:n'', ''b:o''] \<and> distinct_cycles sel
          \<and> distinct (map Primary_String (selector_leaves sel)))" by code_simp
  then obtain cands sel where r: "?r = Inr (cands, sel)" and k: "map acKey cands = [''a:m'', ''b:n'', ''b:o'']"
    and d: "distinct_cycles sel" "distinct (map Primary_String (selector_leaves sel))"
    by (auto split: sum.splits)
  have "hd cands \<in> set cands" using k by (cases cands) auto
  with initial_candidates_exact [OF r _ d] r k show ?thesis by fastforce
qed

text \<open>
  C22: Native model binding does not move traffic. When preparation succeeds with and without
  a registry, the two selectors give the same plans under all options, sessions and rolls,
  errors included, except that the primaries of the planned candidates carry the native ids
  the registry binds; keys, groups, order, roles and cursors are the same.
\<close>

theorem binding_preserves_plans:
  assumes "PrepareSelector R raw aliases d classes policy None = Inr sel"
    and "PrepareSelector R raw aliases d classes policy (Some r) = Inr sel'" "CHR ''|'' \<notin> set d"
  shows "ExpandFailoverGroups (Some sel') opt ps =
      (case ExpandFailoverGroups (Some sel) opt ps of
         Inl e \<Rightarrow> Inl e
       | Inr (groups, ps') \<Rightarrow> Inr (map (on_group (bound r)) groups, ps'))"
proof -
  have sel: "CompileSelector R raw aliases d = Inr sel" using assms(1) by (simp add: PrepareSelector_None)
  then have "sel' = map_selector (bound r) sel" using PrepareSelector_bound [OF assms(2)] by auto
  then show ?thesis
    by (simp add: binding.ExpandFailoverGroups_map [OF CompileSelector_wf(1) [OF sel assms(3)]] map_sum_def split: sum.splits)
qed

theorem binding_preserves_plans_witness:
  "\<exists>sel sel'. PrepareSelector literal_regexp ''fast'' sample_aliases ''b'' (Some sample_classes) [] None = Inr sel
     \<and> PrepareSelector literal_regexp ''fast'' sample_aliases ''b'' (Some sample_classes) [] (Some sample_registry) = Inr sel'
     \<and> map WireModel (selector_leaves sel') = [''m'', ''n'', ''o-2024'']
     \<and> ExpandFailoverGroups (Some sel') default_options \<lparr>psSession = None, psRolls = 0\<rparr> =
        (case ExpandFailoverGroups (Some sel) default_options \<lparr>psSession = None, psRolls = 0\<rparr> of
           Inl e \<Rightarrow> Inl e
         | Inr (groups, ps') \<Rightarrow> Inr (map (on_group (bound sample_registry)) groups, ps'))"
proof -
  let ?p = "PrepareSelector literal_regexp ''fast'' sample_aliases ''b'' (Some sample_classes) []"
  have "case ?p None of Inl _ \<Rightarrow> False | Inr _ \<Rightarrow> True"
    "case ?p (Some sample_registry) of Inl _ \<Rightarrow> False | Inr sel' \<Rightarrow> map WireModel (selector_leaves sel') = [''m'', ''n'', ''o-2024'']"
    by code_simp+
  then obtain sel sel' where "?p None = Inr sel" "?p (Some sample_registry) = Inr sel'"
    "map WireModel (selector_leaves sel') = [''m'', ''n'', ''o-2024'']" by (auto split: sum.splits)
  with binding_preserves_plans [OF this(1,2)] show ?thesis by auto
qed

text \<open>
  C20: Agent runtimes run only on direct routes. Under every policy but the unrestricted one,
  when a selector that preparation accepted plans a candidate whose configured backend is not
  an inference service, that selector is a single direct primary.
\<close>

theorem agent_runtimes_direct_only:
  assumes "PrepareSelector R raw aliases d classes policy resolver = Inr sel" "CHR ''|'' \<notin> set d"
    and "policy \<noteq> ExecutionCompositionUnrestricted" "rng_ok opt"
    and "ExpandFailoverGroups (Some sel) opt ps = Inr (groups, ps')" "g \<in> set groups" "c \<in> set (Candidates g)"
    and "classes = Some cl" "cl (TrimSpace (Backend (acPrimary c))) = Some k" "k \<noteq> BackendExecutionInference"
  shows "IsDirectPrimary (Some sel)"
proof (rule ccontr)
  assume nd: "\<not> IsDirectPrimary (Some sel)"
  obtain h sel0 where s: "CompileSelector R raw aliases d = Inr sel0" "wf_selector sel0" "rewritten h sel0 sel"
    "ValidateExecutionComposition (Some sel0) classes policy = None"
    using prepared_rewritten [OF assms(1,2)] by blast
  from rewritten_group [OF s(3) assms(5-7)] obtain gs0 g0 c0 where
    p: "ExpandFailoverGroups (Some sel0) opt ps = Inr (gs0, ps')" "g0 \<in> set gs0" "c0 \<in> set (Candidates g0)"
    "c = on_candidate h c0" by blast
  have leaf: "acPrimary c0 \<in> set (selector_leaves sel0)"
    using ExpandFailoverGroups_good(2) [OF s(2) assms(4) p(1,2)] p(3) by (auto simp: good_group_def good_candidate_def)
  have "\<forall>p \<in> set (selector_leaves sel0). composable cl p"
    using s(3,4) nd assms(3,8) by (simp add: ValidateExecutionComposition_None rewritten_def)
  with leaf have "composable cl (acPrimary c0)" by blast
  moreover have "Backend (acPrimary c) = Backend (acPrimary c0)" using s(3) p(4) by (simp add: rewritten_def)
  moreover have "\<not> blank (Backend (acPrimary c0))" using CompileSelector_wf(2) [OF s(1) assms(2)] leaf by blast
  ultimately show False using assms(9,10) by (simp add: composable_def)
qed

theorem agent_runtimes_direct_only_witness:
  "\<exists>sel groups ps'. PrepareSelector literal_regexp ''agent:task'' sample_aliases ''b'' (Some sample_classes) [] None = Inr sel
     \<and> ExpandFailoverGroups (Some sel) default_options \<lparr>psSession = None, psRolls = 0\<rparr> = Inr (groups, ps')
     \<and> IsDirectPrimary (Some sel)"
proof -
  let ?p = "PrepareSelector literal_regexp ''agent:task'' sample_aliases ''b'' (Some sample_classes) [] None"
  let ?e = "\<lambda>sel. ExpandFailoverGroups (Some sel) default_options \<lparr>psSession = None, psRolls = 0\<rparr>"
  have "case ?p of Inl _ \<Rightarrow> False | Inr sel \<Rightarrow> (case ?e sel of Inl _ \<Rightarrow> False
      | Inr (gs, _) \<Rightarrow> gs \<noteq> [] \<and> Candidates (hd gs) \<noteq> []
          \<and> sample_classes (TrimSpace (Backend (acPrimary (hd (Candidates (hd gs)))))) = Some ''agent_runtime'')"
    by code_simp
  then obtain sel gs ps' where p: "?p = Inr sel" "?e sel = Inr (gs, ps')" "gs \<noteq> []" "Candidates (hd gs) \<noteq> []"
    "sample_classes (TrimSpace (Backend (acPrimary (hd (Candidates (hd gs)))))) = Some ''agent_runtime''"
    by (auto split: sum.splits)
  have "rng_ok default_options" by (simp add: rng_ok_def default_options_def)
  from agent_runtimes_direct_only [OF p(1) _ _ this p(2) hd_in_set [OF p(3)] hd_in_set [OF p(4)] refl p(5)]
  have "IsDirectPrimary (Some sel)" by (simp add: ExecutionCompositionUnrestricted_def BackendExecutionInference_def)
  with p show ?thesis by blast
qed


section \<open>The selector validator and the default route\<close>

text \<open>
  The validator of a generation accepts exactly the selectors that preparation without a
  registry accepts and whose backends it knows.
\<close>

lemma validator_agrees_with_preparation:
  assumes "CHR ''|'' \<notin> set (gvDefaultBackend v)"
  shows "ValidateSelector R (Some v) raw = None \<longleftrightarrow>
     (\<exists>sel. PrepareSelector R raw (gvAliases v) (gvDefaultBackend v) (gvClasses v) (gvPolicy v) None = Inr sel
        \<and> (case KnownBackends v of None \<Rightarrow> True | Some ks \<Rightarrow> \<forall>p \<in> set (selector_leaves sel). TrimSpace (Backend p) \<in> ks))"
proof (cases "CompileSelector R raw (gvAliases v) (gvDefaultBackend v)")
  case (Inr sel)
  have "\<forall>p \<in> set (selector_leaves sel). TrimSpace (Backend p) \<noteq> []"
    using CompileSelector_wf(2) [OF Inr assms] by (simp add: blank_def)
  then have "RejectUnknownBackends (Some sel) (KnownBackends v) = None \<longleftrightarrow>
      (case KnownBackends v of None \<Rightarrow> True | Some ks \<Rightarrow> \<forall>p \<in> set (selector_leaves sel). TrimSpace (Backend p) \<in> ks)"
    by (auto simp: RejectUnknownBackends_def BackendIDsReferenced_def routeLeaves_def find_None_iff split: option.splits)
  with Inr show ?thesis
    by (auto simp: ValidateSelector_def validated_selector_def PrepareSelector_None split: option.splits)
qed (simp add: ValidateSelector_def validated_selector_def PrepareSelector_None)

text \<open>What a resolution without error and with a route went through.\<close>

lemma ResolveDefaultRoute_steps:
  assumes "ResolveDefaultRouteWithInventory R cfg wm disc = (res, None)" "drSelector res \<noteq> []"
  shows "let eff = ResolveEffectiveDefaultRoute cfg wm disc; raw = TrimSpace (edSelector eff) in
     raw \<noteq> [] \<and> drRawSelector res = raw \<and> drSelector res = Resolve R (drAliases res) raw \<and> drSource res = edSource eff
     \<and> drAliases res \<noteq> None \<and> \<not> blank (drSelector res) \<and> RejectPlaceholderModel (drSelector res) = None
     \<and> DefaultBackendFromRouteSelector (drSelector res) = Inr (drDefaultBackend res)
     \<and> drLeaves res = defaultRouteLeaves (drSelector res) (drDefaultBackend res)
     \<and> (edSource eff = DefaultRouteSourceDiscoveredInventory \<longrightarrow>
          validateDiscoveredRoute raw (edInstance eff) (edModel eff) = None)"
  using assms
  by (auto simp: ResolveDefaultRouteWithInventory_def Let_def zero_resolution_def blank_def NewAliasResolver_def
      compileAliasRules_def split: sum.splits option.splits if_splits)

lemma CompileSelector_of_default:
  assumes "s = Resolve R aliases raw" "raw \<noteq> []" "TrimSpace raw = raw" "aliases \<noteq> None" "\<not> blank s"
    and "DefaultBackendFromRouteSelector s = Inr d"
  obtains parsed where "Parse s = Inr parsed" "CHR ''|'' \<notin> set d" "\<not> blank d"
    "CompileSelector R raw aliases d = Inr (ApplyModelOnlyBackends parsed d)"
proof -
  obtain parsed where p: "Parse s = Inr parsed" "CHR ''|'' \<notin> set d" "\<not> blank d"
    using DefaultBackend_ok [OF assms(6,5)] by blast
  have wf: "wf_selector parsed" by (rule Parse_wf [OF p(1)])
  have m: "ApplyModelOnlyBackends parsed d = map_selector (fill_backend (TrimSpace d)) parsed"
    using ApplyModelOnlyBackends_map [OF wf] p(3) by simp
  have "CHR ''|'' \<notin> set (TrimSpace d)" using p(2) set_TrimSpace by auto
  then have "wf_selector (ApplyModelOnlyBackends parsed d)" using wf by (auto simp: m intro: wf_selector_map fill_backend_wf)
  moreover have "\<forall>p \<in> set (selector_leaves (ApplyModelOnlyBackends parsed d)). \<not> blank (Backend p)"
    using p(3) by (auto simp: m fill_backend_def blank_def)
  ultimately have "\<not> SelectorHasEmptyBackend (ApplyModelOnlyBackends parsed d)"
    using SelectorHasEmptyBackend_leaves by blast
  moreover have "s \<noteq> []" using assms(5) by (auto simp: blank_def)
  ultimately have "CompileSelector R raw aliases d = Inr (ApplyModelOnlyBackends parsed d)"
    using p(1) assms(1-4) by (simp add: CompileSelector_def Let_def)
  with that p show thesis by blast
qed

text \<open>
  C21: The default route is servable. When resolution reports a default route and no error,
  the configured text compiles with the reported aliases and default backend, the reported
  leaves are the backend and model of the compiled leaves, and no leaf of the route names the
  placeholder model; a route derived from a discovered model is, before the aliases, a single
  primary of the publishing instance with exactly that model and no route parameters.
\<close>

theorem default_route_compiles:
  assumes "ResolveDefaultRouteWithInventory R cfg wm disc = (res, None)" "drSelector res \<noteq> []"
  shows "\<exists>sel. CompileSelector R (drRawSelector res) (drAliases res) (drDefaultBackend res) = Inr sel
     \<and> set (drLeaves res) = (\<lambda>p. \<lparr>dlBackend = TrimSpace (Backend p), dlModel = TrimSpace (Model p)\<rparr>)
          ` {p \<in> set (selector_leaves sel). \<not> blank (Model p)}
     \<and> (\<forall>p \<in> set (selector_leaves sel). \<not> blank (Backend p) \<and> TrimSpace (Model p) \<noteq> PlaceholderModelToken)
     \<and> (drSource res = DefaultRouteSourceDiscoveredInventory \<longrightarrow>
          (\<exists>parsed p. Parse (drRawSelector res) = Inr parsed \<and> selector_leaves parsed = [p] \<and> IsDirectPrimary (Some parsed)
             \<and> TrimSpace (Backend p) = edInstance (ResolveEffectiveDefaultRoute cfg wm disc)
             \<and> TrimSpace (Model p) = edModel (ResolveEffectiveDefaultRoute cfg wm disc) \<and> Params p = []))"
proof -
  let ?eff = "ResolveEffectiveDefaultRoute cfg wm disc"
  note st = ResolveDefaultRoute_steps [OF assms, unfolded Let_def]
  have raw: "drRawSelector res = TrimSpace (edSelector ?eff)" using st by blast
  obtain parsed where c: "Parse (drSelector res) = Inr parsed" "CHR ''|'' \<notin> set (drDefaultBackend res)"
    "\<not> blank (drDefaultBackend res)"
    "CompileSelector R (drRawSelector res) (drAliases res) (drDefaultBackend res)
       = Inr (ApplyModelOnlyBackends parsed (drDefaultBackend res))"
    using CompileSelector_of_default [of "drSelector res" R "drAliases res" "drRawSelector res" "drDefaultBackend res"] st raw
    by (metis TrimSpace_idem)
  let ?sel = "ApplyModelOnlyBackends parsed (drDefaultBackend res)"
  have m: "?sel = map_selector (fill_backend (TrimSpace (drDefaultBackend res))) parsed"
    using ApplyModelOnlyBackends_map [OF Parse_wf [OF c(1)]] c(3) by simp
  have fillm: "Model (fill_backend b p) = Model p" for b p by (simp add: fill_backend_def)
  note nb = CompileSelector_wf(2) [OF c(4,2)]
  have "set (drLeaves res) = (\<lambda>p. \<lparr>dlBackend = TrimSpace (Backend p), dlModel = TrimSpace (Model p)\<rparr>)
          ` {p \<in> set (selector_leaves ?sel). \<not> blank (Model p)}"
    using st c(1) nb by (auto simp: defaultRouteLeaves_def routeLeaves_def blank_def)
  moreover have "TrimSpace (Model p) \<noteq> PlaceholderModelToken" if "p \<in> set (selector_leaves ?sel)" for p
  proof -
    have "\<not> list_ex (\<lambda>leaf. TrimSpace (Model leaf) = PlaceholderModelToken) (routeLeaves (Some parsed))"
      using st c(1) by (simp add: RejectPlaceholderModel_def split: if_splits)
    with that show ?thesis by (auto simp: m fillm routeLeaves_def list_ex_iff)
  qed
  moreover have "\<exists>parsed p. Parse (drRawSelector res) = Inr parsed \<and> selector_leaves parsed = [p]
      \<and> IsDirectPrimary (Some parsed) \<and> TrimSpace (Backend p) = edInstance ?eff
      \<and> TrimSpace (Model p) = edModel ?eff \<and> Params p = []"
    if "drSource res = DefaultRouteSourceDiscoveredInventory"
  proof -
    have "validateDiscoveredRoute (drRawSelector res) (edInstance ?eff) (edModel ?eff) = None" using st that raw by simp
    then show ?thesis
      by (auto simp: validateDiscoveredRoute_def selector_leaves_def alt_leaves_def IsDirectPrimary_def
          split: sum.splits list.splits option.splits if_splits)
  qed
  ultimately show ?thesis using c(4) nb by blast
qed

definition sample_config :: Config where
  "sample_config = \<lparr>cfgDefaultRoute = [], cfgBackends = [\<lparr>pcID = ''off'', pcKind = ''k'', pcEnabled = False\<rparr>,
     \<lparr>pcID = ''local'', pcKind = ''dyn'', pcEnabled = True\<rparr>], cfgModelAliases = []\<rparr>"

theorem default_route_compiles_witness:
  "\<exists>res. ResolveDefaultRouteWithInventory literal_regexp (Some sample_config) (Some (\<lambda>_. [])) (Some (\<lambda>_. ''qwen3'')) = (res, None)
     \<and> drSelector res = ''local:qwen3'' \<and> drSource res = DefaultRouteSourceDiscoveredInventory
     \<and> (\<exists>sel. CompileSelector literal_regexp (drRawSelector res) (drAliases res) (drDefaultBackend res) = Inr sel
          \<and> set (drLeaves res) = (\<lambda>p. \<lparr>dlBackend = TrimSpace (Backend p), dlModel = TrimSpace (Model p)\<rparr>)
               ` {p \<in> set (selector_leaves sel). \<not> blank (Model p)})"
proof -
  let ?r = "ResolveDefaultRouteWithInventory literal_regexp (Some sample_config) (Some (\<lambda>_. [])) (Some (\<lambda>_. ''qwen3''))"
  have "case ?r of (res, e) \<Rightarrow> e = None \<and> drSelector res = ''local:qwen3''
      \<and> drSource res = DefaultRouteSourceDiscoveredInventory" by code_simp
  then obtain res where r: "?r = (res, None)" "drSelector res = ''local:qwen3''"
    "drSource res = DefaultRouteSourceDiscoveredInventory" by (auto split: prod.splits)
  from default_route_compiles [OF r(1)] r show ?thesis by auto
qed


end
