(* ===== verification/Money_Arithmetic.thy ===== *)
theory Money_Arithmetic
  imports Complex_Main Go_Strings "HOL-Library.Word" "HOL-Library.Signed_Division"
begin

text \<open>
  Amounts of money of the accounting contracts (\<open>pkg/aipsdk/economics\<close>): checked sums and
  differences, the price of a number of tokens, the inversion of that price, rounding of
  rationals and the parser of decimal rates.

  Amounts are Go's \<open>int64\<close> nano-units, here \<^typ>\<open>64 word\<close> read with \<^const>\<open>sint\<close>; the
  conversions between \<open>int64\<close> and \<open>uint64\<close> keep the word, and \<open>math/bits\<close> is written out on
  128-bit products. \<open>big.Int\<close> is \<^typ>\<open>int\<close> and \<open>big.Rat\<close> is \<^typ>\<open>rat\<close>, which is kept in lowest
  terms with a positive denominator like the Go type.
\<close>

type_synonym int64 = "64 word"

section \<open>math/bits\<close>

definition Mul64 :: "64 word \<Rightarrow> 64 word \<Rightarrow> 64 word \<times> 64 word" where
  "Mul64 x y = (let p = uint x * uint y in (word_of_int (p div 2 ^ 64), word_of_int (p mod 2 ^ 64)))"

text \<open>\<open>bits.Div64\<close> panics when the divisor is zero or the quotient needs more than 64 bits.\<close>

definition Div64 :: "64 word \<Rightarrow> 64 word \<Rightarrow> 64 word \<Rightarrow> (64 word \<times> 64 word) option" where
  "Div64 hi lo y =
     (if y = 0 \<or> y \<le> hi then None
      else let n = uint hi * 2 ^ 64 + uint lo
           in Some (word_of_int (n div uint y), word_of_int (n mod uint y)))"

definition Add64 :: "64 word \<Rightarrow> 64 word \<Rightarrow> 64 word \<times> bool" where
  "Add64 x y = (x + y, uint x + uint y \<ge> 2 ^ 64)"

definition MaxInt64_word :: "64 word" where
  "MaxInt64_word = 0x7FFFFFFFFFFFFFFF"

section \<open>Money\<close>

record Money =
  NanoUnits :: int64
  Currency :: string
  MoneyPresent :: bool

definition no_money :: Money where
  "no_money = \<lparr>NanoUnits = 0, Currency = [], MoneyPresent = False\<rparr>"

datatype money_error =
  NegativeMoney | EmptyCurrency | BadCurrency string | OperandAbsent | CurrencyMismatch string string
| MoneyOverflow | MoneyUnderflow | NoAmounts | NegativeOperand | ZeroRate | ZeroDenominator | NilRational
| UnknownRounding string | EmptyDecimal | InvalidDecimal string | TooManyDecimals | RequiredRateAbsent | ArithmeticPanic

text \<open>
  A code that is not upper-case and one with other characters are refused by two checks of
  the source; both are \<^const>\<open>BadCurrency\<close> here.
\<close>

definition NormalizeCurrency :: "string \<Rightarrow> money_error + string" where
  "NormalizeCurrency currency =
     (let c = TrimSpace currency in
      if c = [] then Inl EmptyCurrency
      else if list_all (\<lambda>r. CHR ''A'' \<le> r \<and> r \<le> CHR ''Z'') c then Inr c
      else Inl (BadCurrency currency))"

definition ValidatePresentMoney :: "Money \<Rightarrow> money_error option" where
  "ValidatePresentMoney m =
     (if \<not> MoneyPresent m then None
      else if NanoUnits m <s 0 then Some NegativeMoney
      else case NormalizeCurrency (Currency m) of Inl e \<Rightarrow> Some e | Inr _ \<Rightarrow> None)"

definition requirePresentSameCurrency :: "Money \<Rightarrow> Money \<Rightarrow> money_error + string" where
  "requirePresentSameCurrency a b =
     (if \<not> MoneyPresent a \<or> \<not> MoneyPresent b then Inl OperandAbsent
      else case NormalizeCurrency (Currency a) of
          Inl e \<Rightarrow> Inl e
        | Inr ac \<Rightarrow>
            (case NormalizeCurrency (Currency b) of
               Inl e \<Rightarrow> Inl e
             | Inr bc \<Rightarrow> if ac \<noteq> bc then Inl (CurrencyMismatch (Currency a) (Currency b)) else Inr ac))"

definition addMoneyChecked :: "int64 \<Rightarrow> int64 \<Rightarrow> int64 option" where
  "addMoneyChecked a b =
     (if a <s 0 \<or> b <s 0 then None
      else let (tot, carry) = Add64 a b in if carry \<or> tot > MaxInt64_word then None else Some tot)"

definition subMoneyChecked :: "int64 \<Rightarrow> int64 \<Rightarrow> int64 option" where
  "subMoneyChecked a b = (if a <s 0 \<or> b <s 0 \<or> a <s b then None else Some (a - b))"

definition Money_Add :: "Money \<Rightarrow> Money \<Rightarrow> money_error + Money" where
  "Money_Add m other =
     (case requirePresentSameCurrency m other of
        Inl e \<Rightarrow> Inl e
      | Inr cur \<Rightarrow>
          (case addMoneyChecked (NanoUnits m) (NanoUnits other) of
             None \<Rightarrow> Inl MoneyOverflow
           | Some tot \<Rightarrow> Inr \<lparr>NanoUnits = tot, Currency = cur, MoneyPresent = True\<rparr>))"

definition Money_Sub :: "Money \<Rightarrow> Money \<Rightarrow> money_error + Money" where
  "Money_Sub m other =
     (case requirePresentSameCurrency m other of
        Inl e \<Rightarrow> Inl e
      | Inr cur \<Rightarrow>
          (case subMoneyChecked (NanoUnits m) (NanoUnits other) of
             None \<Rightarrow> Inl MoneyUnderflow
           | Some diff \<Rightarrow> Inr \<lparr>NanoUnits = diff, Currency = cur, MoneyPresent = True\<rparr>))"

definition AggregateMoney :: "Money list \<Rightarrow> money_error + Money" where
  "AggregateMoney parts =
     (case parts of
        [] \<Rightarrow> Inl NoAmounts
      | first # rest \<Rightarrow>
          (case ValidatePresentMoney first of
             Some e \<Rightarrow> Inl e
           | None \<Rightarrow> if \<not> MoneyPresent first then Inl OperandAbsent else foldR Money_Add first rest))"

section \<open>Rounding\<close>

datatype RoundingPolicy =
  RoundingUnspecified | RoundingHalfAwayFromZero | RoundingHalfEven | RoundingTowardZero | RoundingFloor
| RoundingOther string

fun RoundingPolicy_IsKnown :: "RoundingPolicy \<Rightarrow> bool" where
  "RoundingPolicy_IsKnown (RoundingOther _) = False"
| "RoundingPolicy_IsKnown _ = True"

definition int64Checked :: "int \<Rightarrow> money_error + int64" where
  "int64Checked v = (if - (2 ^ 63) \<le> v \<and> v < 2 ^ 63 then Inr (word_of_int v) else Inl MoneyOverflow)"

text \<open>The quotient after the policy was applied; the remainder is not zero.\<close>

definition round_away :: "RoundingPolicy \<Rightarrow> int \<Rightarrow> int \<Rightarrow> int \<Rightarrow> bool" where
  "round_away policy quo rem den =
     (let twice = 2 * \<bar>rem\<bar> in twice > den \<or> (twice = den \<and> (policy = RoundingHalfAwayFromZero \<or> odd quo)))"

definition RoundToInt64 :: "rat option \<Rightarrow> RoundingPolicy \<Rightarrow> money_error + int64" where
  "RoundToInt64 rr policy0 =
     (case rr of
        None \<Rightarrow> Inl NilRational
      | Some r \<Rightarrow>
          if \<not> RoundingPolicy_IsKnown policy0 then Inl (UnknownRounding (case policy0 of RoundingOther s \<Rightarrow> s | _ \<Rightarrow> []))
          else let policy = (if policy0 = RoundingUnspecified then RoundingTowardZero else policy0);
                   (num, den) = quotient_of r; quo = num sdiv den; rem = num smod den
               in if rem = 0 then int64Checked quo
                  else case policy of
                      RoundingTowardZero \<Rightarrow> int64Checked quo
                    | RoundingFloor \<Rightarrow> int64Checked (if num < 0 then quo - 1 else quo)
                    | _ \<Rightarrow> int64Checked
                        (if round_away policy quo rem den then (if num < 0 then quo - 1 else quo + 1) else quo))"

definition RoundQuotient :: "int64 \<Rightarrow> int64 \<Rightarrow> RoundingPolicy \<Rightarrow> money_error + int64" where
  "RoundQuotient numer denom policy =
     (if denom = 0 then Inl ZeroDenominator
      else RoundToInt64 (Some (Fract (sint numer) (sint denom))) policy)"

section \<open>Prices of tokens\<close>

definition tokensPerMillion :: int where
  "tokensPerMillion = 1000000"

definition MulTokensByRatePer1M :: "int64 \<Rightarrow> int64 \<Rightarrow> money_error + Money" where
  "MulTokensByRatePer1M tokens price =
     (if tokens <s 0 \<or> price <s 0 then Inl NegativeOperand
      else if tokens = 0 \<or> price = 0 then Inr \<lparr>NanoUnits = 0, Currency = [], MoneyPresent = True\<rparr>
      else let (hi, lo) = Mul64 tokens price; dv = word_of_int tokensPerMillion in
        if hi \<ge> dv then Inl MoneyOverflow
        else case Div64 hi lo dv of
            None \<Rightarrow> Inl ArithmeticPanic
          | Some (q, _) \<Rightarrow>
              if q > MaxInt64_word then Inl MoneyOverflow
              else Inr \<lparr>NanoUnits = q, Currency = [], MoneyPresent = True\<rparr>)"

definition TokensFromMoneyPer1M :: "int64 \<Rightarrow> int64 \<Rightarrow> RoundingPolicy \<Rightarrow> money_error + int64" where
  "TokensFromMoneyPer1M money price policy0 =
     (if money <s 0 \<or> price <s 0 then Inl NegativeOperand
      else if price = 0 then Inl ZeroRate
      else if money = 0 then Inr 0
      else let policy = (if policy0 = RoundingUnspecified then RoundingTowardZero else policy0) in
        if \<not> RoundingPolicy_IsKnown policy then Inl (UnknownRounding (case policy of RoundingOther s \<Rightarrow> s | _ \<Rightarrow> []))
        else let (hi, lo) = Mul64 money (word_of_int tokensPerMillion) in
          if hi \<ge> price then Inl MoneyOverflow
          else case Div64 hi lo price of
              None \<Rightarrow> Inl ArithmeticPanic
            | Some (q, rem) \<Rightarrow>
                if rem = 0 \<or> policy = RoundingTowardZero \<or> policy = RoundingFloor
                then if q > MaxInt64_word then Inl MoneyOverflow else Inr q
                else RoundToInt64 (Some (Fract (sint money * tokensPerMillion) (sint price))) policy)"

section \<open>Decimal rates\<close>

record NanoRate =
  RateNanoUnits :: int64
  RatePresent :: bool

definition nanosPerMajorUnit :: int where
  "nanosPerMajorUnit = 1000000000"

text \<open>The scan for the decimal point: the index of the point, if there is one.\<close>

fun scan_decimal :: "nat option \<Rightarrow> nat \<Rightarrow> string \<Rightarrow> (nat option) option" where
  "scan_decimal dot i [] = Some dot"
| "scan_decimal dot i (c # s) =
     (if c = CHR ''.'' then (if dot \<noteq> None then None else scan_decimal (Some i) (Suc i) s)
      else if \<not> is_digit c then None
      else scan_decimal dot (Suc i) s)"

definition nano_value :: "string \<Rightarrow> string \<Rightarrow> money_error + int64" where
  "nano_value intPart fracPart =
     (let frac = fracPart @ replicate (9 - length fracPart) CHR ''0'';
          nanos = digits_val intPart * nanosPerMajorUnit + digits_val frac
      in if - (2 ^ 63) \<le> nanos \<and> nanos < 2 ^ 63 then Inr (word_of_int nanos) else Inl MoneyOverflow)"

definition ParseDecimalToNano :: "string \<Rightarrow> money_error + int64" where
  "ParseDecimalToNano raw =
     (if raw = [] then Inl EmptyDecimal
      else case scan_decimal None 0 raw of
          None \<Rightarrow> Inl (InvalidDecimal raw)
        | Some None \<Rightarrow> nano_value raw []
        | Some (Some dot) \<Rightarrow>
            let intPart = take dot raw; fracPart = drop (dot + 1) raw in
            if intPart = [] \<or> fracPart = [] then Inl (InvalidDecimal raw)
            else if length fracPart > 9 then Inl TooManyDecimals
            else nano_value intPart fracPart)"

definition present_rate :: "string \<Rightarrow> money_error + NanoRate" where
  "present_rate raw =
     (case ParseDecimalToNano raw of
        Inl e \<Rightarrow> Inl e
      | Inr n \<Rightarrow> Inr \<lparr>RateNanoUnits = n, RatePresent = True\<rparr>)"

definition ParseOptionalNanoRate :: "string \<Rightarrow> money_error + NanoRate" where
  "ParseOptionalNanoRate raw =
     (if TrimSpace raw = [] then Inr \<lparr>RateNanoUnits = 0, RatePresent = False\<rparr> else present_rate raw)"

definition ParseRequiredNanoRate :: "string \<Rightarrow> money_error + NanoRate" where
  "ParseRequiredNanoRate raw = (if TrimSpace raw = [] then Inl RequiredRateAbsent else present_rate raw)"

section \<open>Words as integers\<close>

lemma int_div_less_iff:
  assumes "0 < (k :: int)"
  shows "a div k < c \<longleftrightarrow> a < c * k"
proof
  assume "a div k < c"
  then have "(a div k + 1) * k \<le> c * k" using assms by (intro mult_right_mono) simp_all
  then show "a < c * k" using div_mult_mod_eq [of a k] pos_mod_bound [OF assms, of a] by (simp only: distrib_right mult_1)
next
  assume "a < c * k"
  then have "(a div k) * k < c * k" using div_mult_mod_eq [of a k] pos_mod_sign [OF assms, of a] by linarith
  then show "a div k < c" using assms by simp
qed

lemma nonneg_word:
  fixes w :: int64
  assumes "\<not> w <s 0"
  shows "sint w = uint w" "uint w < 2 ^ 63"
proof -
  have "0 \<le> sint w" using assms by (simp add: word_sless_alt)
  moreover have "sint w < 2 ^ 63" using sint_less [of w] by simp
  ultimately have "take_bit 64 (sint w) = sint w" by (simp add: take_bit_int_eq_self)
  then show "sint w = uint w" by (simp add: uint_sint [of w])
  with \<open>sint w < 2 ^ 63\<close> show "uint w < 2 ^ 63" by simp
qed

lemma small_word: "uint (w :: int64) < 2 ^ 63 \<Longrightarrow> sint w = uint w"
  by (simp add: sint_uint signed_take_bit_int_eq_self order_trans [OF _ uint_ge_0])

lemma MaxInt64_less: "MaxInt64_word < w \<longleftrightarrow> 2 ^ 63 \<le> uint w"
  by (simp add: MaxInt64_word_def word_less_def) linarith

lemma uint_of_int: "0 \<le> x \<Longrightarrow> x < 2 ^ 64 \<Longrightarrow> uint (word_of_int x :: 64 word) = x"
  by (simp add: unsigned_of_int take_bit_int_eq_self)

lemma sint_of_int64: "- (2 ^ 63) \<le> x \<Longrightarrow> x < 2 ^ 63 \<Longrightarrow> sint (word_of_int x :: int64) = x"
  by (simp add: signed_of_int signed_take_bit_int_eq_self)

lemma nonneg_zero: "\<not> (w :: int64) <s 0 \<Longrightarrow> w \<noteq> 0 \<Longrightarrow> 0 < sint w"
  by (metis nonneg_word(1) order_le_less uint_0_iff uint_ge_0)

lemma Mul64_value:
  "Mul64 x y = (hi, lo) \<Longrightarrow> uint hi * 2 ^ 64 + uint lo = uint x * uint y"
proof -
  assume m: "Mul64 x y = (hi, lo)"
  let ?p = "uint x * uint y"
  have b: "0 \<le> uint x" "uint x < 2 ^ 64" "0 \<le> uint y" "uint y < 2 ^ 64" using uint_bounded [of x] uint_bounded [of y] by simp_all
  then have "?p < 2 ^ 64 * 2 ^ 64" by (intro mult_strict_mono') simp_all
  then have "0 \<le> ?p div 2 ^ 64" "?p div 2 ^ 64 < 2 ^ 64" using b by (simp_all add: int_div_less_iff pos_imp_zdiv_nonneg_iff)
  then have "uint hi = ?p div 2 ^ 64" using m by (auto simp: Mul64_def Let_def uint_of_int)
  moreover have "uint lo = ?p mod 2 ^ 64" using m by (auto simp: Mul64_def Let_def unsigned_of_int take_bit_eq_mod)
  ultimately show ?thesis by simp
qed

lemma Div64_Some:
  assumes "Div64 hi lo y = Some (q, r)"
  shows "uint q = (uint hi * 2 ^ 64 + uint lo) div uint y" "uint r = (uint hi * 2 ^ 64 + uint lo) mod uint y"
proof -
  let ?n = "uint hi * 2 ^ 64 + uint lo"
  from assms have y: "uint hi < uint y" and q: "q = word_of_int (?n div uint y)" and r: "r = word_of_int (?n mod uint y)"
    by (auto simp: Div64_def Let_def word_le_def split: if_splits)
  have b: "0 \<le> uint hi" "0 \<le> uint lo" "uint lo < 2 ^ 64" "uint y < 2 ^ 64"
    using uint_bounded [of lo] uint_bounded [of y] by simp_all
  have "?n < (uint hi + 1) * 2 ^ 64" using b by (simp add: algebra_simps)
  also have "\<dots> \<le> uint y * 2 ^ 64" using y by (intro mult_right_mono) simp_all
  finally have lt: "?n < 2 ^ 64 * uint y" by (simp add: mult.commute)
  have yp: "0 < uint y" using y b(1) by linarith
  have "?n div uint y < 2 ^ 64" using lt int_div_less_iff [OF yp] by blast
  moreover have "0 \<le> ?n div uint y" using b y by (intro div_int_pos_iff [THEN iffD2]) simp
  ultimately show "uint q = ?n div uint y" using q by (simp add: uint_of_int)
  have "0 \<le> ?n mod uint y" "?n mod uint y < uint y" using yp by simp_all
  then show "uint r = ?n mod uint y" using r b by (simp add: uint_of_int)
qed

lemma Div64_defined: "hi < y \<Longrightarrow> Div64 hi lo y \<noteq> None"
  by (auto simp: Div64_def Let_def)

text \<open>The high word of a product reaches the divisor exactly when the quotient needs more than 64 bits.\<close>

lemma quotient_overflow:
  assumes "uint hi * 2 ^ 64 + uint lo = n" "y \<le> (hi :: 64 word)" "0 < uint y"
  shows "2 ^ 64 \<le> n div uint (y :: 64 word)"
proof -
  have "uint y * 2 ^ 64 \<le> uint hi * 2 ^ 64" using assms(2) by (simp add: word_le_def)
  also have "\<dots> \<le> n" using assms(1) uint_ge_0 [of lo] by linarith
  finally have "\<not> n < 2 ^ 64 * uint y" by (simp add: mult.commute)
  then show ?thesis using int_div_less_iff [OF assms(3)] by (metis linorder_not_less)
qed

section \<open>Rounding against its reference\<close>

text \<open>What each policy means on rationals, without the truncating division of the code.\<close>

fun rounded :: "RoundingPolicy \<Rightarrow> rat \<Rightarrow> int" where
  "rounded RoundingFloor r = \<lfloor>r\<rfloor>"
| "rounded RoundingHalfAwayFromZero r = (if r < 0 then - \<lfloor>1 / 2 - r\<rfloor> else \<lfloor>r + 1 / 2\<rfloor>)"
| "rounded RoundingHalfEven r =
     (let f = \<lfloor>r\<rfloor>; d = r - of_int f in if d < 1 / 2 \<or> (d = 1 / 2 \<and> even f) then f else f + 1)"
| "rounded _ r = (if r < 0 then \<lceil>r\<rceil> else \<lfloor>r\<rfloor>)"

lemma quotient_split:
  assumes "quotient_of r = (num, den)"
  defines "quo \<equiv> num sdiv den" and "rem \<equiv> num smod den"
  shows "0 < den" "r = of_int quo + of_int rem / of_int den" "\<bar>rem\<bar> < den"
    "num < 0 \<Longrightarrow> rem \<le> 0" "0 \<le> num \<Longrightarrow> 0 \<le> rem" "r < 0 \<longleftrightarrow> num < 0"
proof -
  show den: "0 < den" by (rule quotient_of_denom_pos [OF assms(1)])
  have r: "r = of_int num / of_int den" by (rule quotient_of_div [OF assms(1)])
  have "num = quo * den + rem" using sdiv_mult_smod_eq [of num den] by (simp add: quo_def rem_def)
  then have "(of_int num :: rat) = of_int quo * of_int den + of_int rem" by (metis of_int_add of_int_mult)
  with r den show "r = of_int quo + of_int rem / of_int den" by (simp add: field_simps)
  show "\<bar>rem\<bar> < den" "num < 0 \<Longrightarrow> rem \<le> 0" "0 \<le> num \<Longrightarrow> 0 \<le> rem"
    using den by (auto simp: rem_def smod_int_alt_def abs_mult sgn_if)
  show "r < 0 \<longleftrightarrow> num < 0" using r den by (simp add: divide_less_0_iff)
qed

lemma floor_split:
  assumes "0 < den" "r = of_int quo + of_int rem / of_int den" "\<bar>rem\<bar> < den"
  shows "\<lfloor>r :: rat\<rfloor> = (if rem < 0 then quo - 1 else quo)" "\<lceil>r\<rceil> = (if 0 < rem then quo + 1 else quo)"
proof -
  have "(of_int rem :: rat) < of_int den" "(of_int (- den) :: rat) < of_int rem"
    using assms(3) by (simp_all only: of_int_less_iff)
  then have b: "of_int rem / of_int den < (1 :: rat)" "- 1 < (of_int rem / of_int den :: rat)"
    using assms(1) by (simp_all add: divide_less_eq less_divide_eq)
  have s: "of_int rem / of_int den < (0 :: rat) \<longleftrightarrow> rem < 0" "(0 :: rat) < of_int rem / of_int den \<longleftrightarrow> 0 < rem"
    using assms(1) by (simp_all add: divide_less_0_iff zero_less_divide_iff)
  show "\<lfloor>r\<rfloor> = (if rem < 0 then quo - 1 else quo)" "\<lceil>r\<rceil> = (if 0 < rem then quo + 1 else quo)"
    using b s assms(2) by (auto simp: floor_eq_iff ceiling_eq_iff)
qed

lemma half_compare:
  assumes "0 < den"
  shows "(of_int x / of_int den :: rat) < 1 / 2 \<longleftrightarrow> 2 * x < den" "(of_int x / of_int den :: rat) = 1 / 2 \<longleftrightarrow> 2 * x = den"
    "(1 / 2 :: rat) < of_int x / of_int den \<longleftrightarrow> den < 2 * x"
proof -
  have "(of_int x / of_int den :: rat) < 1 / 2 \<longleftrightarrow> (of_int (2 * x) :: rat) < of_int den"
    "(of_int x / of_int den :: rat) = 1 / 2 \<longleftrightarrow> (of_int (2 * x) :: rat) = of_int den"
    "(1 / 2 :: rat) < of_int x / of_int den \<longleftrightarrow> (of_int den :: rat) < of_int (2 * x)"
    using assms by (auto simp: field_simps)
  then show "(of_int x / of_int den :: rat) < 1 / 2 \<longleftrightarrow> 2 * x < den" "(of_int x / of_int den :: rat) = 1 / 2 \<longleftrightarrow> 2 * x = den"
    "(1 / 2 :: rat) < of_int x / of_int den \<longleftrightarrow> den < 2 * x"
    by (simp_all only: of_int_less_iff of_int_eq_iff)
qed

lemma rounded_integral:
  assumes "r = of_int quo"
  shows "rounded p r = quo"
  using assms by (cases p) (auto simp: Let_def floor_eq_iff minus_equation_iff [of "floor _"])

lemma rounded_half:
  assumes s: "0 < den" "r = of_int quo + of_int rem / of_int den" "\<bar>rem\<bar> < den" "rem \<noteq> 0"
    and neg: "r < 0 \<longleftrightarrow> rem < 0" and p: "p = RoundingHalfAwayFromZero \<or> p = RoundingHalfEven"
  shows "rounded p r = (if round_away p quo rem den then if rem < 0 then quo - 1 else quo + 1 else quo)"
proof -
  define e where "e = (of_int rem / of_int den :: rat)"
  have x: "(of_int (- rem) / of_int den :: rat) = - e" by (simp add: e_def)
  note cmp = half_compare [OF s(1), of rem, folded e_def] half_compare [OF s(1), of "- rem", unfolded x]
  have r: "r = of_int quo + e" using s(2) by (simp add: e_def)
  have b: "e < 1" "- 1 < e" using s(1,3) by (simp_all add: e_def divide_less_eq less_divide_eq)
  have sg: "e < 0 \<longleftrightarrow> rem < 0" using s(1) by (simp add: e_def divide_less_0_iff)
  have up: "1 / 2 \<le> e \<longleftrightarrow> den \<le> 2 * rem" using cmp(1) by (simp only: linorder_not_less [symmetric])
  have down: "1 / 2 \<le> - e \<longleftrightarrow> den \<le> 2 * - rem" using cmp(4) by (simp only: linorder_not_less [symmetric])
  have away: "rounded RoundingHalfAwayFromZero r =
      (if round_away RoundingHalfAwayFromZero quo rem den then if rem < 0 then quo - 1 else quo + 1 else quo)"
  proof (cases "rem < 0")
    case True
    have "\<lfloor>1 / 2 - r\<rfloor> = (if 1 / 2 \<le> - e then 1 - quo else - quo)"
    proof (cases "1 / 2 \<le> - e")
      case True
      then have "\<lfloor>1 / 2 - r\<rfloor> = 1 - quo" by (intro floor_unique) (simp_all add: r, use b in linarith)
      with True show ?thesis by simp
    next
      case False
      then have "\<lfloor>1 / 2 - r\<rfloor> = - quo" using True sg by (intro floor_unique) (simp_all add: r)
      with False show ?thesis by simp
    qed
    with True neg show ?thesis unfolding down by (auto simp: round_away_def Let_def)
  next
    case False
    have "\<lfloor>r + 1 / 2\<rfloor> = (if 1 / 2 \<le> e then quo + 1 else quo)"
    proof (cases "1 / 2 \<le> e")
      case True
      then have "\<lfloor>r + 1 / 2\<rfloor> = quo + 1" by (intro floor_unique) (simp_all add: r, use b in linarith)
      with True show ?thesis by simp
    next
      case small: False
      then have "\<lfloor>r + 1 / 2\<rfloor> = quo" using False sg by (intro floor_unique) (simp_all add: r)
      with small show ?thesis by simp
    qed
    with False neg show ?thesis unfolding up by (auto simp: round_away_def Let_def)
  qed
  have even: "rounded RoundingHalfEven r =
      (if round_away RoundingHalfEven quo rem den then if rem < 0 then quo - 1 else quo + 1 else quo)"
  proof (cases "rem < 0")
    case True
    then have f: "\<lfloor>r\<rfloor> = quo - 1" using floor_split [OF s(1-3)] by simp
    have d: "r - of_int (quo - 1) = 1 + e" by (simp add: r)
    have "1 + e < 1 / 2 \<longleftrightarrow> den < 2 * - rem" using cmp(6) by (simp add: less_diff_eq) linarith
    moreover have "1 + e = 1 / 2 \<longleftrightarrow> 2 * - rem = den" using cmp(5) by linarith
    ultimately show ?thesis using True f d by (auto simp: round_away_def Let_def)
  next
    case False
    then have f: "\<lfloor>r\<rfloor> = quo" using floor_split [OF s(1-3)] by simp
    have "r - of_int quo = e" by (simp add: r)
    then show ?thesis using False f cmp(1,2) by (auto simp: round_away_def Let_def)
  qed
  from p away even show ?thesis by blast
qed

lemma RoundToInt64_rounded:
  "RoundToInt64 (Some r) p =
     (case p of RoundingOther s \<Rightarrow> Inl (UnknownRounding s) | _ \<Rightarrow> int64Checked (rounded p r))"
proof (cases "RoundingPolicy_IsKnown p")
  case True
  obtain num den where q: "quotient_of r = (num, den)" by fastforce
  note s = quotient_split [OF q]
  show ?thesis
  proof (cases "num smod den = 0")
    case True
    then have "rounded p r = num sdiv den" for p using s(2) by (intro rounded_integral) simp
    with True q \<open>RoundingPolicy_IsKnown p\<close> show ?thesis by (cases p) (simp_all add: RoundToInt64_def)
  next
    case False
    with s(4,5,6) have neg: "r < 0 \<longleftrightarrow> num smod den < 0" "num < 0 \<longleftrightarrow> num smod den < 0" by force+
    note h = rounded_half [OF s(1-3) False neg(1)] and f = floor_split [OF s(1-3)]
    show ?thesis
    proof (cases "p = RoundingHalfAwayFromZero \<or> p = RoundingHalfEven")
      case True
      with q False neg h [OF True] show ?thesis by (auto simp: RoundToInt64_def Let_def simp del: rounded.simps)
    next
      case half: False
      with q False neg f \<open>RoundingPolicy_IsKnown p\<close> show ?thesis by (cases p) (auto simp: RoundToInt64_def Let_def)
    qed
  qed
qed (cases p; simp add: RoundToInt64_def)

section \<open>Prices against exact arithmetic\<close>

lemma sless_zero: "(w :: int64) <s 0 \<longleftrightarrow> sint w < 0"
  by (simp add: word_sless_alt)

lemma int64Checked_nonneg:
  assumes "0 \<le> v" "v < 2 ^ 64" "uint w = v"
  shows "int64Checked v = (if MaxInt64_word < w then Inl MoneyOverflow else Inr w)"
proof -
  have "word_of_int v = w" using assms(3) by (metis word_of_int_uint)
  then show ?thesis using assms by (auto simp: int64Checked_def MaxInt64_less)
qed

lemma int64Checked_large: "2 ^ 63 \<le> v \<Longrightarrow> int64Checked v = Inl MoneyOverflow"
  by (auto simp: int64Checked_def)

text \<open>The division of a 128-bit product, as the two price functions use it.\<close>

lemma product_division:
  fixes x y d :: int64
  assumes "\<not> x <s 0" "\<not> y <s 0" "\<not> d <s 0" "d \<noteq> 0" "Mul64 x y = (hi, lo)"
  shows "d \<le> hi \<Longrightarrow> 2 ^ 64 \<le> sint x * sint y div sint d"
    and "\<not> d \<le> hi \<Longrightarrow> \<exists>q r. Div64 hi lo d = Some (q, r) \<and> uint q = sint x * sint y div sint d
           \<and> uint r = sint x * sint y mod sint d"
proof -
  have n: "uint hi * 2 ^ 64 + uint lo = sint x * sint y"
    using Mul64_value [OF assms(5)] nonneg_word [OF assms(1)] nonneg_word [OF assms(2)] by simp
  have d: "sint d = uint d" "0 < uint d" using nonneg_word [OF assms(3)] nonneg_zero [OF assms(3,4)] by simp_all
  show "2 ^ 64 \<le> sint x * sint y div sint d" if "d \<le> hi" using quotient_overflow [OF n that d(2)] d(1) by simp
  assume "\<not> d \<le> hi"
  then have "Div64 hi lo d \<noteq> None" by (intro Div64_defined) simp
  then obtain q r where q: "Div64 hi lo d = Some (q, r)" by fastforce
  from Div64_Some [OF q] n d q show "\<exists>q r. Div64 hi lo d = Some (q, r) \<and> uint q = sint x * sint y div sint d
      \<and> uint r = sint x * sint y mod sint d" by simp
qed

definition price_of :: "int64 \<Rightarrow> int64 \<Rightarrow> int" where
  "price_of tokens price = sint tokens * sint price div tokensPerMillion"

lemma million: "\<not> (word_of_int tokensPerMillion :: int64) <s 0" "(word_of_int tokensPerMillion :: int64) \<noteq> 0"
  "sint (word_of_int tokensPerMillion :: int64) = tokensPerMillion"
  by (simp_all add: tokensPerMillion_def word_sless_alt)

lemma MulTokens_exact:
  assumes "\<not> tokens <s 0" "\<not> price <s 0"
  shows "MulTokensByRatePer1M tokens price =
     (case int64Checked (price_of tokens price) of
        Inl e \<Rightarrow> Inl e | Inr n \<Rightarrow> Inr \<lparr>NanoUnits = n, Currency = [], MoneyPresent = True\<rparr>)"
proof (cases "tokens = 0 \<or> price = 0")
  case True
  then have "price_of tokens price = 0" by (auto simp: price_of_def)
  with True assms show ?thesis by (auto simp: MulTokensByRatePer1M_def int64Checked_def)
next
  case False
  obtain hi lo where m: "Mul64 tokens price = (hi, lo)" by fastforce
  let ?d = "word_of_int tokensPerMillion :: int64"
  note pd = product_division [OF assms million(1,2) m, unfolded million(3), folded price_of_def]
  show ?thesis
  proof (cases "?d \<le> hi")
    case True
    then have "int64Checked (price_of tokens price) = Inl MoneyOverflow" using pd(1) by (intro int64Checked_large) simp
    with True False assms m show ?thesis by (auto simp: MulTokensByRatePer1M_def Let_def)
  next
    case small: False
    from pd(2) [OF this] obtain q r where q: "Div64 hi lo ?d = Some (q, r)" "uint q = price_of tokens price" by blast
    have "int64Checked (price_of tokens price) = (if MaxInt64_word < q then Inl MoneyOverflow else Inr q)"
      using q(2) uint_bounded [of q] by (intro int64Checked_nonneg) (simp_all flip: q(2))
    with small False assms m q(1) show ?thesis by (auto simp: MulTokensByRatePer1M_def Let_def)
  qed
qed

lemma rounded_quotient:
  assumes "0 < d" "0 \<le> n"
  defines "r \<equiv> of_int n / of_int d :: rat"
  shows "rounded RoundingFloor r = n div d" "rounded RoundingTowardZero r = n div d" "n div d \<le> rounded p r"
    "n mod d = 0 \<Longrightarrow> rounded p r = n div d"
proof -
  have nn: "\<not> r < 0" using assms by (simp add: r_def divide_less_0_iff)
  have f: "\<lfloor>r\<rfloor> = n div d" unfolding r_def by (rule floor_divide_of_int_eq)
  show "rounded RoundingFloor r = n div d" "rounded RoundingTowardZero r = n div d" using f nn by simp_all
  have "\<lfloor>r\<rfloor> \<le> \<lfloor>r + 1 / 2\<rfloor>" by (rule floor_mono) simp
  then show "n div d \<le> rounded p r" using f nn by (cases p) (simp_all add: Let_def)
  assume "n mod d = 0"
  then have "n = n div d * d" by (metis add.right_neutral div_mult_mod_eq)
  then have "(of_int n :: rat) = of_int (n div d) * of_int d" by (metis of_int_mult)
  then have "r = of_int (n div d)" using assms(1) by (simp add: r_def)
  then show "rounded p r = n div d" by (rule rounded_integral)
qed

lemma TokensFromMoney_exact:
  assumes "\<not> money <s 0" "\<not> price <s 0" "price \<noteq> 0" "money \<noteq> 0"
  shows "TokensFromMoneyPer1M money price p =
     (case p of RoundingOther s \<Rightarrow> Inl (UnknownRounding s)
      | _ \<Rightarrow> int64Checked (rounded p (of_int (sint money * tokensPerMillion) / of_int (sint price))))"
proof (cases "RoundingPolicy_IsKnown p")
  case True
  define n d where "n = sint money * tokensPerMillion" and "d = sint price"
  define r where "r = (of_int n / of_int d :: rat)"
  define p' where "p' = (if p = RoundingUnspecified then RoundingTowardZero else p)"
  have p': "RoundingPolicy_IsKnown p'" "rounded p' r = rounded p r" "p' \<noteq> RoundingUnspecified"
    using True by (cases p; simp add: p'_def)+
  obtain hi lo where m: "Mul64 money (word_of_int tokensPerMillion) = (hi, lo)" by fastforce
  note pd = product_division [OF assms(1) million(1) assms(2,3) m, unfolded million(3), folded n_def d_def]
  have pos: "0 < d" "0 \<le> n" using nonneg_zero [OF assms(2,3)] nonneg_zero [OF assms(1,4)]
    by (simp_all add: n_def d_def tokensPerMillion_def)
  note rq = rounded_quotient [OF pos, folded r_def]
  have "TokensFromMoneyPer1M money price p = int64Checked (rounded p' r)"
  proof (cases "price \<le> hi")
    case True
    then have "2 ^ 63 \<le> rounded p' r" using pd(1) rq(3) [of p'] by simp
    with True p' assms m show ?thesis
      by (simp add: TokensFromMoneyPer1M_def int64Checked_large Let_def flip: p'_def)
  next
    case False
    from pd(2) [OF this] obtain q t where q: "Div64 hi lo price = Some (q, t)" "uint q = n div d" "uint t = n mod d" by blast
    have frac: "Fract n d = r" by (simp add: r_def Fract_of_int_quotient)
    have chk: "int64Checked (n div d) = (if MaxInt64_word < q then Inl MoneyOverflow else Inr q)"
      using q(2) uint_bounded [of q] by (intro int64Checked_nonneg) (simp_all flip: q(2))
    show ?thesis
    proof (cases "t = 0 \<or> p' = RoundingTowardZero \<or> p' = RoundingFloor")
      case True
      then have "rounded p' r = n div d" using rq q(3) by auto
      with True False q(1) p' assms m chk show ?thesis
        by (simp add: TokensFromMoneyPer1M_def Let_def flip: p'_def)
    next
      case odd: False
      have "TokensFromMoneyPer1M money price p = RoundToInt64 (Some r) p'"
        using odd False q(1) p' assms m frac
        by (simp add: TokensFromMoneyPer1M_def Let_def flip: p'_def n_def d_def)
      with p'(1) show ?thesis by (cases p') (simp_all add: RoundToInt64_rounded del: rounded.simps)
    qed
  qed
  with True p'(2) show ?thesis by (cases p) (simp_all add: r_def n_def d_def del: rounded.simps)
qed (use assms in \<open>cases p; simp add: TokensFromMoneyPer1M_def\<close>)

lemma sint_zero_iff [simp]: "sint (w :: int64) = 0 \<longleftrightarrow> w = 0"
proof
  assume "sint w = 0"
  then have "(of_int (sint w) :: int64) = of_int 0" by (rule arg_cong)
  then show "w = 0" by (simp only: of_int_sint of_int_0 scast_id)
qed simp

lemma token_price_spec:
  "MulTokensByRatePer1M tokens price =
     (if sint tokens < 0 \<or> sint price < 0 then Inl NegativeOperand
      else let n = sint tokens * sint price div 1000000 in
        if n < 2 ^ 63 then Inr \<lparr>NanoUnits = word_of_int n, Currency = [], MoneyPresent = True\<rparr> else Inl MoneyOverflow)"
proof (cases "sint tokens < 0 \<or> sint price < 0")
  case False
  then have "0 \<le> price_of tokens price" by (simp add: price_of_def tokensPerMillion_def pos_imp_zdiv_nonneg_iff)
  with False MulTokens_exact [of tokens price] show ?thesis
    by (simp add: sless_zero int64Checked_def Let_def) (simp add: price_of_def tokensPerMillion_def)
qed (auto simp: MulTokensByRatePer1M_def sless_zero)

lemma token_count_spec:
  "TokensFromMoneyPer1M money price policy =
     (if sint money < 0 \<or> sint price < 0 then Inl NegativeOperand
      else if sint price = 0 then Inl ZeroRate
      else if sint money = 0 then Inr 0
      else case policy of
          RoundingOther s \<Rightarrow> Inl (UnknownRounding s)
        | _ \<Rightarrow> (let n = rounded policy (of_int (sint money * 1000000) / of_int (sint price)) in
             if n < 2 ^ 63 then Inr (word_of_int n) else Inl MoneyOverflow))"
proof (cases "sint money < 0 \<or> sint price < 0 \<or> price = 0 \<or> money = 0")
  case True
  then show ?thesis by (auto simp: TokensFromMoneyPer1M_def sless_zero)
next
  case False
  let ?r = "of_int (sint money * 1000000) / of_int (sint price) :: rat"
  have pos: "0 < sint price" "0 \<le> sint money * 1000000" using False sint_zero_iff [of price] by linarith+
  then have "0 \<le> sint money * 1000000 div sint price" by (simp add: pos_imp_zdiv_nonneg_iff)
  also have "\<dots> \<le> rounded policy ?r" using pos by (rule rounded_quotient(3))
  finally have "- (2 ^ 63) \<le> rounded policy ?r" by simp
  moreover have "TokensFromMoneyPer1M money price policy = (case policy of RoundingOther s \<Rightarrow> Inl (UnknownRounding s)
      | _ \<Rightarrow> int64Checked (rounded policy ?r))"
    using TokensFromMoney_exact [of money price policy, unfolded tokensPerMillion_def] False by (simp add: sless_zero)
  ultimately show ?thesis using False
    by (cases policy) (simp_all add: int64Checked_def Let_def del: rounded.simps)
qed

text \<open>
  C15: Token prices and their inversion are exact. The price of tokens at a rate is the exact
  product divided by a million and rounded down; the number of tokens for an amount is the
  exact quotient rounded by the policy. Both report an overflow exactly when that value does
  not fit 64 bits, refuse negative operands, and never divide by zero or lose a high word.
\<close>

theorem token_prices_exact:
  "MulTokensByRatePer1M tokens price =
     (if sint tokens < 0 \<or> sint price < 0 then Inl NegativeOperand
      else let n = sint tokens * sint price div 1000000 in
        if n < 2 ^ 63 then Inr \<lparr>NanoUnits = word_of_int n, Currency = [], MoneyPresent = True\<rparr> else Inl MoneyOverflow)
   \<and> TokensFromMoneyPer1M money price policy =
     (if sint money < 0 \<or> sint price < 0 then Inl NegativeOperand
      else if sint price = 0 then Inl ZeroRate
      else if sint money = 0 then Inr 0
      else case policy of
          RoundingOther s \<Rightarrow> Inl (UnknownRounding s)
        | _ \<Rightarrow> (let n = rounded policy (of_int (sint money * 1000000) / of_int (sint price)) in
             if n < 2 ^ 63 then Inr (word_of_int n) else Inl MoneyOverflow))"
  by (rule conjI [OF token_price_spec token_count_spec])

section \<open>Budgets\<close>

text \<open>
  C16: A token limit derived from a budget never overspends it. If an amount is turned into a
  number of tokens without rounding up, the price of these tokens at the same rate can be
  computed and is at most the amount, and one token more is worth more than the amount.
\<close>

theorem token_limit_within_budget:
  assumes "TokensFromMoneyPer1M money price policy = Inr tokens"
    and "policy \<in> {RoundingUnspecified, RoundingTowardZero, RoundingFloor}"
  shows "\<exists>cost. MulTokensByRatePer1M tokens price = Inr cost \<and> MoneyPresent cost \<and> 0 \<le> sint (NanoUnits cost)
     \<and> sint (NanoUnits cost) \<le> sint money \<and> sint money * 1000000 < (sint tokens + 1) * sint price"
proof -
  have ok: "\<not> (sint money < 0 \<or> sint price < 0)" "sint price \<noteq> 0"
    using assms(1) unfolding token_count_spec by (auto split: if_splits)
  define n where "n = sint money * 1000000 div sint price"
  have pos: "0 < sint price" "0 \<le> sint money * 1000000" using ok by linarith+
  then have n: "0 \<le> n" by (simp add: n_def pos_imp_zdiv_nonneg_iff)
  have r: "rounded policy (of_int (sint money * 1000000) / of_int (sint price)) = n"
    using rounded_quotient(1,2) [OF pos] assms(2) by (auto simp: n_def)
  have t: "sint tokens = n"
  proof (cases "sint money = 0")
    case True
    with assms(1) ok show ?thesis unfolding token_count_spec by (simp add: n_def split: if_splits)
  next
    case False
    then have "tokens = word_of_int n" "n < 2 ^ 63"
      using assms ok r unfolding token_count_spec Let_def
      by (auto simp del: rounded.simps split: if_splits)
    with n show ?thesis by (simp add: sint_of_int64)
  qed
  define c where "c = n * sint price div 1000000"
  have "n * sint price \<le> sint money * 1000000"
    using ok div_mult_mod_eq [of "sint money * 1000000" "sint price"] pos_mod_sign [of "sint price" "sint money * 1000000"]
    by (simp only: n_def) linarith
  then have c: "0 \<le> c" "c \<le> sint money" using n ok zdiv_mono1 [of "n * sint price" "sint money * 1000000" 1000000]
    by (simp_all add: c_def pos_imp_zdiv_nonneg_iff)
  then have "c < 2 ^ 63" using sint_less [of money] by simp
  with c t n ok have "MulTokensByRatePer1M tokens price = Inr \<lparr>NanoUnits = word_of_int c, Currency = [], MoneyPresent = True\<rparr>"
    unfolding token_price_spec by (simp add: c_def Let_def)
  moreover have "sint (word_of_int c :: int64) = c" using c \<open>c < 2 ^ 63\<close> by (intro sint_of_int64) simp_all
  moreover have "sint money * 1000000 < (n + 1) * sint price"
    using int_div_less_iff [OF pos(1), of "sint money * 1000000" "n + 1"] by (simp add: n_def)
  ultimately show ?thesis using c t by simp
qed

theorem token_limit_within_budget_witness:
  "\<exists>cost. MulTokensByRatePer1M 3333333 3 = Inr cost \<and> sint (NanoUnits cost) \<le> 10 \<and> 10 * 1000000 < ((3333333 :: int) + 1) * 3"
proof -
  have "TokensFromMoneyPer1M 10 3 RoundingFloor = Inr 3333333" by code_simp
  from token_limit_within_budget [OF this] show ?thesis by auto
qed

section \<open>Sums of money\<close>

lemma sint_sum:
  "0 \<le> sint a \<Longrightarrow> 0 \<le> sint b \<Longrightarrow> sint a + sint b < 2 ^ 63 \<Longrightarrow> sint ((a :: int64) + b) = sint a + sint b"
  by (simp add: sint_word_add signed_take_bit_int_eq_self)

lemma addMoneyChecked_eq:
  "addMoneyChecked a b = (if 0 \<le> sint a \<and> 0 \<le> sint b \<and> sint a + sint b < 2 ^ 63 then Some (a + b) else None)"
proof (cases "sint a < 0 \<or> sint b < 0")
  case False
  then have nn: "\<not> a <s 0" "\<not> b <s 0" by (simp_all add: sless_zero)
  note ab = nonneg_word [OF nn(1)] nonneg_word [OF nn(2)]
  have u: "uint (a + b) = uint a + uint b" using ab by (simp add: uint_plus_if_size word_size)
  have "sint a + sint b < 2 ^ 63 \<longleftrightarrow> \<not> MaxInt64_word < a + b" using u ab by (auto simp: MaxInt64_less)
  then show ?thesis using False nn ab u by (auto simp: addMoneyChecked_def Add64_def)
qed (auto simp: addMoneyChecked_def sless_zero)

lemma subMoneyChecked_iff:
  "subMoneyChecked a b = Some c \<longleftrightarrow> 0 \<le> sint b \<and> sint b \<le> sint a \<and> c = a - b"
  by (auto simp: subMoneyChecked_def word_sless_alt)

definition in_currency :: "string \<Rightarrow> Money \<Rightarrow> bool" where
  "in_currency cur p \<longleftrightarrow> MoneyPresent p \<and> NormalizeCurrency (Currency p) = Inr cur \<and> 0 \<le> sint (NanoUnits p)"

lemma Money_Add_iff:
  "Money_Add a b = Inr c \<longleftrightarrow>
     (\<exists>cur. in_currency cur a \<and> in_currency cur b \<and> sint (NanoUnits a) + sint (NanoUnits b) < 2 ^ 63
        \<and> c = \<lparr>NanoUnits = NanoUnits a + NanoUnits b, Currency = cur, MoneyPresent = True\<rparr>)"
  by (auto simp: Money_Add_def requirePresentSameCurrency_def in_currency_def addMoneyChecked_eq
      split: sum.splits option.splits if_splits)

lemma NormalizeCurrency_idem: "NormalizeCurrency c = Inr cur \<Longrightarrow> NormalizeCurrency cur = Inr cur"
  by (auto simp: NormalizeCurrency_def Let_def split: if_splits)

lemma foldR_Money_Add:
  assumes "in_currency cur acc"
  shows "foldR Money_Add acc ps = Inr m \<longleftrightarrow>
     (\<forall>p \<in> set ps. in_currency cur p) \<and> sint (NanoUnits acc) + (\<Sum>p\<leftarrow>ps. sint (NanoUnits p)) < 2 ^ 63
     \<and> m = (if ps = [] then acc
            else \<lparr>NanoUnits = NanoUnits acc + (\<Sum>p\<leftarrow>ps. NanoUnits p), Currency = cur, MoneyPresent = True\<rparr>)"
  using assms
proof (induction ps arbitrary: acc)
  case Nil
  then show ?case using sint_less [of "NanoUnits acc"] by auto
next
  case (Cons p ps)
  let ?s = "sint (NanoUnits acc) + sint (NanoUnits p)" and ?rest = "\<Sum>p\<leftarrow>ps. sint (NanoUnits p)"
  let ?acc = "\<lparr>NanoUnits = NanoUnits acc + NanoUnits p, Currency = cur, MoneyPresent = True\<rparr> :: Money"
  have cur: "in_currency c acc \<longleftrightarrow> c = cur" for c using Cons.prems by (auto simp: in_currency_def)
  have add: "Money_Add acc p = Inr c \<longleftrightarrow> in_currency cur p \<and> ?s < 2 ^ 63 \<and> c = ?acc" for c
    by (auto simp: Money_Add_iff cur)
  have step: "foldR Money_Add acc (p # ps) = Inr m \<longleftrightarrow>
      in_currency cur p \<and> ?s < 2 ^ 63 \<and> foldR Money_Add ?acc ps = Inr m"
  proof (cases "Money_Add acc p")
    case (Inl e)
    then show ?thesis using add [of ?acc] by auto
  next
    case (Inr c)
    then have "in_currency cur p" "?s < 2 ^ 63" "c = ?acc" using add [of c] by blast+
    with Inr show ?thesis by simp
  qed
  show ?case
  proof (cases "in_currency cur p \<and> ?s < 2 ^ 63")
    case True
    then have s: "0 \<le> ?s" "sint (NanoUnits acc + NanoUnits p) = ?s"
      using Cons.prems by (simp_all add: in_currency_def sint_sum)
    have "in_currency cur ?acc" using s Cons.prems NormalizeCurrency_idem by (auto simp: in_currency_def)
    from Cons.IH [OF this] show ?thesis unfolding step using True s by (auto simp: add.assoc)
  next
    case False
    have "0 \<le> ?rest" if "\<forall>p \<in> set ps. in_currency cur p" using that by (intro sum_list_nonneg) (auto simp: in_currency_def)
    with False show ?thesis unfolding step by (auto simp: add.assoc)
  qed
qed

lemma sint_sum_list:
  "(\<forall>p \<in> set ps. 0 \<le> sint (NanoUnits p)) \<Longrightarrow> (\<Sum>p\<leftarrow>ps. sint (NanoUnits p)) < 2 ^ 63 \<Longrightarrow>
     sint (\<Sum>p\<leftarrow>ps. NanoUnits p) = (\<Sum>p\<leftarrow>ps. sint (NanoUnits p)) \<and> 0 \<le> (\<Sum>p\<leftarrow>ps. sint (NanoUnits p))"
  by (induction ps) (auto simp: sint_sum)

text \<open>
  A sum of amounts is reported exactly for amounts that are all present, not negative and in
  one currency and whose exact sum fits 64 bits; then it is that sum.
\<close>

lemma AggregateMoney_exact:
  "AggregateMoney parts = Inr m \<longleftrightarrow>
     (\<exists>cur. parts \<noteq> [] \<and> (\<forall>p \<in> set parts. in_currency cur p) \<and> (\<Sum>p\<leftarrow>parts. sint (NanoUnits p)) < 2 ^ 63
        \<and> m = (if tl parts = [] then hd parts
               else \<lparr>NanoUnits = (\<Sum>p\<leftarrow>parts. NanoUnits p), Currency = cur, MoneyPresent = True\<rparr>))"
proof (cases parts)
  case (Cons p ps)
  have v: "ValidatePresentMoney p = None \<and> MoneyPresent p \<longleftrightarrow> (\<exists>cur. in_currency cur p)"
    by (auto simp: ValidatePresentMoney_def in_currency_def sless_zero split: sum.splits if_splits)
  show ?thesis
  proof (cases "\<exists>cur. in_currency cur p")
    case True
    then obtain cur where cur: "in_currency cur p" by blast
    then have "in_currency c p \<longleftrightarrow> c = cur" for c by (auto simp: in_currency_def)
    with v cur foldR_Money_Add [OF cur, of ps m] Cons show ?thesis by (auto simp: AggregateMoney_def)
  next
    case False
    with v Cons show ?thesis by (auto simp: AggregateMoney_def split: option.splits)
  qed
qed (simp add: AggregateMoney_def)

lemma AggregateMoney_value:
  assumes "AggregateMoney parts = Inr m"
  shows "sint (NanoUnits m) = (\<Sum>p\<leftarrow>parts. sint (NanoUnits p))" "MoneyPresent m"
proof -
  from assms obtain cur where c: "parts \<noteq> []" "\<forall>p \<in> set parts. in_currency cur p" "(\<Sum>p\<leftarrow>parts. sint (NanoUnits p)) < 2 ^ 63"
    "m = (if tl parts = [] then hd parts
          else \<lparr>NanoUnits = (\<Sum>p\<leftarrow>parts. NanoUnits p), Currency = cur, MoneyPresent = True\<rparr>)"
    by (auto simp: AggregateMoney_exact)
  then show "sint (NanoUnits m) = (\<Sum>p\<leftarrow>parts. sint (NanoUnits p))" "MoneyPresent m"
    using sint_sum_list [of parts] by (cases parts; auto simp: in_currency_def)+
qed

lemma Money_Add_Sub:
  assumes "Money_Add a b = Inr c"
  shows "\<exists>d. Money_Sub c b = Inr d \<and> NanoUnits d = NanoUnits a \<and> NormalizeCurrency (Currency a) = Inr (Currency d)"
proof -
  from assms obtain cur where c: "in_currency cur a" "in_currency cur b" "sint (NanoUnits a) + sint (NanoUnits b) < 2 ^ 63"
    "c = \<lparr>NanoUnits = NanoUnits a + NanoUnits b, Currency = cur, MoneyPresent = True\<rparr>"
    by (auto simp: Money_Add_iff)
  then have "subMoneyChecked (NanoUnits c) (NanoUnits b) = Some (NanoUnits a)"
    by (simp add: subMoneyChecked_iff in_currency_def sint_sum)
  with c NormalizeCurrency_idem [of "Currency b" cur] show ?thesis
    by (simp add: Money_Sub_def requirePresentSameCurrency_def in_currency_def)
qed

section \<open>Decimal rates against their grammar\<close>

lemma scan_decimal_after: "scan_decimal (Some k) i s = Some d \<longleftrightarrow> d = Some k \<and> list_all is_digit s"
  by (induction s arbitrary: i) (auto simp: is_digit_def)

lemma scan_decimal_none: "scan_decimal None i s = Some None \<longleftrightarrow> list_all is_digit s"
  by (induction s arbitrary: i) (auto simp: is_digit_def scan_decimal_after)

lemma scan_decimal_some:
  "scan_decimal None i s = Some (Some k) \<longleftrightarrow>
     (\<exists>a b. s = a @ CHR ''.'' # b \<and> k = i + length a \<and> list_all is_digit a \<and> list_all is_digit b)"
proof (induction s arbitrary: i)
  case (Cons c s)
  have dot: "\<not> is_digit CHR ''.''" by (simp add: is_digit_def)
  show ?case
  proof (cases "c = CHR ''.''")
    case True
    then show ?thesis using dot by (auto simp: scan_decimal_after Cons_eq_append_conv)
  next
    case False
    then have "(\<exists>a b. c # s = a @ CHR ''.'' # b \<and> k = i + length a \<and> list_all is_digit a \<and> list_all is_digit b) \<longleftrightarrow>
       is_digit c \<and> (\<exists>a b. s = a @ CHR ''.'' # b \<and> k = Suc i + length a \<and> list_all is_digit a \<and> list_all is_digit b)"
      by (fastforce simp: Cons_eq_append_conv)
    then show ?thesis using Cons.IH [of "Suc i"] False by auto
  qed
qed simp

lemma digits_val_snoc: "digits_val (s @ [c]) = 10 * digits_val s + digit_val c"
  by (simp add: digits_val_def)

lemma digits_val_append: "digits_val (a @ b) = digits_val a * 10 ^ length b + digits_val b"
proof (induction b rule: rev_induct)
  case (snoc c b)
  have "digits_val (a @ b @ [c]) = 10 * digits_val (a @ b) + digit_val c" using digits_val_snoc [of "a @ b" c] by simp
  with snoc show ?case by (simp add: digits_val_snoc algebra_simps)
qed (simp add: digits_val_def)

lemma digits_val_zeros [simp]: "digits_val (replicate n CHR ''0'') = 0"
  by (induction n) (simp_all add: digits_val_def digit_val_def)

lemma digits_val_nonneg: "list_all is_digit s \<Longrightarrow> 0 \<le> digits_val s"
  by (induction s rule: rev_induct) (auto simp: digits_val_snoc digit_val_def is_digit_def digits_val_def)

lemma nano_value_iff:
  assumes "list_all is_digit (ip @ fp)" "length fp \<le> 9"
  shows "nano_value ip fp = Inr n \<longleftrightarrow>
     (of_int (sint n) :: rat) = (of_int (digits_val ip) + of_int (digits_val fp) / 10 ^ length fp) * 10 ^ 9"
proof -
  define v where "v = digits_val ip * 10 ^ 9 + digits_val fp * 10 ^ (9 - length fp)"
  have "(10 :: rat) ^ 9 = 10 ^ length fp * 10 ^ (9 - length fp)" using assms(2) by (simp flip: power_add)
  then have v: "(of_int v :: rat) = (of_int (digits_val ip) + of_int (digits_val fp) / 10 ^ length fp) * 10 ^ 9"
    by (simp add: v_def field_simps)
  have nn: "0 \<le> v" using digits_val_nonneg [of ip] digits_val_nonneg [of fp] assms(1) by (simp add: v_def)
  have nv: "nano_value ip fp = (if v < 2 ^ 63 then Inr (word_of_int v) else Inl MoneyOverflow)"
    using nn by (simp add: nano_value_def v_def nanosPerMajorUnit_def digits_val_append Let_def)
  have "sint n = v \<longleftrightarrow> v < 2 ^ 63 \<and> n = word_of_int v"
    using sint_less [of n] nn sint_of_int64 [of v] by auto
  then show ?thesis unfolding v [symmetric] of_int_eq_iff nv by auto
qed

text \<open>
  C38: Decimal rates are parsed exactly. A text is accepted with a value iff it is one or more
  digits, optionally followed by a point and one to nine digits, and the value is the exact
  number of nano-units the decimal stands for; a text whose value does not fit 64 bits, a sign,
  an exponent or a blank is never accepted.
\<close>

theorem decimal_rates_exact:
  "ParseDecimalToNano raw = Inr n \<longleftrightarrow>
     (\<exists>ip fp. ip \<noteq> [] \<and> list_all is_digit (ip @ fp) \<and> length fp \<le> 9
        \<and> raw = ip @ (if fp = [] then [] else CHR ''.'' # fp)
        \<and> (of_int (sint n) :: rat) = (of_int (digits_val ip) + of_int (digits_val fp) / 10 ^ length fp) * 10 ^ 9)"
proof (cases "scan_decimal None 0 raw")
  case None
  have "\<not> (list_all is_digit (ip @ fp) \<and> raw = ip @ (if fp = [] then [] else CHR ''.'' # fp))" for ip fp
    using None scan_decimal_none [of 0 raw] scan_decimal_some [of 0 raw "length ip"] by (cases "fp = []") auto
  moreover have "ParseDecimalToNano raw \<noteq> Inr n" using None by (simp add: ParseDecimalToNano_def)
  ultimately show ?thesis by blast
next
  case (Some d)
  show ?thesis
  proof (cases d)
    case None
    then have d: "list_all is_digit raw" using Some scan_decimal_none by simp
    then have "CHR ''.'' \<notin> set raw" by (auto simp: list_all_iff is_digit_def)
    then have r: "raw = ip @ (if fp = [] then [] else CHR ''.'' # fp) \<longleftrightarrow> raw = ip \<and> fp = []" for ip fp by auto
    have "ParseDecimalToNano raw = Inr n \<longleftrightarrow> raw \<noteq> [] \<and> nano_value raw [] = Inr n"
      using Some None by (auto simp: ParseDecimalToNano_def)
    with nano_value_iff [of raw "[]" n] d show ?thesis unfolding r by auto
  next
    case (Some k)
    then obtain a b where ab: "raw = a @ CHR ''.'' # b" "k = length a" "list_all is_digit a" "list_all is_digit b"
      using \<open>scan_decimal None 0 raw = Some d\<close> scan_decimal_some by auto
    have nd: "CHR ''.'' \<notin> set a" "CHR ''.'' \<notin> set b" using ab(3,4) by (auto simp: list_all_iff is_digit_def)
    have r: "list_all is_digit (ip @ fp) \<and> raw = ip @ (if fp = [] then [] else CHR ''.'' # fp) \<longleftrightarrow>
        b \<noteq> [] \<and> ip = a \<and> fp = b" for ip fp
    proof
      assume h: "list_all is_digit (ip @ fp) \<and> raw = ip @ (if fp = [] then [] else CHR ''.'' # fp)"
      then have "list_all is_digit ip" by simp
      then have "CHR ''.'' \<notin> set ip" by (auto simp: list_all_iff is_digit_def)
      with h ab(1) nd show "b \<noteq> [] \<and> ip = a \<and> fp = b" by (auto simp: append_Cons_eq_iff split: if_splits)
    qed (use ab in auto)
    have "ParseDecimalToNano raw = Inr n \<longleftrightarrow> a \<noteq> [] \<and> b \<noteq> [] \<and> length b \<le> 9 \<and> nano_value a b = Inr n"
      using Some \<open>scan_decimal None 0 raw = Some d\<close> ab(1,2) by (auto simp: ParseDecimalToNano_def Let_def)
    also have "\<dots> \<longleftrightarrow> a \<noteq> [] \<and> b \<noteq> [] \<and> length b \<le> 9 \<and>
       (of_int (sint n) :: rat) = (of_int (digits_val a) + of_int (digits_val b) / 10 ^ length b) * 10 ^ 9"
      using nano_value_iff [of a b n] ab(3,4) by auto
    also have "\<dots> \<longleftrightarrow> (\<exists>ip fp. (list_all is_digit (ip @ fp) \<and> raw = ip @ (if fp = [] then [] else CHR ''.'' # fp))
       \<and> ip \<noteq> [] \<and> length fp \<le> 9
       \<and> (of_int (sint n) :: rat) = (of_int (digits_val ip) + of_int (digits_val fp) / 10 ^ length fp) * 10 ^ 9)"
      unfolding r by auto
    finally show ?thesis by (simp only: conj_ac)
  qed
qed

end
