(* ===== verification/Authority_Contracts.thy ===== *)
theory Authority_Contracts
  imports Money_Arithmetic
begin

text \<open>
  The contracts between the proxy and its authorities (\<open>pkg/aipsdk/authority\<close>, with the
  parts of \<open>metering\<close> and \<open>economics\<close> they use): stages, postures and registrations, the
  admission inputs, the decisions, settlements and leases an authority may answer, and the
  validation every answer goes through.

  A Go string type with named constants is a datatype with one constructor per constant, one
  for the empty string where the code tests it, and one for any other text. The texts of the
  validation errors are abbreviated to a tag.
\<close>

section \<open>Metering types\<close>

datatype EconomicPerspective =
  PerspectiveUnset | PerspectiveCustomer | PerspectiveOperator | PerspectiveNone | PerspectiveOther string

datatype Boundary =
  BoundaryFrontendIngress | BoundaryBackendIngress | BoundaryBackendEgress | BoundaryFrontendEgress | BoundaryOther string

datatype LifecycleScope =
  LifecycleUnset | LifecycleLogicalRequest | LifecycleBackendAttempt | LifecycleAuxiliaryRequest | LifecycleOther string

datatype authority_error =
  NonAllowWithHolds
| ContractError string
| MoneyError money_error
| ProviderPanic | ConcurrencyPanic | CompensatePanic
| ProviderError string

fun EconomicPerspective_Validate :: "EconomicPerspective \<Rightarrow> authority_error option" where
  "EconomicPerspective_Validate PerspectiveUnset = Some (ContractError ''unknown perspective'')"
| "EconomicPerspective_Validate (PerspectiveOther _) = Some (ContractError ''unknown perspective'')"
| "EconomicPerspective_Validate _ = None"

fun Boundary_Validate :: "Boundary \<Rightarrow> authority_error option" where
  "Boundary_Validate (BoundaryOther _) = Some (ContractError ''unknown boundary'')"
| "Boundary_Validate _ = None"

fun LifecycleScope_Validate :: "LifecycleScope \<Rightarrow> authority_error option" where
  "LifecycleScope_Validate LifecycleUnset = Some (ContractError ''unknown lifecycle'')"
| "LifecycleScope_Validate (LifecycleOther _) = Some (ContractError ''unknown lifecycle'')"
| "LifecycleScope_Validate _ = None"

record Quantity =
  qComponent :: string
  qUnit :: string
  qValue :: int64
  qPresent :: bool
  qSchema :: string

definition registeredUnits :: "string \<Rightarrow> string option" where
  "registeredUnits component =
     (if component = ''request'' then Some ''count''
      else if component \<in> {''input_token'', ''output_token'', ''cache_read_input_token'', ''cache_write_input_token'',
        ''reasoning_output_token'', ''total_token''} then Some ''token''
      else None)"

definition Quantity_Validate :: "Quantity \<Rightarrow> authority_error option" where
  "Quantity_Validate q =
     (if qComponent q = [] then Some (ContractError ''quantity component required'')
      else if qUnit q = [] then Some (ContractError ''quantity unit required'')
      else case registeredUnits (qComponent q) of
          Some want \<Rightarrow> if qUnit q \<noteq> want then Some (ContractError ''quantity unit'') else None
        | None \<Rightarrow> if qSchema q = [] then Some (ContractError ''quantity schema required'') else None)"

record FactRef =
  frStreamID :: string
  frFactID :: string

definition FactRef_Validate :: "FactRef \<Rightarrow> authority_error option" where
  "FactRef_Validate r =
     (if TrimSpace (frStreamID r) = [] then Some (ContractError ''fact_ref stream_id required'')
      else if TrimSpace (frFactID r) = [] then Some (ContractError ''fact_ref fact_id required'')
      else None)"

section \<open>Exposure\<close>

datatype OutputBoundKind =
  OutputBoundRequireClientLimit | OutputBoundConfiguredDefault | OutputBoundModelBackendMaximum
| OutputBoundClamp | OutputBoundDeny | OutputBoundClientProvided | OutputBoundOther string

record ConservativeOutputAssumption =
  BoundKind :: OutputBoundKind
  TokenCount :: int64
  OutputPolicyID :: string
  OutputPresent :: bool

definition OutputAssumption_Validate :: "ConservativeOutputAssumption \<Rightarrow> authority_error option" where
  "OutputAssumption_Validate c =
     (if \<not> OutputPresent c then None
      else case BoundKind c of
          OutputBoundOther _ \<Rightarrow> Some (ContractError ''unknown output bound kind'')
        | _ \<Rightarrow> if TokenCount c <s 0 then Some (ContractError ''token_count must be non-negative'') else None)"

record ExposureBasis =
  exPerspective :: EconomicPerspective
  exBoundary :: Boundary
  exLifecycle :: LifecycleScope
  exQuantities :: "Quantity list"
  exMoney :: Money
  exOutput :: ConservativeOutputAssumption
  exFactRefs :: "FactRef list"

text \<open>The first error of a list of checks, as consecutive early returns give it.\<close>

fun first_failure :: "'e option list \<Rightarrow> 'e option" where
  "first_failure [] = None"
| "first_failure (c # cs) = (case c of Some e \<Rightarrow> Some e | None \<Rightarrow> first_failure cs)"

lemma first_failure_None [simp]: "first_failure cs = None \<longleftrightarrow> (\<forall>c \<in> set cs. c = None)"
  by (induction cs) (auto split: option.splits)

definition ExposureBasis_Validate :: "ExposureBasis \<Rightarrow> authority_error option" where
  "ExposureBasis_Validate e =
     first_failure ([EconomicPerspective_Validate (exPerspective e), Boundary_Validate (exBoundary e),
         LifecycleScope_Validate (exLifecycle e)]
       @ map Quantity_Validate (exQuantities e) @ map FactRef_Validate (exFactRefs e)
       @ [OutputAssumption_Validate (exOutput e)])"

definition no_exposure :: ExposureBasis where
  "no_exposure = \<lparr>exPerspective = PerspectiveUnset, exBoundary = BoundaryOther [], exLifecycle = LifecycleUnset,
     exQuantities = [], exMoney = no_money,
     exOutput = \<lparr>BoundKind = OutputBoundOther [], TokenCount = 0, OutputPolicyID = [], OutputPresent = False\<rparr>,
     exFactRefs = []\<rparr>"

section \<open>Snapshot references, evidence and scope\<close>

record VersionRef =
  vrID :: string
  vrVersion :: string
  vrEffectiveAt :: gotime
  vrFetchedAt :: gotime

record PolicySnapshotRef = VersionRef +
  psPolicyID :: string

record RatingSnapshotRef = VersionRef +
  rsRaterID :: string

record QuotaPolicyRef =
  qpMethod :: string
  qpID :: string
  qpVersion :: string
  qpHash :: string

record ObservationRef =
  orStoreID :: string
  orObservationID :: string
  orRevision :: "64 word"
  orPayloadHash :: string

record SafeEvidence =
  evCategory :: string
  evCode :: string
  evMessage :: string
  evRuleID :: string
  evProviderID :: string
  evAttrs :: "(string, string) gomap"
  evQuotaPolicyRef :: "QuotaPolicyRef option"
  evEvidenceRefs :: "ObservationRef list"

definition no_evidence :: SafeEvidence where
  "no_evidence = \<lparr>evCategory = [], evCode = [], evMessage = [], evRuleID = [], evProviderID = [], evAttrs = [],
     evQuotaPolicyRef = None, evEvidenceRefs = []\<rparr>"

record scope_value =
  svKnown :: bool
  svValue :: string

record PrincipalScopeView =
  SubjectKind :: string
  PrincipalID :: scope_value
  DisplayName :: scope_value
  AuthMethod :: scope_value
  CredentialID :: scope_value
  Roles :: "string list"
  SafeClaims :: "(string, string) gomap"
  TenantID :: scope_value
  OrganizationID :: scope_value
  WorkspaceID :: scope_value
  ProjectID :: scope_value
  DepartmentID :: scope_value
  CostCenterID :: scope_value
  PolicyLabels :: "(string, string) gomap"
  scopeOrigin :: string
  ParentTraceID :: scope_value

section \<open>Stages, postures and descriptors\<close>

datatype Stage =
  StageUnset | StageRequestAdmit | StageRequestSettle | StageRequestRelease
| StageAttemptAdmit | StageAttemptSettle | StageAttemptRelease | StageLeaseAdmit | StageLeaseRelease
| StageOther string

fun Stage_IsKnown :: "Stage \<Rightarrow> bool" where
  "Stage_IsKnown StageUnset = False"
| "Stage_IsKnown (StageOther _) = False"
| "Stage_IsKnown _ = True"

datatype ProviderKind = ProviderKindUnset | ProviderKindAuthority | ProviderKindObserver | ProviderKindOther string

datatype Strength = StrengthUnset | StrengthRequired | StrengthAdvisory | StrengthOther string

datatype FailureBehavior = FailureUnset | FailureFailClosed | FailureFailOpen | FailureOther string

fun ProviderKind_Validate :: "ProviderKind \<Rightarrow> authority_error option" where
  "ProviderKind_Validate ProviderKindAuthority = None"
| "ProviderKind_Validate ProviderKindObserver = None"
| "ProviderKind_Validate _ = Some (ContractError ''unknown provider kind'')"

fun Strength_Validate :: "Strength \<Rightarrow> authority_error option" where
  "Strength_Validate StrengthRequired = None"
| "Strength_Validate StrengthAdvisory = None"
| "Strength_Validate _ = Some (ContractError ''unknown strength'')"

fun FailureBehavior_Validate :: "FailureBehavior \<Rightarrow> authority_error option" where
  "FailureBehavior_Validate FailureFailClosed = None"
| "FailureBehavior_Validate FailureFailOpen = None"
| "FailureBehavior_Validate _ = Some (ContractError ''unknown failure behavior'')"

record StagePosture =
  spStage :: Stage
  spStrength :: Strength
  spFailureBehavior :: FailureBehavior

definition StagePosture_Validate :: "StagePosture \<Rightarrow> authority_error option" where
  "StagePosture_Validate p =
     (if \<not> Stage_IsKnown (spStage p) then Some (ContractError ''unknown stage'')
      else case Strength_Validate (spStrength p) of
          Some e \<Rightarrow> Some e
        | None \<Rightarrow> FailureBehavior_Validate (spFailureBehavior p))"

record ProviderDescriptor =
  pdID :: string
  pdKind :: ProviderKind
  pdPostures :: "StagePosture list"

definition EffectiveKind :: "ProviderDescriptor \<Rightarrow> ProviderKind" where
  "EffectiveKind d = (if pdKind d = ProviderKindUnset then ProviderKindAuthority else pdKind d)"

fun validate_postures :: "ProviderKind \<Rightarrow> Stage set \<Rightarrow> StagePosture list \<Rightarrow> authority_error option" where
  "validate_postures kind seen [] = None"
| "validate_postures kind seen (p # ps) =
     (case StagePosture_Validate p of
        Some e \<Rightarrow> Some e
      | None \<Rightarrow>
          if spStage p \<in> seen then Some (ContractError ''duplicate stage'')
          else if kind = ProviderKindObserver \<and> spStrength p = StrengthRequired
          then Some (ContractError ''observer cannot declare required strength'')
          else validate_postures kind (insert (spStage p) seen) ps)"

definition ProviderDescriptor_Validate :: "ProviderDescriptor \<Rightarrow> authority_error option" where
  "ProviderDescriptor_Validate d =
     (if TrimSpace (pdID d) = [] then Some (ContractError ''provider id required'')
      else case (if pdKind d \<noteq> ProviderKindUnset then ProviderKind_Validate (pdKind d) else None) of
          Some e \<Rightarrow> Some e
        | None \<Rightarrow>
            if pdPostures d = [] then Some (ContractError ''at least one stage posture required'')
            else validate_postures (EffectiveKind d) {} (pdPostures d))"

definition AdmitPosture :: "ProviderDescriptor \<Rightarrow> Stage \<Rightarrow> StagePosture option" where
  "AdmitPosture d admit = find (\<lambda>p. spStage p = admit) (pdPostures d)"

section \<open>Decisions\<close>

datatype DecisionKind = DecisionUnset | DecisionAllow | DecisionDeny | DecisionAdvisory | DecisionOther string

fun DecisionKind_IsKnown :: "DecisionKind \<Rightarrow> bool" where
  "DecisionKind_IsKnown DecisionUnset = False"
| "DecisionKind_IsKnown (DecisionOther _) = False"
| "DecisionKind_IsKnown _ = True"

datatype ReservationKind =
  ReservationUnset | ReservationQuota | ReservationBudget | ReservationSpend | ReservationCredit | ReservationOther
| ReservationUnknown string

datatype ClampKind = ClampMaxOutputTokens | ClampMaxSpend | ClampOther | ClampUnknown string

datatype Readiness =
  ReadinessUnset | ReadinessReady | ReadinessDegraded | ReadinessUnavailable | ReadinessDisabled | ReadinessOther string

record Reservation =
  resHandle :: string
  resKind :: ReservationKind
  resRuleID :: string
  resQuantity :: "Quantity option"
  resMoney :: "Money option"

record Clamp =
  clKind :: ClampKind
  clValue :: int64
  clMoney :: Money
  clRuleID :: string

record Decision =
  dKind :: DecisionKind
  dProviderID :: string
  dStage :: Stage
  dReservations :: "Reservation list"
  dClamps :: "Clamp list"
  dCompensationHandle :: string
  dReadiness :: Readiness
  dBoundVersions :: "PolicySnapshotRef list"
  dRatingVersions :: "RatingSnapshotRef list"
  dExposure :: ExposureBasis
  dEvidence :: SafeEvidence

definition no_decision :: Decision where
  "no_decision = \<lparr>dKind = DecisionUnset, dProviderID = [], dStage = StageUnset, dReservations = [], dClamps = [],
     dCompensationHandle = [], dReadiness = ReadinessUnset, dBoundVersions = [], dRatingVersions = [],
     dExposure = no_exposure, dEvidence = no_evidence\<rparr>"

definition validateReservationAmounts :: "Reservation \<Rightarrow> authority_error option" where
  "validateReservationAmounts r =
     (let quantity = (case resQuantity r of Some q \<Rightarrow> if qPresent q then Some q else None | None \<Rightarrow> None);
          money = (case resMoney r of Some m \<Rightarrow> if MoneyPresent m then Some m else None | None \<Rightarrow> None)
      in case (quantity, money) of
          (Some q, None) \<Rightarrow> if qValue q <s 0 then Some (ContractError ''negative quantity'') else None
        | (None, Some m) \<Rightarrow> map_option MoneyError (ValidatePresentMoney m)
        | _ \<Rightarrow> Some (ContractError ''exactly one of quantity or money must be present''))"

fun validate_reservations :: "string set \<Rightarrow> Reservation list \<Rightarrow> authority_error option" where
  "validate_reservations seen [] = None"
| "validate_reservations seen (r # rs) =
     (let h = TrimSpace (resHandle r) in
      if h = [] then Some (ContractError ''empty handle'')
      else if h \<in> seen then Some (ContractError ''duplicate handle'')
      else case resKind r of
          ReservationUnknown _ \<Rightarrow> Some (ContractError ''unknown reservation kind'')
        | _ \<Rightarrow>
            (case validateReservationAmounts r of
               Some e \<Rightarrow> Some e
             | None \<Rightarrow> validate_reservations (insert h seen) rs))"

definition validateClamp :: "Clamp \<Rightarrow> authority_error option" where
  "validateClamp c =
     (case clKind c of
        ClampUnknown _ \<Rightarrow> Some (ContractError ''unknown clamp kind'')
      | ClampMaxOutputTokens \<Rightarrow> if clValue c <s 0 then Some (ContractError ''negative clamp'') else None
      | ClampMaxSpend \<Rightarrow>
          if \<not> MoneyPresent (clMoney c) then Some (ContractError ''max_spend clamp requires present money'')
          else map_option MoneyError (ValidatePresentMoney (clMoney c))
      | ClampOther \<Rightarrow> None)"

fun Readiness_IsKnown :: "Readiness \<Rightarrow> bool" where
  "Readiness_IsKnown ReadinessUnset = False"
| "Readiness_IsKnown (ReadinessOther _) = False"
| "Readiness_IsKnown _ = True"

definition decisionHasHolds :: "Decision \<Rightarrow> bool" where
  "decisionHasHolds d \<longleftrightarrow> dReservations d \<noteq> [] \<or> TrimSpace (dCompensationHandle d) \<noteq> []"

definition Decision_Validate :: "Decision \<Rightarrow> authority_error option" where
  "Decision_Validate d =
     (if dKind d \<noteq> DecisionUnset \<and> \<not> DecisionKind_IsKnown (dKind d) then Some (ContractError ''unknown decision kind'')
      else if dReadiness d \<noteq> ReadinessUnset \<and> \<not> Readiness_IsKnown (dReadiness d)
      then Some (ContractError ''unknown readiness'')
      else if TrimSpace (dCompensationHandle d) \<noteq> [] \<and> dReservations d = []
      then Some (ContractError ''standalone compensation handle'')
      else if (dKind d = DecisionDeny \<or> dKind d = DecisionAdvisory) \<and> decisionHasHolds d
      then Some (ContractError ''non-allow decision with holds'')
      else case validate_reservations {} (dReservations d) of
          Some e \<Rightarrow> Some e
        | None \<Rightarrow> first_failure (map validateClamp (dClamps d)))"

definition Decision_ValidateFor :: "Decision \<Rightarrow> ProviderDescriptor \<Rightarrow> Stage \<Rightarrow> authority_error option" where
  "Decision_ValidateFor d reg stage =
     (case ProviderDescriptor_Validate reg of
        Some e \<Rightarrow> Some e
      | None \<Rightarrow>
          (case Decision_Validate d of
             Some e \<Rightarrow> Some e
           | None \<Rightarrow>
               let got = TrimSpace (dProviderID d); want = TrimSpace (pdID reg) in
               if got \<noteq> [] \<and> got \<noteq> want then Some (ContractError ''provider_id mismatch'')
               else if stage \<noteq> StageUnset \<and> \<not> Stage_IsKnown stage then Some (ContractError ''unknown stage'')
               else if stage \<noteq> StageUnset \<and> AdmitPosture reg stage = None then Some (ContractError ''stage not declared'')
               else if dStage d \<noteq> StageUnset \<and> stage \<noteq> StageUnset \<and> dStage d \<noteq> stage
               then Some (ContractError ''stage mismatch'')
               else None))"

section \<open>Settlements\<close>

datatype SettlementKind =
  SettlementFinal | SettlementPartial | SettlementEstimated | SettlementUnavailable | SettlementUnknown string

record Settlement =
  seKind :: SettlementKind
  seHandle :: string
  seConsumed :: Money
  seReleased :: Money
  seEvidence :: SafeEvidence
  seBoundVersions :: "PolicySnapshotRef list"

definition no_settlement :: Settlement where
  "no_settlement = \<lparr>seKind = SettlementUnknown [], seHandle = [], seConsumed = no_money, seReleased = no_money,
     seEvidence = no_evidence, seBoundVersions = []\<rparr>"

definition handleOwned :: "string \<Rightarrow> string list \<Rightarrow> bool" where
  "handleOwned handle submitted = list_ex (\<lambda>sub. TrimSpace sub = handle) submitted"

fun SettlementKind_IsKnown :: "SettlementKind \<Rightarrow> bool" where
  "SettlementKind_IsKnown (SettlementUnknown _) = False"
| "SettlementKind_IsKnown _ = True"

definition Settlement_ValidateFor :: "Settlement \<Rightarrow> string list \<Rightarrow> EconomicPerspective \<Rightarrow> authority_error option" where
  "Settlement_ValidateFor s handles p =
     (case EconomicPerspective_Validate p of
        Some e \<Rightarrow> Some e
      | None \<Rightarrow>
          if \<not> SettlementKind_IsKnown (seKind s) then Some (ContractError ''unknown settlement kind'')
          else let h = TrimSpace (seHandle s) in
            if h = [] \<and> handles \<noteq> [] \<and> seKind s \<noteq> SettlementUnavailable then Some (ContractError ''settlement handle required'')
            else if h \<noteq> [] \<and> \<not> handleOwned h handles then Some (ContractError ''foreign settlement handle'')
            else case ValidatePresentMoney (seConsumed s) of
                Some e \<Rightarrow> Some (MoneyError e)
              | None \<Rightarrow>
                  (case ValidatePresentMoney (seReleased s) of
                     Some e \<Rightarrow> Some (MoneyError e)
                   | None \<Rightarrow>
                       if MoneyPresent (seConsumed s) \<and> MoneyPresent (seReleased s)
                       then (case (NormalizeCurrency (Currency (seConsumed s)), NormalizeCurrency (Currency (seReleased s))) of
                               (Inr a, Inr b) \<Rightarrow>
                                 if a \<noteq> b then Some (ContractError ''mixed-currency settlement money'') else None
                             | _ \<Rightarrow> None)
                       else None))"

definition OwnedFinalSettlement :: "string list \<Rightarrow> Settlement" where
  "OwnedFinalSettlement handles =
     no_settlement\<lparr>seKind := SettlementFinal, seHandle := (case handles of [] \<Rightarrow> [] | h # _ \<Rightarrow> TrimSpace h)\<rparr>"

section \<open>Leases\<close>

datatype LeaseDecisionKind = LeaseKindUnset | LeaseAllow | LeaseDeny | LeaseAdvisory | LeaseKindOther string

record LeaseOccupancy =
  loLeaseID :: string
  loGeneration :: int
  loRuleID :: string
  loExpiresAt :: gotime
  loRenewBefore :: duration
  loTTL :: duration
  loFailureBehavior :: FailureBehavior

record LeaseDecision =
  ldKind :: LeaseDecisionKind
  ldLeaseID :: string
  ldGeneration :: int
  ldExpiresAt :: gotime
  ldRemainingSlots :: int
  ldReadiness :: Readiness
  ldBoundVersion :: PolicySnapshotRef
  ldEvidence :: SafeEvidence
  ldRenewBefore :: duration
  ldTTL :: duration
  ldFailureBehavior :: FailureBehavior
  ldLeases :: "LeaseOccupancy list"
  ldSetID :: string

definition no_version :: PolicySnapshotRef where
  "no_version = \<lparr>vrID = [], vrVersion = [], vrEffectiveAt = 0, vrFetchedAt = 0, psPolicyID = []\<rparr>"

definition no_lease :: LeaseDecision where
  "no_lease = \<lparr>ldKind = LeaseKindUnset, ldLeaseID = [], ldGeneration = 0, ldExpiresAt = 0, ldRemainingSlots = 0,
     ldReadiness = ReadinessUnset, ldBoundVersion = no_version, ldEvidence = no_evidence, ldRenewBefore = 0, ldTTL = 0,
     ldFailureBehavior = FailureUnset, ldLeases = [], ldSetID = []\<rparr>"

record LeaseAdmission =
  laRequestID :: string
  laScope :: PrincipalScopeView
  laRuleID :: string
  laNamespace :: string
  laTTL :: duration
  laBoundVersion :: PolicySnapshotRef
  laIdempotencyKey :: string
  laLifecycle :: LifecycleScope
  laParentLeaseID :: string
  laAuxPolicy :: string

record LeaseRelease =
  lrLeaseID :: string
  lrRequestID :: string
  lrReason :: string
  lrSetID :: string

record LeaseRenew =
  lnLeaseID :: string
  lnRequestID :: string
  lnExpectedGeneration :: int
  lnTTL :: duration
  lnRuleID :: string
  lnSetID :: string
  lnRenewBefore :: duration

fun LeaseDecisionKind_IsKnown :: "LeaseDecisionKind \<Rightarrow> bool" where
  "LeaseDecisionKind_IsKnown LeaseKindUnset = False"
| "LeaseDecisionKind_IsKnown (LeaseKindOther _) = False"
| "LeaseDecisionKind_IsKnown _ = True"

definition contract_check :: "bool \<Rightarrow> string \<Rightarrow> authority_error option" where
  "contract_check bad msg = (if bad then Some (ContractError msg) else None)"

lemma contract_check_None [simp]: "contract_check bad msg = None \<longleftrightarrow> \<not> bad"
  by (simp add: contract_check_def)

definition validate_occupancy :: "LeaseDecisionKind \<Rightarrow> LeaseOccupancy \<Rightarrow> authority_error option" where
  "validate_occupancy kind occ = first_failure
     [contract_check (TrimSpace (loLeaseID occ) = []) ''empty lease id'',
      contract_check (loGeneration occ < 0) ''negative generation'',
      contract_check (kind = LeaseAllow \<and> loExpiresAt occ = 0) ''expires_at required'',
      contract_check (0 < loTTL occ \<and> 0 < loRenewBefore occ \<and> loTTL occ < loRenewBefore occ) ''renew_before exceeds ttl'',
      contract_check (loTTL occ < 0) ''negative ttl'']"

definition LeaseDecision_Validate :: "LeaseDecision \<Rightarrow> authority_error option" where
  "LeaseDecision_Validate d =
     (if ldKind d \<noteq> LeaseKindUnset \<and> \<not> LeaseDecisionKind_IsKnown (ldKind d)
      then Some (ContractError ''unknown lease decision kind'')
      else if ldReadiness d \<noteq> ReadinessUnset \<and> \<not> Readiness_IsKnown (ldReadiness d)
      then Some (ContractError ''unknown readiness'')
      else if ldKind d = LeaseDeny
      then first_failure
        [contract_check (TrimSpace (ldLeaseID d) \<noteq> [] \<or> ldLeases d \<noteq> []) ''deny lease decision must not claim occupancy'',
         contract_check (ldGeneration d \<noteq> 0 \<or> ldRemainingSlots d \<noteq> 0) ''contradictory occupancy fields'']
      else first_failure
        ([contract_check (ldKind d = LeaseAllow \<and> TrimSpace (ldLeaseID d) = [] \<and> ldLeases d = []) ''allow requires lease id'',
          contract_check (ldKind d = LeaseAllow \<and> ldGeneration d \<le> 0) ''allow requires positive generation'',
          contract_check (ldKind d = LeaseAllow \<and> ldExpiresAt d = 0) ''allow requires expires_at'',
          contract_check (ldGeneration d < 0) ''negative lease generation'',
          contract_check (ldRemainingSlots d < 0) ''negative remaining slots'',
          contract_check (0 < ldTTL d \<and> 0 < ldRenewBefore d \<and> ldTTL d < ldRenewBefore d) ''renew_before exceeds ttl'',
          contract_check (ldExpiresAt d \<noteq> 0 \<and> ldTTL d < 0) ''negative lease ttl'',
          contract_check (TrimSpace (ldLeaseID d) \<noteq> [] \<and> ldLeases d \<noteq> []
              \<and> \<not> list_ex (\<lambda>occ. TrimSpace (loLeaseID occ) = TrimSpace (ldLeaseID d)) (ldLeases d))
            ''primary lease id missing from occupancy set'']
         @ map (validate_occupancy (ldKind d)) (ldLeases d)))"

definition rule_ids_match :: "string \<Rightarrow> LeaseOccupancy list \<Rightarrow> bool" where
  "rule_ids_match want occs \<longleftrightarrow>
     want = [] \<or> list_all (\<lambda>occ. TrimSpace (loRuleID occ) = [] \<or> TrimSpace (loRuleID occ) = want) occs"

definition LeaseDecision_ValidateFor :: "LeaseDecision \<Rightarrow> LeaseAdmission \<Rightarrow> ProviderDescriptor \<Rightarrow> authority_error option" where
  "LeaseDecision_ValidateFor d adm reg = first_failure
     [ProviderDescriptor_Validate reg, LeaseDecision_Validate d,
      contract_check (AdmitPosture reg StageLeaseAdmit = None) ''stage not declared'',
      contract_check (\<not> rule_ids_match (TrimSpace (laRuleID adm)) (ldLeases d)) ''rule_id mismatch'',
      contract_check (0 < laTTL adm \<and> 0 < ldTTL d \<and> laTTL adm < ldTTL d) ''lease ttl exceeds admission ttl'']"

text \<open>The members of a renewal: every id present and no duplicates, of the one lease if no set is renewed.\<close>

fun validate_set_members :: "string set \<Rightarrow> LeaseOccupancy list \<Rightarrow> authority_error option" where
  "validate_set_members seen [] = None"
| "validate_set_members seen (occ # occs) =
     (let i = TrimSpace (loLeaseID occ) in
      if i = [] then Some (ContractError ''empty lease_id'')
      else if i \<in> seen then Some (ContractError ''duplicate lease_id'')
      else validate_set_members (insert i seen) occs)"

fun validate_single_members :: "string \<Rightarrow> int \<Rightarrow> string set \<Rightarrow> LeaseOccupancy list \<Rightarrow> authority_error option" where
  "validate_single_members want expected seen [] = None"
| "validate_single_members want expected seen (occ # occs) =
     (let i = TrimSpace (loLeaseID occ) in
      if i \<noteq> want then Some (ContractError ''foreign lease_id'')
      else if i \<in> seen then Some (ContractError ''duplicate lease_id'')
      else if 0 < expected \<and> 0 < loGeneration occ \<and> loGeneration occ < expected then Some (ContractError ''stale generation'')
      else validate_single_members want expected (insert i seen) occs)"

definition validate_renewal_members :: "LeaseDecision \<Rightarrow> LeaseRenew \<Rightarrow> authority_error option" where
  "validate_renewal_members d rn =
     (let wantSet = TrimSpace (lnSetID rn); wantID = TrimSpace (lnLeaseID rn); gotID = TrimSpace (ldLeaseID d);
          stale = (ldKind d = LeaseAllow \<and> 0 < lnExpectedGeneration rn \<and> 0 < ldGeneration d \<and> ldGeneration d < lnExpectedGeneration rn)
      in if wantSet \<noteq> []
         then first_failure
           [contract_check (TrimSpace (ldSetID d) \<noteq> [] \<and> TrimSpace (ldSetID d) \<noteq> wantSet) ''set_id mismatch'',
            contract_check (ldLeases d = [] \<and> gotID = []) ''set renewal missing members'',
            validate_set_members {} (ldLeases d),
            contract_check stale ''stale generation'']
         else first_failure
           [contract_check (gotID \<noteq> [] \<and> gotID \<noteq> wantID) ''lease_id mismatch'',
            contract_check (gotID = [] \<and> \<not> list_ex (\<lambda>occ. TrimSpace (loLeaseID occ) = wantID) (ldLeases d)) ''renewal missing lease_id'',
            validate_single_members wantID (lnExpectedGeneration rn) {} (ldLeases d),
            contract_check stale ''stale generation''])"

definition LeaseDecision_ValidateRenewalFor :: "LeaseDecision \<Rightarrow> LeaseRenew \<Rightarrow> ProviderDescriptor \<Rightarrow> authority_error option" where
  "LeaseDecision_ValidateRenewalFor d rn reg =
     (case first_failure
         [ProviderDescriptor_Validate reg, LeaseDecision_Validate d,
          contract_check (AdmitPosture reg StageLeaseAdmit = None) ''stage not declared'',
          contract_check (TrimSpace (lnSetID rn) = [] \<and> TrimSpace (lnLeaseID rn) = []) ''renew lease_id or set_id required''] of
        Some e \<Rightarrow> Some e
      | None \<Rightarrow>
          if ldKind d = LeaseDeny then None
          else first_failure
            [validate_renewal_members d rn,
             contract_check (\<not> rule_ids_match (TrimSpace (lnRuleID rn)) (ldLeases d)) ''rule_id mismatch'',
             contract_check (0 < lnTTL rn \<and> 0 < ldTTL d \<and> lnTTL rn < ldTTL d) ''lease ttl exceeds renew ttl''])"

section \<open>Admissions, settlements and releases\<close>

text \<open>
  The metering facts and the other fields of a settlement that the coordinators hand on
  unread are one field of arbitrary type.
\<close>

record RequestAdmission =
  raRequestID :: string
  raALegID :: string
  raTraceID :: string
  raPerspective :: EconomicPerspective
  raLifecycle :: LifecycleScope
  raScope :: PrincipalScopeView
  raExposure :: ExposureBasis
  raBoundVersions :: "PolicySnapshotRef list"
  raRatingVersions :: "RatingSnapshotRef list"
  raIdempotencyKey :: string
  raParentLeaseID :: string
  raAuxPolicy :: string

definition optional_perspective :: "EconomicPerspective \<Rightarrow> authority_error option" where
  "optional_perspective p = (if p \<noteq> PerspectiveUnset then EconomicPerspective_Validate p else None)"

definition optional_lifecycle :: "LifecycleScope \<Rightarrow> authority_error option" where
  "optional_lifecycle l = (if l \<noteq> LifecycleUnset then LifecycleScope_Validate l else None)"

definition RequestAdmission_Validate :: "RequestAdmission \<Rightarrow> authority_error option" where
  "RequestAdmission_Validate a = first_failure
     [contract_check (TrimSpace (raRequestID a) = []) ''request_id required'',
      optional_perspective (raPerspective a), optional_lifecycle (raLifecycle a),
      ExposureBasis_Validate (raExposure a)]"

record AttemptAdmission =
  aaRequestID :: string
  aaAttemptID :: string
  aaBLegID :: string
  aaALegID :: string
  aaBackendID :: string
  aaModel :: string
  aaPerspective :: EconomicPerspective
  aaLifecycle :: LifecycleScope
  aaScope :: PrincipalScopeView
  aaExposure :: ExposureBasis
  aaBoundVersions :: "PolicySnapshotRef list"
  aaRatingVersions :: "RatingSnapshotRef list"
  aaIdempotencyKey :: string

definition AttemptAdmission_Validate :: "AttemptAdmission \<Rightarrow> authority_error option" where
  "AttemptAdmission_Validate a = first_failure
     [contract_check (TrimSpace (aaRequestID a) = []) ''request_id required'',
      contract_check (TrimSpace (aaAttemptID a) = []) ''attempt_id required'',
      contract_check (TrimSpace (aaBLegID a) = []) ''b_leg_id required'',
      optional_perspective (aaPerspective a), optional_lifecycle (aaLifecycle a),
      ExposureBasis_Validate (aaExposure a)]"

record 'f RequestSettlement =
  rqRequestID :: string
  rqHandles :: "string list"
  rqRest :: 'f

record 'f AttemptSettlement =
  asRequestID :: string
  asAttemptID :: string
  asBLegID :: string
  asHandles :: "string list"
  asReservations :: "Reservation list"
  asRest :: 'f

record RequestRelease =
  rlRequestID :: string
  rlHandles :: "string list"
  rlCompensationHandle :: string
  rlReason :: string

record AttemptRelease =
  alrRequestID :: string
  alrAttemptID :: string
  alrBLegID :: string
  alrHandles :: "string list"
  alrCompensationHandle :: string
  alrReason :: string

end
