(* ===== verification/Authority_Coordinator.thy ===== *)
theory Authority_Coordinator
  imports Authority_Contracts "HOL-Library.Product_Lexorder" "HOL-Library.Multiset"
begin

text \<open>
  The authority coordinators (\<open>internal/core/authoritycoord\<close>): admission of a request or an
  attempt by a sequence of providers in priority order, the holds they acquire, their
  reverse compensation, and the merging of clamps.

  Providers are outside of this code. A provider is a record of functions from the history
  of all calls made so far to an answer, so it may keep any state, change its mind and
  refuse at any time; an answer is a returned value or a panic. The history is the list of
  the calls with their answers, oldest first. The contexts and cleanup timeouts handed to the
  providers are not modelled: a release that runs into its deadline is a release that returns
  an error.

  A compensation stack is its list of entries in acquisition order; the settlement tracker
  behind it is modelled in \<open>Authority_Settlement\<close>.
\<close>

section \<open>Calls and their history\<close>

datatype 'a call = Returned 'a | Panicked

datatype authority_event =
  Admitted string Decision "authority_error option"
| LeaseAdmitted LeaseDecision "authority_error option"
| Released string string "authority_error option"

type_synonym history = "authority_event list"

record 'f RequestProvider =
  AdmitRequest :: "history \<Rightarrow> RequestAdmission \<Rightarrow> (Decision \<times> authority_error option) call"
  SettleRequest :: "history \<Rightarrow> 'f RequestSettlement \<Rightarrow> (Settlement \<times> authority_error option) call"
  ReleaseRequest :: "history \<Rightarrow> RequestRelease \<Rightarrow> (authority_error option) call"

record 'f AttemptProvider =
  AdmitAttempt :: "history \<Rightarrow> AttemptAdmission \<Rightarrow> (Decision \<times> authority_error option) call"
  SettleAttempt :: "history \<Rightarrow> 'f AttemptSettlement \<Rightarrow> (Settlement \<times> authority_error option) call"
  ReleaseAttempt :: "history \<Rightarrow> AttemptRelease \<Rightarrow> (authority_error option) call"
  PreviewAttempt :: "(history \<Rightarrow> AttemptAdmission \<Rightarrow> (Decision \<times> authority_error option) call) option"

record ConcurrencyProvider =
  AdmitLease :: "history \<Rightarrow> LeaseAdmission \<Rightarrow> (LeaseDecision \<times> authority_error option) call"
  RenewLease :: "history \<Rightarrow> LeaseRenew \<Rightarrow> (LeaseDecision \<times> authority_error option) call"
  ReleaseLease :: "history \<Rightarrow> LeaseRelease \<Rightarrow> (authority_error option) call"
  Describe :: "ProviderDescriptor option"

section \<open>Isolation of providers\<close>

definition isolateProviderPanic :: "(Decision \<times> authority_error option) call \<Rightarrow> Decision \<times> authority_error option" where
  "isolateProviderPanic c = (case c of Returned r \<Rightarrow> r | Panicked \<Rightarrow> (no_decision, Some ProviderPanic))"

definition invokeAdmitRequest :: "'f RequestProvider \<Rightarrow> RequestAdmission \<Rightarrow> history \<Rightarrow> Decision \<times> authority_error option" where
  "invokeAdmitRequest p adm h = isolateProviderPanic (AdmitRequest p h adm)"

definition invokeAdmitAttempt :: "'f AttemptProvider \<Rightarrow> AttemptAdmission \<Rightarrow> history \<Rightarrow> Decision \<times> authority_error option" where
  "invokeAdmitAttempt p adm h = isolateProviderPanic (AdmitAttempt p h adm)"

definition validatePreviewClamp :: "Clamp \<Rightarrow> authority_error option" where
  "validatePreviewClamp c =
     (case clKind c of
        ClampMaxOutputTokens \<Rightarrow> if clValue c <s 0 then Some (ContractError ''negative clamp'') else None
      | ClampMaxSpend \<Rightarrow>
          if \<not> MoneyPresent (clMoney c) then Some (ContractError ''max_spend clamp requires present money'')
          else map_option MoneyError (ValidatePresentMoney (clMoney c))
      | _ \<Rightarrow> Some (ContractError ''unknown clamp kind''))"

definition invokePreviewAttempt ::
  "(history \<Rightarrow> AttemptAdmission \<Rightarrow> (Decision \<times> authority_error option) call) \<Rightarrow> AttemptAdmission \<Rightarrow> history
     \<Rightarrow> Decision \<times> authority_error option" where
  "invokePreviewAttempt preview adm h =
     (case isolateProviderPanic (preview h adm) of
        (d, Some e) \<Rightarrow> (d, Some e)
      | (d, None) \<Rightarrow> (d, first_failure
          ([Decision_Validate d, contract_check (decisionHasHolds d) ''preview returned holds'']
            @ map validatePreviewClamp (dClamps d))))"

definition invokeCompensate :: "(authority_error option) call \<Rightarrow> authority_error option" where
  "invokeCompensate c = (case c of Returned e \<Rightarrow> e | Panicked \<Rightarrow> Some CompensatePanic)"

definition validateCoordinatorLease ::
  "LeaseDecision \<Rightarrow> LeaseAdmission \<Rightarrow> ProviderDescriptor \<Rightarrow> gotime \<Rightarrow> authority_error option" where
  "validateCoordinatorLease d adm reg now =
     (case LeaseDecision_ValidateFor d adm reg of
        Some e \<Rightarrow> Some e
      | None \<Rightarrow>
          if ldKind d = LeaseDeny then None
          else first_failure (contract_check (ldExpiresAt d \<noteq> 0 \<and> ldExpiresAt d \<le> now) ''lease already expired''
            # map (\<lambda>occ. contract_check (loExpiresAt occ \<noteq> 0 \<and> loExpiresAt occ \<le> now) ''already expired'') (ldLeases d)))"

definition validateCoordinatorLeaseRenewal ::
  "LeaseDecision \<Rightarrow> LeaseRenew \<Rightarrow> ProviderDescriptor \<Rightarrow> gotime \<Rightarrow> authority_error option" where
  "validateCoordinatorLeaseRenewal d rn reg now =
     (case LeaseDecision_ValidateRenewalFor d rn reg of
        Some e \<Rightarrow> Some e
      | None \<Rightarrow>
          if ldKind d \<noteq> LeaseAllow then Some (ContractError ''renewal kind not applied'')
          else first_failure (contract_check (ldExpiresAt d \<noteq> 0 \<and> ldExpiresAt d \<le> now) ''lease already expired''
            # map (\<lambda>occ. contract_check (loExpiresAt occ \<noteq> 0 \<and> loExpiresAt occ \<le> now) ''already expired'') (ldLeases d)))"

definition invokeAdmitLease ::
  "ConcurrencyProvider \<Rightarrow> LeaseAdmission \<Rightarrow> gotime \<Rightarrow> ProviderDescriptor \<Rightarrow> history \<Rightarrow> LeaseDecision \<times> authority_error option" where
  "invokeAdmitLease p adm now reg h =
     (case AdmitLease p h adm of
        Panicked \<Rightarrow> (no_lease, Some ConcurrencyPanic)
      | Returned (d, Some e) \<Rightarrow> (d, Some e)
      | Returned (d, None) \<Rightarrow> (d, validateCoordinatorLease d adm reg now))"

definition invokeRenewLease ::
  "ConcurrencyProvider \<Rightarrow> LeaseRenew \<Rightarrow> gotime \<Rightarrow> ProviderDescriptor \<Rightarrow> history \<Rightarrow> LeaseDecision \<times> authority_error option" where
  "invokeRenewLease p rn now reg h =
     (case RenewLease p h rn of
        Panicked \<Rightarrow> (no_lease, Some ConcurrencyPanic)
      | Returned (d, Some e) \<Rightarrow> (d, Some e)
      | Returned (d, None) \<Rightarrow> (d, validateCoordinatorLeaseRenewal d rn reg now))"

section \<open>The compensation stack\<close>

record StackEntry =
  enProviderID :: string
  enHandle :: string
  enReservation :: Reservation
  enCompensate :: "(history \<Rightarrow> (authority_error option) call) option"
  enEvidence :: SafeEvidence

type_synonym CompensationStack = "StackEntry list"

record CompensateFailed =
  cfProviderID :: string
  cfHandle :: string
  cfErr :: authority_error
  cfEvidence :: SafeEvidence

definition Handles :: "CompensationStack \<Rightarrow> string list" where
  "Handles s = map enHandle (filter (\<lambda>e. TrimSpace (enHandle e) \<noteq> []) s)"

text \<open>The loop over the entries, which the caller has reversed.\<close>

fun compensate_each :: "StackEntry list \<Rightarrow> history \<Rightarrow> CompensateFailed list \<times> history" where
  "compensate_each [] h = ([], h)"
| "compensate_each (e # es) h =
     (case enCompensate e of
        None \<Rightarrow> compensate_each es h
      | Some f \<Rightarrow>
          let err = invokeCompensate (f h);
              (fails, h') = compensate_each es (h @ [Released (enProviderID e) (enHandle e) err])
          in (case err of
                None \<Rightarrow> (fails, h')
              | Some x \<Rightarrow> (\<lparr>cfProviderID = enProviderID e, cfHandle = enHandle e, cfErr = x, cfEvidence = enEvidence e\<rparr> # fails, h')))"

definition ReverseCompensate :: "CompensationStack \<Rightarrow> history \<Rightarrow> CompensateFailed list \<times> history" where
  "ReverseCompensate s h = compensate_each (rev s) h"

definition hold_handle :: "Decision \<Rightarrow> Reservation \<Rightarrow> string" where
  "hold_handle d r = (let handle = TrimSpace (resHandle r) in if handle = [] then TrimSpace (dCompensationHandle d) else handle)"

definition decision_holds ::
  "string \<Rightarrow> (string \<Rightarrow> history \<Rightarrow> (authority_error option) call) \<Rightarrow> Decision \<Rightarrow> StackEntry list" where
  "decision_holds providerID release d =
     map (\<lambda>r. \<lparr>enProviderID = providerID, enHandle = hold_handle d r, enReservation = r,
               enCompensate = Some (release (hold_handle d r)), enEvidence = dEvidence d\<rparr>)
       (filter (\<lambda>r. hold_handle d r \<noteq> []) (dReservations d))"

definition pushRequestDecisionHolds ::
  "CompensationStack \<Rightarrow> string \<Rightarrow> 'f RequestProvider \<Rightarrow> string \<Rightarrow> Decision \<Rightarrow> CompensationStack" where
  "pushRequestDecisionHolds stack providerID prov reqID d =
     stack @ decision_holds providerID
       (\<lambda>hd h. ReleaseRequest prov h \<lparr>rlRequestID = reqID, rlHandles = [hd], rlCompensationHandle = hd, rlReason = []\<rparr>) d"

definition pushAttemptDecisionHolds ::
  "CompensationStack \<Rightarrow> string \<Rightarrow> 'f AttemptProvider \<Rightarrow> string \<Rightarrow> string \<Rightarrow> string \<Rightarrow> Decision \<Rightarrow> CompensationStack" where
  "pushAttemptDecisionHolds stack providerID prov reqID attID bleg d =
     stack @ decision_holds providerID
       (\<lambda>hd h. ReleaseAttempt prov h \<lparr>alrRequestID = reqID, alrAttemptID = attID, alrBLegID = bleg, alrHandles = [hd],
          alrCompensationHandle = hd, alrReason = []\<rparr>) d"

fun distinct_ids :: "string set \<Rightarrow> string list \<Rightarrow> string list" where
  "distinct_ids seen [] = []"
| "distinct_ids seen (i # ids) =
     (if i = [] \<or> i \<in> seen then distinct_ids seen ids else i # distinct_ids (insert i seen) ids)"

definition leaseIDsFromDecision :: "LeaseDecision \<Rightarrow> string list" where
  "leaseIDsFromDecision ld =
     (let out = distinct_ids {} (map (\<lambda>occ. TrimSpace (loLeaseID occ)) (ldLeases ld)) in
      if out \<noteq> [] then out
      else if TrimSpace (ldLeaseID ld) \<noteq> [] then [TrimSpace (ldLeaseID ld)] else [])"

definition no_reservation :: Reservation where
  "no_reservation = \<lparr>resHandle = [], resKind = ReservationUnset, resRuleID = [], resQuantity = None, resMoney = None\<rparr>"

definition pushLeaseDecisionHolds ::
  "CompensationStack \<Rightarrow> ConcurrencyProvider \<Rightarrow> string \<Rightarrow> LeaseDecision \<Rightarrow> CompensationStack" where
  "pushLeaseDecisionHolds stack conc reqID ld =
     stack @ map (\<lambda>leaseID. \<lparr>enProviderID = ''concurrency'', enHandle = leaseID, enReservation = no_reservation,
         enCompensate = Some (\<lambda>h. ReleaseLease conc h \<lparr>lrLeaseID = leaseID, lrRequestID = reqID, lrReason = [], lrSetID = []\<rparr>),
         enEvidence = no_evidence\<rparr>) (leaseIDsFromDecision ld)"

definition compensateCurrentOnly :: "CompensationStack \<Rightarrow> history \<Rightarrow> CompensateFailed list \<times> history" where
  "compensateCurrentOnly claimed h = ReverseCompensate claimed h"

definition compensateCurrentThenPrior ::
  "CompensationStack \<Rightarrow> CompensationStack \<Rightarrow> history \<Rightarrow> CompensateFailed list \<times> history" where
  "compensateCurrentThenPrior prior claimed h =
     (let (claimedFails, h1) = compensateCurrentOnly claimed h;
          (priorFails, h2) = ReverseCompensate prior h1
      in (claimedFails @ priorFails, h2))"

section \<open>Clamps\<close>

text \<open>
  \<open>strings.EqualFold\<close> on ASCII text; the clamps that reach the merge were validated, so their
  currencies are upper-case letters.
\<close>

definition EqualFold :: "string \<Rightarrow> string \<Rightarrow> bool" where
  "EqualFold a b \<longleftrightarrow> map lower_ascii a = map lower_ascii b"

definition assertSameSpendCurrency :: "Clamp \<Rightarrow> Clamp \<Rightarrow> authority_error option" where
  "assertSameSpendCurrency existing incoming =
     (if clKind existing \<noteq> ClampMaxSpend \<or> clKind incoming \<noteq> ClampMaxSpend then None
      else if \<not> MoneyPresent (clMoney existing) \<or> \<not> MoneyPresent (clMoney incoming) then None
      else let a = TrimSpace (Currency (clMoney existing)); b = TrimSpace (Currency (clMoney incoming)) in
        if a = [] \<or> b = [] then Some (ContractError ''max_spend clamp requires currency'')
        else if \<not> EqualFold a b then Some (ContractError ''mixed-currency max_spend clamps'')
        else None)"

fun clampIndex :: "Clamp list \<Rightarrow> ClampKind \<Rightarrow> nat option" where
  "clampIndex [] kind = None"
| "clampIndex (c # cs) kind = (if clKind c = kind then Some 0 else map_option Suc (clampIndex cs kind))"

definition merge_clamp :: "Clamp list \<Rightarrow> Clamp \<Rightarrow> authority_error + Clamp list" where
  "merge_clamp out c =
     (case clampIndex out (clKind c) of
        None \<Rightarrow> Inr (out @ [c])
      | Some idx \<Rightarrow>
          (case clKind c of
             ClampMaxOutputTokens \<Rightarrow>
               Inr (if clValue (out ! idx) = 0 \<or> (0 <s clValue c \<and> clValue c <s clValue (out ! idx)) then out[idx := c] else out)
           | ClampMaxSpend \<Rightarrow>
               (case assertSameSpendCurrency (out ! idx) c of
                  Some e \<Rightarrow> Inl e
                | None \<Rightarrow>
                    Inr (if \<not> MoneyPresent (clMoney (out ! idx))
                            \<or> (MoneyPresent (clMoney c) \<and> NanoUnits (clMoney c) <s NanoUnits (clMoney (out ! idx)))
                         then out[idx := c] else out))
           | _ \<Rightarrow> Inl (ContractError ''unknown clamp kind'')))"

definition mergeClampsNonWidening :: "Clamp list \<Rightarrow> Clamp list \<Rightarrow> authority_error + Clamp list" where
  "mergeClampsNonWidening dst add = foldR merge_clamp dst add"

section \<open>Readiness and evidence\<close>

fun ReadinessRank :: "Readiness \<Rightarrow> nat" where
  "ReadinessRank ReadinessUnset = 0"
| "ReadinessRank ReadinessReady = 0"
| "ReadinessRank ReadinessDegraded = 1"
| "ReadinessRank ReadinessDisabled = 2"
| "ReadinessRank ReadinessUnavailable = 3"
| "ReadinessRank (ReadinessOther _) = 1"

definition worse :: "Readiness \<Rightarrow> Readiness \<Rightarrow> Readiness" where
  "worse worst r = (if ReadinessRank r > ReadinessRank worst then r else worst)"

definition AggregateReadiness :: "Readiness list \<Rightarrow> Readiness" where
  "AggregateReadiness values =
     (let worst = foldl worse ReadinessReady values in if worst = ReadinessUnset then ReadinessReady else worst)"

definition mergeAdvisoryEvidence :: "SafeEvidence \<Rightarrow> SafeEvidence \<Rightarrow> SafeEvidence" where
  "mergeAdvisoryEvidence dst add =
     (if TrimSpace (evCategory dst) = [] then add
      else if TrimSpace (evCategory add) = [] then dst
      else add)"

definition advisoryEvidenceFrom :: "Decision \<Rightarrow> SafeEvidence" where
  "advisoryEvidenceFrom d =
     (let ev = dEvidence d;
          ev1 = (if TrimSpace (evCategory ev) = [] then ev\<lparr>evCategory := ''authority_advisory''\<rparr> else ev)
      in if TrimSpace (evCode ev1) = [] then ev1\<lparr>evCode := ''advisory_deny''\<rparr> else ev1)"

definition safeEvidencePresent :: "SafeEvidence \<Rightarrow> bool" where
  "safeEvidencePresent ev \<longleftrightarrow>
     TrimSpace (evCategory ev) \<noteq> [] \<or> TrimSpace (evCode ev) \<noteq> [] \<or> TrimSpace (evMessage ev) \<noteq> []
   \<or> TrimSpace (evRuleID ev) \<noteq> [] \<or> TrimSpace (evProviderID ev) \<noteq> [] \<or> evAttrs ev \<noteq> []
   \<or> evQuotaPolicyRef ev \<noteq> None \<or> evEvidenceRefs ev \<noteq> []"

definition stageAdmitDecisionPresent :: "Decision \<Rightarrow> bool" where
  "stageAdmitDecisionPresent d \<longleftrightarrow>
     dKind d \<noteq> DecisionUnset \<or> TrimSpace (dProviderID d) \<noteq> [] \<or> dStage d \<noteq> StageUnset \<or> dReadiness d \<noteq> ReadinessUnset
   \<or> dReservations d \<noteq> [] \<or> dClamps d \<noteq> [] \<or> TrimSpace (dCompensationHandle d) \<noteq> []
   \<or> dBoundVersions d \<noteq> [] \<or> dRatingVersions d \<noteq> [] \<or> safeEvidencePresent (dEvidence d)"

section \<open>The admission of one stage\<close>

record 'p stageProviderSlot =
  slID :: string
  slClassOrd :: int
  slProvider :: "'p option"
  slStrength :: Strength
  slFailBeh :: FailureBehavior
  slDescriptor :: "ProviderDescriptor option"
  slStage :: Stage
  slAdvisoryClassOrd :: int

record CompositeDecision =
  cdKind :: DecisionKind
  cdClamps :: "Clamp list"
  cdStack :: CompensationStack
  cdProviderDecisions :: "Decision list"
  cdReadiness :: Readiness
  cdCompensateFailures :: "CompensateFailed list"
  cdEvidence :: SafeEvidence
  cdDeniedBy :: string
  cdLease :: LeaseDecision
  cdBoundVersions :: "PolicySnapshotRef list"

definition no_composite :: CompositeDecision where
  "no_composite = \<lparr>cdKind = DecisionUnset, cdClamps = [], cdStack = [], cdProviderDecisions = [], cdReadiness = ReadinessUnset,
     cdCompensateFailures = [], cdEvidence = no_evidence, cdDeniedBy = [], cdLease = no_lease, cdBoundVersions = []\<rparr>"

datatype coordinator_error =
  InvalidInput authority_error
| SlotError string
| DeniedError string Decision
| UnavailableError string "authority_error" Decision
| ClampError string string authority_error

definition resolveStagePosture :: "'p stageProviderSlot \<Rightarrow> Strength \<times> FailureBehavior" where
  "resolveStagePosture slot =
     (let strength = (if slStrength slot = StrengthUnset
                      then (if slClassOrd slot = slAdvisoryClassOrd slot then StrengthAdvisory else StrengthRequired)
                      else slStrength slot);
          failBeh = (if slFailBeh slot = FailureUnset
                     then (if strength = StrengthAdvisory then FailureFailOpen else FailureFailClosed)
                     else slFailBeh slot)
      in (strength, failBeh))"

definition stageSlotRegistration :: "'p stageProviderSlot \<Rightarrow> Stage \<Rightarrow> ProviderDescriptor \<times> Stage" where
  "stageSlotRegistration slot defaultStage =
     (let stage = (if slStage slot = StageUnset then defaultStage else slStage slot) in
      case slDescriptor slot of
        Some desc \<Rightarrow> (desc, stage)
      | None \<Rightarrow>
          let (strength, failBeh) = resolveStagePosture slot in
          (\<lparr>pdID = TrimSpace (slID slot), pdKind = ProviderKindUnset,
            pdPostures = [\<lparr>spStage = stage, spStrength = strength, spFailureBehavior = failBeh\<rparr>]\<rparr>, stage))"

text \<open>
  The configuration of a stage: the label for errors, the isolated admission call and the
  entries a decision pushes; registration and posture are those of the slot for all stages.
\<close>

record ('i, 'p) stageAdmitConfig =
  scLabel :: string
  scAdmit :: "'p \<Rightarrow> 'i \<Rightarrow> history \<Rightarrow> Decision \<times> authority_error option"
  scPushHolds :: "CompensationStack \<Rightarrow> string \<Rightarrow> 'p \<Rightarrow> 'i \<Rightarrow> Decision \<Rightarrow> CompensationStack"
  scDefaultStage :: Stage

fun validate_slots_loop :: "string set \<Rightarrow> 'p stageProviderSlot list \<Rightarrow> coordinator_error option" where
  "validate_slots_loop seen [] = None"
| "validate_slots_loop seen (slot # slots) =
     (if slProvider slot = None then validate_slots_loop seen slots
      else let i = TrimSpace (slID slot) in
        if i = [] then Some (SlotError ''empty provider id rejected'')
        else if i \<in> seen then Some (SlotError ''duplicate provider id'')
        else validate_slots_loop (insert i seen) slots)"

definition validateStageSlots :: "'p stageProviderSlot list \<Rightarrow> coordinator_error option" where
  "validateStageSlots slots = validate_slots_loop {} slots"

definition slot_key :: "'p stageProviderSlot \<Rightarrow> int \<times> string" where
  "slot_key slot = (slClassOrd slot, slID slot)"

definition sortStageSlots :: "'p stageProviderSlot list \<Rightarrow> 'p stageProviderSlot list" where
  "sortStageSlots slots = sort_key slot_key slots"

definition validateCoordinatorDecision :: "Decision \<Rightarrow> ProviderDescriptor \<Rightarrow> Stage \<Rightarrow> authority_error option" where
  "validateCoordinatorDecision d reg stage =
     (if decisionHasHolds d \<and> (dKind d = DecisionDeny \<or> dKind d = DecisionAdvisory) then Some NonAllowWithHolds
      else Decision_ValidateFor d reg stage)"

definition recordStageAdmitErrorDecision :: "CompositeDecision \<Rightarrow> Decision \<Rightarrow> CompositeDecision" where
  "recordStageAdmitErrorDecision out d =
     (if \<not> stageAdmitDecisionPresent d then out
      else out\<lparr>cdProviderDecisions := cdProviderDecisions out @ [d],
               cdReadiness := AggregateReadiness [cdReadiness out, dReadiness d],
               cdBoundVersions := cdBoundVersions out @ dBoundVersions d,
               cdEvidence := (if safeEvidencePresent (dEvidence d) then mergeAdvisoryEvidence (cdEvidence out) (dEvidence d)
                              else cdEvidence out)\<rparr>)"

definition add_failures :: "CompensateFailed list \<Rightarrow> CompositeDecision \<Rightarrow> CompositeDecision" where
  "add_failures fails out = out\<lparr>cdCompensateFailures := cdCompensateFailures out @ fails\<rparr>"

definition degrade :: "CompositeDecision \<Rightarrow> CompositeDecision" where
  "degrade out = out\<lparr>cdReadiness := AggregateReadiness [cdReadiness out, ReadinessDegraded]\<rparr>"

definition deny_by :: "string \<Rightarrow> CompensationStack \<Rightarrow> CompositeDecision \<Rightarrow> CompositeDecision" where
  "deny_by i stack out = out\<lparr>cdKind := DecisionDeny, cdDeniedBy := i, cdStack := stack\<rparr>"

text \<open>The loop either goes on with a stack or returns an error.\<close>

datatype slot_result =
  Continue CompositeDecision CompensationStack history
| Stop CompositeDecision coordinator_error history

definition slot_errored ::
  "('i, 'p) stageAdmitConfig \<Rightarrow> 'p stageProviderSlot \<Rightarrow> StackEntry list \<Rightarrow> Decision \<Rightarrow> authority_error
     \<Rightarrow> CompositeDecision \<Rightarrow> CompensationStack \<Rightarrow> history \<Rightarrow> slot_result" where
  "slot_errored cfg slot held d e out stack h =
     (let i = TrimSpace (slID slot); (strength, failBeh) = resolveStagePosture slot;
          (fails, h1) = compensateCurrentThenPrior stack held h;
          out1 = add_failures fails (recordStageAdmitErrorDecision out d)
      in if strength = StrengthAdvisory \<or> failBeh = FailureFailOpen then Continue (degrade out1) stack h1
         else Stop (deny_by i stack out1) (UnavailableError i e d) h1)"

definition slot_invalid ::
  "('i, 'p) stageAdmitConfig \<Rightarrow> 'p stageProviderSlot \<Rightarrow> StackEntry list \<Rightarrow> Decision \<Rightarrow> authority_error
     \<Rightarrow> CompositeDecision \<Rightarrow> CompensationStack \<Rightarrow> history \<Rightarrow> slot_result" where
  "slot_invalid cfg slot held d vErr out stack h =
     (let i = TrimSpace (slID slot); (strength, failBeh) = resolveStagePosture slot;
          owned = (if decisionHasHolds d then held else [])
      in if vErr = NonAllowWithHolds \<and> dKind d = DecisionDeny \<and> strength = StrengthAdvisory
         then let (fails, h1) = compensateCurrentOnly held h;
                  d1 = d\<lparr>dKind := DecisionAdvisory, dEvidence := advisoryEvidenceFrom d\<rparr>;
                  out1 = add_failures fails out
              in Continue (degrade (out1\<lparr>cdProviderDecisions := cdProviderDecisions out1 @ [d1],
                    cdEvidence := mergeAdvisoryEvidence (cdEvidence out1) (dEvidence d1)\<rparr>)) stack h1
         else if strength = StrengthAdvisory
         then let (fails, h1) = compensateCurrentOnly owned h
              in Continue (degrade (add_failures fails out)) stack h1
         else let (fails, h1) = compensateCurrentThenPrior stack owned h;
                  out1 = deny_by i stack (add_failures fails out)
              in Stop out1
                   (if vErr = NonAllowWithHolds \<and> dKind d = DecisionDeny then DeniedError i d else UnavailableError i vErr d) h1)"

definition slot_accepted ::
  "('i, 'p) stageAdmitConfig \<Rightarrow> 'p stageProviderSlot \<Rightarrow> StackEntry list \<Rightarrow> Decision
     \<Rightarrow> CompositeDecision \<Rightarrow> CompensationStack \<Rightarrow> history \<Rightarrow> slot_result" where
  "slot_accepted cfg slot held d out0 stack h =
     (let i = TrimSpace (slID slot); (strength, failBeh) = resolveStagePosture slot;
          out = out0\<lparr>cdProviderDecisions := cdProviderDecisions out0 @ [d],
                     cdReadiness := AggregateReadiness [cdReadiness out0, dReadiness d]\<rparr>
      in case mergeClampsNonWidening (cdClamps out) (dClamps d) of
          Inl merr \<Rightarrow>
            let (fails, h1) = compensateCurrentThenPrior stack held h
            in Stop (deny_by i stack (add_failures fails out)) (ClampError (scLabel cfg) i merr) h1
        | Inr merged \<Rightarrow>
            let out1 = out\<lparr>cdClamps := merged, cdBoundVersions := cdBoundVersions out @ dBoundVersions d\<rparr> in
            (case dKind d of
               DecisionDeny \<Rightarrow>
                 if strength = StrengthAdvisory
                 then let d1 = d\<lparr>dKind := DecisionAdvisory, dEvidence := advisoryEvidenceFrom d\<rparr>
                      in Continue (degrade (out1\<lparr>cdProviderDecisions := cdProviderDecisions out0 @ [d1],
                            cdEvidence := mergeAdvisoryEvidence (cdEvidence out1) (dEvidence d1)\<rparr>)) stack h
                 else let (fails, h1) = compensateCurrentThenPrior stack (if decisionHasHolds d then held else []) h
                      in Stop (deny_by i stack (add_failures fails out1)) (DeniedError i d) h1
             | DecisionAdvisory \<Rightarrow>
                 Continue (out1\<lparr>cdEvidence := mergeAdvisoryEvidence (cdEvidence out1) (dEvidence d)\<rparr>) (stack @ held) h
             | DecisionAllow \<Rightarrow> Continue out1 (stack @ held) h
             | DecisionUnset \<Rightarrow> Continue out1 (stack @ held) h
             | DecisionOther _ \<Rightarrow> Continue out1 stack h))"

definition stage_slot ::
  "('i, 'p) stageAdmitConfig \<Rightarrow> 'i \<Rightarrow> 'p stageProviderSlot \<Rightarrow> 'p \<Rightarrow> CompositeDecision \<Rightarrow> CompensationStack \<Rightarrow> history \<Rightarrow> slot_result" where
  "stage_slot cfg adm slot p out stack h =
     (let i = TrimSpace (slID slot); (d, err) = scAdmit cfg p adm h; h1 = h @ [Admitted i d err];
          held = scPushHolds cfg [] i p adm d
      in case err of
          Some e \<Rightarrow> slot_errored cfg slot held d e out stack h1
        | None \<Rightarrow>
            let (reg, stage) = stageSlotRegistration slot (scDefaultStage cfg) in
            (case validateCoordinatorDecision d reg stage of
               Some vErr \<Rightarrow> slot_invalid cfg slot held d vErr out stack h1
             | None \<Rightarrow> slot_accepted cfg slot held d out stack h1))"

fun stage_loop ::
  "('i, 'p) stageAdmitConfig \<Rightarrow> 'i \<Rightarrow> 'p stageProviderSlot list \<Rightarrow> CompositeDecision \<Rightarrow> CompensationStack \<Rightarrow> history
     \<Rightarrow> CompositeDecision \<times> coordinator_error option \<times> history" where
  "stage_loop cfg adm [] out stack h = (out\<lparr>cdStack := stack\<rparr>, None, h)"
| "stage_loop cfg adm (slot # slots) out stack h =
     (case slProvider slot of
        None \<Rightarrow> stage_loop cfg adm slots out stack h
      | Some p \<Rightarrow>
          (case stage_slot cfg adm slot p out stack h of
             Continue out1 stack1 h1 \<Rightarrow> stage_loop cfg adm slots out1 stack1 h1
           | Stop out1 e h1 \<Rightarrow> (out1, Some e, h1)))"

definition runStageAdmit ::
  "('i, 'p) stageAdmitConfig \<Rightarrow> 'i \<Rightarrow> 'p stageProviderSlot list \<Rightarrow> CompensationStack \<Rightarrow> history
     \<Rightarrow> CompositeDecision \<times> coordinator_error option \<times> history" where
  "runStageAdmit cfg adm slots prior h =
     stage_loop cfg adm (sortStageSlots slots) (no_composite\<lparr>cdKind := DecisionAllow, cdReadiness := ReadinessReady\<rparr>) prior h"

section \<open>The request coordinator\<close>

record 'f RequestSlot =
  rsID :: string
  rsClass :: int
  rsProvider :: "'f RequestProvider option"
  rsStrength :: Strength
  rsFailureBehavior :: FailureBehavior
  rsDescriptor :: "ProviderDescriptor option"
  rsStage :: Stage

definition PriorityAdvisory :: int where
  "PriorityAdvisory = 4"

record 'f RequestCoordinator =
  rcConcurrency :: "ConcurrencyProvider option"
  rcConcurrencyDescriptor :: "ProviderDescriptor option"
  rcSlots :: "'f RequestSlot list"

definition requestStageSlot :: "'f RequestSlot \<Rightarrow> 'f RequestProvider stageProviderSlot" where
  "requestStageSlot slot =
     \<lparr>slID = TrimSpace (rsID slot), slClassOrd = rsClass slot, slProvider = rsProvider slot, slStrength = rsStrength slot,
      slFailBeh = rsFailureBehavior slot, slDescriptor = rsDescriptor slot, slStage = rsStage slot,
      slAdvisoryClassOrd = PriorityAdvisory\<rparr>"

definition requestAdmitConfig :: "(RequestAdmission, 'f RequestProvider) stageAdmitConfig" where
  "requestAdmitConfig =
     \<lparr>scLabel = ''request'', scAdmit = invokeAdmitRequest,
      scPushHolds = (\<lambda>stack i p adm d. pushRequestDecisionHolds stack i p (raRequestID adm) d),
      scDefaultStage = StageRequestAdmit\<rparr>"

definition lease_posture :: StagePosture where
  "lease_posture = \<lparr>spStage = StageLeaseAdmit, spStrength = StrengthRequired, spFailureBehavior = FailureFailClosed\<rparr>"

definition concurrencyRegistration :: "'f RequestCoordinator \<Rightarrow> ConcurrencyProvider \<Rightarrow> authority_error + ProviderDescriptor" where
  "concurrencyRegistration c conc =
     (case rcConcurrencyDescriptor c of
        Some desc \<Rightarrow>
          if TrimSpace (pdID desc) = [] then Inl (ContractError ''concurrency descriptor id required'') else Inr desc
      | None \<Rightarrow>
          (case Describe conc of
             Some desc \<Rightarrow>
               if TrimSpace (pdID desc) = [] then Inl (ContractError ''concurrency describer id required'')
               else Inr (if AdmitPosture desc StageLeaseAdmit = None
                         then desc\<lparr>pdPostures := pdPostures desc @ [lease_posture]\<rparr> else desc)
           | None \<Rightarrow> Inr \<lparr>pdID = ''concurrency'', pdKind = ProviderKindUnset, pdPostures = [lease_posture]\<rparr>))"

definition lease_admission :: "RequestAdmission \<Rightarrow> LeaseAdmission" where
  "lease_admission adm =
     \<lparr>laRequestID = raRequestID adm, laScope = raScope adm, laRuleID = [], laNamespace = [], laTTL = 0,
      laBoundVersion = no_version, laIdempotencyKey = raIdempotencyKey adm, laLifecycle = raLifecycle adm,
      laParentLeaseID = raParentLeaseID adm, laAuxPolicy = raAuxPolicy adm\<rparr>"

text \<open>The lease in front of the providers: a denial, or the composite with the lease on its stack.\<close>

definition admit_lease ::
  "ConcurrencyProvider \<Rightarrow> ProviderDescriptor \<Rightarrow> RequestAdmission \<Rightarrow> gotime \<Rightarrow> CompositeDecision \<Rightarrow> history \<Rightarrow> slot_result" where
  "admit_lease conc reg adm now out h =
     (let (ld, err) = invokeAdmitLease conc (lease_admission adm) now reg h;
          h1 = h @ [LeaseAdmitted ld err];
          leases = pushLeaseDecisionHolds [] conc (raRequestID adm) ld
      in case err of
          Some e \<Rightarrow>
            let (fails, h2) = ReverseCompensate leases h1
            in Stop (out\<lparr>cdCompensateFailures := fails, cdKind := DecisionDeny, cdDeniedBy := ''concurrency''\<rparr>)
                 (UnavailableError ''concurrency'' e no_decision) h2
        | None \<Rightarrow>
            let out1 = out\<lparr>cdLease := ld, cdReadiness := AggregateReadiness [cdReadiness out, ldReadiness ld],
                  cdBoundVersions := (if vrVersion (ldBoundVersion ld) \<noteq> [] then cdBoundVersions out @ [ldBoundVersion ld]
                                      else cdBoundVersions out)\<rparr>
            in (case ldKind ld of
                  LeaseDeny \<Rightarrow>
                    Stop (out1\<lparr>cdKind := DecisionDeny, cdDeniedBy := ''concurrency''\<rparr>) (DeniedError ''concurrency'' no_decision) h1
                | LeaseKindOther _ \<Rightarrow> Continue out1 [] h1
                | _ \<Rightarrow> Continue out1 leases h1))"

definition merge_stage :: "CompositeDecision \<Rightarrow> CompositeDecision \<Rightarrow> CompositeDecision" where
  "merge_stage out st =
     out\<lparr>cdKind := cdKind st, cdClamps := cdClamps st, cdStack := cdStack st, cdProviderDecisions := cdProviderDecisions st,
         cdReadiness := AggregateReadiness [cdReadiness out, cdReadiness st],
         cdCompensateFailures := cdCompensateFailures out @ cdCompensateFailures st,
         cdEvidence := cdEvidence st, cdDeniedBy := cdDeniedBy st,
         cdBoundVersions := cdBoundVersions out @ cdBoundVersions st\<rparr>"

definition Request_Admit ::
  "'f RequestCoordinator option \<Rightarrow> RequestAdmission \<Rightarrow> gotime \<Rightarrow> history
     \<Rightarrow> CompositeDecision \<times> coordinator_error option \<times> history" where
  "Request_Admit co adm now h =
     (case RequestAdmission_Validate adm of
        Some e \<Rightarrow> (no_composite, Some (InvalidInput e), h)
      | None \<Rightarrow>
          (case co of
             None \<Rightarrow> (no_composite\<lparr>cdKind := DecisionAllow, cdReadiness := ReadinessDisabled\<rparr>, None, h)
           | Some c \<Rightarrow>
               let slots = map requestStageSlot (rcSlots c) in
               (case validateStageSlots slots of
                  Some e \<Rightarrow> (no_composite, Some e, h)
                | None \<Rightarrow>
                    let out = no_composite\<lparr>cdKind := DecisionAllow, cdReadiness := ReadinessReady\<rparr>;
                        stage = (\<lambda>out1 stack h1.
                          let (st, err, h2) = runStageAdmit requestAdmitConfig adm slots stack h1
                          in (merge_stage out1 st, err, h2))
                    in (case rcConcurrency c of
                          None \<Rightarrow> stage out [] h
                        | Some conc \<Rightarrow>
                            (case concurrencyRegistration c conc of
                               Inl e \<Rightarrow> (no_composite, Some (InvalidInput e), h)
                             | Inr reg \<Rightarrow>
                                 (case admit_lease conc reg adm now out h of
                                    Stop out1 e h1 \<Rightarrow> (out1, Some e, h1)
                                  | Continue out1 stack h1 \<Rightarrow> stage out1 stack h1))))))"

definition Request_RenewLease ::
  "'f RequestCoordinator option \<Rightarrow> LeaseRenew \<Rightarrow> gotime \<Rightarrow> history \<Rightarrow> LeaseDecision \<times> authority_error option" where
  "Request_RenewLease co rn now h =
     (case co of
        None \<Rightarrow> (no_lease, Some (ContractError ''concurrency provider not configured''))
      | Some c \<Rightarrow>
          (case rcConcurrency c of
             None \<Rightarrow> (no_lease, Some (ContractError ''concurrency provider not configured''))
           | Some conc \<Rightarrow>
               (case concurrencyRegistration c conc of
                  Inl e \<Rightarrow> (no_lease, Some e)
                | Inr reg \<Rightarrow> invokeRenewLease conc rn now reg h)))"

text \<open>\<open>ReleaseLease\<close> and \<open>ReleaseLeaseSet\<close> call the provider directly: a panic is passed on.\<close>

definition release_call ::
  "'f RequestCoordinator option \<Rightarrow> bool \<Rightarrow> LeaseRelease \<Rightarrow> history \<Rightarrow> (authority_error option) call" where
  "release_call co wanted rel h =
     (case co of
        None \<Rightarrow> Returned None
      | Some c \<Rightarrow>
          (case rcConcurrency c of
             None \<Rightarrow> Returned None
           | Some conc \<Rightarrow> if wanted then ReleaseLease conc h rel else Returned None))"

definition Request_ReleaseLease ::
  "'f RequestCoordinator option \<Rightarrow> string \<Rightarrow> string \<Rightarrow> string \<Rightarrow> history \<Rightarrow> (authority_error option) call" where
  "Request_ReleaseLease co leaseID requestID reason h =
     release_call co (TrimSpace leaseID \<noteq> []) \<lparr>lrLeaseID = leaseID, lrRequestID = requestID, lrReason = reason, lrSetID = []\<rparr> h"

definition Request_ReleaseLeaseSet ::
  "'f RequestCoordinator option \<Rightarrow> string \<Rightarrow> string \<Rightarrow> string \<Rightarrow> string \<Rightarrow> history \<Rightarrow> (authority_error option) call" where
  "Request_ReleaseLeaseSet co setID leaseID requestID reason h =
     release_call co (TrimSpace setID \<noteq> []) \<lparr>lrLeaseID = leaseID, lrRequestID = requestID, lrReason = reason, lrSetID = setID\<rparr> h"

definition Request_Release :: "CompensationStack \<Rightarrow> history \<Rightarrow> CompensateFailed list \<times> history" where
  "Request_Release stack h = ReverseCompensate stack h"

section \<open>The attempt coordinator\<close>

record 'f AttemptSlot =
  atID :: string
  atClass :: int
  atProvider :: "'f AttemptProvider option"
  atStrength :: Strength
  atFailureBehavior :: FailureBehavior
  atDescriptor :: "ProviderDescriptor option"
  atStage :: Stage

definition AttemptPriorityUnknown :: int where
  "AttemptPriorityUnknown = 0"

definition AttemptPriorityAdvisory :: int where
  "AttemptPriorityAdvisory = 3"

definition attemptStageSlot :: "'f AttemptSlot \<Rightarrow> 'f AttemptProvider stageProviderSlot" where
  "attemptStageSlot slot =
     \<lparr>slID = TrimSpace (atID slot), slClassOrd = atClass slot, slProvider = atProvider slot, slStrength = atStrength slot,
      slFailBeh = atFailureBehavior slot, slDescriptor = atDescriptor slot, slStage = atStage slot,
      slAdvisoryClassOrd = AttemptPriorityAdvisory\<rparr>"

definition attemptAdmitConfig :: "(AttemptAdmission, 'f AttemptProvider) stageAdmitConfig" where
  "attemptAdmitConfig =
     \<lparr>scLabel = ''attempt'', scAdmit = invokeAdmitAttempt,
      scPushHolds = (\<lambda>stack i p adm d. pushAttemptDecisionHolds stack i p (aaRequestID adm) (aaAttemptID adm) (aaBLegID adm) d),
      scDefaultStage = StageAttemptAdmit\<rparr>"

definition validateAttemptPriorityClasses :: "'f AttemptSlot list \<Rightarrow> coordinator_error option" where
  "validateAttemptPriorityClasses slots =
     (if list_ex (\<lambda>slot. atProvider slot \<noteq> None \<and> atClass slot = AttemptPriorityUnknown) slots
      then Some (SlotError ''unknown attempt priority class'') else None)"

definition checked_attempt_slots :: "'f AttemptSlot list \<Rightarrow> coordinator_error + 'f AttemptProvider stageProviderSlot list" where
  "checked_attempt_slots cslots =
     (let slots = map attemptStageSlot cslots in
      case validateAttemptPriorityClasses cslots of
        Some e \<Rightarrow> Inl e
      | None \<Rightarrow> (case validateStageSlots slots of Some e \<Rightarrow> Inl e | None \<Rightarrow> Inr slots))"

definition Attempt_Admit ::
  "'f AttemptSlot list option \<Rightarrow> AttemptAdmission \<Rightarrow> history \<Rightarrow> CompositeDecision \<times> coordinator_error option \<times> history" where
  "Attempt_Admit co adm h =
     (case AttemptAdmission_Validate adm of
        Some e \<Rightarrow> (no_composite, Some (InvalidInput e), h)
      | None \<Rightarrow>
          (case co of
             None \<Rightarrow> (no_composite\<lparr>cdKind := DecisionAllow, cdReadiness := ReadinessDisabled\<rparr>, None, h)
           | Some cslots \<Rightarrow>
               (case checked_attempt_slots cslots of
                  Inl e \<Rightarrow> (no_composite, Some e, h)
                | Inr slots \<Rightarrow> runStageAdmit attemptAdmitConfig adm slots [] h)))"

definition filterAttemptReservations :: "Reservation list \<Rightarrow> string list \<Rightarrow> Reservation list" where
  "filterAttemptReservations reservations handles =
     (if reservations = [] \<or> handles = [] then []
      else filter (\<lambda>r. TrimSpace (resHandle r) \<in> set (filter (\<lambda>x. x \<noteq> []) (map TrimSpace handles))) reservations)"

fun preview_loop ::
  "AttemptAdmission \<Rightarrow> history \<Rightarrow> 'f AttemptProvider stageProviderSlot list \<Rightarrow> Clamp list \<Rightarrow> coordinator_error + Clamp list" where
  "preview_loop adm h [] merged = Inr merged"
| "preview_loop adm h (slot # slots) merged =
     (case (case slProvider slot of None \<Rightarrow> None | Some p \<Rightarrow> PreviewAttempt p) of
        None \<Rightarrow> preview_loop adm h slots merged
      | Some preview \<Rightarrow>
          (case invokePreviewAttempt preview adm h of
             (d, Some e) \<Rightarrow>
               if fst (resolveStagePosture slot) = StrengthRequired then Inl (ClampError ''preview'' (TrimSpace (slID slot)) e)
               else preview_loop adm h slots merged
           | (d, None) \<Rightarrow>
               (case mergeClampsNonWidening merged (dClamps d) of
                  Inl e \<Rightarrow> Inl (ClampError ''preview'' (TrimSpace (slID slot)) e)
                | Inr merged' \<Rightarrow> preview_loop adm h slots merged')))"

definition PreviewClamps ::
  "'f AttemptSlot list option \<Rightarrow> AttemptAdmission \<Rightarrow> history \<Rightarrow> coordinator_error + Clamp list" where
  "PreviewClamps co adm h =
     (case co of
        None \<Rightarrow> Inr []
      | Some cslots \<Rightarrow>
          (case AttemptAdmission_Validate adm of
             Some e \<Rightarrow> Inl (InvalidInput e)
           | None \<Rightarrow>
               (case checked_attempt_slots cslots of
                  Inl e \<Rightarrow> Inl e
                | Inr slots \<Rightarrow> preview_loop adm h (sortStageSlots slots) [])))"

end
