(* ===== verification/Authority_Holds.thy ===== *)
theory Authority_Holds
  imports Authority_Coordinator
begin

text \<open>
  What the coordinators do with the holds of their providers: what the answers acquire, which
  holds are outstanding after a sequence of calls, that a denied admission leaves none behind
  that it does not report, that an allowed one keeps them on its stack, and which holds both
  overlook. The contract of a stage towards its holds is the locale \<open>stage_holds\<close>,
  interpreted for requests and for attempts.
\<close>

section \<open>Outstanding holds\<close>

text \<open>
  What the answers of the providers acquire, read off the answers themselves and not from what
  the coordinator pushes. A decision holds each of its reservations: under the reservation's own
  handle, or under the decision's compensation handle if the reservation has none; a
  compensation handle without any reservation is a hold of its own. (A reservation that has
  neither is held under no name at all.) A lease answer holds its primary lease and every lease
  of its occupancy set; a lease named twice is one lease. Handles are compared without
  surrounding white space.
\<close>

type_synonym hold = "string \<times> string"

definition reservation_handle :: "string \<Rightarrow> Reservation \<Rightarrow> string" where
  "reservation_handle fallback r = (if TrimSpace (resHandle r) \<noteq> [] then TrimSpace (resHandle r) else fallback)"

definition decision_acquired :: "string \<Rightarrow> Decision \<Rightarrow> hold list" where
  "decision_acquired i d = (let fallback = TrimSpace (dCompensationHandle d) in
     map (Pair i) (filter (\<lambda>x. x \<noteq> [])
       (if dReservations d = [] then [fallback] else map (reservation_handle fallback) (dReservations d))))"

definition lease_acquired :: "LeaseDecision \<Rightarrow> hold list" where
  "lease_acquired ld = map (Pair ''concurrency'')
     (remdups (filter (\<lambda>x. x \<noteq> []) (map TrimSpace (ldLeaseID ld # map loLeaseID (ldLeases ld)))))"

fun hold_account :: "hold multiset \<Rightarrow> authority_event \<Rightarrow> hold multiset" where
  "hold_account M (Admitted i d err) = M + mset (decision_acquired i d)"
| "hold_account M (LeaseAdmitted ld err) = M + mset (lease_acquired ld)"
| "hold_account M (Released p x None) = M - {#(p, x)#}"
| "hold_account M (Released p x (Some e)) = M"

text \<open>The holds that were acquired and not released successfully.\<close>

definition outstanding :: "history \<Rightarrow> hold multiset" where
  "outstanding evs = foldl hold_account {#} evs"

text \<open>
  Two kinds of holds are acquired without being listed where the coordinator looks: a
  compensation handle of a decision without reservations, and a primary lease that is missing
  from a nonempty occupancy set.
\<close>

definition decision_unlisted :: "string \<Rightarrow> Decision \<Rightarrow> hold list" where
  "decision_unlisted i d =
     (if dReservations d = [] \<and> TrimSpace (dCompensationHandle d) \<noteq> [] then [(i, TrimSpace (dCompensationHandle d))] else [])"

definition lease_unlisted :: "LeaseDecision \<Rightarrow> hold list" where
  "lease_unlisted ld =
     (let primary = TrimSpace (ldLeaseID ld);
          members = filter (\<lambda>x. x \<noteq> []) (map (\<lambda>occ. TrimSpace (loLeaseID occ)) (ldLeases ld))
      in if primary \<noteq> [] \<and> members \<noteq> [] \<and> primary \<notin> set members then [(''concurrency'', primary)] else [])"

fun event_unlisted :: "authority_event \<Rightarrow> hold list" where
  "event_unlisted (Admitted i d err) = decision_unlisted i d"
| "event_unlisted (LeaseAdmitted ld err) = lease_unlisted ld"
| "event_unlisted (Released p x err) = []"

definition unlisted :: "history \<Rightarrow> hold list" where
  "unlisted evs = concat (map event_unlisted evs)"

section \<open>Listed holds\<close>

text \<open>
  The holds the coordinator finds in an answer, with the same accounts. The proofs below follow
  these; \<open>outstanding_listed\<close> says how they relate to what was acquired.
\<close>

definition listed_keys :: "string \<Rightarrow> Decision \<Rightarrow> hold list" where
  "listed_keys i d = map (\<lambda>r. (i, hold_handle d r)) (filter (\<lambda>r. hold_handle d r \<noteq> []) (dReservations d))"

definition listed_leases :: "LeaseDecision \<Rightarrow> hold list" where
  "listed_leases ld = map (Pair ''concurrency'') (leaseIDsFromDecision ld)"

fun listed_account :: "hold multiset \<Rightarrow> authority_event \<Rightarrow> hold multiset" where
  "listed_account M (Admitted i d err) = M + mset (listed_keys i d)"
| "listed_account M (LeaseAdmitted ld err) = M + mset (listed_leases ld)"
| "listed_account M (Released p x None) = M - {#(p, x)#}"
| "listed_account M (Released p x (Some e)) = M"

abbreviation listed_from :: "hold multiset \<Rightarrow> history \<Rightarrow> hold multiset" where
  "listed_from \<equiv> foldl listed_account"

lemma decision_acquired_listed:
  "mset (decision_acquired i d) = mset (listed_keys i d) + mset (decision_unlisted i d)"
proof -
  have "reservation_handle (TrimSpace (dCompensationHandle d)) = hold_handle d"
    by (auto simp: reservation_handle_def hold_handle_def Let_def)
  then have "decision_acquired i d = listed_keys i d @ decision_unlisted i d"
    unfolding decision_acquired_def listed_keys_def decision_unlisted_def Let_def by (auto simp: filter_map comp_def)
  then show ?thesis by simp
qed

lemma distinct_ids_set: "set (distinct_ids seen ids) = set ids - {[]} - seen \<and> distinct (distinct_ids seen ids)"
  by (induction seen ids rule: distinct_ids.induct) auto

lemma lease_acquired_listed: "mset (lease_acquired ld) = mset (listed_leases ld) + mset (lease_unlisted ld)"
proof -
  define primary where "primary = TrimSpace (ldLeaseID ld)"
  define ids where "ids = map (\<lambda>occ. TrimSpace (loLeaseID occ)) (ldLeases ld)"
  define extra where "extra = (if primary \<noteq> [] \<and> set ids - {[]} \<noteq> {} \<and> primary \<notin> set ids - {[]} then [primary] else [])"
  have "distinct_ids {} ids \<noteq> [] \<longleftrightarrow> set ids - {[]} \<noteq> {}"
    using distinct_ids_set [of "{}" ids] by (metis Diff_empty set_empty)
  then have "leaseIDsFromDecision ld = (if set ids - {[]} \<noteq> {} then distinct_ids {} ids else if primary \<noteq> [] then [primary] else [])"
    by (simp add: leaseIDsFromDecision_def primary_def [symmetric] ids_def [symmetric] Let_def)
  then have "set (leaseIDsFromDecision ld @ extra) = set (remdups (filter (\<lambda>x. x \<noteq> []) (primary # ids)))"
    and "distinct (leaseIDsFromDecision ld @ extra)"
    using distinct_ids_set [of "{}" ids] by (auto simp: extra_def)
  then have "mset (remdups (filter (\<lambda>x. x \<noteq> []) (primary # ids))) = mset (leaseIDsFromDecision ld @ extra)"
    by (metis distinct_remdups set_eq_iff_mset_eq_distinct)
  moreover have "lease_unlisted ld = map (Pair ''concurrency'') extra"
    by (auto simp: lease_unlisted_def extra_def primary_def ids_def filter_empty_conv Let_def)
  moreover have "lease_acquired ld = map (Pair ''concurrency'') (remdups (filter (\<lambda>x. x \<noteq> []) (primary # ids)))"
    by (simp add: lease_acquired_def primary_def ids_def comp_def)
  ultimately show ?thesis by (simp add: listed_leases_def)
qed

lemma grow_account:
  assumes "L \<subseteq># M" "M \<subseteq># L + U"
  shows "L + A \<subseteq># M + (A + B)" "L \<subseteq># M + B" "M + (A + B) \<subseteq># L + A + (U + B)" "M + B \<subseteq># L + (U + B)"
  using assms by (auto simp: subseteq_mset_def ac_simps intro: trans_le_add2)

lemma shrink_account:
  assumes "L \<subseteq># M" "M \<subseteq># L + U"
  shows "L - {#k#} \<subseteq># M - {#k#}" "M - {#k#} \<subseteq># L - {#k#} + U"
proof -
  have "count L x - 1 \<le> count M x - 1" "count M x - 1 \<le> count L x - 1 + count U x" if "x = k" for x
    using assms mset_subset_eq_count [of L M x] mset_subset_eq_count [of M "L + U" x] by auto
  with assms show "L - {#k#} \<subseteq># M - {#k#}" "M - {#k#} \<subseteq># L - {#k#} + U" by (auto simp: subseteq_mset_def)
qed

lemma outstanding_listed_from:
  assumes "L \<subseteq># M" "M \<subseteq># L + U"
  shows "listed_from L evs \<subseteq># foldl hold_account M evs
       \<and> foldl hold_account M evs \<subseteq># listed_from L evs + (U + mset (unlisted evs))"
  using assms
proof (induction evs arbitrary: L M U)
  case (Cons ev evs)
  have "listed_account L ev \<subseteq># hold_account M ev \<and> hold_account M ev \<subseteq># listed_account L ev + (U + mset (event_unlisted ev))"
  proof (cases ev)
    case (Admitted i d err)
    with Cons.prems show ?thesis by (simp add: decision_acquired_listed grow_account)
  next
    case (LeaseAdmitted ld err)
    with Cons.prems show ?thesis by (simp add: lease_acquired_listed grow_account)
  next
    case (Released p x err)
    with Cons.prems show ?thesis by (cases err) (simp_all add: shrink_account)
  qed
  from Cons.IH [OF conjunct1 [OF this] conjunct2 [OF this]] show ?case by (simp add: unlisted_def ac_simps)
qed (simp add: unlisted_def)

lemma outstanding_listed:
  "listed_from {#} evs \<subseteq># outstanding evs" "outstanding evs \<subseteq># listed_from {#} evs + mset (unlisted evs)"
  using outstanding_listed_from [of "{#}" "{#}" "{#}" evs] by (simp_all add: outstanding_def)

definition entry_key :: "StackEntry \<Rightarrow> hold" where
  "entry_key e = (enProviderID e, enHandle e)"

definition failure_key :: "CompensateFailed \<Rightarrow> hold" where
  "failure_key f = (cfProviderID f, cfHandle f)"

abbreviation stack_keys :: "CompensationStack \<Rightarrow> hold multiset" where
  "stack_keys s \<equiv> mset (map entry_key s)"

abbreviation reported :: "CompensateFailed list \<Rightarrow> hold multiset" where
  "reported fs \<equiv> mset (map failure_key fs)"

definition compensable :: "CompensationStack \<Rightarrow> bool" where
  "compensable s \<longleftrightarrow> (\<forall>e \<in> set s. enCompensate e \<noteq> None)"

fun released_key :: "authority_event \<Rightarrow> hold list" where
  "released_key (Released p x err) = [(p, x)]"
| "released_key _ = []"

definition released_keys :: "history \<Rightarrow> hold list" where
  "released_keys evs = concat (map released_key evs)"

lemma released_keys_simps [simp]:
  "released_keys [] = []" "released_keys (e # evs) = released_key e @ released_keys evs"
  "released_keys (a @ b) = released_keys a @ released_keys b"
  by (simp_all add: released_keys_def)

lemma compensable_simps [simp]:
  "compensable []" "compensable (e # s) \<longleftrightarrow> enCompensate e \<noteq> None \<and> compensable s"
  "compensable (s @ t) \<longleftrightarrow> compensable s \<and> compensable t" "compensable (rev s) \<longleftrightarrow> compensable s"
  by (auto simp: compensable_def)

definition admissions_ok :: "history \<Rightarrow> bool" where
  "admissions_ok evs \<longleftrightarrow> (\<forall>i d e. Admitted i d (Some e) \<notin> set evs)"

lemma admissions_ok_simps [simp]:
  "admissions_ok []" "admissions_ok (a @ b) \<longleftrightarrow> admissions_ok a \<and> admissions_ok b"
  "admissions_ok (Admitted i d err # evs) \<longleftrightarrow> err = None \<and> admissions_ok evs"
  by (auto simp: admissions_ok_def) (cases err; blast)

section \<open>Compensation\<close>

text \<open>
  Releasing a list of entries appends one release per entry, in order; a hold is outstanding
  afterwards only if it was outstanding apart from the entries or its failed release is reported.
\<close>

definition compensates :: "StackEntry list \<Rightarrow> history \<Rightarrow> CompensateFailed list \<times> history \<Rightarrow> bool" where
  "compensates es h r \<longleftrightarrow>
     (\<exists>new. snd r = h @ new \<and> released_keys new = map entry_key es \<and> admissions_ok new
        \<and> (\<forall>M F. M \<subseteq># mset (map entry_key es) + F \<longrightarrow> listed_from M new \<subseteq># F + reported (fst r))
        \<and> (\<forall>M K. K + mset (map entry_key es) \<subseteq># M \<longrightarrow> K \<subseteq># listed_from M new))"

lemma compensatesE:
  assumes "compensates es h r"
  obtains new where "snd r = h @ new" "released_keys new = map entry_key es" "admissions_ok new"
    "\<And>M F. M \<subseteq># mset (map entry_key es) + F \<Longrightarrow> listed_from M new \<subseteq># F + reported (fst r)"
    "\<And>M K. K + mset (map entry_key es) \<subseteq># M \<Longrightarrow> K \<subseteq># listed_from M new"
  using assms by (auto simp: compensates_def)

lemma compensate_each_compensates: "compensable es \<Longrightarrow> compensates es h (compensate_each es h)"
proof (induction es arbitrary: h)
  case Nil
  then show ?case by (auto simp: compensates_def)
next
  case (Cons e es)
  then obtain f where f: "enCompensate e = Some f" by auto
  define err where "err = invokeCompensate (f h)"
  let ?ev = "Released (enProviderID e) (enHandle e) err"
  obtain fails h' where c: "compensate_each es (h @ [?ev]) = (fails, h')" by fastforce
  have "compensable es" using Cons.prems by simp
  from Cons.IH [OF this, of "h @ [?ev]"] c obtain new where new: "h' = (h @ [?ev]) @ new"
    "released_keys new = map entry_key es" "admissions_ok new"
    "\<And>M F. M \<subseteq># mset (map entry_key es) + F \<Longrightarrow> listed_from M new \<subseteq># F + reported fails"
    "\<And>M K. K + mset (map entry_key es) \<subseteq># M \<Longrightarrow> K \<subseteq># listed_from M new"
    by (auto elim!: compensatesE)
  define r where "r = compensate_each (e # es) h"
  have r: "snd r = h @ (?ev # new)"
    "fst r = (case err of None \<Rightarrow> fails | Some x \<Rightarrow>
      \<lparr>cfProviderID = enProviderID e, cfHandle = enHandle e, cfErr = x, cfEvidence = enEvidence e\<rparr> # fails)"
    using f c new(1) by (simp_all add: r_def err_def [symmetric] Let_def split: option.splits)
  have up: "listed_from M (?ev # new) \<subseteq># F + reported (fst r)" if "M \<subseteq># mset (map entry_key (e # es)) + F" for M F
  proof (cases err)
    case None
    have "M - {#entry_key e#} \<subseteq># mset (map entry_key es) + F" using that by (simp add: subset_eq_diff_conv)
    from new(4) [OF this] show ?thesis using None r(2) by (simp add: entry_key_def)
  next
    case (Some x)
    have "M \<subseteq># mset (map entry_key es) + ({#entry_key e#} + F)" using that by (simp add: ac_simps)
    from new(4) [OF this] show ?thesis using Some r(2) by (simp add: entry_key_def failure_key_def)
  qed
  have down: "K \<subseteq># listed_from M (?ev # new)" if "K + mset (map entry_key (e # es)) \<subseteq># M" for M K
  proof -
    have "K + mset (map entry_key es) \<subseteq># listed_account M ?ev"
      using that by (cases err) (auto simp: entry_key_def subset_eq_diff_conv insert_subset_eq_iff ac_simps
          intro: subset_mset.trans [OF mset_subset_eq_add_left] elim: mset_subset_eq_insertD subset_mset.order_trans)
    from new(5) [OF this] show ?thesis by simp
  qed
  show ?case unfolding compensates_def r_def [symmetric]
    by (rule exI [of _ "?ev # new"])
      (use r(1) new(2,3) up down in \<open>auto simp: entry_key_def admissions_ok_def\<close>)
qed

lemma ReverseCompensate_compensates: "compensable s \<Longrightarrow> compensates (rev s) h (ReverseCompensate s h)"
  unfolding ReverseCompensate_def by (rule compensate_each_compensates) simp

lemma compensateCurrentThenPrior_compensates:
  assumes "compensable stack" "compensable current"
  shows "compensates (rev current @ rev stack) h (compensateCurrentThenPrior stack current h)"
proof -
  obtain f1 h1 where c1: "ReverseCompensate current h = (f1, h1)" by fastforce
  obtain f2 h2 where c2: "ReverseCompensate stack h1 = (f2, h2)" by fastforce
  from ReverseCompensate_compensates [OF assms(2), of h] c1 obtain n1 where n1: "h1 = h @ n1"
    "released_keys n1 = map entry_key (rev current)" "admissions_ok n1"
    "\<And>M F. M \<subseteq># mset (map entry_key (rev current)) + F \<Longrightarrow> listed_from M n1 \<subseteq># F + reported f1"
    "\<And>M K. K + mset (map entry_key (rev current)) \<subseteq># M \<Longrightarrow> K \<subseteq># listed_from M n1"
    by (auto elim!: compensatesE)
  from ReverseCompensate_compensates [OF assms(1), of h1] c2 obtain n2 where n2: "h2 = h1 @ n2"
    "released_keys n2 = map entry_key (rev stack)" "admissions_ok n2"
    "\<And>M F. M \<subseteq># mset (map entry_key (rev stack)) + F \<Longrightarrow> listed_from M n2 \<subseteq># F + reported f2"
    "\<And>M K. K + mset (map entry_key (rev stack)) \<subseteq># M \<Longrightarrow> K \<subseteq># listed_from M n2"
    by (auto elim!: compensatesE)
  have r: "compensateCurrentThenPrior stack current h = (f1 @ f2, h2)"
    using c1 c2 by (simp add: compensateCurrentThenPrior_def compensateCurrentOnly_def)
  have "listed_from M (n1 @ n2) \<subseteq># F + reported (f1 @ f2)"
    if "M \<subseteq># mset (map entry_key (rev current @ rev stack)) + F" for M F
    using n2(4) [of "listed_from M n1" "F + reported f1"] n1(4) [of M "mset (map entry_key (rev stack)) + F"] that
    by (simp add: ac_simps)
  moreover have "K \<subseteq># listed_from M (n1 @ n2)"
    if "K + mset (map entry_key (rev current @ rev stack)) \<subseteq># M" for M K
    using n2(5) [of K "listed_from M n1"] n1(5) [of "K + mset (map entry_key (rev stack))" M] that
    by (simp add: ac_simps)
  ultimately show ?thesis unfolding r compensates_def
    using n1(1-3) n2(1-3) by (intro exI [of _ "n1 @ n2"]) auto
qed

section \<open>The contract of a stage\<close>

text \<open>
  A stage pushes exactly the holds of a decision, each with a compensation. The invariant of
  the admission loop is that a hold is outstanding only if it is on the stack or its failed
  release is reported, and, as long as no provider answers with an error, that every hold on
  the stack is outstanding.
\<close>

definition accounted :: "hold multiset \<Rightarrow> CompositeDecision \<Rightarrow> CompensationStack \<Rightarrow> bool" where
  "accounted M out stack \<longleftrightarrow> compensable stack \<and> M \<subseteq># stack_keys stack + reported (cdCompensateFailures out)"

lemma accounted_release:
  assumes "accounted M out stack" "compensates (rev stack) h r" "cdCompensateFailures out' = cdCompensateFailures out @ fst r"
  shows "\<exists>new. snd r = h @ new \<and> listed_from M new \<subseteq># reported (cdCompensateFailures out')
     \<and> released_keys new = rev (map entry_key stack)"
  using assms by (auto simp: accounted_def rev_map elim!: compensatesE)

lemma failures_simps [simp]:
  "cdCompensateFailures (add_failures fails out) = cdCompensateFailures out @ fails"
  "cdCompensateFailures (degrade out) = cdCompensateFailures out"
  "cdCompensateFailures (deny_by i st out) = cdCompensateFailures out"
  "cdCompensateFailures (recordStageAdmitErrorDecision out d) = cdCompensateFailures out"
  "cdStack (deny_by i st out) = st"
  by (simp_all add: add_failures_def degrade_def deny_by_def recordStageAdmitErrorDecision_def)

text \<open>
  What a step of the loop does to the accounts, given what the current provider acquired; the
  flag tells that the holds on the stack were outstanding and the provider answered without an error.
\<close>

fun step_accounts :: "bool \<Rightarrow> hold multiset \<Rightarrow> history \<Rightarrow> slot_result \<Rightarrow> bool" where
  "step_accounts ok M h (Continue out stack h') =
     (\<exists>new. h' = h @ new \<and> accounted (listed_from M new) out stack \<and> (ok \<longrightarrow> stack_keys stack \<subseteq># listed_from M new))"
| "step_accounts ok M h (Stop out e h') =
     (\<exists>new pre. h' = h @ new \<and> listed_from M new \<subseteq># reported (cdCompensateFailures out)
        \<and> released_keys new = pre @ rev (map entry_key (cdStack out)))"

definition loop_accounts ::
  "hold multiset \<Rightarrow> CompensationStack \<Rightarrow> history \<Rightarrow> CompositeDecision \<Rightarrow> coordinator_error option \<Rightarrow> bool" where
  "loop_accounts M stack new out err \<longleftrightarrow>
     (err \<noteq> None \<longrightarrow> listed_from M new \<subseteq># reported (cdCompensateFailures out)
        \<and> (\<exists>pre. released_keys new = pre @ rev (map entry_key (cdStack out))))
   \<and> (err = None \<longrightarrow> accounted (listed_from M new) out (cdStack out)
        \<and> (stack_keys stack \<subseteq># M \<longrightarrow> admissions_ok new \<longrightarrow> stack_keys (cdStack out) \<subseteq># listed_from M new))"

lemma loop_accounts_prepend:
  assumes "loop_accounts (listed_from M n1) stack1 n2 out err"
    and "stack_keys stack \<subseteq># M \<Longrightarrow> admissions_ok n1 \<Longrightarrow> stack_keys stack1 \<subseteq># listed_from M n1"
  shows "loop_accounts M stack (n1 @ n2) out err"
proof (cases err)
  case None
  with assms show ?thesis by (simp add: loop_accounts_def)
next
  case (Some x)
  with assms(1) obtain pre where "listed_from (listed_from M n1) n2 \<subseteq># reported (cdCompensateFailures out)"
    "released_keys n2 = pre @ rev (map entry_key (cdStack out))" by (auto simp: loop_accounts_def)
  with Some show ?thesis by (simp add: loop_accounts_def)
qed

lemma validated_kind:
  assumes "validateCoordinatorDecision d reg stage = None"
  shows "dKind d \<noteq> DecisionOther s"
proof
  assume "dKind d = DecisionOther s"
  then have "validateCoordinatorDecision d reg stage \<noteq> None"
    by (simp add: validateCoordinatorDecision_def Decision_ValidateFor_def Decision_Validate_def split: option.splits)
  with assms show False by simp
qed

locale stage_holds =
  fixes cfg :: "('i, 'p) stageAdmitConfig"
  assumes push_keys: "map entry_key (scPushHolds cfg [] i p adm d) = listed_keys i d"
    and push_compensable: "compensable (scPushHolds cfg [] i p adm d)"
begin

lemma push_mset: "image_mset entry_key (mset (scPushHolds cfg [] i p adm d)) = mset (listed_keys i d)"
  by (metis mset_map push_keys)

lemma owned_holds: "(if decisionHasHolds d then scPushHolds cfg [] i p adm d else []) = scPushHolds cfg [] i p adm d"
  using push_keys [of i p adm d] by (auto simp: decisionHasHolds_def listed_keys_def)

lemma acquired_accounted:
  assumes "accounted M out stack"
  shows "M + mset (listed_keys i d) \<subseteq># mset (map entry_key (rev (scPushHolds cfg [] i p adm d) @ rev stack))
     + reported (cdCompensateFailures out)"
  using assms by (simp add: accounted_def push_mset ac_simps)

lemma release_current_and_prior:
  assumes "accounted M out stack"
    and "compensateCurrentThenPrior stack (scPushHolds cfg [] i p adm d) h = (fails, h1)"
  shows "\<exists>new. h1 = h @ new \<and> admissions_ok new
     \<and> listed_from (M + mset (listed_keys i d)) new \<subseteq># reported (cdCompensateFailures out @ fails)
     \<and> (\<exists>pre. released_keys new = pre @ rev (map entry_key stack))"
proof -
  let ?held = "scPushHolds cfg [] i p adm d"
  have "compensates (rev ?held @ rev stack) h (fails, h1)"
    using compensateCurrentThenPrior_compensates [of stack ?held h] assms push_compensable by (simp add: accounted_def)
  then obtain new where new: "h1 = h @ new" "released_keys new = map entry_key (rev ?held @ rev stack)" "admissions_ok new"
    "\<And>M F. M \<subseteq># mset (map entry_key (rev ?held @ rev stack)) + F \<Longrightarrow> listed_from M new \<subseteq># F + reported fails"
    by (auto elim!: compensatesE)
  have "listed_from (M + mset (listed_keys i d)) new \<subseteq># reported (cdCompensateFailures out @ fails)"
    using new(4) [OF acquired_accounted [OF assms(1)]] by simp
  with new(1-3) show ?thesis by (auto simp: rev_map)
qed

lemma release_current:
  assumes "accounted M out stack" and "compensateCurrentOnly (scPushHolds cfg [] i p adm d) h = (fails, h1)"
  shows "\<exists>new. h1 = h @ new \<and> admissions_ok new
     \<and> listed_from (M + mset (listed_keys i d)) new \<subseteq># stack_keys stack + reported (cdCompensateFailures out @ fails)
     \<and> (stack_keys stack \<subseteq># M \<longrightarrow> stack_keys stack \<subseteq># listed_from (M + mset (listed_keys i d)) new)"
proof -
  let ?held = "scPushHolds cfg [] i p adm d"
  have "compensates (rev ?held) h (fails, h1)"
    using ReverseCompensate_compensates [of ?held h] assms push_compensable by (simp add: compensateCurrentOnly_def)
  then obtain new where new: "h1 = h @ new" "admissions_ok new"
    "\<And>M F. M \<subseteq># mset (map entry_key (rev ?held)) + F \<Longrightarrow> listed_from M new \<subseteq># F + reported fails"
    "\<And>M K. K + mset (map entry_key (rev ?held)) \<subseteq># M \<Longrightarrow> K \<subseteq># listed_from M new"
    by (auto elim!: compensatesE)
  have k: "mset (map entry_key (rev ?held)) = mset (listed_keys i d)" by (simp add: push_mset)
  have "listed_from (M + mset (listed_keys i d)) new \<subseteq># stack_keys stack + reported (cdCompensateFailures out) + reported fails"
    using assms(1) by (intro new(3)) (simp add: k accounted_def ac_simps push_mset)
  moreover have "stack_keys stack \<subseteq># listed_from (M + mset (listed_keys i d)) new" if "stack_keys stack \<subseteq># M"
    using that by (intro new(4)) (simp add: k push_mset)
  ultimately show ?thesis using new(1,2) by (intro exI [of _ new]) (auto simp: ac_simps)
qed

lemma slot_errored_accounts:
  assumes "accounted M out stack" "held = scPushHolds cfg [] (TrimSpace (slID slot)) p adm d"
  shows "step_accounts False (M + mset (listed_keys (TrimSpace (slID slot)) d)) h
     (slot_errored cfg slot held d e out stack h)"
proof -
  obtain fails h1 where c: "compensateCurrentThenPrior stack held h = (fails, h1)" by fastforce
  obtain st fb where p: "resolveStagePosture slot = (st, fb)" by fastforce
  from release_current_and_prior [OF assms(1) c [unfolded assms(2)]] obtain new pre where new: "h1 = h @ new"
    "listed_from (M + mset (listed_keys (TrimSpace (slID slot)) d)) new \<subseteq># reported (cdCompensateFailures out @ fails)"
    "released_keys new = pre @ rev (map entry_key stack)" by blast
  have "listed_from (M + mset (listed_keys (TrimSpace (slID slot)) d)) new
      \<subseteq># stack_keys stack + reported (cdCompensateFailures out @ fails)"
    using new(2) by (rule subset_mset.order_trans) simp
  with new assms(1) show ?thesis by (auto simp: slot_errored_def c p Let_def accounted_def)
qed

lemma slot_invalid_accounts:
  assumes "accounted M out stack" "held = scPushHolds cfg [] (TrimSpace (slID slot)) p adm d"
  shows "step_accounts (stack_keys stack \<subseteq># M) (M + mset (listed_keys (TrimSpace (slID slot)) d)) h
     (slot_invalid cfg slot held d vErr out stack h)"
proof -
  let ?M = "M + mset (listed_keys (TrimSpace (slID slot)) d)"
  obtain fails h1 where c: "compensateCurrentThenPrior stack held h = (fails, h1)" by fastforce
  obtain fails' h1' where c': "compensateCurrentOnly held h = (fails', h1')" by fastforce
  obtain st fb where p: "resolveStagePosture slot = (st, fb)" by fastforce
  have own: "(if decisionHasHolds d then held else []) = held" unfolding assms(2) by (rule owned_holds)
  from release_current_and_prior [OF assms(1) c [unfolded assms(2)]] obtain new pre where new: "h1 = h @ new"
    "listed_from ?M new \<subseteq># reported (cdCompensateFailures out @ fails)"
    "released_keys new = pre @ rev (map entry_key stack)" by blast
  from release_current [OF assms(1) c' [unfolded assms(2)]] obtain new' where new': "h1' = h @ new'"
    "listed_from ?M new' \<subseteq># stack_keys stack + reported (cdCompensateFailures out @ fails')"
    "stack_keys stack \<subseteq># M \<longrightarrow> stack_keys stack \<subseteq># listed_from ?M new'" by blast
  show ?thesis unfolding slot_invalid_def own c c' p Let_def prod.case using new new' assms(1)
    by (auto simp: accounted_def)
qed

lemma slot_accepted_accounts:
  assumes "accounted M out stack" "held = scPushHolds cfg [] (TrimSpace (slID slot)) p adm d"
    and "validateCoordinatorDecision d reg stage = None"
  shows "step_accounts (stack_keys stack \<subseteq># M) (M + mset (listed_keys (TrimSpace (slID slot)) d)) h
     (slot_accepted cfg slot held d out stack h)"
proof -
  let ?i = "TrimSpace (slID slot)"
  let ?M = "M + mset (listed_keys ?i d)"
  obtain fails h1 where c: "compensateCurrentThenPrior stack held h = (fails, h1)" by fastforce
  obtain st fb where p: "resolveStagePosture slot = (st, fb)" by fastforce
  have own: "(if decisionHasHolds d then held else []) = held" unfolding assms(2) by (rule owned_holds)
  have hk: "compensable held" "stack_keys held = mset (listed_keys ?i d)" using push_compensable push_mset by (simp_all add: assms(2))
  from release_current_and_prior [OF assms(1) c [unfolded assms(2)]] obtain new pre where new: "h1 = h @ new"
    "listed_from ?M new \<subseteq># reported (cdCompensateFailures out @ fails)"
    "released_keys new = pre @ rev (map entry_key stack)" by blast
  have nohold: "dKind d = DecisionDeny \<Longrightarrow> listed_keys ?i d = []"
    using assms(3) by (auto simp: validateCoordinatorDecision_def decisionHasHolds_def listed_keys_def split: if_splits)
  have known: "dKind d \<noteq> DecisionOther s" for s using validated_kind [OF assms(3)] .
  have push: "accounted ?M (out1 :: CompositeDecision) (stack @ held)"
    if "cdCompensateFailures out1 = cdCompensateFailures out" for out1
    using assms(1) hk that by (auto simp: accounted_def ac_simps)
  have keep: "stack_keys (stack @ held) \<subseteq># ?M" if "stack_keys stack \<subseteq># M" using that hk(2) by simp
  note [simp] = slot_accepted_def own c p Let_def
  show ?thesis
  proof (cases "mergeClampsNonWidening (cdClamps out) (dClamps d)")
    case (Inl e)
    with new show ?thesis by auto
  next
    case (Inr merged)
    show ?thesis
    proof (cases "dKind d")
      case DecisionDeny
      with Inr new nohold assms(1) show ?thesis by (cases "st = StrengthAdvisory") (auto simp: accounted_def)
    qed (use Inr push keep known in \<open>simp_all del: mset_append image_mset_union map_append\<close>)
  qed
qed

lemma stage_slot_answered:
  assumes "accounted M out stack" "scAdmit cfg p adm h = (d, err)"
    and e_def: "e = Admitted (TrimSpace (slID slot)) d err"
  shows "step_accounts (stack_keys stack \<subseteq># M \<and> err = None) (listed_account M e) (h @ [e]) (stage_slot cfg adm slot p out stack h)"
proof (cases err)
  case None
  obtain reg stage where r: "stageSlotRegistration slot (scDefaultStage cfg) = (reg, stage)" by fastforce
  show ?thesis
  proof (cases "validateCoordinatorDecision d reg stage")
    case v: None
    from slot_accepted_accounts [OF assms(1) refl v] show ?thesis by (simp add: stage_slot_def assms(2) r v None e_def Let_def)
  next
    case (Some vErr)
    from slot_invalid_accounts [OF assms(1) refl] show ?thesis by (simp add: stage_slot_def assms(2) r Some None e_def Let_def)
  qed
next
  case (Some x)
  from slot_errored_accounts [OF assms(1) refl] show ?thesis by (simp add: stage_slot_def assms(2) Some e_def Let_def)
qed

text \<open>The answer of the provider is the first event of its step.\<close>

lemma stage_slot_Continue:
  assumes "accounted M out stack" "stage_slot cfg adm slot p out stack h = Continue out' stack' h'"
  obtains new where "h' = h @ new" "accounted (listed_from M new) out' stack'"
    "stack_keys stack \<subseteq># M \<Longrightarrow> admissions_ok new \<Longrightarrow> stack_keys stack' \<subseteq># listed_from M new"
proof -
  obtain d err where a: "scAdmit cfg p adm h = (d, err)" by fastforce
  let ?e = "Admitted (TrimSpace (slID slot)) d err"
  from stage_slot_answered [OF assms(1) a refl, of slot] obtain n where n: "h' = h @ [?e] @ n"
    "accounted (listed_from (listed_account M ?e) n) out' stack'"
    "stack_keys stack \<subseteq># M \<and> err = None \<longrightarrow> stack_keys stack' \<subseteq># listed_from (listed_account M ?e) n"
    unfolding assms(2) by auto
  show thesis by (rule that [of "?e # n"]) (use n in auto)
qed

lemma stage_slot_Stop:
  assumes "accounted M out stack" "stage_slot cfg adm slot p out stack h = Stop out' e h'"
  obtains new pre where "h' = h @ new" "listed_from M new \<subseteq># reported (cdCompensateFailures out')"
    "released_keys new = pre @ rev (map entry_key (cdStack out'))"
proof -
  obtain d err where a: "scAdmit cfg p adm h = (d, err)" by fastforce
  let ?e = "Admitted (TrimSpace (slID slot)) d err"
  from stage_slot_answered [OF assms(1) a refl, of slot] obtain n pre where n: "h' = h @ [?e] @ n"
    "listed_from (listed_account M ?e) n \<subseteq># reported (cdCompensateFailures out')"
    "released_keys n = pre @ rev (map entry_key (cdStack out'))"
    unfolding assms(2) by auto
  show thesis by (rule that [of "?e # n" pre]) (use n in auto)
qed

lemma stage_loop_accounts:
  assumes "accounted M out stack" "stage_loop cfg adm slots out stack h = (out', err, h')"
  shows "\<exists>new. h' = h @ new \<and> loop_accounts M stack new out' err"
  using assms
proof (induction slots arbitrary: M out stack h)
  case Nil
  then show ?case by (auto simp: accounted_def loop_accounts_def)
next
  case (Cons slot slots)
  show ?case
  proof (cases "slProvider slot")
    case None
    with Cons show ?thesis by simp
  next
    case (Some p)
    show ?thesis
    proof (cases "stage_slot cfg adm slot p out stack h")
      case (Stop out1 e h1)
      from stage_slot_Stop [OF Cons.prems(1) Stop] obtain new pre where "h1 = h @ new"
        "listed_from M new \<subseteq># reported (cdCompensateFailures out1)"
        "released_keys new = pre @ rev (map entry_key (cdStack out1))" by blast
      with Stop Some Cons.prems(2) show ?thesis by (auto simp: loop_accounts_def)
    next
      case (Continue out1 stack1 h1)
      from stage_slot_Continue [OF Cons.prems(1) Continue] obtain n1 where n1: "h1 = h @ n1"
        "accounted (listed_from M n1) out1 stack1"
        "stack_keys stack \<subseteq># M \<Longrightarrow> admissions_ok n1 \<Longrightarrow> stack_keys stack1 \<subseteq># listed_from M n1" by blast
      have "stage_loop cfg adm slots out1 stack1 h1 = (out', err, h')" using Continue Some Cons.prems(2) by simp
      from Cons.IH [OF n1(2) this] obtain n2 where n2: "h' = h1 @ n2"
        "loop_accounts (listed_from M n1) stack1 n2 out' err" by blast
      from loop_accounts_prepend [OF n2(2) n1(3)] n1(1) n2(1) show ?thesis by auto
    qed
  qed
qed

end

section \<open>Requests and attempts\<close>

lemma decision_holds_keys: "map entry_key (decision_holds i release d) = listed_keys i d"
  by (simp add: decision_holds_def listed_keys_def entry_key_def comp_def)

lemma decision_holds_compensable: "compensable (decision_holds i release d)"
  by (auto simp: decision_holds_def compensable_def)

interpretation request_stage: stage_holds requestAdmitConfig
  by unfold_locales
    (simp_all add: requestAdmitConfig_def pushRequestDecisionHolds_def decision_holds_keys decision_holds_compensable)

interpretation attempt_stage: stage_holds attemptAdmitConfig
  by unfold_locales
    (simp_all add: attemptAdmitConfig_def pushAttemptDecisionHolds_def decision_holds_keys decision_holds_compensable)

lemma lease_holds_keys:
  "map entry_key (pushLeaseDecisionHolds [] conc r ld) = listed_leases ld" "compensable (pushLeaseDecisionHolds [] conc r ld)"
  by (auto simp: pushLeaseDecisionHolds_def listed_leases_def entry_key_def comp_def compensable_def)

lemma lease_deny_keys:
  assumes "invokeAdmitLease conc adm now reg h = (ld, None)" "ldKind ld = LeaseDeny"
  shows "listed_leases ld = []"
proof -
  have "LeaseDecision_Validate ld = None"
    using assms(1) by (auto simp: invokeAdmitLease_def validateCoordinatorLease_def LeaseDecision_ValidateFor_def
        split: call.splits option.splits prod.splits)
  with assms(2) show ?thesis
    by (auto simp: LeaseDecision_Validate_def listed_leases_def leaseIDsFromDecision_def contract_check_def Let_def
        split: if_splits)
qed

lemma lease_kind_known:
  assumes "invokeAdmitLease conc adm now reg h = (ld, None)"
  shows "ldKind ld \<noteq> LeaseKindOther s"
proof -
  have "LeaseDecision_Validate ld = None"
    using assms(1) by (auto simp: invokeAdmitLease_def validateCoordinatorLease_def LeaseDecision_ValidateFor_def
        split: call.splits option.splits prod.splits)
  then show ?thesis by (auto simp: LeaseDecision_Validate_def split: if_splits)
qed

lemma admit_lease_accounts:
  assumes "cdCompensateFailures out = []" "cdStack out = []"
  shows "step_accounts True {#} h (admit_lease conc reg adm now out h)"
proof -
  obtain ld err where a: "invokeAdmitLease conc (lease_admission adm) now reg h = (ld, err)" by fastforce
  let ?e = "LeaseAdmitted ld err" and ?leases = "pushLeaseDecisionHolds [] conc (raRequestID adm) ld"
  have k: "stack_keys ?leases = mset (listed_leases ld)" by (simp only: lease_holds_keys(1))
  show ?thesis
  proof (cases err)
    case (Some x)
    have "compensates (rev ?leases) (h @ [?e]) (ReverseCompensate ?leases (h @ [?e]))"
      by (rule ReverseCompensate_compensates) (rule lease_holds_keys(2))
    then obtain n where n: "snd (ReverseCompensate ?leases (h @ [?e])) = (h @ [?e]) @ n"
      "listed_from (mset (listed_leases ld)) n \<subseteq># {#} + reported (fst (ReverseCompensate ?leases (h @ [?e])))"
    proof (rule compensatesE)
      fix n
      assume n: "snd (ReverseCompensate ?leases (h @ [?e])) = (h @ [?e]) @ n"
        "\<And>M F. M \<subseteq># mset (map entry_key (rev ?leases)) + F \<Longrightarrow>
           listed_from M n \<subseteq># F + reported (fst (ReverseCompensate ?leases (h @ [?e])))"
      have "mset (listed_leases ld) \<subseteq># mset (map entry_key (rev ?leases)) + {#}" using k by simp
      from n(2) [OF this] that n(1) show thesis by blast
    qed
    then show ?thesis using Some assms
      by (auto simp: admit_lease_def a Let_def case_prod_beta intro!: exI [of _ "?e # n"])
  next
    case None
    show ?thesis
    proof (cases "ldKind ld = LeaseDeny")
      case True
      then have "listed_leases ld = []" using lease_deny_keys a None by blast
      with True None assms show ?thesis by (auto simp: admit_lease_def a Let_def intro!: exI [of _ "[?e]"])
    next
      case False
      moreover have "ldKind ld \<noteq> LeaseKindOther s" for s using lease_kind_known a None by blast
      ultimately have "\<exists>out1. admit_lease conc reg adm now out h = Continue out1 ?leases (h @ [?e]) \<and> cdCompensateFailures out1 = []"
        using None assms by (simp add: admit_lease_def a Let_def split: LeaseDecisionKind.splits)
      then show ?thesis using k lease_holds_keys(2) by (auto simp: accounted_def intro!: exI [of _ "[?e]"])
    qed
  qed
qed

lemma admit_lease_Continue:
  assumes "admit_lease conc reg adm now out h = Continue out1 stack h1"
  shows "cdCompensateFailures out1 = cdCompensateFailures out"
  using assms by (auto simp: admit_lease_def Let_def split: prod.splits option.splits LeaseDecisionKind.splits)

text \<open>The composition of the lease and the stage, on the events of one call.\<close>

lemma Request_Admit_accounts:
  assumes "Request_Admit (Some c) adm now h = (out, err, h')"
  shows "\<exists>new. h' = h @ new \<and> loop_accounts {#} [] new out err"
proof -
  let ?out = "no_composite\<lparr>cdKind := DecisionAllow, cdReadiness := ReadinessReady\<rparr>"
  let ?slots = "map requestStageSlot (rcSlots c)"
  have stage: "\<exists>new. h2 = h1 @ new \<and> loop_accounts M stack new (merge_stage out1 st) e"
    if run: "runStageAdmit requestAdmitConfig adm ?slots stack h1 = (st, e, h2)"
      and acc: "accounted M out1 stack" "cdCompensateFailures out1 = []" for M stack h1 st e h2 out1
  proof -
    have "accounted M ?out stack" using acc by (simp add: accounted_def no_composite_def)
    from request_stage.stage_loop_accounts [OF this run [unfolded runStageAdmit_def]]
    obtain new where "h2 = h1 @ new" "loop_accounts M stack new st e" by blast
    with acc(2) show ?thesis by (auto simp: loop_accounts_def merge_stage_def accounted_def)
  qed
  have out: "cdCompensateFailures ?out = []" "cdStack ?out = []" by (simp_all add: no_composite_def)
  show ?thesis
  proof (cases "RequestAdmission_Validate adm = None \<and> validateStageSlots ?slots = None")
    case False
    with assms have "out = no_composite" "err \<noteq> None" "h' = h"
      by (cases "RequestAdmission_Validate adm"; cases "validateStageSlots ?slots"; auto simp: Request_Admit_def Let_def)+
    then show ?thesis by (auto simp: loop_accounts_def no_composite_def)
  next
    case ok: True
    show ?thesis
    proof (cases "rcConcurrency c")
      case None
      obtain st where run: "runStageAdmit requestAdmitConfig adm ?slots [] h = (st, err, h')" "out = merge_stage ?out st"
        using assms ok None by (auto simp: Request_Admit_def Let_def split: prod.splits)
      from stage [OF run(1), of "{#}" ?out] run(2) out show ?thesis by (simp add: accounted_def)
    next
      case (Some conc)
      show ?thesis
      proof (cases "concurrencyRegistration c conc")
        case (Inl e)
        with assms ok Some show ?thesis by (auto simp: Request_Admit_def Let_def loop_accounts_def no_composite_def)
      next
        case (Inr reg)
        note lease = admit_lease_accounts [OF out, of h conc reg adm now]
        show ?thesis
        proof (cases "admit_lease conc reg adm now ?out h")
          case (Stop out1 e h1)
          with assms ok Some Inr have r: "out = out1" "err = Some e" "h' = h1" by (auto simp: Request_Admit_def Let_def)
          with lease Stop show ?thesis by (auto simp: loop_accounts_def)
        next
          case (Continue out1 stack h1)
          obtain st where run: "runStageAdmit requestAdmitConfig adm ?slots stack h1 = (st, err, h')" "out = merge_stage out1 st"
            using assms ok Some Inr Continue by (auto simp: Request_Admit_def Let_def split: prod.splits)
          from lease Continue obtain n1 where n1: "h1 = h @ n1" "accounted (listed_from {#} n1) out1 stack"
            "stack_keys stack \<subseteq># listed_from {#} n1" by auto
          from stage [OF run(1) n1(2)] admit_lease_Continue [OF Continue] out run(2)
          obtain n2 where "h' = h1 @ n2" "loop_accounts (listed_from {#} n1) stack n2 out err" by auto
          with n1 loop_accounts_prepend [of "{#}" n1 stack n2 out err "[]"] show ?thesis by auto
        qed
      qed
    qed
  qed
qed

text \<open>
  C11: A denied admission leaves no listed hold behind. When the request coordinator refuses a
  request, whatever its providers answered, every lease and reservation that an answer acquired
  during the call was released, or its failed release is reported to the caller, or it is one of
  the unlisted holds: a compensation handle without reservations or a primary lease missing
  from the answer's own occupancy set. The last releases are those of the returned stack, in
  reverse order of acquisition.
\<close>

theorem denied_admission_releases_holds:
  assumes "Request_Admit (Some c) adm now h = (out, Some err, h')"
  shows "\<exists>new. h' = h @ new
     \<and> outstanding new \<subseteq># mset (map failure_key (cdCompensateFailures out)) + mset (unlisted new)
     \<and> (\<exists>pre. released_keys new = pre @ rev (map entry_key (cdStack out)))"
proof -
  from Request_Admit_accounts [OF assms] obtain new where new: "h' = h @ new"
    "listed_from {#} new \<subseteq># mset (map failure_key (cdCompensateFailures out))"
    "\<exists>pre. released_keys new = pre @ rev (map entry_key (cdStack out))" by (auto simp: loop_accounts_def)
  have "outstanding new \<subseteq># mset (map failure_key (cdCompensateFailures out)) + mset (unlisted new)"
    using outstanding_listed(2) [of new] new(2) by (meson subset_mset.add_right_mono subset_mset.order_trans)
  with new show ?thesis by blast
qed

text \<open>
  C12: An allowed admission keeps its holds. When the request coordinator lets a request pass, a
  hold that an answer acquired during the call is outstanding only if it is on the returned
  stack, or its failed release is reported, or it is one of the unlisted holds (a compensation
  handle without reservations, a primary lease missing from the occupancy set); and if no
  provider answered with an error, every hold on the returned stack is outstanding, so that
  settling or releasing the stack later settles real holds.
\<close>

theorem allowed_admission_keeps_holds:
  assumes "Request_Admit (Some c) adm now h = (out, None, h')"
  shows "\<exists>new. h' = h @ new
     \<and> outstanding new \<subseteq># mset (map entry_key (cdStack out)) + mset (map failure_key (cdCompensateFailures out))
         + mset (unlisted new)
     \<and> (admissions_ok new \<longrightarrow> mset (map entry_key (cdStack out)) \<subseteq># outstanding new)"
proof -
  from Request_Admit_accounts [OF assms] obtain new where new: "h' = h @ new"
    "listed_from {#} new \<subseteq># mset (map entry_key (cdStack out)) + mset (map failure_key (cdCompensateFailures out))"
    "admissions_ok new \<longrightarrow> mset (map entry_key (cdStack out)) \<subseteq># listed_from {#} new"
    by (auto simp: loop_accounts_def accounted_def)
  have "outstanding new \<subseteq># mset (map entry_key (cdStack out)) + mset (map failure_key (cdCompensateFailures out))
      + mset (unlisted new)"
    using outstanding_listed(2) [of new] new(2) by (meson subset_mset.add_right_mono subset_mset.order_trans)
  moreover have "admissions_ok new \<longrightarrow> mset (map entry_key (cdStack out)) \<subseteq># outstanding new"
    using new(3) outstanding_listed(1) [of new] by (auto intro: subset_mset.order_trans)
  ultimately show ?thesis using new(1) by blast
qed

text \<open>The same accounts for the admission of an attempt.\<close>

lemma Attempt_Admit_accounts:
  assumes "Attempt_Admit (Some slots) adm h = (out, err, h')"
  shows "\<exists>new. h' = h @ new \<and> loop_accounts {#} [] new out err"
proof (cases "AttemptAdmission_Validate adm")
  case None
  show ?thesis
  proof (cases "checked_attempt_slots slots")
    case (Inl e)
    with assms None show ?thesis by (auto simp: Attempt_Admit_def loop_accounts_def no_composite_def)
  next
    case (Inr ss)
    have "accounted {#} (no_composite\<lparr>cdKind := DecisionAllow, cdReadiness := ReadinessReady\<rparr>) []" by (simp add: accounted_def)
    from attempt_stage.stage_loop_accounts [OF this] assms None Inr show ?thesis
      by (auto simp: Attempt_Admit_def runStageAdmit_def)
  qed
qed (use assms in \<open>auto simp: Attempt_Admit_def loop_accounts_def no_composite_def\<close>)

section \<open>A sample coordinator\<close>

definition sample_scope :: PrincipalScopeView where
  "sample_scope = (let u = \<lparr>svKnown = False, svValue = []\<rparr> in
     \<lparr>SubjectKind = ''unknown'', PrincipalID = u, DisplayName = u, AuthMethod = u, CredentialID = u, Roles = [],
      SafeClaims = [], TenantID = u, OrganizationID = u, WorkspaceID = u, ProjectID = u, DepartmentID = u,
      CostCenterID = u, PolicyLabels = [], scopeOrigin = ''client'', ParentTraceID = u\<rparr>)"

definition sample_admission :: RequestAdmission where
  "sample_admission =
     \<lparr>raRequestID = ''r1'', raALegID = [], raTraceID = [], raPerspective = PerspectiveUnset, raLifecycle = LifecycleUnset,
      raScope = sample_scope,
      raExposure = no_exposure\<lparr>exPerspective := PerspectiveCustomer, exBoundary := BoundaryFrontendIngress,
        exLifecycle := LifecycleLogicalRequest\<rparr>,
      raBoundVersions = [], raRatingVersions = [], raIdempotencyKey = [], raParentLeaseID = [], raAuxPolicy = []\<rparr>"

definition sample_lease :: LeaseDecision where
  "sample_lease = no_lease\<lparr>ldKind := LeaseAllow, ldLeaseID := ''L'', ldGeneration := 1, ldExpiresAt := 100\<rparr>"

definition sample_concurrency :: ConcurrencyProvider where
  "sample_concurrency = \<lparr>AdmitLease = (\<lambda>h a. Returned (sample_lease, None)), RenewLease = (\<lambda>h a. Returned (sample_lease, None)),
     ReleaseLease = (\<lambda>h r. Returned None), Describe = None\<rparr>"

definition sample_reservation :: "string \<Rightarrow> Reservation" where
  "sample_reservation x = \<lparr>resHandle = x, resKind = ReservationQuota, resRuleID = [],
     resQuantity = Some \<lparr>qComponent = ''request'', qUnit = ''count'', qValue = 1, qPresent = True, qSchema = []\<rparr>, resMoney = None\<rparr>"

definition sample_allow :: "string \<Rightarrow> Decision" where
  "sample_allow x = no_decision\<lparr>dKind := DecisionAllow, dReservations := [sample_reservation x]\<rparr>"

definition sample_provider :: "(Decision \<times> authority_error option) call \<Rightarrow> authority_error option \<Rightarrow> unit RequestProvider" where
  "sample_provider answer release = \<lparr>AdmitRequest = (\<lambda>h a. answer),
     SettleRequest = (\<lambda>h s. Returned (OwnedFinalSettlement (rqHandles s), None)), ReleaseRequest = (\<lambda>h r. Returned release)\<rparr>"

definition sample_slot :: "string \<Rightarrow> int \<Rightarrow> unit RequestProvider \<Rightarrow> unit RequestSlot" where
  "sample_slot i c p = \<lparr>rsID = i, rsClass = c, rsProvider = Some p, rsStrength = StrengthUnset, rsFailureBehavior = FailureUnset,
     rsDescriptor = None, rsStage = StageUnset\<rparr>"

definition sample_coordinator :: "unit RequestSlot list \<Rightarrow> unit RequestCoordinator" where
  "sample_coordinator slots = \<lparr>rcConcurrency = Some sample_concurrency, rcConcurrencyDescriptor = None, rcSlots = slots\<rparr>"

definition quota_slot :: "unit RequestSlot" where
  "quota_slot = sample_slot ''quota'' 3 (sample_provider (Returned (sample_allow ''q1'', None)) None)"

definition sticky_wallet_slot :: "unit RequestSlot" where
  "sticky_wallet_slot = sample_slot ''wallet'' 2 (sample_provider (Returned (sample_allow ''w1'', None)) (Some (ProviderError ''busy'')))"

definition denying_slot :: "unit RequestSlot" where
  "denying_slot = sample_slot ''z-deny'' 3 (sample_provider (Returned (no_decision\<lparr>dKind := DecisionDeny\<rparr>, None)) None)"

definition failing_advisory_slot :: "unit RequestSlot" where
  "failing_advisory_slot = sample_slot ''advisor'' 4 (sample_provider Panicked None)"

theorem denied_admission_releases_holds_witness:
  "\<exists>out err h'. Request_Admit (Some (sample_coordinator [denying_slot, quota_slot, sticky_wallet_slot])) sample_admission 50 []
       = (out, Some err, h')
     \<and> map entry_key (cdStack out) = [(''concurrency'', ''L''), (''wallet'', ''w1''), (''quota'', ''q1'')]
     \<and> map failure_key (cdCompensateFailures out) = [(''wallet'', ''w1'')]
     \<and> outstanding h' \<subseteq># {#(''wallet'', ''w1'')#}"
proof -
  let ?r = "Request_Admit (Some (sample_coordinator [denying_slot, quota_slot, sticky_wallet_slot])) sample_admission 50 []"
  have "case ?r of (out, err, h') \<Rightarrow> err \<noteq> None
      \<and> map entry_key (cdStack out) = [(''concurrency'', ''L''), (''wallet'', ''w1''), (''quota'', ''q1'')]
      \<and> map failure_key (cdCompensateFailures out) = [(''wallet'', ''w1'')] \<and> unlisted h' = []" by code_simp
  then obtain out err h' where r: "?r = (out, Some err, h')"
    "map entry_key (cdStack out) = [(''concurrency'', ''L''), (''wallet'', ''w1''), (''quota'', ''q1'')]"
    "map failure_key (cdCompensateFailures out) = [(''wallet'', ''w1'')]" "unlisted h' = []" by (auto split: prod.splits)
  from denied_admission_releases_holds [OF r(1)] r(3,4) have "outstanding h' \<subseteq># {#(''wallet'', ''w1'')#}" by simp
  with r show ?thesis by (intro exI conjI)
qed

theorem allowed_admission_keeps_holds_witness:
  "\<exists>out h'. Request_Admit (Some (sample_coordinator [quota_slot])) sample_admission 50 [] = (out, None, h')
     \<and> map entry_key (cdStack out) = [(''concurrency'', ''L''), (''quota'', ''q1'')]
     \<and> outstanding h' = {#(''concurrency'', ''L''), (''quota'', ''q1'')#}"
proof -
  let ?r = "Request_Admit (Some (sample_coordinator [quota_slot])) sample_admission 50 []"
  have "case ?r of (out, err, h') \<Rightarrow> err = None \<and> map entry_key (cdStack out) = [(''concurrency'', ''L''), (''quota'', ''q1'')]
      \<and> cdCompensateFailures out = [] \<and> list_all (\<lambda>e. case e of Admitted i d x \<Rightarrow> x = None | _ \<Rightarrow> True) h'
      \<and> unlisted h' = []" by code_simp
  then obtain out h' where r: "?r = (out, None, h')" "map entry_key (cdStack out) = [(''concurrency'', ''L''), (''quota'', ''q1'')]"
    "cdCompensateFailures out = []" "list_all (\<lambda>e. case e of Admitted i d x \<Rightarrow> x = None | _ \<Rightarrow> True) h'"
    "unlisted h' = []" by (auto split: prod.splits)
  have "admissions_ok h'" using r(4) by (force simp: admissions_ok_def list_all_iff)
  with allowed_admission_keeps_holds [OF r(1)] r(2,3,5)
  have "outstanding h' = {#(''concurrency'', ''L''), (''quota'', ''q1'')#}"
    by (auto intro: subset_mset.antisym)
  with r show ?thesis by (intro exI conjI)
qed

section \<open>Unlisted holds are lost\<close>

text \<open>
  A lease answer with primary lease \<open>X\<close> and occupancy set \<open>Y\<close> is refused, because the
  primary is missing from the set; only \<open>Y\<close> is released, and \<open>X\<close> stays without being reported.
\<close>

definition split_lease :: LeaseDecision where
  "split_lease = sample_lease\<lparr>ldLeaseID := ''X'', ldLeases := [\<lparr>loLeaseID = ''Y'', loGeneration = 1, loRuleID = [], loExpiresAt = 100,
     loRenewBefore = 0, loTTL = 0, loFailureBehavior = FailureUnset\<rparr>]\<rparr>"

lemma refused_primary_lease_lost:
  "case Request_Admit (Some \<lparr>rcConcurrency = Some (sample_concurrency\<lparr>AdmitLease := (\<lambda>h a. Returned (split_lease, None))\<rparr>),
      rcConcurrencyDescriptor = None, rcSlots = []\<rparr>) sample_admission 50 [] of
    (out, err, h') \<Rightarrow> err \<noteq> None \<and> cdCompensateFailures out = [] \<and> released_keys h' = [(''concurrency'', ''Y'')]
      \<and> unlisted h' = [(''concurrency'', ''X'')] \<and> outstanding h' = {#(''concurrency'', ''X'')#}"
  by code_simp

text \<open>An advisory provider holds something under a compensation handle only: it is on no stack.\<close>

definition bare_handle_slot :: "unit RequestSlot" where
  "bare_handle_slot = sample_slot ''advisor'' 4
     (sample_provider (Returned (no_decision\<lparr>dKind := DecisionAdvisory, dCompensationHandle := ''c1''\<rparr>, None)) None)"

lemma bare_handle_lost:
  "case Request_Admit (Some (sample_coordinator [bare_handle_slot])) sample_admission 50 [] of
    (out, err, h') \<Rightarrow> err = None \<and> cdCompensateFailures out = [] \<and> map entry_key (cdStack out) = [(''concurrency'', ''L'')]
      \<and> unlisted h' = [(''advisor'', ''c1'')] \<and> outstanding h' = {#(''concurrency'', ''L''), (''advisor'', ''c1'')#}"
  by code_simp

section \<open>Failing advisory providers\<close>

text \<open>
  C37: A failing provider that is advisory or fails open takes the holds of the others with it.
  When such a provider answers with an error, the loop goes on with the same stack, but all the
  holds on it, the lease included, have been released in reverse order.
\<close>

theorem fail_open_error_releases_prior:
  assumes "scAdmit requestAdmitConfig p adm h = (d, Some e)" "compensable stack"
    and "fst (resolveStagePosture slot) = StrengthAdvisory \<or> snd (resolveStagePosture slot) = FailureFailOpen"
  shows "\<exists>out' new pre. stage_slot requestAdmitConfig adm slot p out stack h = Continue out' stack (h @ new)
     \<and> released_keys new = pre @ rev (map entry_key stack)"
proof -
  let ?i = "TrimSpace (slID slot)"
  let ?h = "h @ [Admitted ?i d (Some e)]" and ?held = "scPushHolds requestAdmitConfig [] ?i p adm d"
  obtain fails h1 where c: "compensateCurrentThenPrior stack ?held ?h = (fails, h1)" by fastforce
  have "compensates (rev ?held @ rev stack) ?h (fails, h1)"
    unfolding c [symmetric] by (rule compensateCurrentThenPrior_compensates [OF assms(2) request_stage.push_compensable])
  then obtain n where n: "h1 = ?h @ n" "released_keys n = map entry_key (rev ?held @ rev stack)"
    by (auto elim!: compensatesE)
  have "\<exists>out'. stage_slot requestAdmitConfig adm slot p out stack h = Continue out' stack h1"
    using assms(1,3) c by (auto simp: stage_slot_def slot_errored_def Let_def split: prod.splits)
  with n show ?thesis by (auto simp: rev_map)
qed

theorem fail_open_error_releases_prior_witness:
  "\<exists>out h'. Request_Admit (Some (sample_coordinator [quota_slot, failing_advisory_slot])) sample_admission 50 [] = (out, None, h')
     \<and> cdKind out = DecisionAllow \<and> map entry_key (cdStack out) = [(''concurrency'', ''L''), (''quota'', ''q1'')]
     \<and> outstanding h' = {#}
     \<and> (\<exists>out' new pre. stage_slot requestAdmitConfig sample_admission (requestStageSlot failing_advisory_slot)
          (the (rsProvider failing_advisory_slot)) out (cdStack out) [] = Continue out' (cdStack out) new
          \<and> released_keys new = pre @ rev [(''concurrency'', ''L''), (''quota'', ''q1'')])"
proof -
  let ?r = "Request_Admit (Some (sample_coordinator [quota_slot, failing_advisory_slot])) sample_admission 50 []"
  have "case ?r of (out, err, h') \<Rightarrow> err = None \<and> cdKind out = DecisionAllow
      \<and> map entry_key (cdStack out) = [(''concurrency'', ''L''), (''quota'', ''q1'')]
      \<and> list_all (\<lambda>x. enCompensate x \<noteq> None) (cdStack out)
      \<and> h' = [LeaseAdmitted sample_lease None, Admitted ''quota'' (sample_allow ''q1'') None,
              Admitted ''advisor'' no_decision (Some ProviderPanic), Released ''quota'' ''q1'' None, Released ''concurrency'' ''L'' None]"
    by code_simp
  then obtain out where r: "?r = (out, None, [LeaseAdmitted sample_lease None, Admitted ''quota'' (sample_allow ''q1'') None,
              Admitted ''advisor'' no_decision (Some ProviderPanic), Released ''quota'' ''q1'' None, Released ''concurrency'' ''L'' None])"
    "cdKind out = DecisionAllow" "map entry_key (cdStack out) = [(''concurrency'', ''L''), (''quota'', ''q1'')]"
    "list_all (\<lambda>x. enCompensate x \<noteq> None) (cdStack out)" by (auto split: prod.splits)
  have c: "compensable (cdStack out)" using r(4) by (simp add: compensable_def list_all_iff)
  have a: "scAdmit requestAdmitConfig (the (rsProvider failing_advisory_slot)) sample_admission [] = (no_decision, Some ProviderPanic)"
    "fst (resolveStagePosture (requestStageSlot failing_advisory_slot)) = StrengthAdvisory" by code_simp+
  have k: "lease_acquired sample_lease = [(''concurrency'', ''L'')]" "decision_acquired ''quota'' (sample_allow ''q1'') = [(''quota'', ''q1'')]"
    "decision_acquired ''advisor'' no_decision = []" by code_simp+
  from fail_open_error_releases_prior [OF a(1) c disjI1 [OF a(2)], of out] r(3) obtain out' new pre where
    "stage_slot requestAdmitConfig sample_admission (requestStageSlot failing_advisory_slot)
          (the (rsProvider failing_advisory_slot)) out (cdStack out) [] = Continue out' (cdStack out) new"
    "released_keys new = pre @ rev [(''concurrency'', ''L''), (''quota'', ''q1'')]" by auto
  moreover have "outstanding [LeaseAdmitted sample_lease None, Admitted ''quota'' (sample_allow ''q1'') None,
      Admitted ''advisor'' no_decision (Some ProviderPanic), Released ''quota'' ''q1'' None, Released ''concurrency'' ''L'' None] = {#}"
    by (simp add: outstanding_def k)
  ultimately show ?thesis using r(1-3) by (intro exI conjI)
qed

end
