(* ===== verification/Authority_Settlement.thy ===== *)
theory Authority_Settlement
  imports Authority_Coordinator
begin

text \<open>
  Settlement of the holds of an admission (\<open>settle_state.go\<close>, \<open>runStageSettle\<close> and the
  \<open>Settle\<close> methods of both coordinators). Any number of callers may settle copies of the same
  compensation stack at the same time; the copies share one settlement tracker, which decides
  who calls a provider, who waits and who skips.

  A caller is the loop of \<open>runStageSettle\<close> stopped at one of three places: before a slot,
  blocked on a channel of the tracker, or inside the call of a provider. The step relation
  \<open>settle_step\<close> interleaves the callers; between two steps of one caller any steps of others may
  happen. The provider's answer is arbitrary: a settlement, an error or a panic. Channels are
  numbers, and closing one puts its number into a set. \<open>stack.settlement()\<close> never
  returns a nil tracker, so the nil branches of the tracker's methods are left out.
\<close>

section \<open>The tracker\<close>

record providerSettleRecord =
  psDone :: bool
  psInflight :: bool
  psLastErr :: "authority_error option"
  psWaiters :: "nat list"

definition new_record :: providerSettleRecord where
  "new_record = \<lparr>psDone = False, psInflight = False, psLastErr = None, psWaiters = []\<rparr>"

record settlementTracker =
  trProviders :: "string \<Rightarrow> providerSettleRecord option"
  trNextChan :: nat
  trClosed :: "nat set"

definition newSettlementTracker :: settlementTracker where
  "newSettlementTracker = \<lparr>trProviders = Map.empty, trNextChan = 0, trClosed = {}\<rparr>"

datatype settle_claim = SkipSettle | WaitSettle nat | OwnSettle

definition record_of :: "settlementTracker \<Rightarrow> string \<Rightarrow> providerSettleRecord" where
  "record_of tr i = (case trProviders tr i of None \<Rightarrow> new_record | Some st \<Rightarrow> st)"

definition put_record :: "string \<Rightarrow> providerSettleRecord \<Rightarrow> settlementTracker \<Rightarrow> settlementTracker" where
  "put_record i st tr = tr\<lparr>trProviders := (trProviders tr)(i \<mapsto> st)\<rparr>"

definition beginSettle :: "settlementTracker \<Rightarrow> string \<Rightarrow> settle_claim \<times> settlementTracker" where
  "beginSettle tr providerID =
     (let i = TrimSpace providerID; st = record_of tr i in
      if i = [] then (SkipSettle, tr)
      else if psDone st then (SkipSettle, put_record i st tr)
      else if psInflight st
      then let ch = trNextChan tr in
        (WaitSettle ch, put_record i (st\<lparr>psWaiters := psWaiters st @ [ch]\<rparr>) (tr\<lparr>trNextChan := ch + 1\<rparr>))
      else (OwnSettle, put_record i (st\<lparr>psInflight := True, psLastErr := None\<rparr>) tr))"

definition finishSettle :: "settlementTracker \<Rightarrow> string \<Rightarrow> authority_error option \<Rightarrow> settlementTracker" where
  "finishSettle tr providerID err =
     (let i = TrimSpace providerID in
      case trProviders tr i of
        None \<Rightarrow> tr
      | Some st \<Rightarrow>
          put_record i (st\<lparr>psInflight := False, psDone := (err = None), psLastErr := err, psWaiters := []\<rparr>)
            (tr\<lparr>trClosed := trClosed tr \<union> set (psWaiters st)\<rparr>))"

definition waitResult :: "settlementTracker \<Rightarrow> string \<Rightarrow> authority_error option" where
  "waitResult tr providerID =
     (case trProviders tr (TrimSpace providerID) of
        None \<Rightarrow> None
      | Some st \<Rightarrow> if psDone st then None else psLastErr st)"

definition waitingCount :: "settlementTracker \<Rightarrow> string \<Rightarrow> nat" where
  "waitingCount tr providerID =
     (case trProviders tr (TrimSpace providerID) of None \<Rightarrow> 0 | Some st \<Rightarrow> length (psWaiters st))"

definition unfinished :: "settlementTracker \<Rightarrow> string list \<Rightarrow> string list" where
  "unfinished tr ids =
     filter (\<lambda>i. case trProviders tr i of None \<Rightarrow> True | Some st \<Rightarrow> \<not> psDone st) ids"

definition settle_ids :: "CompensationStack \<Rightarrow> string list" where
  "settle_ids entries =
     map (\<lambda>e. TrimSpace (enProviderID e))
       (filter (\<lambda>e. TrimSpace (enProviderID e) \<noteq> [] \<and> TrimSpace (enHandle e) \<noteq> []
                  \<and> TrimSpace (enProviderID e) \<noteq> ''concurrency'') entries)"

definition UnfinishedSettleProviders :: "CompensationStack \<Rightarrow> settlementTracker option \<Rightarrow> string list" where
  "UnfinishedSettleProviders entries settle =
     (let ids = distinct_ids {} (settle_ids entries) in
      case settle of None \<Rightarrow> ids | Some tr \<Rightarrow> unfinished tr ids)"

section \<open>The callers\<close>

record ('i, 'p) stageSettleConfig =
  sgRecordAll :: bool
  sgSkipProvider :: "string \<Rightarrow> bool"
  sgValidate :: "Settlement \<Rightarrow> string list \<Rightarrow> authority_error option"
  sgWithHandles :: "'i \<Rightarrow> string list \<Rightarrow> 'i"

definition handlesByProvider :: "(string \<Rightarrow> bool) \<Rightarrow> CompensationStack \<Rightarrow> string \<Rightarrow> string list" where
  "handlesByProvider skip entries i =
     (if i = [] \<or> skip i then []
      else map (\<lambda>e. TrimSpace (enHandle e))
        (filter (\<lambda>e. TrimSpace (enProviderID e) = i \<and> TrimSpace (enHandle e) \<noteq> []) entries))"

datatype settle_place = AtSlot | Blocked nat | Calling

record ('i, 'p) settle_call =
  saConfig :: "('i, 'p) stageSettleConfig"
  saEntries :: CompensationStack
  saIn :: 'i
  saSlots :: "'p stageProviderSlot list"
  saPlace :: settle_place
  saFirst :: "coordinator_error option"

definition start_settle ::
  "('i, 'p) stageSettleConfig \<Rightarrow> 'p stageProviderSlot list \<Rightarrow> CompensationStack \<Rightarrow> 'i \<Rightarrow> ('i, 'p) settle_call" where
  "start_settle cfg slots entries inp =
     \<lparr>saConfig = cfg, saEntries = entries, saIn = inp, saSlots = slots, saPlace = AtSlot, saFirst = None\<rparr>"

definition call_handles :: "('i, 'p) settle_call \<Rightarrow> 'p stageProviderSlot \<Rightarrow> string list" where
  "call_handles c slot = handlesByProvider (sgSkipProvider (saConfig c)) (saEntries c) (TrimSpace (slID slot))"

definition settles_slot :: "('i, 'p) settle_call \<Rightarrow> 'p stageProviderSlot \<Rightarrow> bool" where
  "settles_slot c slot \<longleftrightarrow>
     slProvider slot \<noteq> None \<and> \<not> sgSkipProvider (saConfig c) (TrimSpace (slID slot)) \<and> call_handles c slot \<noteq> []"

definition next_slot :: "('i, 'p) settle_call \<Rightarrow> ('i, 'p) settle_call" where
  "next_slot c = c\<lparr>saSlots := tl (saSlots c), saPlace := AtSlot\<rparr>"

definition note_failure :: "('i, 'p) settle_call \<Rightarrow> 'p stageProviderSlot \<Rightarrow> authority_error option \<Rightarrow> ('i, 'p) settle_call" where
  "note_failure c slot err =
     next_slot
       (case err of
          None \<Rightarrow> c
        | Some e \<Rightarrow>
            let (strength, failBeh) = resolveStagePosture slot in
            if \<not> sgRecordAll (saConfig c) \<and> (strength = StrengthAdvisory \<or> failBeh = FailureFailOpen) then c
            else if saFirst c = None then c\<lparr>saFirst := Some (UnavailableError (TrimSpace (slID slot)) e no_decision)\<rparr>
            else c)"

text \<open>From the head of the loop to the next place where the caller can be overtaken.\<close>

definition begin_slot ::
  "('i, 'p) settle_call \<Rightarrow> 'p stageProviderSlot \<Rightarrow> settlementTracker \<Rightarrow> ('i, 'p) settle_call \<times> settlementTracker" where
  "begin_slot c slot tr =
     (if \<not> settles_slot c slot then (next_slot c, tr)
      else case beginSettle tr (TrimSpace (slID slot)) of
          (SkipSettle, tr') \<Rightarrow> (next_slot c, tr')
        | (WaitSettle ch, tr') \<Rightarrow> (c\<lparr>saPlace := Blocked ch\<rparr>, tr')
        | (OwnSettle, tr') \<Rightarrow> (c\<lparr>saPlace := Calling\<rparr>, tr'))"

definition after_wait :: "('i, 'p) settle_call \<Rightarrow> 'p stageProviderSlot \<Rightarrow> settlementTracker \<Rightarrow> ('i, 'p) settle_call" where
  "after_wait c slot tr = note_failure c slot (waitResult tr (TrimSpace (slID slot)))"

text \<open>\<open>invokeSettleRequest\<close> and \<open>invokeSettleAttempt\<close> turn a panic into an error.\<close>

definition invokeSettle :: "(Settlement \<times> authority_error option) call \<Rightarrow> Settlement \<times> authority_error option" where
  "invokeSettle answer = (case answer of Returned r \<Rightarrow> r | Panicked \<Rightarrow> (no_settlement, Some ProviderPanic))"

definition settle_error ::
  "('i, 'p) settle_call \<Rightarrow> 'p stageProviderSlot \<Rightarrow> (Settlement \<times> authority_error option) call \<Rightarrow> authority_error option" where
  "settle_error c slot answer =
     (case invokeSettle answer of
        (_, Some e) \<Rightarrow> Some e
      | (result, None) \<Rightarrow> sgValidate (saConfig c) result (call_handles c slot))"

section \<open>The interleaving of the callers\<close>

text \<open>
  The log records the calls of a provider with their input, their answers after validation,
  and which caller joined a call that was in flight.
\<close>

datatype 'i settle_event =
  SettleCalled nat string 'i
| SettleAnswered nat string "authority_error option"
| SettleJoined nat string

record ('i, 'p) settle_state =
  sgTracker :: settlementTracker
  sgCalls :: "('i, 'p) settle_call list"
  sgLog :: "'i settle_event list"

definition begin_events :: "nat \<Rightarrow> ('i, 'p) settle_call \<Rightarrow> 'p stageProviderSlot \<Rightarrow> settle_place \<Rightarrow> 'i settle_event list" where
  "begin_events t c slot place =
     (case place of
        AtSlot \<Rightarrow> []
      | Blocked _ \<Rightarrow> [SettleJoined t (TrimSpace (slID slot))]
      | Calling \<Rightarrow> [SettleCalled t (TrimSpace (slID slot)) (sgWithHandles (saConfig c) (saIn c) (call_handles c slot))])"

definition do_begin :: "nat \<Rightarrow> ('i, 'p) settle_state \<Rightarrow> ('i, 'p) settle_state option" where
  "do_begin t s =
     (if t < length (sgCalls s)
      then let c = sgCalls s ! t in
        (case (saPlace c, saSlots c) of
           (AtSlot, slot # _) \<Rightarrow>
             let (c', tr') = begin_slot c slot (sgTracker s) in
             Some (s\<lparr>sgTracker := tr', sgCalls := (sgCalls s)[t := c'],
                     sgLog := sgLog s @ begin_events t c slot (saPlace c')\<rparr>)
         | _ \<Rightarrow> None)
      else None)"

definition do_wake :: "nat \<Rightarrow> ('i, 'p) settle_state \<Rightarrow> ('i, 'p) settle_state option" where
  "do_wake t s =
     (if t < length (sgCalls s)
      then let c = sgCalls s ! t in
        (case (saPlace c, saSlots c) of
           (Blocked ch, slot # _) \<Rightarrow>
             if ch \<in> trClosed (sgTracker s)
             then Some (s\<lparr>sgCalls := (sgCalls s)[t := after_wait c slot (sgTracker s)]\<rparr>) else None
         | _ \<Rightarrow> None)
      else None)"

definition do_answer ::
  "nat \<Rightarrow> (Settlement \<times> authority_error option) call \<Rightarrow> ('i, 'p) settle_state \<Rightarrow> ('i, 'p) settle_state option" where
  "do_answer t answer s =
     (if t < length (sgCalls s)
      then let c = sgCalls s ! t in
        (case (saPlace c, saSlots c) of
           (Calling, slot # _) \<Rightarrow>
             let err = settle_error c slot answer; i = TrimSpace (slID slot) in
             Some (s\<lparr>sgTracker := finishSettle (sgTracker s) i err, sgCalls := (sgCalls s)[t := note_failure c slot err],
                     sgLog := sgLog s @ [SettleAnswered t i err]\<rparr>)
         | _ \<Rightarrow> None)
      else None)"

inductive settle_work :: "('i, 'p) settle_state \<Rightarrow> ('i, 'p) settle_state \<Rightarrow> bool" where
  work_begin: "do_begin t s = Some s' \<Longrightarrow> settle_work s s'"
| work_wake: "do_wake t s = Some s' \<Longrightarrow> settle_work s s'"
| work_answer: "do_answer t answer s = Some s' \<Longrightarrow> settle_work s s'"

text \<open>A new caller may arrive at any time.\<close>

inductive settle_step :: "('i, 'p) settle_state \<Rightarrow> ('i, 'p) settle_state \<Rightarrow> bool" where
  step_arrive: "c = start_settle cfg slots entries inp \<Longrightarrow> settle_step s (s\<lparr>sgCalls := sgCalls s @ [c]\<rparr>)"
| step_work: "settle_work s s' \<Longrightarrow> settle_step s s'"

definition settle_init :: "('i, 'p) settle_state \<Rightarrow> bool" where
  "settle_init s \<longleftrightarrow> s = \<lparr>sgTracker = newSettlementTracker, sgCalls = [], sgLog = []\<rparr>"

definition returned :: "('i, 'p) settle_call \<Rightarrow> bool" where
  "returned c \<longleftrightarrow> saPlace c = AtSlot \<and> saSlots c = []"

section \<open>The methods of the coordinators\<close>

text \<open>Either the method returns at once, or it runs the loop from the given caller on.\<close>

definition requestSettleConfig :: "('f RequestSettlement, 'f RequestProvider) stageSettleConfig" where
  "requestSettleConfig =
     \<lparr>sgRecordAll = True, sgSkipProvider = (\<lambda>i. i = ''concurrency''),
      sgValidate = (\<lambda>s submitted. Settlement_ValidateFor s submitted PerspectiveCustomer),
      sgWithHandles = (\<lambda>inp handles. inp\<lparr>rqHandles := handles\<rparr>)\<rparr>"

definition Request_Settle ::
  "'f RequestCoordinator option \<Rightarrow> CompensationStack \<Rightarrow> 'f RequestSettlement
     \<Rightarrow> coordinator_error option + ('f RequestSettlement, 'f RequestProvider) settle_call" where
  "Request_Settle co stack inp =
     (case co of
        None \<Rightarrow> Inl None
      | Some c \<Rightarrow>
          let slots = map requestStageSlot (rcSlots c) in
          (case validateStageSlots slots of
             Some e \<Rightarrow> Inl (Some e)
           | None \<Rightarrow> Inr (start_settle requestSettleConfig slots stack inp)))"

definition attemptSettleConfig :: "('f AttemptSettlement, 'f AttemptProvider) stageSettleConfig" where
  "attemptSettleConfig =
     \<lparr>sgRecordAll = True, sgSkipProvider = (\<lambda>_. False),
      sgValidate = (\<lambda>s submitted. Settlement_ValidateFor s submitted PerspectiveOperator),
      sgWithHandles = (\<lambda>inp handles. inp\<lparr>asHandles := handles,
         asReservations := filterAttemptReservations (asReservations inp) handles\<rparr>)\<rparr>"

definition Attempt_Settle ::
  "'f AttemptSlot list option \<Rightarrow> CompensationStack \<Rightarrow> 'f AttemptSettlement
     \<Rightarrow> coordinator_error option + ('f AttemptSettlement, 'f AttemptProvider) settle_call" where
  "Attempt_Settle co stack inp =
     (case co of
        None \<Rightarrow> Inl None
      | Some cslots \<Rightarrow>
          (case checked_attempt_slots cslots of
             Inl e \<Rightarrow> Inl (Some e)
           | Inr slots \<Rightarrow> Inr (start_settle attemptSettleConfig slots stack inp)))"

section \<open>The phases of a provider\<close>

text \<open>
  What the log says of one provider: nobody called it or its last call failed, a caller is
  inside it, it was settled, or a call was made that should not have been.
\<close>

datatype provider_phase = PhaseIdle | PhaseRunning nat | PhaseSettled | PhaseBroken

fun advance_phase :: "string \<Rightarrow> provider_phase \<Rightarrow> 'i settle_event \<Rightarrow> provider_phase" where
  "advance_phase i ph (SettleCalled t j _) =
     (if j \<noteq> i then ph else if ph = PhaseIdle then PhaseRunning t else PhaseBroken)"
| "advance_phase i ph (SettleAnswered t j err) =
     (if j \<noteq> i then ph else if ph = PhaseRunning t then (if err = None then PhaseSettled else PhaseIdle) else PhaseBroken)"
| "advance_phase i ph (SettleJoined _ _) = ph"

definition provider_phase :: "string \<Rightarrow> 'i settle_event list \<Rightarrow> provider_phase" where
  "provider_phase i evs = foldl (advance_phase i) PhaseIdle evs"

lemma provider_phase_append [simp]:
  "provider_phase i (evs @ [ev]) = advance_phase i (provider_phase i evs) ev"
  by (simp add: provider_phase_def)

lemma provider_phase_Nil [simp]: "provider_phase i [] = PhaseIdle"
  by (simp add: provider_phase_def)

lemma broken_stays: "foldl (advance_phase i) PhaseBroken evs = PhaseBroken"
proof (induction evs)
  case (Cons ev evs)
  have "advance_phase i PhaseBroken ev = PhaseBroken" by (cases ev) auto
  with Cons show ?case by simp
qed simp

text \<open>After a success the provider is not called again.\<close>

lemma settled_stays:
  assumes "foldl (advance_phase i) PhaseSettled evs \<noteq> PhaseBroken"
  shows "foldl (advance_phase i) PhaseSettled evs = PhaseSettled \<and> SettleCalled t i x \<notin> set evs"
  using assms
proof (induction evs)
  case (Cons ev evs)
  have "advance_phase i PhaseSettled ev = PhaseSettled"
    using Cons.prems by (cases ev) (auto simp: broken_stays split: if_splits)
  with Cons show ?case by auto
qed simp

text \<open>While a call is running the provider is not called; the next call needs a failure before it.\<close>

lemma running_until_answer:
  assumes "foldl (advance_phase i) (PhaseRunning t) evs \<noteq> PhaseBroken" "SettleCalled t' i x \<in> set evs"
  shows "\<exists>ys e zs. evs = ys @ SettleAnswered t i (Some e) # zs \<and> SettleCalled t' i x \<in> set zs
           \<and> (\<forall>u y. SettleCalled u i y \<notin> set ys)"
  using assms
proof (induction evs)
  case (Cons ev evs)
  consider (same) "advance_phase i (PhaseRunning t) ev = PhaseRunning t" "\<forall>u y. ev \<noteq> SettleCalled u i y"
    | (failed) e where "ev = SettleAnswered t i (Some e)"
    | (succeeded) "ev = SettleAnswered t i None"
    using Cons.prems(1) by (cases ev) (auto simp: broken_stays split: if_splits)
  then show ?case
  proof cases
    case same
    with Cons obtain ys e zs where "evs = ys @ SettleAnswered t i (Some e) # zs" "SettleCalled t' i x \<in> set zs"
      "\<forall>u y. SettleCalled u i y \<notin> set ys" by auto
    with same have "ev # evs = (ev # ys) @ SettleAnswered t i (Some e) # zs" "\<forall>u y. SettleCalled u i y \<notin> set (ev # ys)"
      by auto
    with \<open>SettleCalled t' i x \<in> set zs\<close> show ?thesis by blast
  next
    case failed
    with Cons.prems have "ev # evs = [] @ SettleAnswered t i (Some e) # evs" "SettleCalled t' i x \<in> set evs" by auto
    then show ?thesis by fastforce
  next
    case succeeded
    with Cons.prems settled_stays [of i evs t' x] show ?thesis by auto
  qed
qed simp

section \<open>The tracker's methods\<close>

lemma record_of_put [simp]: "record_of (put_record i st tr) j = (if j = i then st else record_of tr j)"
  by (simp add: record_of_def put_record_def)

lemma put_record_sel [simp]:
  "trClosed (put_record i st tr) = trClosed tr" "trNextChan (put_record i st tr) = trNextChan tr"
  by (simp_all add: put_record_def)

lemma record_of_update [simp]:
  "record_of (tr\<lparr>trNextChan := n\<rparr>) j = record_of tr j" "record_of (tr\<lparr>trClosed := cl\<rparr>) j = record_of tr j"
  by (simp_all add: record_of_def)

lemma new_record_sel [simp]:
  "\<not> psDone new_record" "\<not> psInflight new_record" "psWaiters new_record = []" "psLastErr new_record = None"
  by (simp_all add: new_record_def)

lemma finishSettle_inflight:
  assumes "psInflight (record_of tr (TrimSpace i))"
  shows "record_of (finishSettle tr i err) j =
       (if j = TrimSpace i then (record_of tr j)\<lparr>psInflight := False, psDone := (err = None), psLastErr := err, psWaiters := []\<rparr>
        else record_of tr j)"
    and "trClosed (finishSettle tr i err) = trClosed tr \<union> set (psWaiters (record_of tr (TrimSpace i)))"
  using assms by (auto simp: finishSettle_def record_of_def put_record_def Let_def split: option.splits)


section \<open>The tracker agrees with the log\<close>

definition current_id :: "('i, 'p) settle_call \<Rightarrow> string" where
  "current_id c = TrimSpace (slID (hd (saSlots c)))"

definition calling :: "('i, 'p) settle_state \<Rightarrow> nat \<Rightarrow> string \<Rightarrow> bool" where
  "calling s t i \<longleftrightarrow> t < length (sgCalls s) \<and> saPlace (sgCalls s ! t) = Calling \<and> current_id (sgCalls s ! t) = i"

definition blocked :: "('i, 'p) settle_state \<Rightarrow> nat \<Rightarrow> nat \<Rightarrow> string \<Rightarrow> bool" where
  "blocked s t ch i \<longleftrightarrow> t < length (sgCalls s) \<and> saPlace (sgCalls s ! t) = Blocked ch \<and> current_id (sgCalls s ! t) = i"

definition record_phase :: "providerSettleRecord \<Rightarrow> provider_phase \<Rightarrow> bool" where
  "record_phase st ph \<longleftrightarrow>
     (case ph of
        PhaseIdle \<Rightarrow> \<not> psDone st \<and> \<not> psInflight st
      | PhaseRunning _ \<Rightarrow> \<not> psDone st \<and> psInflight st
      | PhaseSettled \<Rightarrow> psDone st \<and> \<not> psInflight st
      | PhaseBroken \<Rightarrow> False)"

definition tracker_ok :: "('i, 'p) settle_state \<Rightarrow> bool" where
  "tracker_ok s \<longleftrightarrow> (\<forall>i. record_phase (record_of (sgTracker s) i) (provider_phase i (sgLog s)))"

definition owners_ok :: "('i, 'p) settle_state \<Rightarrow> bool" where
  "owners_ok s \<longleftrightarrow> (\<forall>t i. calling s t i \<longleftrightarrow> provider_phase i (sgLog s) = PhaseRunning t)"

definition waiters_ok :: "('i, 'p) settle_state \<Rightarrow> bool" where
  "waiters_ok s \<longleftrightarrow> (\<forall>t ch i. blocked s t ch i \<longrightarrow>
     ch \<in> trClosed (sgTracker s)
   \<or> ch \<in> set (psWaiters (record_of (sgTracker s) i)) \<and> psInflight (record_of (sgTracker s) i))"

definition places_ok :: "('i, 'p) settle_state \<Rightarrow> bool" where
  "places_ok s \<longleftrightarrow> (\<forall>c \<in> set (sgCalls s). saPlace c \<noteq> AtSlot \<longrightarrow> saSlots c \<noteq> [])"

definition settle_inv :: "('i, 'p) settle_state \<Rightarrow> bool" where
  "settle_inv s \<longleftrightarrow> tracker_ok s \<and> owners_ok s \<and> waiters_ok s \<and> places_ok s"

lemma next_slot_sel [simp]:
  "saSlots (next_slot c) = tl (saSlots c)" "saPlace (next_slot c) = AtSlot" "saFirst (next_slot c) = saFirst c"
  "saConfig (next_slot c) = saConfig c" "saEntries (next_slot c) = saEntries c" "saIn (next_slot c) = saIn c"
  by (simp_all add: next_slot_def)

lemma note_failure_sel [simp]:
  "saSlots (note_failure c slot err) = tl (saSlots c)" "saPlace (note_failure c slot err) = AtSlot"
  "saConfig (note_failure c slot err) = saConfig c" "saEntries (note_failure c slot err) = saEntries c"
  by (auto simp: note_failure_def Let_def split: option.splits prod.splits)

lemma settles_slot_id: "settles_slot c slot \<Longrightarrow> TrimSpace (slID slot) \<noteq> []"
  by (auto simp: settles_slot_def call_handles_def handlesByProvider_def split: if_splits)

text \<open>The ways a caller can leave the head of the loop.\<close>

lemma do_begin_cases:
  assumes "do_begin t s = Some s'"
  obtains
    (skip) slot rest tr' where "saSlots (sgCalls s ! t) = slot # rest" "t < length (sgCalls s)" "saPlace (sgCalls s ! t) = AtSlot"
      "s' = s\<lparr>sgTracker := tr', sgCalls := (sgCalls s)[t := next_slot (sgCalls s ! t)]\<rparr>"
      "\<And>j. record_of tr' j = record_of (sgTracker s) j" "trClosed tr' = trClosed (sgTracker s)"
      "settles_slot (sgCalls s ! t) slot \<Longrightarrow> psDone (record_of (sgTracker s) (TrimSpace (slID slot)))"
  | (wait) slot rest i ch tr' where "saSlots (sgCalls s ! t) = slot # rest" "t < length (sgCalls s)" "saPlace (sgCalls s ! t) = AtSlot"
      "i = TrimSpace (slID slot)" "\<not> psDone (record_of (sgTracker s) i)" "psInflight (record_of (sgTracker s) i)"
      "s' = s\<lparr>sgTracker := tr', sgCalls := (sgCalls s)[t := (sgCalls s ! t)\<lparr>saPlace := Blocked ch\<rparr>],
              sgLog := sgLog s @ [SettleJoined t i]\<rparr>"
      "\<And>j. record_of tr' j = (if j = i then (record_of (sgTracker s) i)\<lparr>psWaiters := psWaiters (record_of (sgTracker s) i) @ [ch]\<rparr>
              else record_of (sgTracker s) j)" "trClosed tr' = trClosed (sgTracker s)"
  | (own) slot rest i inp tr' where "saSlots (sgCalls s ! t) = slot # rest" "t < length (sgCalls s)" "saPlace (sgCalls s ! t) = AtSlot"
      "i = TrimSpace (slID slot)" "\<not> psDone (record_of (sgTracker s) i)" "\<not> psInflight (record_of (sgTracker s) i)"
      "s' = s\<lparr>sgTracker := tr', sgCalls := (sgCalls s)[t := (sgCalls s ! t)\<lparr>saPlace := Calling\<rparr>],
              sgLog := sgLog s @ [SettleCalled t i inp]\<rparr>"
      "\<And>j. record_of tr' j = (if j = i then (record_of (sgTracker s) i)\<lparr>psInflight := True, psLastErr := None\<rparr>
              else record_of (sgTracker s) j)" "trClosed tr' = trClosed (sgTracker s)"
proof -
  obtain slot rest where c: "saSlots (sgCalls s ! t) = slot # rest" "t < length (sgCalls s)" "saPlace (sgCalls s ! t) = AtSlot"
    using assms by (auto simp: do_begin_def Let_def split: if_splits settle_place.splits list.splits)
  let ?c = "sgCalls s ! t" and ?i = "TrimSpace (slID slot)"
  let ?st = "record_of (sgTracker s) ?i"
  show thesis
  proof (cases "settles_slot ?c slot")
    case False
    then have "s' = s\<lparr>sgTracker := sgTracker s, sgCalls := (sgCalls s)[t := next_slot ?c]\<rparr>"
      using assms c by (simp add: do_begin_def begin_slot_def begin_events_def Let_def)
    with c False skip show thesis by blast
  next
    case True
    note i = settles_slot_id [OF True]
    consider (d) "psDone ?st" | (f) "\<not> psDone ?st" "psInflight ?st" | (n) "\<not> psDone ?st" "\<not> psInflight ?st" by blast
    then show thesis
    proof cases
      case d
      then have "s' = s\<lparr>sgTracker := put_record ?i ?st (sgTracker s), sgCalls := (sgCalls s)[t := next_slot ?c]\<rparr>"
        using assms c True i by (simp add: do_begin_def begin_slot_def begin_events_def beginSettle_def Let_def)
      with c d skip show thesis by simp
    next
      case f
      let ?ch = "trNextChan (sgTracker s)"
      have "s' = s\<lparr>sgTracker := put_record ?i (?st\<lparr>psWaiters := psWaiters ?st @ [?ch]\<rparr>) ((sgTracker s)\<lparr>trNextChan := ?ch + 1\<rparr>),
          sgCalls := (sgCalls s)[t := ?c\<lparr>saPlace := Blocked ?ch\<rparr>], sgLog := sgLog s @ [SettleJoined t ?i]\<rparr>"
        using f assms c True i by (simp add: do_begin_def begin_slot_def begin_events_def beginSettle_def Let_def)
      with c f wait show thesis by simp
    next
      case n
      have "s' = s\<lparr>sgTracker := put_record ?i (?st\<lparr>psInflight := True, psLastErr := None\<rparr>) (sgTracker s),
          sgCalls := (sgCalls s)[t := ?c\<lparr>saPlace := Calling\<rparr>],
          sgLog := sgLog s @ [SettleCalled t ?i (sgWithHandles (saConfig ?c) (saIn ?c) (call_handles ?c slot))]\<rparr>"
        using n assms c True i by (simp add: do_begin_def begin_slot_def begin_events_def beginSettle_def Let_def)
      with c n own show thesis by simp
    qed
  qed
qed

lemma do_wake_cases:
  assumes "do_wake t s = Some s'"
  obtains slot rest ch where "saSlots (sgCalls s ! t) = slot # rest" "t < length (sgCalls s)" "saPlace (sgCalls s ! t) = Blocked ch"
      "ch \<in> trClosed (sgTracker s)"
      "s' = s\<lparr>sgCalls := (sgCalls s)[t := note_failure (sgCalls s ! t) slot (waitResult (sgTracker s) (TrimSpace (slID slot)))]\<rparr>"
  using assms by (auto simp: do_wake_def after_wait_def Let_def split: if_splits settle_place.splits list.splits)

lemma do_answer_cases:
  assumes "do_answer t answer s = Some s'"
  obtains slot rest i err where "saSlots (sgCalls s ! t) = slot # rest" "t < length (sgCalls s)" "saPlace (sgCalls s ! t) = Calling"
      "i = TrimSpace (slID slot)" "err = settle_error (sgCalls s ! t) slot answer"
      "s' = s\<lparr>sgTracker := finishSettle (sgTracker s) i err, sgCalls := (sgCalls s)[t := note_failure (sgCalls s ! t) slot err],
             sgLog := sgLog s @ [SettleAnswered t i err]\<rparr>"
  using assms by (auto simp: do_answer_def Let_def split: if_splits settle_place.splits list.splits)


text \<open>What one caller's move does to who is calling and who is blocked.\<close>

lemma moved:
  assumes "t < length (sgCalls s)" "sgCalls s' = (sgCalls s)[t := c]"
  shows "calling s' u i \<longleftrightarrow> (if u = t then saPlace c = Calling \<and> current_id c = i else calling s u i)"
    and "blocked s' u ch i \<longleftrightarrow> (if u = t then saPlace c = Blocked ch \<and> current_id c = i else blocked s u ch i)"
  using assms by (auto simp: calling_def blocked_def)

lemma places_moved:
  assumes "places_ok s" "sgCalls s' = (sgCalls s)[t := c]" "saPlace c = AtSlot \<or> saSlots c \<noteq> []"
  shows "places_ok s'"
  using assms set_update_subset_insert [of "sgCalls s" t c] by (auto simp: places_ok_def)

lemma phase_running: "record_phase st (PhaseRunning t) \<longleftrightarrow> \<not> psDone st \<and> psInflight st"
  by (simp add: record_phase_def)

lemma phase_idle: "record_phase st ph \<Longrightarrow> \<not> psDone st \<Longrightarrow> \<not> psInflight st \<Longrightarrow> ph = PhaseIdle"
  by (auto simp: record_phase_def split: provider_phase.splits)

lemma phase_settled: "record_phase st ph \<Longrightarrow> psDone st \<longleftrightarrow> ph = PhaseSettled"
  by (auto simp: record_phase_def split: provider_phase.splits)

lemma waiters_grow:
  assumes "waiters_ok s"
    and "\<And>t ch i. blocked s' t ch i \<Longrightarrow> blocked s t ch i
           \<or> ch \<in> set (psWaiters (record_of (sgTracker s') i)) \<and> psInflight (record_of (sgTracker s') i)"
    and "\<And>ch i. ch \<in> set (psWaiters (record_of (sgTracker s) i)) \<Longrightarrow> psInflight (record_of (sgTracker s) i)
           \<Longrightarrow> ch \<in> trClosed (sgTracker s')
             \<or> ch \<in> set (psWaiters (record_of (sgTracker s') i)) \<and> psInflight (record_of (sgTracker s') i)"
    and "trClosed (sgTracker s) \<subseteq> trClosed (sgTracker s')"
  shows "waiters_ok s'"
  using assms unfolding waiters_ok_def by blast

lemma inv_begin:
  assumes "settle_inv s" "do_begin t s = Some s'"
  shows "settle_inv s'"
  using assms(2)
proof (cases rule: do_begin_cases)
  case (skip slot rest tr')
  note mv = moved [OF skip(2), of s' "next_slot (sgCalls s ! t)"]
  have "\<not> calling s t i" "\<not> blocked s t ch i" for i ch using skip(3) by (simp_all add: calling_def blocked_def)
  then show ?thesis using assms(1) skip mv places_moved [of s s' t "next_slot (sgCalls s ! t)"]
    by (auto simp: settle_inv_def tracker_ok_def owners_ok_def waiters_ok_def split: if_splits)
next
  case (wait slot rest i ch tr')
  let ?c = "(sgCalls s ! t)\<lparr>saPlace := Blocked ch\<rparr>"
  have cur: "current_id ?c = i" using wait by (simp add: current_id_def)
  note mv = moved [OF wait(2), of s' ?c, unfolded cur]
  have old: "\<not> calling s t j" for j using wait(3) by (simp add: calling_def)
  have "tracker_ok s'" using assms(1) wait by (auto simp: settle_inv_def tracker_ok_def record_phase_def split: provider_phase.splits)
  moreover have "owners_ok s'" using assms(1) wait mv old by (auto simp: settle_inv_def owners_ok_def)
  moreover have "waiters_ok s'"
  proof -
    have rec: "record_of (sgTracker s') j = (if j = i then (record_of (sgTracker s) i)\<lparr>psWaiters := psWaiters (record_of (sgTracker s) i) @ [ch]\<rparr>
        else record_of (sgTracker s) j)" "trClosed (sgTracker s') = trClosed (sgTracker s)" for j using wait(7-9) by simp_all
    have "blocked s' u ch' j \<Longrightarrow> blocked s u ch' j
        \<or> ch' \<in> set (psWaiters (record_of (sgTracker s') j)) \<and> psInflight (record_of (sgTracker s') j)" for u ch' j
      unfolding rec using mv(2) wait(6,7) by (auto split: if_splits)
    with assms(1) rec show ?thesis by (intro waiters_grow [of s s']) (auto simp: settle_inv_def)
  qed
  moreover have "places_ok s'" using assms(1) wait places_moved [of s s' t ?c] by (auto simp: settle_inv_def)
  ultimately show ?thesis by (simp add: settle_inv_def)
next
  case (own slot rest i inp tr')
  let ?c = "(sgCalls s ! t)\<lparr>saPlace := Calling\<rparr>"
  have cur: "current_id ?c = i" using own by (simp add: current_id_def)
  note mv = moved [OF own(2), of s' ?c, unfolded cur]
  have idle: "provider_phase i (sgLog s) = PhaseIdle"
    using assms(1) own(5,6) by (auto simp: settle_inv_def tracker_ok_def intro: phase_idle)
  have old: "\<not> calling s t j" for j using own(3) by (simp add: calling_def)
  have "tracker_ok s'" using assms(1) own idle by (auto simp: settle_inv_def tracker_ok_def phase_running)
  moreover have "owners_ok s'" using assms(1) own mv old idle by (auto simp: settle_inv_def owners_ok_def)
  moreover have "waiters_ok s'"
  proof -
    have rec: "record_of (sgTracker s') j = (if j = i then (record_of (sgTracker s) i)\<lparr>psInflight := True, psLastErr := None\<rparr>
        else record_of (sgTracker s) j)" "trClosed (sgTracker s') = trClosed (sgTracker s)" for j using own(7-9) by simp_all
    have "blocked s' u ch j \<Longrightarrow> blocked s u ch j" for u ch j using mv(2) own(7) by (auto split: if_splits)
    with assms(1) rec show ?thesis by (intro waiters_grow [of s s']) (auto simp: settle_inv_def)
  qed
  moreover have "places_ok s'" using assms(1) own places_moved [of s s' t ?c] by (auto simp: settle_inv_def)
  ultimately show ?thesis by (simp add: settle_inv_def)
qed

lemma inv_wake:
  assumes "settle_inv s" "do_wake t s = Some s'"
  shows "settle_inv s'"
  using assms(2)
proof (cases rule: do_wake_cases)
  case (1 slot rest ch)
  let ?c = "note_failure (sgCalls s ! t) slot (waitResult (sgTracker s) (TrimSpace (slID slot)))"
  note mv = moved [OF 1(2), of s' ?c]
  have "\<not> calling s t i" for i using 1(3) by (simp add: calling_def)
  then show ?thesis using assms(1) 1 mv places_moved [of s s' t ?c]
    by (auto simp: settle_inv_def tracker_ok_def owners_ok_def waiters_ok_def split: if_splits)
qed

text \<open>The caller inside a provider is the one the log says is running it.\<close>

lemma calling_phase:
  assumes "settle_inv s" "t < length (sgCalls s)" "saPlace (sgCalls s ! t) = Calling" "saSlots (sgCalls s ! t) = slot # rest"
  shows "provider_phase (TrimSpace (slID slot)) (sgLog s) = PhaseRunning t"
    and "psInflight (record_of (sgTracker s) (TrimSpace (slID slot)))"
proof -
  have "calling s t (TrimSpace (slID slot))" using assms(2-) by (simp add: calling_def current_id_def)
  then show run: "provider_phase (TrimSpace (slID slot)) (sgLog s) = PhaseRunning t"
    using assms(1) by (simp add: settle_inv_def owners_ok_def)
  have "record_phase (record_of (sgTracker s) (TrimSpace (slID slot))) (provider_phase (TrimSpace (slID slot)) (sgLog s))"
    using assms(1) by (simp add: settle_inv_def tracker_ok_def)
  with run show "psInflight (record_of (sgTracker s) (TrimSpace (slID slot)))" by (simp add: phase_running)
qed

lemma inv_answer:
  assumes "settle_inv s" "do_answer t answer s = Some s'"
  shows "settle_inv s'"
  using assms(2)
proof (cases rule: do_answer_cases)
  case (1 slot rest i err)
  let ?c = "note_failure (sgCalls s ! t) slot err"
  note mv = moved [OF 1(2), of s' ?c]
  note run = calling_phase [OF assms(1) 1(2,3,1), folded 1(4)]
  have fin: "record_of (sgTracker s') j =
      (if j = i then (record_of (sgTracker s) j)\<lparr>psInflight := False, psDone := (err = None), psLastErr := err, psWaiters := []\<rparr>
       else record_of (sgTracker s) j)"
    "trClosed (sgTracker s') = trClosed (sgTracker s) \<union> set (psWaiters (record_of (sgTracker s) i))" for j
    using finishSettle_inflight [of "sgTracker s" i err] run(2) 1(4,6) by simp_all
  have lg: "sgLog s' = sgLog s @ [SettleAnswered t i err]" using 1(6) by simp
  have "record_phase (record_of (sgTracker s') j) (provider_phase j (sgLog s'))" for j
  proof (cases "j = i")
    case True
    with run(1) show ?thesis unfolding fin lg by (auto simp: record_phase_def)
  next
    case False
    with assms(1) show ?thesis unfolding fin lg by (simp add: settle_inv_def tracker_ok_def)
  qed
  then have "tracker_ok s'" by (simp add: tracker_ok_def)
  moreover have "owners_ok s'"
  proof -
    have "calling s u j \<longleftrightarrow> provider_phase j (sgLog s) = PhaseRunning u" for u j
      using assms(1) by (simp add: settle_inv_def owners_ok_def)
    moreover have "calling s t j \<longleftrightarrow> j = i" for j using 1 by (auto simp: calling_def current_id_def)
    moreover have "calling s' u j \<longleftrightarrow> u \<noteq> t \<and> calling s u j" for u j using mv(1) 1(6) by simp
    moreover have "provider_phase i (sgLog s) = PhaseRunning u \<longleftrightarrow> u = t" for u using run(1) by auto
    ultimately show ?thesis unfolding owners_ok_def lg by auto
  qed
  moreover have "waiters_ok s'"
  proof -
    have "blocked s' u ch j \<Longrightarrow> blocked s u ch j" for u ch j using mv(2) 1(6) by (auto split: if_splits)
    with assms(1) fin show ?thesis by (intro waiters_grow [of s s']) (auto simp: settle_inv_def)
  qed
  moreover have "places_ok s'" using assms(1) 1 places_moved [of s s' t ?c] by (auto simp: settle_inv_def)
  ultimately show ?thesis by (simp add: settle_inv_def)
qed

lemma inv_work: "settle_work s s' \<Longrightarrow> settle_inv s \<Longrightarrow> settle_inv s'"
  by (induction rule: settle_work.induct) (auto intro: inv_begin inv_wake inv_answer)

lemma inv_arrive:
  assumes "settle_inv s"
  shows "settle_inv (s\<lparr>sgCalls := sgCalls s @ [start_settle cfg slots entries inp]\<rparr>)" (is "settle_inv ?s")
proof -
  have "calling ?s t i \<longleftrightarrow> calling s t i" "blocked ?s t ch i \<longleftrightarrow> blocked s t ch i" for t ch i
    by (auto simp: calling_def blocked_def nth_append start_settle_def less_Suc_eq)
  with assms show ?thesis
    by (auto simp: settle_inv_def tracker_ok_def owners_ok_def waiters_ok_def places_ok_def start_settle_def)
qed

interpretation settle_system: step_invariant settle_init settle_step settle_inv
proof
  show "settle_inv s" if "settle_init s" for s :: "('i, 'p) settle_state"
    using that by (auto simp: settle_init_def settle_inv_def tracker_ok_def owners_ok_def waiters_ok_def places_ok_def
        calling_def blocked_def newSettlementTracker_def record_of_def record_phase_def)
  show "settle_inv s'" if "settle_inv s" "settle_step s s'" for s s' :: "('i, 'p) settle_state"
    using that(2,1) by cases (auto intro: inv_arrive inv_work)
qed


section \<open>One call at a time, none after a success\<close>

lemma not_broken:
  assumes "reach settle_init settle_step s" "sgLog s = xs @ ys"
  shows "provider_phase i xs \<noteq> PhaseBroken"
proof
  assume "provider_phase i xs = PhaseBroken"
  then have "provider_phase i (sgLog s) = PhaseBroken" by (simp add: assms(2) provider_phase_def broken_stays)
  moreover have "record_phase (record_of (sgTracker s) i) (provider_phase i (sgLog s))"
    using settle_system.reach_inv [OF assms(1)] by (simp add: settle_inv_def tracker_ok_def)
  ultimately show False by (simp add: record_phase_def)
qed

text \<open>
  C13: Concurrent settlements call each provider one at a time. However many callers settle copies
  of one stack and however they interleave, a provider is called only when every earlier call of
  it has returned with a failure, so never while a call is in flight and never after a success.
\<close>

theorem settlement_exclusive:
  assumes "reach settle_init settle_step s" "sgLog s = xs @ SettleCalled t i x # ys"
  shows "(\<forall>u. SettleAnswered u i None \<notin> set xs)
       \<and> (\<forall>us u y vs. xs = us @ SettleCalled u i y # vs \<longrightarrow> (\<exists>e. SettleAnswered u i (Some e) \<in> set vs))"
proof (intro conjI allI impI notI)
  have nb: "provider_phase i (xs @ [SettleCalled t i x]) \<noteq> PhaseBroken" by (rule not_broken [OF assms(1)]) (simp add: assms(2))
  show False if ans: "SettleAnswered u i None \<in> set xs" for u
  proof -
    from split_list [OF ans] obtain as bs where xs: "xs = as @ SettleAnswered u i None # bs" by blast
    have "provider_phase i (as @ [SettleAnswered u i None]) \<noteq> PhaseBroken"
      by (rule not_broken [OF assms(1), where ys = "bs @ SettleCalled t i x # ys"]) (simp add: assms(2) xs)
    then have "provider_phase i (as @ [SettleAnswered u i None]) = PhaseSettled" by (auto split: if_splits)
    with nb settled_stays [of i "bs @ [SettleCalled t i x]" t x] show False by (simp add: xs provider_phase_def)
  qed
  show "\<exists>e. SettleAnswered u i (Some e) \<in> set vs" if xs: "xs = us @ SettleCalled u i y # vs" for us u y vs
  proof -
    have "provider_phase i (us @ [SettleCalled u i y]) \<noteq> PhaseBroken"
      by (rule not_broken [OF assms(1), where ys = "vs @ SettleCalled t i x # ys"]) (simp add: assms(2) xs)
    then have "provider_phase i (us @ [SettleCalled u i y]) = PhaseRunning u" by (auto split: if_splits)
    then have "foldl (advance_phase i) (PhaseRunning u) (vs @ [SettleCalled t i x]) \<noteq> PhaseBroken"
      using nb by (simp add: xs provider_phase_def)
    from running_until_answer [OF this, of t x] obtain as e bs where
      "vs @ [SettleCalled t i x] = as @ SettleAnswered u i (Some e) # bs" by auto
    then have "SettleAnswered u i (Some e) \<in> set (vs @ [SettleCalled t i x])" by simp
    then show ?thesis by auto
  qed
qed

section \<open>Every caller returns\<close>

definition pending :: "('i, 'p) settle_call \<Rightarrow> nat" where
  "pending c = 2 * length (saSlots c) - (if saPlace c = AtSlot then 0 else 1)"

definition total_pending :: "('i, 'p) settle_state \<Rightarrow> nat" where
  "total_pending s = sum_list (map pending (sgCalls s))"

lemma total_pending_moved:
  assumes "t < length (sgCalls s)" "sgCalls s' = (sgCalls s)[t := sgCalls s' ! t]" "pending (sgCalls s' ! t) < pending (sgCalls s ! t)"
  shows "total_pending s' < total_pending s"
proof -
  define c where "c = sgCalls s' ! t"
  note assms = assms [folded c_def]
  have "pending (sgCalls s ! t) \<le> sum_list (map pending (sgCalls s))"
    using assms(1) elem_le_sum_list [of t "map pending (sgCalls s)"] by simp
  with assms show ?thesis by (simp add: total_pending_def map_update sum_list_update)
qed

lemma work_decreases: "settle_work s s' \<Longrightarrow> total_pending s' < total_pending s"
proof (induction rule: settle_work.induct)
  case (work_begin t s s')
  then show ?case by (cases rule: do_begin_cases; intro total_pending_moved [of t s s']) (simp_all add: pending_def)
next
  case (work_wake t s s')
  then show ?case by (cases rule: do_wake_cases; intro total_pending_moved [of t s s']) (simp_all add: pending_def)
next
  case (work_answer t answer s s')
  then show ?case by (cases rule: do_answer_cases; intro total_pending_moved [of t s s']) (simp_all add: pending_def)
qed

lemma calling_can_answer:
  assumes "settle_inv s" "calling s t i"
  shows "\<exists>s'. settle_work s s'"
proof -
  have "saSlots (sgCalls s ! t) \<noteq> []" using assms by (auto simp: settle_inv_def places_ok_def calling_def)
  then have "do_answer t Panicked s \<noteq> None"
    using assms(2) by (auto simp: do_answer_def calling_def Let_def neq_Nil_conv)
  then show ?thesis by (auto intro: work_answer)
qed

lemma work_possible:
  assumes inv: "settle_inv s" and c: "t < length (sgCalls s)" "\<not> returned (sgCalls s ! t)"
  shows "\<exists>s'. settle_work s s'"
proof (cases "saPlace (sgCalls s ! t)")
  case AtSlot
  then have "do_begin t s \<noteq> None"
    using c by (auto simp: do_begin_def returned_def Let_def neq_Nil_conv split: prod.splits)
  then show ?thesis by (auto intro: work_begin)
next
  case Calling
  with c have "calling s t (current_id (sgCalls s ! t))" by (simp add: calling_def)
  then show ?thesis by (rule calling_can_answer [OF inv])
next
  case (Blocked ch)
  let ?i = "current_id (sgCalls s ! t)"
  have slots: "saSlots (sgCalls s ! t) \<noteq> []" using inv c Blocked by (auto simp: settle_inv_def places_ok_def)
  show ?thesis
  proof (cases "ch \<in> trClosed (sgTracker s)")
    case True
    then have "do_wake t s \<noteq> None" using c Blocked slots by (auto simp: do_wake_def Let_def neq_Nil_conv)
    then show ?thesis by (auto intro: work_wake)
  next
    case False
    have "blocked s t ch ?i" using c Blocked by (simp add: blocked_def)
    with inv False have "psInflight (record_of (sgTracker s) ?i)" by (auto simp: settle_inv_def waiters_ok_def)
    moreover have "record_phase (record_of (sgTracker s) ?i) (provider_phase ?i (sgLog s))"
      using inv by (simp add: settle_inv_def tracker_ok_def)
    ultimately obtain u where "provider_phase ?i (sgLog s) = PhaseRunning u"
      by (auto simp: record_phase_def split: provider_phase.splits)
    with inv have "calling s u ?i" by (simp add: settle_inv_def owners_ok_def)
    then show ?thesis by (rule calling_can_answer [OF inv])
  qed
qed

lemma work_bound: "(settle_work ^^ n) s s' \<Longrightarrow> n + total_pending s' \<le> total_pending s"
proof (induction n arbitrary: s')
  case (Suc n)
  then obtain u where "(settle_work ^^ n) s u" "settle_work u s'" by auto
  with Suc.IH [of u] work_decreases [of u s'] show ?case by simp
qed simp

lemma work_reach: "settle_work\<^sup>*\<^sup>* s s' \<Longrightarrow> reach settle_init settle_step s \<Longrightarrow> reach settle_init settle_step s'"
  by (induction rule: rtranclp_induct) (auto intro: reach_step step_work)

text \<open>
  C14: Every settlement call returns. From every reachable state, as long as no new caller arrives
  and the providers answer, the callers take at most \<open>total_pending\<close> steps in any order of
  scheduling, and when none of them can take a step all have returned: no wakeup is lost and
  there is no deadlock.
\<close>

theorem settlement_returns:
  assumes "reach settle_init settle_step s"
  shows "(\<forall>n s'. (settle_work ^^ n) s s' \<longrightarrow> n \<le> total_pending s)
       \<and> (\<forall>s'. settle_work\<^sup>*\<^sup>* s s' \<longrightarrow> (\<exists>s''. settle_work s' s'') \<or> list_all returned (sgCalls s'))"
proof (intro conjI allI impI)
  show "n \<le> total_pending s" if "(settle_work ^^ n) s s'" for n s' using work_bound [OF that] by simp
  show "(\<exists>s''. settle_work s' s'') \<or> list_all returned (sgCalls s')" if "settle_work\<^sup>*\<^sup>* s s'" for s'
    using work_possible [OF settle_system.reach_inv [OF work_reach [OF that assms]]] by (auto simp: list_all_length)
qed


section \<open>What a caller's result says\<close>

text \<open>A settled provider stays settled, and the log only grows.\<close>

lemma done_work:
  assumes "settle_work s s'" "settle_inv s" "psDone (record_of (sgTracker s) i)"
  shows "psDone (record_of (sgTracker s') i)"
  using assms
proof (induction rule: settle_work.induct)
  case (work_begin t s s')
  from work_begin(1) show ?case by (cases rule: do_begin_cases) (use work_begin(3) in auto)
next
  case (work_wake t s s')
  from work_wake(1) show ?case by (cases rule: do_wake_cases) (use work_wake(3) in auto)
next
  case (work_answer t answer s s')
  from work_answer(1) show ?case
  proof (cases rule: do_answer_cases)
    case (1 slot rest j err)
    note run = calling_phase [OF work_answer(2) 1(2,3,1), folded 1(4)]
    have "record_phase (record_of (sgTracker s) j) (provider_phase j (sgLog s))"
      using work_answer(2) by (simp add: settle_inv_def tracker_ok_def)
    with run work_answer(3) have "i \<noteq> j" by (auto simp: phase_running)
    with finishSettle_inflight(1) [of "sgTracker s" j err] run(2) 1 work_answer(3) show ?thesis by simp
  qed
qed

lemma done_step:
  "settle_step s s' \<Longrightarrow> settle_inv s \<Longrightarrow> psDone (record_of (sgTracker s) i) \<Longrightarrow> psDone (record_of (sgTracker s') i)"
  by (induction rule: settle_step.induct) (auto intro: done_work)

lemma log_step: "settle_step s s' \<Longrightarrow> set (sgLog s) \<subseteq> set (sgLog s')"
  by (auto elim!: settle_step.cases settle_work.cases do_begin_cases do_wake_cases do_answer_cases)

text \<open>
  How far the caller \<open>t\<close> that started as \<open>c\<close> has come: the slots it has passed are settled
  unless it noted a failure or joined a call of another caller.
\<close>

definition passed_ok :: "nat \<Rightarrow> ('i, 'p) settle_call \<Rightarrow> ('i, 'p) settle_state \<Rightarrow> bool" where
  "passed_ok t c s \<longleftrightarrow> t < length (sgCalls s) \<and>
     (let d = sgCalls s ! t in saConfig d = saConfig c \<and> saEntries d = saEntries c
      \<and> (\<forall>ch. saPlace d = Blocked ch \<longrightarrow> (\<exists>i. SettleJoined t i \<in> set (sgLog s)))
      \<and> (\<exists>past. saSlots c = past @ saSlots d
           \<and> (saFirst d = None \<longrightarrow> (\<forall>i. SettleJoined t i \<notin> set (sgLog s)) \<longrightarrow>
                (\<forall>slot \<in> set past. settles_slot c slot \<longrightarrow> psDone (record_of (sgTracker s) (TrimSpace (slID slot)))))))"

lemma settles_slot_cong: "saConfig d = saConfig c \<Longrightarrow> saEntries d = saEntries c \<Longrightarrow> settles_slot d slot = settles_slot c slot"
  by (simp add: settles_slot_def call_handles_def)

text \<open>A step of another caller, or one that leaves the caller's slots and result alone.\<close>

lemma passed_ok_frame:
  assumes "passed_ok t c s" "settle_inv s" "settle_step s s'" "length (sgCalls s) \<le> length (sgCalls s')"
    and "saConfig (sgCalls s' ! t) = saConfig (sgCalls s ! t)" "saEntries (sgCalls s' ! t) = saEntries (sgCalls s ! t)"
      "saSlots (sgCalls s' ! t) = saSlots (sgCalls s ! t)" "saFirst (sgCalls s' ! t) = saFirst (sgCalls s ! t)"
    and "\<And>ch. saPlace (sgCalls s' ! t) = Blocked ch \<Longrightarrow> saPlace (sgCalls s ! t) = Blocked ch \<or> (\<exists>i. SettleJoined t i \<in> set (sgLog s'))"
  shows "passed_ok t c s'"
proof -
  note up = done_step [OF assms(3,2)] log_step [OF assms(3)]
  obtain past where p: "saSlots c = past @ saSlots (sgCalls s ! t)"
    "saFirst (sgCalls s ! t) = None \<longrightarrow> (\<forall>i. SettleJoined t i \<notin> set (sgLog s)) \<longrightarrow>
       (\<forall>slot \<in> set past. settles_slot c slot \<longrightarrow> psDone (record_of (sgTracker s) (TrimSpace (slID slot))))"
    using assms(1) by (auto simp: passed_ok_def Let_def)
  have "saFirst (sgCalls s' ! t) = None \<longrightarrow> (\<forall>i. SettleJoined t i \<notin> set (sgLog s')) \<longrightarrow>
       (\<forall>slot \<in> set past. settles_slot c slot \<longrightarrow> psDone (record_of (sgTracker s') (TrimSpace (slID slot))))"
    unfolding assms(8) using p(2) up by (meson subsetD)
  moreover have "\<exists>i. SettleJoined t i \<in> set (sgLog s')" if "saPlace (sgCalls s' ! t) = Blocked ch" for ch
    using assms(1,9) that up(2) by (fastforce simp: passed_ok_def Let_def)
  ultimately show ?thesis using assms(1,4-8) p(1) by (auto simp: passed_ok_def Let_def)
qed

text \<open>The caller itself passes a slot.\<close>

lemma passed_ok_next:
  assumes "passed_ok t c s" "settle_inv s" "settle_step s s'" "t < length (sgCalls s')"
    and "saSlots (sgCalls s ! t) = slot # rest" "saSlots (sgCalls s' ! t) = rest" "saPlace (sgCalls s' ! t) = AtSlot"
      "saConfig (sgCalls s' ! t) = saConfig (sgCalls s ! t)" "saEntries (sgCalls s' ! t) = saEntries (sgCalls s ! t)"
    and "saFirst (sgCalls s' ! t) = None \<Longrightarrow> saFirst (sgCalls s ! t) = None"
    and "saFirst (sgCalls s' ! t) = None \<Longrightarrow> \<forall>i. SettleJoined t i \<notin> set (sgLog s') \<Longrightarrow> settles_slot (sgCalls s ! t) slot
           \<Longrightarrow> psDone (record_of (sgTracker s') (TrimSpace (slID slot)))"
  shows "passed_ok t c s'"
proof -
  note up = done_step [OF assms(3,2)] log_step [OF assms(3)]
  obtain past where p: "saSlots c = past @ slot # rest"
    "saFirst (sgCalls s ! t) = None \<longrightarrow> (\<forall>i. SettleJoined t i \<notin> set (sgLog s)) \<longrightarrow>
       (\<forall>slot \<in> set past. settles_slot c slot \<longrightarrow> psDone (record_of (sgTracker s) (TrimSpace (slID slot))))"
    using assms(1,5) by (auto simp: passed_ok_def Let_def)
  have same: "saConfig (sgCalls s ! t) = saConfig c" "saEntries (sgCalls s ! t) = saEntries c"
    using assms(1) by (simp_all add: passed_ok_def Let_def)
  have "psDone (record_of (sgTracker s') (TrimSpace (slID x)))"
    if "saFirst (sgCalls s' ! t) = None" "\<forall>i. SettleJoined t i \<notin> set (sgLog s')" "x \<in> set (past @ [slot])" "settles_slot c x" for x
  proof (cases "x \<in> set past")
    case True
    have "saFirst (sgCalls s ! t) = None" by (rule assms(10) [OF that(1)])
    moreover have "\<forall>i. SettleJoined t i \<notin> set (sgLog s)" using that(2) up(2) by blast
    ultimately show ?thesis using p(2) True that(4) up(1) by simp
  next
    case False
    with that have "x = slot" by simp
    with assms(11) that settles_slot_cong [OF same] show ?thesis by simp
  qed
  moreover have "saSlots c = (past @ [slot]) @ saSlots (sgCalls s' ! t)" using p(1) assms(6) by simp
  ultimately show ?thesis using assms(4,7-9) same unfolding passed_ok_def Let_def by (metis settle_place.distinct(1))
qed

lemma note_failure_first:
  "sgRecordAll (saConfig c) \<Longrightarrow> saFirst (note_failure c slot err) = None \<longleftrightarrow> saFirst c = None \<and> err = None"
  by (auto simp: note_failure_def Let_def split: option.splits prod.splits)

lemma passed_ok_step:
  assumes "passed_ok t c s" "settle_inv s" "settle_step s s'" "sgRecordAll (saConfig c)"
  shows "passed_ok t c s'"
proof -
  have t: "t < length (sgCalls s)" and rec: "sgRecordAll (saConfig (sgCalls s ! t))"
    using assms(1,4) by (auto simp: passed_ok_def Let_def)
  have other: ?thesis if "sgCalls s' = (sgCalls s)[u := d]" "u \<noteq> t" for u d
    by (rule passed_ok_frame [OF assms(1-3)]) (use that in auto)
  show ?thesis
    using assms(3)
  proof cases
    case (step_arrive d)
    then show ?thesis by (intro passed_ok_frame [OF assms(1-3)]) (use t in \<open>auto simp: nth_append\<close>)
  next
    case step_work
    then show ?thesis
    proof cases
      case (work_begin u)
      then show ?thesis
      proof (cases rule: do_begin_cases)
        case (skip slot rest tr')
        show ?thesis
        proof (cases "u = t")
          case True
          then show ?thesis
            by (intro passed_ok_next [OF assms(1-3), where slot = slot and rest = rest]) (use skip t in auto)
        qed (use other skip in auto)
      next
        case (wait slot rest i ch tr')
        show ?thesis
        proof (cases "u = t")
          case True
          then show ?thesis by (intro passed_ok_frame [OF assms(1-3)]) (use wait t in auto)
        qed (use other wait in auto)
      next
        case (own slot rest i inp tr')
        show ?thesis
        proof (cases "u = t")
          case True
          then show ?thesis by (intro passed_ok_frame [OF assms(1-3)]) (use own t in auto)
        qed (use other own in auto)
      qed
    next
      case (work_wake u)
      then show ?thesis
      proof (cases rule: do_wake_cases)
        case (1 slot rest ch)
        show ?thesis
        proof (cases "u = t")
          case True
          with 1 assms(1) obtain i where "SettleJoined t i \<in> set (sgLog s)" by (auto simp: passed_ok_def Let_def)
          then have "SettleJoined t i \<in> set (sgLog s')" using log_step [OF assms(3)] by blast
          then show ?thesis
            by (intro passed_ok_next [OF assms(1-3), where slot = slot and rest = rest])
              (use 1 True t rec in \<open>auto simp: note_failure_first\<close>)
        qed (use other 1 in auto)
      qed
    next
      case (work_answer u answer)
      then show ?thesis
      proof (cases rule: do_answer_cases)
        case (1 slot rest i err)
        show ?thesis
        proof (cases "u = t")
          case True
          note run = calling_phase [OF assms(2) 1(2,3,1), folded 1(4)]
          have "err = None \<Longrightarrow> psDone (record_of (sgTracker s') i)"
            using finishSettle_inflight(1) [of "sgTracker s" i err] run(2) 1(4,6) by simp
          then show ?thesis
            by (intro passed_ok_next [OF assms(1-3), where slot = slot and rest = rest])
              (use 1 True t rec in \<open>auto simp: note_failure_first\<close>)
        qed (use other 1 in auto)
      qed
    qed
  qed
qed


lemma passed_ok_run:
  assumes "settle_step\<^sup>*\<^sup>* s s'" "passed_ok t c s" "settle_inv s" "sgRecordAll (saConfig c)"
  shows "passed_ok t c s' \<and> settle_inv s'"
  using assms(1)
proof (induction rule: rtranclp_induct)
  case (step y z)
  with assms(4) passed_ok_step [of t c y z] settle_system.inv_step [of y z] show ?case by blast
qed (use assms in simp)

lemma passed_ok_start: "passed_ok (length (sgCalls s)) (start_settle cfg slots entries inp)
    (s\<lparr>sgCalls := sgCalls s @ [start_settle cfg slots entries inp]\<rparr>)"
  by (simp add: passed_ok_def start_settle_def)

text \<open>A provider listed as unfinished has handles on the stack and was not settled.\<close>

lemma set_distinct_ids: "set (distinct_ids seen ids) \<subseteq> set ids - {[]} - seen"
  by (induction seen ids rule: distinct_ids.induct) auto

lemma unfinished_member:
  assumes "i \<in> set (UnfinishedSettleProviders entries (Some tr))"
  shows "\<not> psDone (record_of tr i) \<and> i \<noteq> [] \<and> i \<noteq> ''concurrency''
       \<and> (\<forall>skip. \<not> skip i \<longrightarrow> handlesByProvider skip entries i \<noteq> [])"
proof -
  have "i \<in> set (settle_ids entries)" "\<not> psDone (record_of tr i)"
    using assms set_distinct_ids [of "{}" "settle_ids entries"]
    by (auto simp: UnfinishedSettleProviders_def unfinished_def record_of_def Let_def split: option.splits)
  then show ?thesis by (auto simp: settle_ids_def handlesByProvider_def filter_empty_conv)
qed

text \<open>
  C39: No error means settled. If a settlement call of the request coordinator ends without an
  error and never had to wait for a call of somebody else, then none of its providers is left
  among the unfinished ones, whatever other callers did meanwhile.
\<close>

theorem settled_without_error:
  assumes "reach settle_init settle_step s0" "Request_Settle (Some co) stack inp = Inr c"
    and "settle_step\<^sup>*\<^sup>* (s0\<lparr>sgCalls := sgCalls s0 @ [c]\<rparr>) s" "t = length (sgCalls s0)"
    and "returned (sgCalls s ! t)" "saFirst (sgCalls s ! t) = None" "\<forall>i. SettleJoined t i \<notin> set (sgLog s)"
  shows "\<forall>slot \<in> set (rcSlots co). rsProvider slot \<noteq> None \<longrightarrow>
           TrimSpace (rsID slot) \<notin> set (UnfinishedSettleProviders stack (Some (sgTracker s)))"
proof (intro ballI impI notI)
  fix rs assume rs: "rs \<in> set (rcSlots co)" "rsProvider rs \<noteq> None"
    and un: "TrimSpace (rsID rs) \<in> set (UnfinishedSettleProviders stack (Some (sgTracker s)))"
  let ?slot = "requestStageSlot rs"
  have c: "c = start_settle requestSettleConfig (map requestStageSlot (rcSlots co)) stack inp"
    using assms(2) by (simp add: Request_Settle_def Let_def split: option.splits)
  have "settle_inv (s0\<lparr>sgCalls := sgCalls s0 @ [c]\<rparr>)" unfolding c
    by (rule inv_arrive [OF settle_system.reach_inv [OF assms(1)]])
  then have "passed_ok t c s"
    using passed_ok_run [OF assms(3), of t c] passed_ok_start [of s0, folded assms(4)] unfolding c
    by (simp add: start_settle_def requestSettleConfig_def)
  then have settled: "\<forall>slot \<in> set (saSlots c). settles_slot c slot \<longrightarrow> psDone (record_of (sgTracker s) (TrimSpace (slID slot)))"
    using assms(5-7) by (auto simp: passed_ok_def returned_def Let_def)
  note u = unfinished_member [OF un]
  have sid: "TrimSpace (slID ?slot) = TrimSpace (rsID rs)" by (simp add: requestStageSlot_def)
  have "settles_slot c ?slot"
    using u rs(2) unfolding settles_slot_def call_handles_def sid c
    by (simp add: start_settle_def requestSettleConfig_def requestStageSlot_def)
  moreover have "?slot \<in> set (saSlots c)" using rs(1) by (simp add: c start_settle_def)
  ultimately show False using settled u sid by auto
qed

section \<open>Runs\<close>

text \<open>A schedule as a list of moves, to evaluate runs.\<close>

datatype ('i, 'p) settle_move =
  Arrive "('i, 'p) settle_call"
| Begin nat
| Wake nat
| Answer nat "(Settlement \<times> authority_error option) call"

fun make_move :: "('i, 'p) settle_move \<Rightarrow> ('i, 'p) settle_state \<Rightarrow> ('i, 'p) settle_state option" where
  "make_move (Arrive c) s = Some (s\<lparr>sgCalls := sgCalls s @ [c]\<rparr>)"
| "make_move (Begin t) s = do_begin t s"
| "make_move (Wake t) s = do_wake t s"
| "make_move (Answer t a) s = do_answer t a s"

fun settle_run :: "('i, 'p) settle_move list \<Rightarrow> ('i, 'p) settle_state \<Rightarrow> ('i, 'p) settle_state option" where
  "settle_run [] s = Some s"
| "settle_run (m # ms) s = (case make_move m s of None \<Rightarrow> None | Some s' \<Rightarrow> settle_run ms s')"

definition fresh_move :: "('i, 'p) settle_move \<Rightarrow> bool" where
  "fresh_move m \<longleftrightarrow> (\<forall>c. m = Arrive c \<longrightarrow> saPlace c = AtSlot \<and> saFirst c = None)"

lemma fresh_call: "saPlace c = AtSlot \<Longrightarrow> saFirst c = None \<Longrightarrow> c = start_settle (saConfig c) (saSlots c) (saEntries c) (saIn c)"
  by (cases c) (simp add: start_settle_def)

lemma make_move_step: "make_move m s = Some s' \<Longrightarrow> fresh_move m \<Longrightarrow> settle_step s s'"
  by (cases m) (auto simp: fresh_move_def intro: step_arrive fresh_call step_work work_begin work_wake work_answer)

lemma settle_run_steps: "settle_run ms s = Some s' \<Longrightarrow> list_all fresh_move ms \<Longrightarrow> settle_step\<^sup>*\<^sup>* s s'"
proof (induction ms arbitrary: s)
  case (Cons m ms)
  then obtain u where "make_move m s = Some u" "settle_run ms u = Some s'" by (auto split: option.splits)
  with Cons make_move_step [of m s u] show ?case by (auto intro: converse_rtranclp_into_rtranclp)
qed simp

definition no_settling :: "('i, 'p) settle_state" where
  "no_settling = \<lparr>sgTracker = newSettlementTracker, sgCalls = [], sgLog = []\<rparr>"

lemma settle_run_reach:
  "settle_run ms no_settling = Some s \<Longrightarrow> list_all fresh_move ms \<Longrightarrow> reach settle_init settle_step s"
  by (rule reach_rtranclp [OF settle_run_steps]) (auto simp: no_settling_def settle_init_def intro: reach_init)


text \<open>Callers that settle one reservation of one quota provider.\<close>

definition quota_settler :: "unit RequestCoordinator" where
  "quota_settler = \<lparr>rcConcurrency = None, rcConcurrencyDescriptor = None,
     rcSlots = [\<lparr>rsID = ''quota'', rsClass = 3,
       rsProvider = Some \<lparr>AdmitRequest = (\<lambda>h a. Panicked), SettleRequest = (\<lambda>h s. Panicked), ReleaseRequest = (\<lambda>h r. Panicked)\<rparr>,
       rsStrength = StrengthUnset, rsFailureBehavior = FailureUnset, rsDescriptor = None, rsStage = StageUnset\<rparr>]\<rparr>"

definition quota_stack :: CompensationStack where
  "quota_stack = [\<lparr>enProviderID = ''quota'', enHandle = ''q1'', enReservation = no_reservation, enCompensate = None,
     enEvidence = no_evidence\<rparr>]"

definition quota_input :: "unit RequestSettlement" where
  "quota_input = \<lparr>rqRequestID = ''r1'', rqHandles = [], rqRest = ()\<rparr>"

definition quota_call :: "(unit RequestSettlement, unit RequestProvider) settle_call" where
  "quota_call = (case Request_Settle (Some quota_settler) quota_stack quota_input of Inr c \<Rightarrow> c
     | Inl _ \<Rightarrow> start_settle requestSettleConfig [] [] quota_input)"

lemma quota_call: "Request_Settle (Some quota_settler) quota_stack quota_input = Inr quota_call"
  "saPlace quota_call = AtSlot" "saFirst quota_call = None"
proof -
  have "validateStageSlots (map requestStageSlot (rcSlots quota_settler)) = None" by code_simp
  then show "Request_Settle (Some quota_settler) quota_stack quota_input = Inr quota_call"
    "saPlace quota_call = AtSlot" "saFirst quota_call = None"
    by (simp_all add: quota_call_def Request_Settle_def Let_def start_settle_def)
qed

definition settled_answer :: "(Settlement \<times> authority_error option) call" where
  "settled_answer = Returned (OwnedFinalSettlement [''q1''], None)"

definition final_view :: "(unit RequestSettlement, unit RequestProvider) settle_move list
    \<Rightarrow> (bool list \<times> coordinator_error option list \<times> unit RequestSettlement settle_event list \<times> string list) option" where
  "final_view ms = (case settle_run ms no_settling of None \<Rightarrow> None
     | Some s \<Rightarrow> Some (map returned (sgCalls s), map saFirst (sgCalls s), sgLog s, UnfinishedSettleProviders quota_stack (Some (sgTracker s))))"

definition retry_schedule :: "(unit RequestSettlement, unit RequestProvider) settle_move list" where
  "retry_schedule = [Arrive quota_call, Begin 0, Answer 0 Panicked, Arrive quota_call, Begin 1, Answer 1 settled_answer]"

lemma retry_view: "final_view retry_schedule = Some ([True, True], [Some (UnavailableError ''quota'' ProviderPanic no_decision), None],
    [SettleCalled 0 ''quota'' (quota_input\<lparr>rqHandles := [''q1'']\<rparr>), SettleAnswered 0 ''quota'' (Some ProviderPanic),
     SettleCalled 1 ''quota'' (quota_input\<lparr>rqHandles := [''q1'']\<rparr>), SettleAnswered 1 ''quota'' None], [])"
  by code_simp


lemma final_view_state:
  assumes "final_view ms = Some (rs, fs, evs, un)" "list_all fresh_move ms"
  obtains s where "settle_run ms no_settling = Some s" "reach settle_init settle_step s" "map returned (sgCalls s) = rs"
    "map saFirst (sgCalls s) = fs" "sgLog s = evs" "UnfinishedSettleProviders quota_stack (Some (sgTracker s)) = un"
  using assms by (auto simp: final_view_def split: option.splits intro: settle_run_reach)

lemma fresh_schedule [simp]:
  "fresh_move (Arrive quota_call)" "fresh_move (Begin t)" "fresh_move (Wake t)" "fresh_move (Answer t a)"
  using quota_call by (auto simp: fresh_move_def)

theorem settlement_exclusive_witness:
  "\<exists>(s :: (unit RequestSettlement, unit RequestProvider) settle_state) xs x ys. reach settle_init settle_step s \<and> sgLog s = xs @ SettleCalled 1 ''quota'' x # ys
     \<and> SettleAnswered 1 ''quota'' None \<in> set ys \<and> (\<forall>u. SettleAnswered u ''quota'' None \<notin> set xs)
     \<and> (\<exists>e. SettleAnswered 0 ''quota'' (Some e) \<in> set xs)"
proof -
  let ?x = "quota_input\<lparr>rqHandles := [''q1'']\<rparr>"
  obtain s :: "(unit RequestSettlement, unit RequestProvider) settle_state" where s: "reach settle_init settle_step s"
    "sgLog s = [SettleCalled 0 ''quota'' ?x, SettleAnswered 0 ''quota'' (Some ProviderPanic)] @ SettleCalled 1 ''quota'' ?x #
       [SettleAnswered 1 ''quota'' None]"
  proof (rule final_view_state [OF retry_view])
    show "list_all fresh_move retry_schedule" by (simp add: retry_schedule_def)
  qed simp
  from settlement_exclusive [OF s] have once:
    "\<forall>u. SettleAnswered u ''quota'' None \<notin> set [SettleCalled 0 ''quota'' ?x, SettleAnswered 0 ''quota'' (Some ProviderPanic)]"
    by (rule conjunct1)
  show ?thesis
  proof (rule exI [of _ s], intro exI conjI)
    show "reach settle_init settle_step s" by (rule s(1))
    show "sgLog s = [SettleCalled 0 ''quota'' ?x, SettleAnswered 0 ''quota'' (Some ProviderPanic)] @ SettleCalled 1 ''quota'' ?x #
       [SettleAnswered 1 ''quota'' None]" by (rule s(2))
  qed (use once in simp_all)
qed

text \<open>One caller inside the provider, another one waiting for it.\<close>

lemma waiting_pair:
  "map_option (\<lambda>s. (map returned (sgCalls s), total_pending s))
     (settle_run [Arrive quota_call, Begin 0, Arrive quota_call, Begin 1] no_settling) = Some ([False, False], 2)"
  by code_simp

theorem settlement_returns_witness:
  "\<exists>s :: (unit RequestSettlement, unit RequestProvider) settle_state.
     reach settle_init settle_step s \<and> map returned (sgCalls s) = [False, False]
     \<and> (\<forall>n s'. (settle_work ^^ n) s s' \<longrightarrow> n \<le> 2) \<and> (\<exists>s'. settle_work s s')"
proof -
  obtain s where s: "settle_run [Arrive quota_call, Begin 0, Arrive quota_call, Begin 1] no_settling = Some s"
    "map returned (sgCalls s) = [False, False]" "total_pending s = 2" using waiting_pair by auto
  have r: "reach settle_init settle_step s" by (rule settle_run_reach [OF s(1)]) simp
  have "\<not> list_all returned (sgCalls s)" using s(2) by (auto simp: map_eq_Cons_conv)
  with settlement_returns [OF r] s r show ?thesis by (metis rtranclp.rtrancl_refl)
qed

lemma quota_trimmed: "TrimSpace ''quota'' = ''quota''"
  by code_simp

theorem settled_without_error_witness:
  "\<exists>s0 s. reach settle_init settle_step s0 \<and> settle_step\<^sup>*\<^sup>* (s0\<lparr>sgCalls := sgCalls s0 @ [quota_call]\<rparr>) s
     \<and> saFirst (sgCalls s ! 1) = None \<and> ''quota'' \<notin> set (UnfinishedSettleProviders quota_stack (Some (sgTracker s)))"
proof -
  obtain s where s: "settle_run retry_schedule no_settling = Some s" "map returned (sgCalls s) = [True, True]"
    "saFirst (sgCalls s ! 1) = None" "\<forall>i. SettleJoined 1 i \<notin> set (sgLog s)"
    by (rule final_view_state [OF retry_view]) (auto simp: retry_schedule_def map_eq_Cons_conv)
  obtain s0 where s0: "settle_run [Arrive quota_call, Begin 0, Answer 0 Panicked] no_settling = Some s0"
    "settle_run [Arrive quota_call, Begin 1, Answer 1 settled_answer] s0 = Some s"
    using s(1) by (auto simp: retry_schedule_def split: option.splits)
  have r: "reach settle_init settle_step s0" by (rule settle_run_reach [OF s0(1)]) simp
  have run: "settle_step\<^sup>*\<^sup>* (s0\<lparr>sgCalls := sgCalls s0 @ [quota_call]\<rparr>) s"
    by (rule settle_run_steps [of "[Begin 1, Answer 1 settled_answer]"]) (use s0(2) in auto)
  have "map_option (\<lambda>s. length (sgCalls s)) (settle_run [Arrive quota_call, Begin 0, Answer 0 Panicked] no_settling) = Some 1"
    by code_simp
  with s0(1) have n: "1 = length (sgCalls s0)" by simp
  have "returned (sgCalls s ! 1)" using s(2) by (auto simp: map_eq_Cons_conv)
  from settled_without_error [OF r quota_call(1) run n this s(3,4)]
  have "''quota'' \<notin> set (UnfinishedSettleProviders quota_stack (Some (sgTracker s)))"
    using quota_trimmed by (simp add: quota_settler_def)
  with r run s(3) show ?thesis by blast
qed

section \<open>A joined failure can be lost\<close>

text \<open>While a call is in flight the record holds no error of an earlier call.\<close>

definition inflight_clear :: "('i, 'p) settle_state \<Rightarrow> bool" where
  "inflight_clear s \<longleftrightarrow> settle_inv s \<and> (\<forall>i. psInflight (record_of (sgTracker s) i) \<longrightarrow> psLastErr (record_of (sgTracker s) i) = None)"

lemma clear_work:
  assumes "settle_work s s'" "inflight_clear s"
  shows "inflight_clear s'"
proof -
  have "settle_inv s'" using inv_work assms by (auto simp: inflight_clear_def)
  moreover have "psLastErr (record_of (sgTracker s') i) = None" if "psInflight (record_of (sgTracker s') i)" for i
    using assms(1)
  proof cases
    case (work_begin t)
    then show ?thesis by (cases rule: do_begin_cases) (use assms(2) that in \<open>auto simp: inflight_clear_def split: if_splits\<close>)
  next
    case (work_wake t)
    then show ?thesis by (cases rule: do_wake_cases) (use assms(2) that in \<open>auto simp: inflight_clear_def\<close>)
  next
    case (work_answer t answer)
    then show ?thesis
    proof (cases rule: do_answer_cases)
      case (1 slot rest j err)
      have "psInflight (record_of (sgTracker s) j)"
        using calling_phase(2) [OF _ 1(2,3,1), folded 1(4)] assms(2) by (simp add: inflight_clear_def)
      then show ?thesis
        using finishSettle_inflight(1) [of "sgTracker s" j err i] that 1(4,6) assms(2) by (auto simp: inflight_clear_def split: if_splits)
    qed
  qed
  ultimately show ?thesis by (simp add: inflight_clear_def)
qed

interpretation clear_system: step_invariant settle_init settle_step inflight_clear
proof
  show "inflight_clear s" if "settle_init s" for s :: "('i, 'p) settle_state"
    using settle_system.inv_init [OF that] that
    by (auto simp: inflight_clear_def settle_init_def newSettlementTracker_def record_of_def)
  show "inflight_clear s'" if "inflight_clear s" "settle_step s s'" for s s' :: "('i, 'p) settle_state"
    using that(2)
  proof cases
    case (step_arrive c)
    with that(1) inv_arrive [of s] show ?thesis by (simp add: inflight_clear_def)
  next
    case step_work
    then show ?thesis using that(1) by (rule clear_work)
  qed
qed

text \<open>
  C40: A waiting caller can miss the failure it waited for. If the provider is in flight again when
  a caller that joined an earlier call wakes up, the caller goes on without an error, although
  the call it waited for failed and the provider is not settled.
\<close>

theorem joined_failure_lost:
  assumes "reach settle_init settle_step s" "do_wake t s = Some s'"
    and "psInflight (record_of (sgTracker s) (current_id (sgCalls s ! t)))"
  shows "saFirst (sgCalls s' ! t) = saFirst (sgCalls s ! t) \<and> \<not> psDone (record_of (sgTracker s') (current_id (sgCalls s ! t)))"
  using assms(2)
proof (cases rule: do_wake_cases)
  case (1 slot rest ch)
  have i: "current_id (sgCalls s ! t) = TrimSpace (slID slot)" using 1(1) by (simp add: current_id_def)
  note clear = clear_system.reach_inv [OF assms(1)]
  then have "psLastErr (record_of (sgTracker s) (TrimSpace (slID slot))) = None"
    using assms(3) i by (simp add: inflight_clear_def)
  then have "waitResult (sgTracker s) (TrimSpace (slID slot)) = None"
    by (auto simp: waitResult_def record_of_def split: option.splits)
  moreover have "record_phase (record_of (sgTracker s) (TrimSpace (slID slot))) (provider_phase (TrimSpace (slID slot)) (sgLog s))"
    using clear by (simp add: inflight_clear_def settle_inv_def tracker_ok_def)
  ultimately show ?thesis using 1 assms(3) i
    by (auto simp: note_failure_def record_phase_def split: provider_phase.splits)
qed

text \<open>Three callers: the second one waits for the first, which fails; the third retries before the second wakes up.\<close>

definition lost_schedule :: "(unit RequestSettlement, unit RequestProvider) settle_move list" where
  "lost_schedule = [Arrive quota_call, Arrive quota_call, Arrive quota_call, Begin 0, Begin 1, Answer 0 Panicked, Begin 2]"

lemma lost_view:
  "map_option (\<lambda>s. (map saPlace (sgCalls s), current_id (sgCalls s ! 1), psInflight (record_of (sgTracker s) ''quota'')))
     (settle_run lost_schedule no_settling) = Some ([AtSlot, Blocked 0, Calling], ''quota'', True)"
  by code_simp

lemma lost_final_view:
  "final_view (lost_schedule @ [Wake 1, Answer 2 Panicked]) = Some ([True, True, True],
     [Some (UnavailableError ''quota'' ProviderPanic no_decision), None, Some (UnavailableError ''quota'' ProviderPanic no_decision)],
     [SettleCalled 0 ''quota'' (quota_input\<lparr>rqHandles := [''q1'']\<rparr>), SettleJoined 1 ''quota'',
      SettleAnswered 0 ''quota'' (Some ProviderPanic), SettleCalled 2 ''quota'' (quota_input\<lparr>rqHandles := [''q1'']\<rparr>),
      SettleAnswered 2 ''quota'' (Some ProviderPanic)], [''quota''])"
  by code_simp


lemma settle_run_append:
  "settle_run (ms @ ms') s = (case settle_run ms s of None \<Rightarrow> None | Some s' \<Rightarrow> settle_run ms' s')"
  by (induction ms arbitrary: s) (auto split: option.splits)

theorem joined_failure_lost_witness:
  "\<exists>(s :: (unit RequestSettlement, unit RequestProvider) settle_state) s1 s'. reach settle_init settle_step s \<and> do_wake 1 s = Some s1 \<and> saFirst (sgCalls s1 ! 1) = saFirst (sgCalls s ! 1)
     \<and> settle_work s1 s' \<and> list_all returned (sgCalls s') \<and> saFirst (sgCalls s' ! 1) = None
     \<and> (\<forall>u. SettleAnswered u ''quota'' None \<notin> set (sgLog s')) \<and> UnfinishedSettleProviders quota_stack (Some (sgTracker s')) = [''quota'']"
proof -
  obtain s' where s': "settle_run (lost_schedule @ [Wake 1, Answer 2 Panicked]) no_settling = Some s'"
    "map returned (sgCalls s') = [True, True, True]" "saFirst (sgCalls s' ! 1) = None"
    "\<forall>u. SettleAnswered u ''quota'' None \<notin> set (sgLog s')" "UnfinishedSettleProviders quota_stack (Some (sgTracker s')) = [''quota'']"
    by (rule final_view_state [OF lost_final_view]) (auto simp: lost_schedule_def map_eq_Cons_conv)
  obtain s s1 where s: "settle_run lost_schedule no_settling = Some s" "do_wake 1 s = Some s1" "do_answer 2 Panicked s1 = Some s'"
    using s'(1) by (auto simp: settle_run_append split: option.splits)
  have r: "reach settle_init settle_step s" by (rule settle_run_reach [OF s(1)]) (simp add: lost_schedule_def)
  have "psInflight (record_of (sgTracker s) (current_id (sgCalls s ! 1)))" using lost_view s(1) by simp
  note joined_failure_lost [OF r s(2) this]
  moreover have "list_all returned (sgCalls s')" using s'(2) by (auto simp: map_eq_Cons_conv)
  moreover have "settle_work s1 s'" by (rule work_answer [OF s(3)])
  ultimately show ?thesis using r s(2) s'(3-5) by blast
qed

end
