(* ===== verification/Spec2Isabelle.thy ===== *)
theory Spec2Isabelle
  imports Circuit_Breaker Routing_Planner Terminal_Work B2bua_Store Leg_Lifecycle Ingress_Defense Concurrency_Lease Route_Opening Route_Candidates Authority_Holds Authority_Settlement
begin

text \<open>
  Verification of the routing, session and admission core of the \<open>aiproxer\<close> proxy.

  \<^bold>\<open>The program.\<close> A request names a \<^emph>\<open>selector\<close> such as
  \<open>[weight=3]a:m^b:n|c:o\<close>. \<open>internal/core/routing\<close> parses it and expands it into an
  ordered list of attempt groups. The expansion leaves out the candidates that
  \<open>internal/core/policy\<close> (the circuit breaker) reports as unhealthy, and it reads and
  advances the thinker-cycle cursor (\<open>internal/core/interleavedstate\<close>). That cursor,
  the ids of the client side (A-leg) and of every upstream attempt (B-leg), the attempt
  records and an optional route override live in the continuity store
  (\<open>internal/core/b2bua\<close>, with the command service of \<open>internal/core/routeoverride\<close>).
  The executor (\<open>internal/core/runtime\<close>) opens an attempt: it plans, prefers the backend
  the session is bound to (\<open>internal/core/affinity\<close>), takes a slot of the attempt budget per
  candidate, excludes what failed and plans again until a candidate opens or the route is
  exhausted; the arms of a parallel group race each other. Every attempt is launched under a
  permit of the leg lifecycle coordinator (\<open>internal/core/leglifecycle\<close>), which tears the
  attempts of a canceled client leg down. Before a request is served at all, the ingress
  defense (\<open>internal/core/ingressdefense\<close>) may refuse its source and the concurrency
  authority (\<open>internal/core/concurrencyauthority\<close>) grants it leases. The authority
  coordinators (\<open>internal/core/authoritycoord\<close>, contracts in \<open>pkg/aipsdk/authority\<close>, money in
  \<open>pkg/aipsdk/economics\<close>) ask the concurrency, wallet and quota providers to admit a request
  and each attempt, release what was held when one refuses, and settle it at the end. The end of a request is
  decided once by the terminal owner (\<open>internal/core/terminal\<close>, contract values in
  \<open>pkg/aipsdk/terminal\<close>), which asks for durable follow-up work
  (\<open>internal/core/terminalwork\<close>).

  \<^bold>\<open>Theories.\<close>
  \<^item> \<open>Aip_Prelude\<close>: Go's 64-bit integers as integers with an explicit wrap-around
    (\<open>wrap64\<close>), times and durations as integers, maps as association lists with an explicit
    iteration order, reachability, and the locale \<open>step_invariant\<close> that every state machine
    below interprets. \<open>Go_Strings\<close> and \<open>Go_Url\<close> model what the parser uses of \<open>strings\<close>,
    \<open>strconv\<close> and \<open>net/url\<close>; strings are lists of bytes.
  \<^item> \<open>Aip_Api\<close>: attempt outcomes and records, selector bound (\<open>pkg/aipapi\<close>).
  \<^item> \<open>Routing_Selector\<close>, \<open>Routing_Parser\<close>: \<open>selector.go\<close> and \<open>parser.go\<close>, every
    function. Shown: what parses is well-formed (\<open>parse_sound\<close>), printing and parsing a
    primary is the identity (\<open>primary_string_roundtrip\<close>).
  \<^item> \<open>Interleaved_State\<close>: cursor type, validation and comparison of \<open>cycle.go\<close>.
  \<^item> \<open>Routing_Planner\<close>: \<open>planner.go\<close>, \<open>weighted.go\<close>, \<open>planned.go\<close>. The random source is the
    function \<open>RNG\<close> of the options from the roll number to the roll, and \<open>plan_state\<close>
    carries the session flag and the number of rolls. Shown: planned candidates are
    eligible leaves (\<open>plan_sound\<close>), planning fails only when it must (\<open>plan_complete\<close>),
    picks are proportional to the weights, the thinker cycle rotates with its exact period,
    sticky picks and advisory reordering do what they promise.
  \<^item> \<open>Circuit_Breaker\<close>: \<open>circuitbreaker.go\<close> and \<open>circuitbreaker_state.go\<close>; the clock and
    the map iteration order are arguments. The locale \<open>candidate_health\<close> states the
    contract of a health source and is interpreted on the breaker and on the policy view.
    Shown: the breaker refines one independent streak machine per key, opens and recovers
    on time, stays within its bound under eviction; a key does not recover under a policy
    view by queries of views that are at least as strict.
  \<^item> \<open>Terminal_Owner\<close>: claims and advances of one owner; the owner's mutex makes every call
    one step. Shown: one winner, legal states in order, legal outcomes.
  \<^item> \<open>Terminal_Work\<close>: transitions, leases, backoff and records of one work item. Shown:
    exclusive claims, exact and overflow-free backoff, progress.
  \<^item> \<open>B2bua_Store\<close>: the memory store, its route override operations and the override
    service. The locale \<open>override_store\<close> is the contract on which the service's lemmas
    rest; the memory store interprets it. Shown: consistency of legs and keys, round
    trips of legs, attempts and overrides, growing B-leg numbers, retirement of stale legs.
  \<^item> \<open>Leg_Lifecycle\<close>: \<open>leglifecycle/coordinator.go\<close>. A-legs, launch permits and attempts are
    numbers into heaps; each method is a function on the coordinator, and the step relation
    \<open>lc_step\<close> interleaves the atomic pieces (critical sections and later effects) of any number
    of calls. Streams are a parameter. Shown: a canceled leg stays canceled with its first
    cause and keeps no launch or attempt, the methods refine sequences of steps, teardown
    returns within its timeout.
  \<^item> \<open>Ingress_Defense\<close>: \<open>policy.go\<close> and \<open>state.go\<close>, the sharded failure state with its
    admission ring; the hash of a key is a parameter. Shown: every shard stays within its
    bound in every reachable state, a source is refused exactly from its threshold on.
  \<^item> \<open>Concurrency_Lease\<close>: leases, lease sets and timing of the domain and the memory lease
    store; the encoding of dimensions is a parameter. Shown: live leases never exceed the
    limit of their rule, ended leases do not come back, and where renewing a set breaks this.
  \<^item> \<open>Session_Affinity\<close>: keys, bindings, the memory store and the executor's use of it.
  \<^item> \<open>Attempt_Failures\<close>: Go error values with \<open>Is\<close> and \<open>Join\<close>, the failure history and
    the error that ends a route, attempt and first-token budgets, classification of opens.
  \<^item> \<open>Parallel_Race\<close>: arms and budget, the coordinator as the step relation \<open>race_step\<close> over
    the arrival of outcomes, timers and cancellation, and the reducer. Shown: at most one
    winner, every held attempt is handed over or released, acknowledgements are exact.
  \<^item> \<open>Route_Opening\<close>: \<open>openInitial\<close>, \<open>openNext\<close>, \<open>evaluateAndOpenCandidate\<close>, the slot and
    failure handling of \<open>openAttemptTx\<close>, and parallel groups. Admission, the backend's answer,
    registration and the outcomes of the arms are functions of a \<open>route_env\<close> on a world of
    any type. Shown: the loop returns in every environment, the budget is spent exactly by
    the calls of a backend, a session's binding decides the first candidate.
  \<^item> \<open>Route_Compile\<close>: aliases, model-only backends, compilation and preparation of selectors,
    execution composition, native model ids, initial candidates and the default route. The
    regular expression engine of the aliases and the model registry are parameters.
    \<open>Route_Candidates\<close> relates them to the planner. Shown: the initial candidates are exactly
    the plannable ones, agent runtimes are reached directly only, a resolved default route
    compiles, binding native ids changes nothing else of a plan.
  \<^item> \<open>Money_Arithmetic\<close>: money as 64-bit words of nano units, 128-bit products and quotients,
    rounding of rationals, decimal rates. Shown: prices and token limits are exact or report an
    overflow, a token limit never overspends its budget, decimal rates are parsed exactly.
  \<^item> \<open>Authority_Contracts\<close>: the values the coordinators and the providers exchange, and their
    validation. \<open>Authority_Coordinator\<close>: admission, renewal, release, clamps and previews.
    Providers are functions of the history of all calls, so they may answer anything.
    \<open>Authority_Holds\<close>: the holds outstanding after an admission, with the locale
    \<open>stage_holds\<close> interpreted on the request and the attempt stage; what an answer acquires is read off the
    answer and compared with what the coordinator pushes. Shown: a refused request keeps no
    listed hold that is not reported, an allowed one has its holds on its stack, which holds
    are unlisted and lost, and where a failing advisory provider releases the holds of the others.
  \<^item> \<open>Authority_Settlement\<close>: the settlement tracker and \<open>runStageSettle\<close> as the step relation
    \<open>settle_step\<close> over any number of callers. Shown: a provider is called by one caller at a time
    and not after a success, every caller returns, no error means settled for a caller that did
    not wait, and how a waiting caller can miss a failure.
  \<^item> This theory: properties that span components. A candidate whose circuit is open is
    in no plan of any selector that parses; the cursor that planning returns is accepted
    by the store and read back.

  \<^bold>\<open>Loops and fuel.\<close> Every loop over a slice or a map is structural recursion.
  The loop of \<open>enforceMaxLegsLocked\<close> removes one leg per turn; its fuel is the number of
  legs, and \<open>enforce_done\<close> shows that this ends within the bound. The loop of
  \<open>ensureRoomForNewKeyLocked\<close> is a \<open>partial_function\<close> on options; that it returns on
  every reachable breaker is part of \<open>breaker_bounded\<close>. The loop of \<open>openInitial\<close> is a
  \<open>partial_function\<close> on options as well; that it returns in every environment is
  \<open>open_loop_terminates\<close>.

  \<^bold>\<open>Not modelled.\<close> Error texts are shortened. Locks are represented by the atomicity of a
  call. The JSON text of the cursor, the SQL stores behind the same interfaces, the
  provider streams, hooks, plugins, HTTP and configuration decoding are I/O or generated
  formats and are left out. Not modelled of the parts above are the quota provider and the
  quota contract behind the coordinators, the admission service of the concurrency authority
  with its heartbeats, and the evaluation of a candidate against the capability catalogue.
  The stream recovery policy, the feature state store, snapshot generations and the
  application layer of terminal work are further parts of the same core that are not modelled.
\<close>

section \<open>Routing and candidate health\<close>

text \<open>
  C2: Open circuits are not planned. Take any history of outcomes and health queries of a
  breaker, for any candidates that fit under its cap on tracked keys, that ends with a stretch
  in which the candidate failed at least \<open>threshold\<close> times and did not succeed, and in which no
  query came later than \<open>openFor\<close> after a failure. Then every plan of any selector that parses,
  made with the breaker's unhealthy keys before \<open>openFor\<close> has passed since the last failure, is
  free of that candidate.
\<close>

theorem open_circuits_not_planned:
  assumes "range_order it" "cb0 = NewCircuitBreaker opts"
    and "int (card (event_keys (pre @ post))) \<le> effectiveLimit (maxKeys cb0)"
    and "health_run (OnRoutingAttemptOutcome it) UnhealthyCandidateKeys (pre @ post) cb0 = Some cb"
    and "k \<noteq> []" "\<forall>u. Outcome u k AttemptSuccess \<notin> set post"
    and "fs = failure_times k post" "fs \<noteq> []" "threshold cb0 \<le> int (length fs)"
    and "\<forall>q f. Ask q \<in> set post \<longrightarrow> f \<in> set fs \<longrightarrow> q < f + openFor cb0"
    and "0 \<le> t" "t < last fs + openFor cb0" "Parse str = Inr sel" "rng_ok opt"
    and "Unhealthy opt = fst (UnhealthyCandidateKeys t cb)"
    and "ExpandFailover (Some sel) opt ps = Inr (cands, ps')"
  shows "\<forall>c \<in> set cands. acKey c \<noteq> k \<and> acPrimary c \<in> set (selector_leaves sel)"
proof
  fix c assume c: "c \<in> set cands"
  let ?step = "key_step (threshold cb0) (openFor cb0) k"
  have run: "lookup_key k (keys cb) = foldl ?step (foldl ?step zero_cbState pre) post"
    using breaker_streaks [OF assms(1,3) [unfolded assms(2)]] assms(4) unfolding assms(2) by simp
  have "sane_streak (threshold cb0) (foldl ?step zero_cbState pre)" by (rule streak_sane) (simp add: sane_streak_def)
  from streak_open [OF this assms(5,6)] assms(7-10)
  have "blockedUntil (lookup_key k (keys cb)) = last fs + openFor cb0" unfolding run by simp
  moreover have "cb_inv cb" using breaker_run_inv [OF assms(1)] assms(2,4) by blast
  ultimately have bad: "k \<in> Unhealthy opt"
    using UnhealthyCandidateKeys_iff [of cb t k] assms(11,12,15) by simp
  from assms(16) obtain groups where g: "ExpandFailoverGroups (Some sel) opt ps = Inr (groups, ps')"
    "cands = concat (map Candidates groups)"
    by (auto simp: ExpandFailover_def split: sum.splits)
  with c obtain gr where "gr \<in> set groups" "c \<in> set (Candidates gr)" by auto
  with ExpandFailoverGroups_good(2) [OF Parse_wf [OF assms(13)] assms(14) g(1)]
  have "good_candidate opt (set (selector_leaves sel)) c" by (simp add: good_group_def)
  with bad show "acKey c \<noteq> k \<and> acPrimary c \<in> set (selector_leaves sel)"
    by (auto simp: good_candidate_def candidateEligible_iff)
qed

definition sample_breaker :: CircuitBreaker where
  "sample_breaker = NewCircuitBreaker \<lparr>optFailureThreshold = 2, optOpenDuration = 10, optMaxTrackedKeys = 5\<rparr>"

definition sample_history :: "health_event list" where
  "sample_history = [Outcome 2 ''c:o'' AttemptSurfacedFailure, Outcome 3 ''a:m'' AttemptSurfacedFailure, Ask 3,
     Outcome 4 ''b:n'' AttemptSuccess, Outcome 4 ''a:m'' AttemptSwallowedFailure]"

definition failed_breaker :: CircuitBreaker where
  "failed_breaker = the (health_run (OnRoutingAttemptOutcome rev) UnhealthyCandidateKeys
     ([Outcome 1 ''a:m'' AttemptSuccess] @ sample_history) sample_breaker)"

definition sample_selector_text :: string where
  "sample_selector_text = ''[weight=3]a:m^b:n|c:o''"

lemma failed_breaker_unhealthy: "fst (UnhealthyCandidateKeys 9 failed_breaker) = {''a:m''}"
  by (simp add: failed_breaker_def sample_history_def sample_breaker_def NewCircuitBreaker_def OnRoutingAttemptOutcome_def
      cb_recordFailure_def cb_recordSuccess_def ensureRoomForNewKeyLocked_def ensureRoomLoop.simps effectiveLimit_def lookup_key_def
      zero_cbState_def bump_def refresh_def UnhealthyCandidateKeys_def)

theorem open_circuits_not_planned_witness:
  "\<exists>sel cands ps'. Parse sample_selector_text = Inr sel
     \<and> ExpandFailover (Some sel) (default_options\<lparr>Unhealthy := fst (UnhealthyCandidateKeys 9 failed_breaker)\<rparr>)
         \<lparr>psSession = None, psRolls = 0\<rparr> = Inr (cands, ps')
     \<and> cands \<noteq> [] \<and> (\<forall>c \<in> set cands. acKey c \<noteq> ''a:m'')"
proof -
  let ?opt = "default_options\<lparr>Unhealthy := fst (UnhealthyCandidateKeys 9 failed_breaker)\<rparr>"
  let ?ps = "\<lparr>psSession = None, psRolls = 0\<rparr>" and ?es = "[Outcome 1 ''a:m'' AttemptSuccess] @ sample_history"
  have "case Parse sample_selector_text of Inl _ \<Rightarrow> False
      | Inr sel \<Rightarrow> (case ExpandFailover (Some sel) (default_options\<lparr>Unhealthy := {''a:m''}\<rparr>) ?ps of Inl _ \<Rightarrow> False | Inr (cs, _) \<Rightarrow> cs \<noteq> [])"
    by code_simp
  then obtain sel cands ps' where p: "Parse sample_selector_text = Inr sel"
    "ExpandFailover (Some sel) ?opt ?ps = Inr (cands, ps')" "cands \<noteq> []"
    unfolding failed_breaker_unhealthy by (auto split: sum.splits prod.splits)
  have cb: "threshold sample_breaker = 2" "openFor sample_breaker = 10" "maxKeys sample_breaker = 5"
    by (simp_all add: sample_breaker_def NewCircuitBreaker_def)
  have "event_keys ?es = {''a:m'', ''b:n'', ''c:o''}" by (auto simp: sample_history_def)
  then have room: "int (card (event_keys ?es)) \<le> effectiveLimit (maxKeys sample_breaker)" by (simp add: cb effectiveLimit_def)
  have "health_run (OnRoutingAttemptOutcome rev) UnhealthyCandidateKeys ?es sample_breaker \<noteq> None"
    using breaker_streaks(1) [OF range_order_rev room [unfolded sample_breaker_def]] unfolding sample_breaker_def by simp
  then have run: "health_run (OnRoutingAttemptOutcome rev) UnhealthyCandidateKeys ?es sample_breaker = Some failed_breaker"
    by (simp add: failed_breaker_def)
  have h: "\<forall>u. Outcome u ''a:m'' AttemptSuccess \<notin> set sample_history" "failure_times ''a:m'' sample_history = [3, 4]"
    "\<forall>q f. Ask q \<in> set sample_history \<longrightarrow> f \<in> set [3, 4] \<longrightarrow> q < f + openFor sample_breaker"
    by (simp_all add: sample_history_def cb)
  have rng: "rng_ok ?opt" by (simp add: rng_ok_def default_options_def)
  from open_circuits_not_planned [OF range_order_rev sample_breaker_def room run _ h(1) h(2) [symmetric] _ _ h(3) _ _ p(1) rng _ p(2), of 9]
  have "\<forall>c \<in> set cands. acKey c \<noteq> ''a:m''" by (auto simp: cb)
  with p show ?thesis by blast
qed

section \<open>Routing and session continuity\<close>

text \<open>
  C25: The thinker rotation survives the session. The cycle cursor that planning returns
  with a group is always accepted by the continuity store: storing it in a live leg
  succeeds, and reading it back before the leg expires returns exactly that cursor for the
  next plan.
\<close>

theorem planned_cursor_persists:
  assumes "ExpandFailoverGroups (Some sel) opt ps = Inr (groups, ps')" "g \<in> set groups"
    and "NextThinkerCycle g = Some cyc" "store_inv s" "live_leg aLeg now s"
    and "ttl s \<le> 0 \<or> t - now' < ttl s"
  shows "\<exists>s1 s2. SetInterleavedState False aLeg \<lparr>Cycle = cyc\<rparr> now now' s = (Inr (), [], s1)
     \<and> FetchInterleavedState False aLeg t t' s1 = (Inr \<lparr>Cycle = cyc\<rparr>, [], s2)"
proof -
  have valid: "Interleaved_Validate \<lparr>Cycle = cyc\<rparr> = Inr ()"
    using ExpandFailoverGroups_cursor [OF assms(1,2)] assms(3)
    by (simp add: group_cycle_ok_def Interleaved_Validate_def)
  have core: "store_core s" using assms(4) by (simp add: store_inv_def)
  from assms(5) obtain st where st: "map_of (legs s) aLeg = Some st" "\<not> stale (ttl s) now st"
    by (auto simp: live_leg_def)
  let ?st = "touch now' (st\<lparr>interleaved := \<lparr>Cycle = cyc\<rparr>\<rparr>)"
  let ?s1 = "put_leg aLeg ?st s"
  have set: "SetInterleavedState False aLeg \<lparr>Cycle = cyc\<rparr> now now' s = (Inr (), [], ?s1)"
    by (simp add: SetInterleavedState_def valid with_leg_live [OF core st])
  have "store_inv ?s1"
    using leg_step_inv [OF assms(4) SetInterleaved_step [OF core]] set by (metis snd_conv)
  then have core1: "store_core ?s1" by (simp add: store_inv_def)
  have l1: "map_of (legs ?s1) aLeg = Some ?st" by simp
  have live: "\<not> stale (ttl ?s1) t ?st" using assms(6) by (auto simp: stale_def)
  have "FetchInterleavedState False aLeg t t' ?s1 = (Inr \<lparr>Cycle = cyc\<rparr>, [], put_leg aLeg (touch t' ?st) ?s1)"
    by (simp add: FetchInterleavedState_def with_leg_live [OF core1 l1 live])
  with set show ?thesis by blast
qed

theorem planned_cursor_persists_witness:
  "\<exists>groups ps' g cyc s1 s2. ExpandFailoverGroups (Some \<lparr>Alternatives = [alt_of_weighted thinker_weighted],
        GlobalTTFTTimeout = None, Affinity = AffinityNone\<rparr>) default_options \<lparr>psSession = None, psRolls = 0\<rparr> = Inr (groups, ps')
     \<and> g \<in> set groups \<and> NextThinkerCycle g = Some cyc \<and> NextIndex cyc = 1
     \<and> SetInterleavedState False ''a_1'' \<lparr>Cycle = cyc\<rparr> 6 7 one_leg = (Inr (), [], s1)
     \<and> FetchInterleavedState False ''a_1'' 8 9 s1 = (Inr \<lparr>Cycle = cyc\<rparr>, [], s2)"
proof -
  let ?r = "ExpandFailoverGroups (Some \<lparr>Alternatives = [alt_of_weighted thinker_weighted],
        GlobalTTFTTimeout = None, Affinity = AffinityNone\<rparr>) default_options \<lparr>psSession = None, psRolls = 0\<rparr>"
  have "case ?r of Inl _ \<Rightarrow> False | Inr (gs, _) \<Rightarrow>
      (case gs of [] \<Rightarrow> False | g # _ \<Rightarrow> (case NextThinkerCycle g of None \<Rightarrow> False | Some c \<Rightarrow> NextIndex c = 1))"
    by code_simp
  then obtain groups ps' g cyc where p: "?r = Inr (groups, ps')" "g \<in> set groups" "NextThinkerCycle g = Some cyc" "NextIndex cyc = 1"
    by (auto split: sum.splits list.splits option.splits) (metis list.set_intros(1))
  have l: "live_leg ''a_1'' 6 one_leg" by (simp add: live_leg_def one_leg_def stale_def new_leg_def)
  have "ttl one_leg \<le> 0 \<or> 8 - 7 < ttl one_leg" by (simp add: one_leg_def)
  from planned_cursor_persists [OF p(1-3) one_leg_inv l this, of 9] p show ?thesis by blast
qed

end
